(* ===== verification/Mwemu_Prelude.thy ===== *)
theory Mwemu_Prelude
  imports Main "HOL-Library.Word"
begin

unbundle bit_operations_syntax

section \<open>Shared vocabulary of the development\<close>

text \<open>
  The machine integers of the Rust sources, the outcome type that makes a Rust panic a
  value, slices of byte vectors, and the generic lemmas on words and lists that the
  components share.

  Conventions of the translation:
  \<^item> \<open>u8\<close>, \<open>u16\<close>, \<open>u32\<close>, \<open>u64\<close>, \<open>u128\<close> are words of that width; \<open>usize\<close> is \<open>u64\<close>
    (the emulator targets 64-bit hosts). \<open>+\<close> and \<open>-\<close> wrap, as Rust's operators do in the
    release profile of \<^verbatim>\<open>Cargo.toml\<close> (no overflow checks) and as \<open>wrapping_add\<close> and
    \<open>wrapping_sub\<close> do always;
  \<^item> a shift \<open>x << n\<close> or \<open>x >> n\<close> whose amount may reach the width is \<open>shl\<close> or \<open>shr\<close>, which
    mask the amount as the release profile does;
  \<^item> an integer cast \<open>x as T\<close> is \<open>ucast\<close> (zero-extension or truncation) or \<open>scast\<close> (from a
    signed type);
  \<^item> an out-of-range index or slice, a failed \<open>unwrap\<close> or \<open>expect\<close> and a division by zero are
    \<open>Panic\<close> outcomes.
\<close>

type_synonym u8 = "8 word"
type_synonym u16 = "16 word"
type_synonym u32 = "32 word"
type_synonym u64 = "64 word"
type_synonym u128 = "128 word"
type_synonym usize = "64 word"

named_theorems word_bits \<open>bit-level characterisations of the masks and shifts of the sources\<close>
named_theorems regions \<open>address arithmetic of memory regions\<close>

subsection \<open>Panics\<close>

datatype panic = IndexOutOfBounds | SliceOutOfRange | RangeStartAfterEnd | UnwrapNone | AssertFailed | DivideByZero
  | Unreachable

datatype 'a outcome = Panic panic | Ret 'a

fun obind :: "'a outcome \<Rightarrow> ('a \<Rightarrow> 'b outcome) \<Rightarrow> 'b outcome" where
  "obind (Panic p) f = Panic p"
| "obind (Ret x) f = f x"

lemma obind_eq_Ret [simp]: "obind m f = Ret y \<longleftrightarrow> (\<exists>x. m = Ret x \<and> f x = Ret y)"
  by (cases m) auto

lemma Ret_eq_obind [simp]: "Ret y = obind m f \<longleftrightarrow> (\<exists>x. m = Ret x \<and> f x = Ret y)"
  by (cases m) auto

lemma obind_assoc [simp]: "obind (obind m f) g = obind m (\<lambda>x. obind (f x) g)"
  by (cases m) auto

lemma obind_cong [fundef_cong]:
  "m = m' \<Longrightarrow> (\<And>x. m' = Ret x \<Longrightarrow> f x = f' x) \<Longrightarrow> obind m f = obind m' f'"
  by (cases m') auto

definition expect :: "'a option \<Rightarrow> 'a outcome" where
  "expect x = (case x of None \<Rightarrow> Panic UnwrapNone | Some y \<Rightarrow> Ret y)"

lemma expect_Some [simp]: "expect (Some y) = Ret y"
  by (simp add: expect_def)

lemma expect_eq_Ret [simp]: "expect x = Ret y \<longleftrightarrow> x = Some y"
  by (simp add: expect_def split: option.split)

subsection \<open>Slices and vectors\<close>

text \<open>\<open>xs.get(a..b)\<close>, \<open>&xs[a..b]\<close>, \<open>xs[i]\<close>, \<open>xs[i] = v\<close> and \<open>xs[a..b].copy_from_slice(src)\<close>.\<close>

definition slice_get :: "'a list \<Rightarrow> nat \<Rightarrow> nat \<Rightarrow> 'a list option" where
  "slice_get xs a b = (if a \<le> b \<and> b \<le> length xs then Some (take (b - a) (drop a xs)) else None)"

definition slice_index :: "'a list \<Rightarrow> nat \<Rightarrow> nat \<Rightarrow> 'a list outcome" where
  "slice_index xs a b =
     (case slice_get xs a b of None \<Rightarrow> Panic SliceOutOfRange | Some ys \<Rightarrow> Ret ys)"

definition vec_index :: "'a list \<Rightarrow> nat \<Rightarrow> 'a outcome" where
  "vec_index xs i = (if i < length xs then Ret (xs ! i) else Panic IndexOutOfBounds)"

definition vec_store :: "'a list \<Rightarrow> nat \<Rightarrow> 'a \<Rightarrow> 'a list outcome" where
  "vec_store xs i v = (if i < length xs then Ret (xs[i := v]) else Panic IndexOutOfBounds)"

definition splice :: "'a list \<Rightarrow> nat \<Rightarrow> 'a list \<Rightarrow> 'a list" where
  "splice xs a src = take a xs @ src @ drop (a + length src) xs"

definition copy_from_slice :: "'a list \<Rightarrow> nat \<Rightarrow> nat \<Rightarrow> 'a list \<Rightarrow> 'a list outcome" where
  "copy_from_slice xs a b src =
     (if \<not> (a \<le> b \<and> b \<le> length xs) then Panic SliceOutOfRange
      else if b - a \<noteq> length src then Panic SliceOutOfRange
      else Ret (splice xs a src))"

lemma length_splice [simp]: "a + length src \<le> length xs \<Longrightarrow> length (splice xs a src) = length xs"
  by (simp add: splice_def)

lemma nth_splice:
  "a + length src \<le> length xs \<Longrightarrow> i < length xs \<Longrightarrow>
     splice xs a src ! i = (if a \<le> i \<and> i < a + length src then src ! (i - a) else xs ! i)"
  by (auto simp: splice_def nth_append min_def)

lemma copy_from_slice_eq_Ret [simp]:
  "copy_from_slice xs a b src = Ret ys \<longleftrightarrow>
     a \<le> b \<and> b \<le> length xs \<and> b - a = length src \<and> ys = splice xs a src"
  by (auto simp: copy_from_slice_def)

lemma vec_index_eq_Ret [simp]: "vec_index xs i = Ret v \<longleftrightarrow> i < length xs \<and> v = xs ! i"
  by (auto simp: vec_index_def)

lemma vec_store_eq_Ret [simp]: "vec_store xs i v = Ret ys \<longleftrightarrow> i < length xs \<and> ys = xs[i := v]"
  by (auto simp: vec_store_def)

lemma slice_get_Some [simp]:
  "slice_get xs a b = Some ys \<longleftrightarrow> a \<le> b \<and> b \<le> length xs \<and> ys = take (b - a) (drop a xs)"
  by (auto simp: slice_get_def)

subsection \<open>Checked and saturating arithmetic of \<open>u64\<close>\<close>

definition checked_add :: "u64 \<Rightarrow> u64 \<Rightarrow> u64 option" where
  "checked_add a b = (if unat a + unat b < 2 ^ 64 then Some (a + b) else None)"

definition checked_sub :: "u64 \<Rightarrow> u64 \<Rightarrow> u64 option" where
  "checked_sub a b = (if b \<le> a then Some (a - b) else None)"

definition saturating_add :: "u64 \<Rightarrow> u64 \<Rightarrow> u64" where
  "saturating_add a b = (if unat a + unat b < 2 ^ 64 then a + b else - 1)"

lemma checked_add_Some:
  "checked_add a b = Some c \<longleftrightarrow> unat a + unat b < 2 ^ 64 \<and> c = a + b"
  by (auto simp: checked_add_def)

lemma checked_sub_Some: "checked_sub a b = Some c \<longleftrightarrow> b \<le> a \<and> c = a - b"
  by (auto simp: checked_sub_def)

lemma unat_u64_less: "unat (a::u64) < 2 ^ 64"
  using unsigned_less[of a] by simp

lemma less_plus_one64: "(a::u64) \<noteq> - 1 \<Longrightarrow> a < a + 1"
proof -
  assume a: "a \<noteq> - 1"
  have "unat a \<noteq> unat (- 1 :: u64)"
    using a by (simp add: word_unat_eq_iff)
  then have "unat a + 1 < 2 ^ 64"
    using unat_u64_less[of a] by (simp add: unsigned_minus_1_eq_mask mask_eq_exp_minus_1)
  then show "a < a + 1"
    by (simp add: word_less_nat_alt unat_word_ariths)
qed

lemma unat_add64 [regions]:
  fixes a b :: u64
  shows "unat a + unat b < 2 ^ 64 \<Longrightarrow> unat (a + b) = unat a + unat b"
  by (simp add: unat_word_ariths)

lemma unat_sub64 [regions]:
  fixes a b :: u64
  shows "b \<le> a \<Longrightarrow> unat (a - b) = unat a - unat b"
  by (rule unat_sub)

lemma unat_of_nat64 [regions]:
  "n < 2 ^ 64 \<Longrightarrow> unat (of_nat n :: u64) = n"
  by (simp add: unat_of_nat take_bit_eq_mod)

subsection \<open>Shifts with a masked amount\<close>

definition shl :: "'a::len word \<Rightarrow> nat \<Rightarrow> 'a word" where
  "shl x n = push_bit (n mod LENGTH('a)) x"

definition shr :: "'a::len word \<Rightarrow> nat \<Rightarrow> 'a word" where
  "shr x n = drop_bit (n mod LENGTH('a)) x"

definition sar :: "'a::len word \<Rightarrow> nat \<Rightarrow> 'a word" where
  "sar x n = signed_drop_bit (n mod LENGTH('a)) x"

lemma bit_shl [word_bits]:
  fixes x :: "'a::len word"
  shows "n < LENGTH('a) \<Longrightarrow> bit (shl x n) i \<longleftrightarrow> n \<le> i \<and> i < LENGTH('a) \<and> bit x (i - n)"
  by (auto simp: shl_def bit_push_bit_iff)

lemma bit_shr [word_bits]:
  fixes x :: "'a::len word"
  shows "n < LENGTH('a) \<Longrightarrow> bit (shr x n) i \<longleftrightarrow> bit x (n + i)"
  by (simp add: shr_def bit_drop_bit_eq)

subsection \<open>Single bits\<close>

lemma and_mask_eq_0_iff [word_bits]:
  fixes x :: "'a::len word"
  shows "x AND push_bit n 1 \<noteq> 0 \<longleftrightarrow> n < LENGTH('a) \<and> bit x n"
proof
  assume "x AND push_bit n 1 \<noteq> 0"
  then obtain i where "bit (x AND push_bit n 1) i"
    by (metis bit_0_eq bit_eqI bot_apply bot_bool_def)
  then show "n < LENGTH('a) \<and> bit x n"
    by (auto simp: bit_simps dest: bit_imp_le_length)
next
  assume "n < LENGTH('a) \<and> bit x n"
  then have "bit (x AND push_bit n 1) n"
    by (simp add: bit_simps)
  then show "x AND push_bit n 1 \<noteq> 0"
    by auto
qed

lemma and_one_eq_one_iff [word_bits]:
  fixes x :: "'a::len word"
  shows "x AND 1 = 1 \<longleftrightarrow> bit x 0" and "x AND 1 \<noteq> 0 \<longleftrightarrow> bit x 0"
  by (auto simp: and_one_eq odd_iff_mod_2_eq_one bit_0)

end
