(* ===== verification/Word_Carry.thy ===== *)
theory Word_Carry
  imports Mwemu_Prelude
begin

section \<open>Carries, borrows and signed overflow of word arithmetic\<close>

text \<open>
  The reference notions behind the lazily evaluated flags. The carry into bit \<open>n\<close> of
  \<open>a + b + c\<close> and the borrow into bit \<open>n\<close> of \<open>a - b - c\<close> are defined on the numbers below
  \<open>2 ^ n\<close>. The carry-out vector \<open>(a AND b) OR ((a OR b) AND NOT (a + b + c))\<close> that the emulator
  computes holds, at bit \<open>n\<close>, the carry out of that bit; signed overflow is the disagreement of
  the last two carries.
\<close>

definition carry_at :: "nat \<Rightarrow> 'a::len word \<Rightarrow> 'a word \<Rightarrow> bool \<Rightarrow> bool" where
  "carry_at n a b c \<longleftrightarrow> 2 ^ n \<le> unat a mod 2 ^ n + unat b mod 2 ^ n + of_bool c"

definition borrow_at :: "nat \<Rightarrow> 'a::len word \<Rightarrow> 'a word \<Rightarrow> bool \<Rightarrow> bool" where
  "borrow_at n a b c \<longleftrightarrow> unat a mod 2 ^ n < unat b mod 2 ^ n + of_bool c"

text \<open>The number of one bits in the low byte is even.\<close>

definition parity_even :: "'a::len word \<Rightarrow> bool" where
  "parity_even r \<longleftrightarrow> even (length (filter (bit r) [0..<8]))"

lemma nat_mod_Suc_exp: "(x::nat) mod 2 ^ Suc n = x mod 2 ^ n + (if bit x n then 2 ^ n else 0)"
  using take_bit_Suc_from_most [of n x] by (simp add: take_bit_eq_mod)

lemma bit_nat_eq_mod: "bit (x::nat) n \<longleftrightarrow> 2 ^ n \<le> x mod 2 ^ Suc n"
  using mod_less_divisor [of "2 ^ n" x]
  by (simp only: nat_mod_Suc_exp) (auto simp: not_le)

lemma mod_sum3: "(x mod m + y mod m + z) mod m = (x + y + z) mod (m::nat)"
  by (metis mod_add_eq mod_add_left_eq)

lemma mod_pow2_less: "(x::nat) mod 2 ^ n < 2 ^ n"
  by simp

lemma of_bool_le_1_nat: "(of_bool c :: nat) \<le> 1"
  by simp

lemma top_half_cases:
  fixes S M :: nat
  assumes "S < 2 * M"
  shows "M \<le> S mod (2 * M) \<longleftrightarrow> M \<le> S"
    and "M \<le> (S + M) mod (2 * M) \<longleftrightarrow> S < M"
    and "M \<le> (S + M + M) mod (2 * M) \<longleftrightarrow> M \<le> S"
proof -
  have "(S + M) mod (2 * M) = (if S < M then S + M else S - M)"
    using assms by (auto simp: mod_if not_less)
  moreover have "(S + M + M) mod (2 * M) = S"
    using assms mod_add_self2 [of S "2 * M"] by (simp add: add.assoc flip: mult_2)
  ultimately show "M \<le> S mod (2 * M) \<longleftrightarrow> M \<le> S"
    and "M \<le> (S + M) mod (2 * M) \<longleftrightarrow> S < M"
    and "M \<le> (S + M + M) mod (2 * M) \<longleftrightarrow> M \<le> S"
    using assms by (auto simp: not_less)
qed

lemma bit_unat: "bit (unat (a::'a::len word)) n = bit a n"
  by (auto simp: bit_unsigned_iff dest: bit_imp_le_length)

lemma bit_add_carry:
  fixes a b :: "'a::len word"
  assumes "n < LENGTH('a)"
  shows "bit (a + b + of_bool c) n \<longleftrightarrow> (bit a n \<noteq> bit b n) \<noteq> carry_at n a b c"
proof -
  let ?A = "unat a mod 2 ^ n" and ?B = "unat b mod 2 ^ n" and ?c = "of_bool c :: nat"
  have u: "unat (a + b + of_bool c) mod 2 ^ Suc n = (unat a + unat b + ?c) mod 2 ^ Suc n"
  proof -
    have "unat (a + b + of_bool c) = (unat a + unat b + ?c) mod 2 ^ LENGTH('a)"
      by (cases c) (simp_all add: unat_word_ariths mod_simps)
    moreover have "(2::nat) ^ Suc n dvd 2 ^ LENGTH('a)"
      using assms by (simp add: le_imp_power_dvd Suc_leI del: power_Suc)
    ultimately show ?thesis by (simp add: mod_mod_cancel)
  qed
  have s: "(unat a + unat b + ?c) mod 2 ^ Suc n =
     (?A + ?B + ?c + (if bit a n then 2 ^ n else 0) + (if bit b n then 2 ^ n else 0)) mod 2 ^ Suc n"
    unfolding mod_sum3 [of "unat a", symmetric]
    by (simp only: nat_mod_Suc_exp bit_unat) (simp add: add_ac)
  have S: "?A + ?B + ?c < 2 * 2 ^ n"
    using mod_pow2_less [of "unat a" n] mod_pow2_less [of "unat b" n] of_bool_le_1_nat [of c] by linarith
  have "bit (a + b + of_bool c) n \<longleftrightarrow> 2 ^ n \<le> (unat a + unat b + ?c) mod 2 ^ Suc n"
    by (metis u bit_unat bit_nat_eq_mod)
  also have "\<dots> \<longleftrightarrow> (bit a n \<noteq> bit b n) \<noteq> carry_at n a b c"
    unfolding s carry_at_def
    by (cases "bit a n"; cases "bit b n";
        simp only: top_half_cases [OF S] power_Suc if_True if_False add_0_right not_le simp_thms
          not_less)
  finally show ?thesis .
qed
lemma carry_step:
  fixes A B M c :: nat
  assumes "A < M" and "B < M" and "c \<le> 1"
  shows "2 * M \<le> A + (if p then M else 0) + (B + (if q then M else 0)) + c \<longleftrightarrow>
     (p \<and> q) \<or> ((p \<or> q) \<and> M \<le> A + B + c)"
  using assms by auto

lemma borrow_step:
  fixes A B M c :: nat
  assumes "A < M" and "B < M" and "c \<le> 1"
  shows "A + (if p then M else 0) < B + (if q then M else 0) + c \<longleftrightarrow>
     (\<not> p \<and> q) \<or> (p = q \<and> A < B + c)"
  using assms by auto

lemma carry_at_Suc:
  "carry_at (Suc n) a b c \<longleftrightarrow>
     (bit a n \<and> bit b n) \<or> ((bit a n \<or> bit b n) \<and> carry_at n a b c)"
  unfolding carry_at_def nat_mod_Suc_exp bit_unat
  unfolding power_Suc
  by (rule carry_step) (rule mod_pow2_less of_bool_le_1_nat)+

lemma borrow_at_carry_at:
  fixes a b :: "'a::len word"
  assumes "n \<le> LENGTH('a)"
  shows "borrow_at n a b c \<longleftrightarrow> carry_at n (a - b - of_bool c) b c"
proof -
  define r where "r = a - b - of_bool c"
  let ?R = "unat r mod 2 ^ n" and ?B = "unat b mod 2 ^ n" and ?c = "of_bool c :: nat"
  have a: "a = r + b + of_bool c" by (simp add: r_def)
  have "unat a = (unat r + unat b + ?c) mod 2 ^ LENGTH('a)"
    unfolding a by (cases c) (simp_all add: unat_word_ariths mod_simps)
  moreover have "(2::nat) ^ n dvd 2 ^ LENGTH('a)"
    using assms by (simp add: le_imp_power_dvd)
  ultimately have A: "unat a mod 2 ^ n = (?R + ?B + ?c) mod 2 ^ n"
    by (simp add: mod_mod_cancel mod_sum3)
  have RB: "?R < 2 ^ n" "?B < 2 ^ n" "?c \<le> 1"
    by (rule mod_pow2_less of_bool_le_1_nat)+
  show ?thesis
  proof (cases "2 ^ n \<le> ?R + ?B + ?c")
    case True
    then have "unat a mod 2 ^ n = ?R + ?B + ?c - 2 ^ n"
      using RB unfolding A by (simp only: le_mod_geq) (rule mod_less, linarith)
    with True RB show ?thesis unfolding borrow_at_def carry_at_def r_def [symmetric] by linarith
  next
    case False
    then have "unat a mod 2 ^ n = ?R + ?B + ?c" unfolding A by (simp only: mod_less not_le)
    with False show ?thesis unfolding borrow_at_def carry_at_def r_def [symmetric] by linarith
  qed
qed

lemma bit_sub_borrow:
  fixes a b :: "'a::len word"
  assumes "n < LENGTH('a)"
  shows "bit (a - b - of_bool c) n \<longleftrightarrow> (bit a n \<noteq> bit b n) \<noteq> borrow_at n a b c"
proof -
  have "bit (a - b - of_bool c + b + of_bool c) n \<longleftrightarrow>
      (bit (a - b - of_bool c) n \<noteq> bit b n) \<noteq> carry_at n (a - b - of_bool c) b c"
    by (rule bit_add_carry [OF assms])
  moreover have "a - b - of_bool c + b + of_bool c = a" by simp
  ultimately show ?thesis
    using borrow_at_carry_at [of n a b c] assms by auto
qed

lemma borrow_at_Suc:
  "borrow_at (Suc n) a b c \<longleftrightarrow>
     (\<not> bit a n \<and> bit b n) \<or> (bit a n = bit b n \<and> borrow_at n a b c)"
  unfolding borrow_at_def nat_mod_Suc_exp bit_unat
  by (rule borrow_step) (rule mod_pow2_less of_bool_le_1_nat)+

lemma bit_add_cout:
  fixes a b :: "'a::len word"
  assumes "n < LENGTH('a)"
  shows "bit ((a AND b) OR ((a OR b) AND NOT (a + b + of_bool c))) n \<longleftrightarrow> carry_at (Suc n) a b c"
  using assms bit_add_carry [OF assms, of a b c]
  by (auto simp: bit_simps carry_at_Suc)

lemma bit_sub_cout:
  fixes a b :: "'a::len word"
  assumes "n < LENGTH('a)"
  shows "bit ((NOT a AND b) OR ((NOT a XOR b) AND (a - b - of_bool c))) n \<longleftrightarrow> borrow_at (Suc n) a b c"
  using assms bit_sub_borrow [OF assms, of a b c]
  by (auto simp: bit_simps borrow_at_Suc)

lemma carry_at_length:
  fixes a b :: "'a::len word"
  shows "carry_at LENGTH('a) a b c \<longleftrightarrow> 2 ^ LENGTH('a) \<le> unat a + unat b + of_bool c"
  by (simp add: carry_at_def)

lemma borrow_at_length:
  fixes a b :: "'a::len word"
  shows "borrow_at LENGTH('a) a b c \<longleftrightarrow> unat a < unat b + of_bool c"
  by (simp add: borrow_at_def)

lemma sint_low_msb:
  fixes a :: "'a::len word"
  assumes "LENGTH('a) = Suc n"
  shows "sint a = int (unat a mod 2 ^ n) - (if bit a n then 2 ^ n else 0)"
proof -
  have "unat a mod 2 ^ Suc n = unat a" using assms by (metis mod_less unsigned_less)
  then have u: "unat a = unat a mod 2 ^ n + (if bit a n then 2 ^ n else 0)"
    by (simp only: nat_mod_Suc_exp bit_unat)
  have "sint a = signed_take_bit n (uint a)"
    using assms by (simp add: sint_uint)
  also have "\<dots> = take_bit (Suc n) (uint a) - (if bit a n then 2 ^ Suc n else 0)"
    using assms by (simp add: signed_take_bit_eq_take_bit_minus bit_simps)
  also have "take_bit (Suc n) (uint a) = uint a"
    using assms unsigned_less [of a] by (simp add: take_bit_int_eq_self_iff)
  finally have "sint a = int (unat a) - (if bit a n then 2 ^ Suc n else 0)"
    by simp
  also have "int (unat a) = int (unat a mod 2 ^ n) + (if bit a n then 2 ^ n else 0)"
    by (subst u) simp
  finally show ?thesis by simp
qed

lemma int_mod_pow2_bounds: "0 \<le> int (x mod 2 ^ n)" "int (x mod 2 ^ n) < 2 ^ n"
  by (simp_all add: zmod_int)

lemma of_bool_bounds: "(0::int) \<le> of_bool c" "of_bool c \<le> (1::int)"
  by simp_all

lemma signed_add_step:
  fixes A B M c :: int and p q :: bool
  assumes "0 \<le> A" "A < M" "0 \<le> B" "B < M" "0 \<le> c" "c \<le> 1"
  defines "s \<equiv> (A - (if p then M else 0)) + (B - (if q then M else 0)) + c"
  shows "((p \<and> q) \<or> ((p \<or> q) \<and> M \<le> A + B + c)) \<noteq> (M \<le> A + B + c) \<longleftrightarrow>
     \<not> (- M \<le> s \<and> s < M)"
  unfolding s_def using assms(1-6) by auto

lemma signed_sub_step:
  fixes A B M c :: int and p q :: bool
  assumes "0 \<le> A" "A < M" "0 \<le> B" "B < M" "0 \<le> c" "c \<le> 1"
  defines "s \<equiv> (A - (if p then M else 0)) - (B - (if q then M else 0)) - c"
  shows "((\<not> p \<and> q) \<or> (p = q \<and> A < B + c)) \<noteq> (A < B + c) \<longleftrightarrow> \<not> (- M \<le> s \<and> s < M)"
  unfolding s_def using assms(1-6) by auto

lemma signed_add_overflow_iff:
  fixes a b :: "'a::len word"
  assumes "LENGTH('a) = Suc n"
  shows "carry_at (Suc n) a b c \<noteq> carry_at n a b c \<longleftrightarrow>
     \<not> (- (2 ^ n) \<le> sint a + sint b + of_bool c \<and> sint a + sint b + of_bool c < 2 ^ n)"
proof -
  let ?A = "int (unat a mod 2 ^ n)" and ?B = "int (unat b mod 2 ^ n)"
  have cy: "carry_at n a b c \<longleftrightarrow> 2 ^ n \<le> ?A + ?B + of_bool c"
    unfolding carry_at_def zle_int [symmetric]
    by (simp only: of_nat_add of_nat_power of_nat_numeral of_nat_of_bool)
  show ?thesis
    unfolding carry_at_Suc cy sint_low_msb [OF assms]
    by (rule signed_add_step) (simp_all only: int_mod_pow2_bounds of_bool_bounds)
qed

lemma signed_sub_overflow_iff:
  fixes a b :: "'a::len word"
  assumes "LENGTH('a) = Suc n"
  shows "borrow_at (Suc n) a b c \<noteq> borrow_at n a b c \<longleftrightarrow>
     \<not> (- (2 ^ n) \<le> sint a - sint b - of_bool c \<and> sint a - sint b - of_bool c < 2 ^ n)"
proof -
  let ?A = "int (unat a mod 2 ^ n)" and ?B = "int (unat b mod 2 ^ n)"
  have cy: "borrow_at n a b c \<longleftrightarrow> ?A < ?B + of_bool c"
    unfolding borrow_at_def of_nat_less_iff [where 'a = int, symmetric]
    by (simp only: of_nat_add of_nat_of_bool)
  show ?thesis
    unfolding borrow_at_Suc cy sint_low_msb [OF assms]
    by (rule signed_sub_step) (simp_all only: int_mod_pow2_bounds of_bool_bounds)
qed

lemma parity_even_iff:
  "parity_even r \<longleftrightarrow>
     (((((((bit r 0 = bit r 1) = bit r 2) = bit r 3) = bit r 4) = bit r 5) = bit r 6) = bit r 7)"
proof -
  have "[0..<8] = [0, 1, 2, 3, 4, 5, 6, 7::nat]"
    by (simp add: upt_rec)
  then show ?thesis
    by (simp add: parity_even_def)
qed

end
