(* ===== verification/Word_Casts.thy ===== *)
theory Word_Casts
  imports Word_Carry
begin

section \<open>Casts between the machine integers\<close>

text \<open>
  Lemmas on \<open>ucast\<close> and \<open>scast\<close> between the widths 8, 16, 32, 64 and 128, the masks that stand
  for them in the sources, the extreme values of the signed types and the double-width signed
  product. The collection \<open>ucasts\<close> is what the flag proofs simplify with.
\<close>

lemma bit_unat_fun: "bit (unat (a::'a::len word)) = bit a"
  by (rule ext) (rule bit_unat)

lemma bit_scast_low:
  "LENGTH('a) \<le> LENGTH('b) \<Longrightarrow> i < LENGTH('a) \<Longrightarrow>
     bit (scast (x::'a::len word) :: 'b::len word) i = bit x i"
  by (simp add: bit_simps)

lemma scast_eq_0_iff:
  assumes "LENGTH('a::len) \<le> LENGTH('b::len)"
  shows "(scast (x::'a word) :: 'b word) = 0 \<longleftrightarrow> x = 0"
proof
  assume "(scast x :: 'b word) = 0"
  then show "x = 0"
    using bit_scast_low [OF assms, of _ x] by (auto intro: bit_word_eqI)
qed simp

lemma sint_neg_iff: "sint (x::'a::len word) < 0 \<longleftrightarrow> bit x (LENGTH('a) - 1)"
  by (simp add: bit_last_iff)

lemma and_mask_ucast: "(x::'a::len word) AND mask LENGTH('b) = ucast (ucast x :: 'b::len word)"
  by (auto intro!: bit_word_eqI simp: bit_simps)

lemma and_low_mask:
  fixes v :: u64
  shows "v AND 0xffffffff = ucast (ucast v :: u32)" "v AND 0xffff = ucast (ucast v :: u16)"
    "v AND 0xff = ucast (ucast v :: u8)"
  using and_mask_ucast [of v, where 'b = 32] and_mask_ucast [of v, where 'b = 16]
    and_mask_ucast [of v, where 'b = 8]
  by (simp_all add: mask_eq_exp_minus_1)

lemma low_nibble:
  fixes v :: u64
  shows "v AND 0xf = 0xf \<longleftrightarrow> unat v mod 16 = 15" "v AND 0xf = 0 \<longleftrightarrow> unat v mod 16 = 0"
proof -
  have "v AND 0xf = take_bit 4 v"
    by (simp only: take_bit_eq_mask mask_eq_exp_minus_1) simp
  moreover have "unat (take_bit 4 v) = take_bit 4 (unat v)"
    by (rule unsigned_take_bit_eq)
  ultimately have m: "unat (v AND 0xf) = unat v mod 16"
    by (simp only: take_bit_eq_mod [of 4 "unat v"]) simp
  show "v AND 0xf = 0xf \<longleftrightarrow> unat v mod 16 = 15" "v AND 0xf = 0 \<longleftrightarrow> unat v mod 16 = 0"
    unfolding word_unat_eq_iff m by simp_all
qed

lemma low_nibble_pos: "(v::u64) AND 0x0f \<noteq> 0 \<longleftrightarrow> 0 < unat v mod 16"
  using low_nibble(2) [of v] by auto

lemma nibble_full: "15 \<le> n mod 16 \<longleftrightarrow> n mod 16 = (15::nat)"
  using mod_less_divisor [of 16 n] by linarith

lemma ucast_u64_eq_iff:
  fixes x y :: "'a::len word"
  assumes "LENGTH('a) \<le> 64"
  shows "(ucast x :: u64) = ucast y \<longleftrightarrow> x = y"
proof
  assume eq: "(ucast x :: u64) = ucast y"
  have "bit x i = bit y i" if "i < LENGTH('a)" for i
    using arg_cong [OF eq, of "\<lambda>w. bit w i"] assms that by (simp add: bit_simps)
  then show "x = y"
    by (rule bit_word_eqI)
qed simp

lemma sint_eq_iff: "sint (x::'a::len word) = sint y \<longleftrightarrow> x = y"
  by (auto intro: signed_word_eqI)

lemma sint_max_iff:
  "sint (v64::u64) + 1 \<notin> {- (2 ^ 63) ..< 2 ^ 63} \<longleftrightarrow> v64 = 0x7fffffffffffffff"
  "sint (v32::u32) + 1 \<notin> {- (2 ^ 31) ..< 2 ^ 31} \<longleftrightarrow> v32 = 0x7fffffff"
  "sint (v16::u16) + 1 \<notin> {- (2 ^ 15) ..< 2 ^ 15} \<longleftrightarrow> v16 = 0x7fff"
  "sint (v8::u8) + 1 \<notin> {- (2 ^ 7) ..< 2 ^ 7} \<longleftrightarrow> v8 = 0x7f"
  using sint_greater_eq [of v64] sint_less [of v64] sint_greater_eq [of v32] sint_less [of v32]
   sint_greater_eq [of v16] sint_less [of v16] sint_greater_eq [of v8] sint_less [of v8]
  by (auto simp flip: sint_eq_iff)

lemma sint_min_iff:
  "sint (v64::u64) - 1 \<notin> {- (2 ^ 63) ..< 2 ^ 63} \<longleftrightarrow> v64 = 0x8000000000000000"
  "sint (v32::u32) - 1 \<notin> {- (2 ^ 31) ..< 2 ^ 31} \<longleftrightarrow> v32 = 0x80000000"
  "sint (v16::u16) - 1 \<notin> {- (2 ^ 15) ..< 2 ^ 15} \<longleftrightarrow> v16 = 0x8000"
  "sint (v8::u8) - 1 \<notin> {- (2 ^ 7) ..< 2 ^ 7} \<longleftrightarrow> v8 = 0x80"
  using sint_greater_eq [of v64] sint_less [of v64] sint_greater_eq [of v32] sint_less [of v32]
   sint_greater_eq [of v16] sint_less [of v16] sint_greater_eq [of v8] sint_less [of v8]
  by (auto simp flip: sint_eq_iff)

lemma sint_minus_iff:
  "- sint (v64::u64) \<notin> {- (2 ^ 63) ..< 2 ^ 63} \<longleftrightarrow> v64 = 0x8000000000000000"
  "- sint (v32::u32) \<notin> {- (2 ^ 31) ..< 2 ^ 31} \<longleftrightarrow> v32 = 0x80000000"
  "- sint (v16::u16) \<notin> {- (2 ^ 15) ..< 2 ^ 15} \<longleftrightarrow> v16 = 0x8000"
  "- sint (v8::u8) \<notin> {- (2 ^ 7) ..< 2 ^ 7} \<longleftrightarrow> v8 = 0x80"
  using sint_greater_eq [of v64] sint_less [of v64] sint_greater_eq [of v32] sint_less [of v32]
   sint_greater_eq [of v16] sint_less [of v16] sint_greater_eq [of v8] sint_less [of v8]
  by (auto simp flip: sint_eq_iff)

lemma ucast_id_up: "LENGTH('a) \<le> LENGTH('b) \<Longrightarrow> ucast (ucast (w::'a::len word) :: 'b::len word) = w"
  by (rule bit_word_eqI) (simp add: bit_simps)

lemma ucast_take_bit_int:
  assumes "LENGTH('b::len) \<le> LENGTH('a::len)"
  shows "(ucast (word_of_int k :: 'a word) :: 'b word) = word_of_int k"
  using assms by (intro bit_word_eqI) (simp add: bit_simps)

lemma ucast_down_arith:
  fixes x y :: "'a::len word"
  assumes "LENGTH('b::len) \<le> LENGTH('a)"
  shows "(ucast (x + y) :: 'b word) = ucast x + ucast y" "(ucast (x - y) :: 'b word) = ucast x - ucast y"
    "(ucast (- x) :: 'b word) = - ucast x"
  using ucast_take_bit_int [OF assms, of "uint x + uint y"] ucast_take_bit_int [OF assms, of "uint x"]
    ucast_take_bit_int [OF assms, of "uint y"] ucast_take_bit_int [OF assms, of "uint x - uint y"]
    ucast_take_bit_int [OF assms, of "- uint x"]
  by simp_all

lemma unat_ucast_up:
  "LENGTH('a) \<le> LENGTH('b) \<Longrightarrow> unat (ucast (w::'a::len word) :: 'b::len word) = unat w"
  by (rule bit_eqI) (auto simp: bit_unat bit_simps dest: bit_imp_le_length)

lemma ucast_eq_0: "LENGTH('a) \<le> LENGTH('b) \<Longrightarrow> (ucast (w::'a::len word) :: 'b::len word) = 0 \<longleftrightarrow> w = 0"
  by (metis ucast_id_up ucast_0)

lemmas ucasts = ucast_id_up unat_ucast_up ucast_eq_0 and_low_mask nibble_full
  ucast_down_arith [where 'a = 64 and 'b = 32] ucast_down_arith [where 'a = 64 and 'b = 16]
  ucast_down_arith [where 'a = 64 and 'b = 8]

lemma parity_ucast [simp]:
  "8 \<le> LENGTH('a) \<Longrightarrow> 8 \<le> LENGTH('b) \<Longrightarrow>
     parity_even (ucast (r::'a::len word) :: 'b::len word) = parity_even r"
  by (simp add: parity_even_iff bit_simps)

lemma sint_mult_bound:
  fixes a b :: "'a::len word"
  shows "- (2 ^ (2 * LENGTH('a) - 1)) \<le> sint a * sint b \<and> sint a * sint b < 2 ^ (2 * LENGTH('a) - 1)"
proof -
  obtain n where n: "LENGTH('a) = Suc n"
    using len_gt_0 [where 'a = 'a] by (cases "LENGTH('a)") simp_all
  have "\<bar>sint a\<bar> \<le> 2 ^ n" "\<bar>sint b\<bar> \<le> 2 ^ n"
    using sint_greater_eq [of a] sint_less [of a] sint_greater_eq [of b] sint_less [of b]
    unfolding n by auto
  then have "\<bar>sint a * sint b\<bar> \<le> 2 ^ n * 2 ^ n"
    unfolding abs_mult by (intro mult_mono) simp_all
  moreover have "2 ^ (2 * LENGTH('a) - 1) = (2 * (2 ^ n * 2 ^ n) :: int)"
  proof -
    have "2 * LENGTH('a) - 1 = Suc (n + n)"
      by (simp add: n)
    then show ?thesis
      by (simp only: power_Suc power_add)
  qed
  moreover have "(0 :: int) < 2 ^ n * 2 ^ n"
    by (intro mult_pos_pos) simp_all
  ultimately show ?thesis
    unfolding abs_le_iff by linarith
qed

lemma sint_of_int_self:
  "- (2 ^ (LENGTH('a) - 1)) \<le> k \<Longrightarrow> k < 2 ^ (LENGTH('a) - 1) \<Longrightarrow>
     sint (word_of_int k :: 'a::len word) = k"
  by (simp add: signed_of_int signed_take_bit_int_eq_self)

lemma sint_mult: "sint ((a::'a::len word) * b) = signed_take_bit (LENGTH('a) - 1) (sint a * sint b)"
proof -
  have "a * b = word_of_int (sint a * sint b)"
    by simp
  then show ?thesis
    by (simp only: signed_of_int) simp
qed

lemma sint_scast_up:
  assumes "LENGTH('a) \<le> LENGTH('b)"
  shows "sint (scast (a::'a::len word) :: 'b::len word) = sint a"
proof -
  have "(2 :: int) ^ (LENGTH('a) - 1) \<le> 2 ^ (LENGTH('b) - 1)"
    using assms by (intro power_increasing) simp_all
  then have "- (2 ^ (LENGTH('b) - 1)) \<le> sint a" "sint a < 2 ^ (LENGTH('b) - 1)"
    using sint_greater_eq [of a] sint_less [of a] unfolding One_nat_def by linarith+
  then show ?thesis
    by (simp add: signed_scast_eq signed_take_bit_int_eq_self)
qed

lemma full_product:
  fixes a b :: "'a::len word"
  assumes "LENGTH('b::len) = 2 * LENGTH('a)"
  defines "full \<equiv> (scast a * scast b :: 'b word)"
  shows "sint full = sint a * sint b" and "(ucast full :: 'a word) = a * b"
    and "full \<noteq> scast (ucast full :: 'a word) \<longleftrightarrow>
      sint a * sint b \<notin> {- (2 ^ (LENGTH('a) - 1)) ..< 2 ^ (LENGTH('a) - 1)}"
proof -
  have f: "full = word_of_int (sint a * sint b)"
    by (simp add: full_def)
  show s: "sint full = sint a * sint b"
    unfolding f using sint_mult_bound [of a b] assms
    by (intro sint_of_int_self) simp_all
  show u: "(ucast full :: 'a word) = a * b"
    unfolding f using assms by (subst ucast_take_bit_int) simp_all
  have "full = scast (ucast full :: 'a word) \<longleftrightarrow> sint full = sint (scast (a * b) :: 'b word)"
    unfolding u by (simp add: sint_eq_iff)
  also have "sint (scast (a * b) :: 'b word) = sint (a * b)"
    using assms by (simp add: sint_scast_up)
  also have "sint (a * b) = signed_take_bit (LENGTH('a) - 1) (sint a * sint b)"
    by (rule sint_mult)
  finally show "full \<noteq> scast (ucast full :: 'a word) \<longleftrightarrow>
      sint a * sint b \<notin> {- (2 ^ (LENGTH('a) - 1)) ..< 2 ^ (LENGTH('a) - 1)}"
    unfolding s using signed_take_bit_int_eq_self_iff [of "LENGTH('a) - 1" "sint a * sint b"]
    by auto
qed

subsection \<open>Shift amounts, masks and single bits\<close>

lemma and_one_of_bool: "x AND 1 = (of_bool (bit x 0) :: 'a::len word)"
  by (simp add: and_one_eq bit_0 odd_iff_mod_2_eq_one mod2_eq_if)

lemma push_bit_ucast:
  "LENGTH('a) \<le> LENGTH('b) \<Longrightarrow>
     (ucast (push_bit n (ucast (w::'a::len word) :: 'b::len word)) :: 'a word) = push_bit n w"
  by (auto intro!: bit_word_eqI simp: bit_simps)

lemma drop_bit_ucast:
  assumes "LENGTH('a) \<le> LENGTH('b)"
  shows "(ucast (drop_bit n (ucast (w::'a::len word) :: 'b::len word)) :: 'a word) = drop_bit n w"
proof -
  have "bit w k \<Longrightarrow> k < LENGTH('b)" for k
    using bit_imp_le_length [of w k] assms by simp
  then show ?thesis
    by (auto intro!: bit_word_eqI simp: bit_simps)
qed

lemma bit_drop_and_one:
  "drop_bit k x AND 1 = 1 \<longleftrightarrow> bit (x::'a::len word) k"
  "drop_bit k x AND 1 \<noteq> drop_bit l y AND 1 \<longleftrightarrow> bit x k \<noteq> bit (y::'a::len word) l"
  by (simp_all add: and_one_of_bool bit_drop_bit_eq)

lemma bit_word_ge: "LENGTH('a) \<le> k \<Longrightarrow> \<not> bit (w::'a::len word) k"
  using bit_imp_le_length [of w k] by auto

lemma bit_sint: "bit (sint (w::'a::len word)) k = bit w (min k (LENGTH('a) - 1))"
  by (auto simp: bit_sint_iff min_def bit_word_ge)

lemma unat_and_mask: "unat ((c::u64) AND 0x1f) < 32" "unat (c AND 0x3f) < 64"
proof -
  have "unat (c AND mask 5) < 2 ^ 5" "unat (c AND mask 6) < 2 ^ 6"
    by (simp_all only: flip: take_bit_eq_mask) (simp_all only: unsigned_take_bit_eq take_bit_nat_less_exp)
  then show "unat (c AND 0x1f) < 32" "unat (c AND 0x3f) < 64"
    by (simp_all add: mask_eq_exp_minus_1)
qed

lemma pow_mask: "sz \<le> 64 \<Longrightarrow> (if sz = 64 then - 1 else push_bit sz 1 - 1) = (mask sz :: u64)"
  by (auto simp: mask_eq_exp_minus_1)

lemma take_bit_self_iff: "take_bit k (v::u64) = v \<longleftrightarrow> (\<forall>j. k \<le> j \<longrightarrow> \<not> bit v j)"
proof
  assume "take_bit k v = v"
  then show "\<forall>j. k \<le> j \<longrightarrow> \<not> bit v j"
    using bit_take_bit_iff [of k v] by (metis linorder_not_less)
next
  assume hi: "\<forall>j. k \<le> j \<longrightarrow> \<not> bit v j"
  have "bit (take_bit k v) j = bit v j" for j
    using hi by (cases "j < k") (simp_all add: bit_take_bit_iff)
  then show "take_bit k v = v"
    by (rule bit_eqI)
qed

lemma bit_drop_and_nonzero: "drop_bit k x AND 1 \<noteq> 0 \<longleftrightarrow> bit (x::'a::len word) k"
  by (simp add: word_bits bit_drop_bit_eq)

lemma pow128: "ucast (- 1 :: u64) = (mask 64 :: u128)"
  by (rule bit_word_eqI) (simp add: bit_simps)

lemma res_mask_eq:
  "sz \<in> {8, 16, 32, 64} \<Longrightarrow>
     (if sz = 64 then 0xffffffffffffffff else if sz = 32 then 0xffffffff
      else if sz = 16 then 0xffff else 0xff) = (mask sz :: u64)"
  by (auto simp: mask_eq_exp_minus_1)

end
