(* ===== verification/Flags.thy ===== *)
theory Flags
  imports Word_Casts
begin

section \<open>The x86 status flags and their lazy evaluation\<close>

text \<open>
  A model of \<^verbatim>\<open>crates/libmwemu/src/arch/x86/flags.rs\<close>: the \<open>Flags\<close> structure, the lazily
  evaluated part (a sign-extended result and a word of packed carry bits), the reading of the
  flags, the conversion from and to an EFLAGS image, and the arithmetic operations
  (\<open>add\<close>, \<open>sub\<close>, \<open>inc\<close>, \<open>dec\<close>, \<open>neg\<close>, \<open>test\<close>, \<open>imul\<close>) at the four operand widths. Shifts
  and rotates are in the theory Flags_Shift.

  An operation \<open>fn op(&mut self, args) -> u64\<close> is a function from its arguments and the flags to
  the result and the new flags.
\<close>

subsection \<open>Data\<close>

definition LF_BIT_SD :: nat where "LF_BIT_SD = 0"
definition LF_BIT_AF :: nat where "LF_BIT_AF = 3"
definition LF_BIT_PDB :: nat where "LF_BIT_PDB = 8"
definition LF_BIT_PO :: nat where "LF_BIT_PO = 30"
definition LF_BIT_CF :: nat where "LF_BIT_CF = 31"

definition LF_MASK_SD :: u32 where "LF_MASK_SD = push_bit LF_BIT_SD 1"
definition LF_MASK_AF :: u32 where "LF_MASK_AF = push_bit LF_BIT_AF 1"
definition LF_MASK_PDB :: u32 where "LF_MASK_PDB = push_bit LF_BIT_PDB 0xff"
definition LF_MASK_CF :: u32 where "LF_MASK_CF = push_bit LF_BIT_CF 1"
definition LF_MASK_PO :: u32 where "LF_MASK_PO = push_bit LF_BIT_PO 1"

lemmas LF_defs =
  LF_BIT_SD_def LF_BIT_AF_def LF_BIT_PDB_def LF_BIT_PO_def LF_BIT_CF_def
  LF_MASK_SD_def LF_MASK_AF_def LF_MASK_PDB_def LF_MASK_CF_def LF_MASK_PO_def

datatype lazy_flags_kind = LazyNone | Oszapc

record lazy_flags =
  lz_kind :: lazy_flags_kind
  lz_result :: u64
  lz_auxbits :: u32

definition lazy_flags_default :: lazy_flags where
  "lazy_flags_default = \<lparr>lz_kind = LazyNone, lz_result = 0, lz_auxbits = 0\<rparr>"

record flags =
  f_cf :: bool
  f_pf :: bool
  f_af :: bool
  f_zf :: bool
  f_sf :: bool
  f_tf :: bool
  f_if :: bool
  f_df :: bool
  f_of :: bool
  f_iopl1 :: bool
  f_iopl2 :: bool
  f_nt :: bool
  f_rf :: bool
  f_vm :: bool
  f_ac :: bool
  f_vif :: bool
  f_vip :: bool
  f_id :: bool
  f_lazy :: lazy_flags

definition flags_new :: flags where
  "flags_new = \<lparr>f_cf = False, f_pf = False, f_af = False, f_zf = False, f_sf = False,
     f_tf = False, f_if = False, f_df = False, f_of = False, f_iopl1 = False, f_iopl2 = False,
     f_nt = False, f_rf = False, f_vm = False, f_ac = False, f_vif = False, f_vip = False,
     f_id = False, f_lazy = lazy_flags_default\<rparr>"

definition clear_lazy :: "flags \<Rightarrow> flags" where
  "clear_lazy f = f\<lparr>f_lazy := lazy_flags_default\<rparr>"

subsection \<open>Parity\<close>

text \<open>\<open>count_ones\<close> is the population count of the Rust standard library.\<close>

fun count_ones :: "nat \<Rightarrow> nat" where
  "count_ones n = (if n = 0 then 0 else n mod 2 + count_ones (n div 2))"

declare count_ones.simps [simp del]

definition PARITY_LOOKUP_TABLE :: "bool list" where
  "PARITY_LOOKUP_TABLE = map (\<lambda>i. count_ones i mod 2 = 0) [0..<256]"

definition calc_pf_value :: "u8 \<Rightarrow> bool" where
  "calc_pf_value final_value = PARITY_LOOKUP_TABLE ! unat final_value"

definition calc_lazy_pf_value :: "u8 \<Rightarrow> bool" where
  "calc_lazy_pf_value final_value =
     (let temp = (final_value XOR drop_bit 4 final_value) AND 0x0f
      in (drop_bit (unat temp) (0x9669 :: u16)) AND 1 \<noteq> 0)"

definition calc_af_value :: "u64 \<Rightarrow> u64 \<Rightarrow> u64 \<Rightarrow> bool" where
  "calc_af_value value1 value2 result = ((value1 XOR value2 XOR result) AND 0x10 \<noteq> 0)"

subsection \<open>Setting the lazy flags\<close>

definition sign_extend_result :: "u64 \<Rightarrow> nat \<Rightarrow> u64" where
  "sign_extend_result result bits =
     (if bits = 64 then result
      else if bits = 32 then scast (ucast result :: u32)
      else if bits = 16 then scast (ucast result :: u16)
      else if bits = 8 then scast (ucast result :: u8)
      else 0)"

definition add_cout_vec :: "u64 \<Rightarrow> u64 \<Rightarrow> u64 \<Rightarrow> u64" where
  "add_cout_vec op1 op2 result = (op1 AND op2) OR ((op1 OR op2) AND NOT result)"

definition sub_cout_vec :: "u64 \<Rightarrow> u64 \<Rightarrow> u64 \<Rightarrow> u64" where
  "sub_cout_vec op1 op2 result = (NOT op1 AND op2) OR ((NOT op1 XOR op2) AND result)"

definition cache_oszapc_fields :: "u64 \<Rightarrow> u32 \<Rightarrow> flags \<Rightarrow> flags" where
  "cache_oszapc_fields result auxbits f =
     f\<lparr>f_cf := (auxbits AND LF_MASK_CF \<noteq> 0),
       f_zf := (result = 0),
       f_sf := ((ucast (drop_bit 63 result) XOR drop_bit LF_BIT_SD auxbits) AND 1 \<noteq> 0),
       f_of := (drop_bit LF_BIT_CF (auxbits + LF_MASK_PO) AND 1 \<noteq> 0)\<rparr>"

definition set_lazy_oszapc64 :: "u64 \<Rightarrow> u64 \<Rightarrow> flags \<Rightarrow> flags" where
  "set_lazy_oszapc64 result carries f =
     (let auxbits = ucast ((carries AND ucast LF_MASK_AF)
                           OR push_bit LF_BIT_PO (drop_bit 62 carries))
      in (cache_oszapc_fields result auxbits f)
           \<lparr>f_lazy := \<lparr>lz_kind = Oszapc, lz_result = result, lz_auxbits = auxbits\<rparr>\<rparr>)"

definition set_lazy_oszapc32 :: "u32 \<Rightarrow> u32 \<Rightarrow> flags \<Rightarrow> flags" where
  "set_lazy_oszapc32 result carries f =
     (let auxbits = carries AND NOT (LF_MASK_PDB OR LF_MASK_SD);
          result = scast result
      in (cache_oszapc_fields result auxbits f)
           \<lparr>f_lazy := \<lparr>lz_kind = Oszapc, lz_result = result, lz_auxbits = auxbits\<rparr>\<rparr>)"

definition set_lazy_oszapc16 :: "u16 \<Rightarrow> u32 \<Rightarrow> flags \<Rightarrow> flags" where
  "set_lazy_oszapc16 result carries f =
     (let auxbits = (carries AND LF_MASK_AF) OR push_bit 16 carries;
          result = scast result
      in (cache_oszapc_fields result auxbits f)
           \<lparr>f_lazy := \<lparr>lz_kind = Oszapc, lz_result = result, lz_auxbits = auxbits\<rparr>\<rparr>)"

definition set_lazy_oszapc8 :: "u8 \<Rightarrow> u32 \<Rightarrow> flags \<Rightarrow> flags" where
  "set_lazy_oszapc8 result carries f =
     (let auxbits = (carries AND LF_MASK_AF) OR push_bit 24 carries;
          result = scast result
      in (cache_oszapc_fields result auxbits f)
           \<lparr>f_lazy := \<lparr>lz_kind = Oszapc, lz_result = result, lz_auxbits = auxbits\<rparr>\<rparr>)"

definition set_lazy_oszapc :: "u64 \<Rightarrow> u64 \<Rightarrow> nat \<Rightarrow> flags \<Rightarrow> flags" where
  "set_lazy_oszapc result carries bits f =
     (if bits = 64 then set_lazy_oszapc64 result carries f
      else if bits = 32 then set_lazy_oszapc32 (ucast result) (ucast carries) f
      else if bits = 16 then set_lazy_oszapc16 (ucast result) (ucast carries) f
      else if bits = 8 then set_lazy_oszapc8 (ucast result) (ucast carries) f
      else f)"

definition set_lazy_logic :: "u64 \<Rightarrow> nat \<Rightarrow> flags \<Rightarrow> flags" where
  "set_lazy_logic result bits f =
     (if bits = 64 then set_lazy_oszapc64 result 0 f
      else if bits = 32 then set_lazy_oszapc32 (ucast result) 0 f
      else if bits = 16 then set_lazy_oszapc16 (ucast result) 0 f
      else if bits = 8 then set_lazy_oszapc8 (ucast result) 0 f
      else f)"

definition set_lazy_from_encoded_flags ::
    "u64 \<Rightarrow> bool \<Rightarrow> bool \<Rightarrow> bool \<Rightarrow> nat \<Rightarrow> flags \<Rightarrow> flags" where
  "set_lazy_from_encoded_flags result cf ovf af bits f =
     (let auxbits = 0;
          auxbits = (if af then auxbits OR LF_MASK_AF else auxbits);
          auxbits = (if cf then auxbits OR LF_MASK_CF else auxbits);
          auxbits = (if cf \<noteq> ovf then auxbits OR LF_MASK_PO else auxbits);
          f' = f\<lparr>f_lazy := \<lparr>lz_kind = Oszapc, lz_result = sign_extend_result result bits,
                            lz_auxbits = auxbits\<rparr>\<rparr>
      in cache_oszapc_fields (lz_result (f_lazy f')) auxbits f')"

definition set_lazy_from_flags ::
    "u64 \<Rightarrow> bool \<Rightarrow> bool \<Rightarrow> bool \<Rightarrow> nat \<Rightarrow> flags \<Rightarrow> flags" where
  "set_lazy_from_flags result cf ovf af bits f =
     set_lazy_from_encoded_flags result cf ovf af bits f"

definition flags_mask :: "nat \<Rightarrow> u64" where
  "flags_mask bits =
     (if bits = 64 then - 1
      else if bits = 32 then 0xffffffff
      else if bits = 16 then 0xffff
      else if bits = 8 then 0xff
      else 0)"

definition sign_mask :: "nat \<Rightarrow> u64" where
  "sign_mask bits = shl 1 (bits - 1)"

subsection \<open>Reading the flags\<close>

definition flags_cf :: "flags \<Rightarrow> bool" where
  "flags_cf f = f_cf f"

definition flags_pf :: "flags \<Rightarrow> bool" where
  "flags_pf f =
     (case lz_kind (f_lazy f) of
        LazyNone \<Rightarrow> f_pf f
      | Oszapc \<Rightarrow> calc_lazy_pf_value
          (ucast ((ucast (lz_result (f_lazy f)) XOR drop_bit LF_BIT_PDB (lz_auxbits (f_lazy f)))
                  AND 0xff)))"

definition flags_af :: "flags \<Rightarrow> bool" where
  "flags_af f =
     (case lz_kind (f_lazy f) of
        LazyNone \<Rightarrow> f_af f
      | Oszapc \<Rightarrow> lz_auxbits (f_lazy f) AND LF_MASK_AF \<noteq> 0)"

definition flags_zf :: "flags \<Rightarrow> bool" where
  "flags_zf f = f_zf f"

definition flags_sf :: "flags \<Rightarrow> bool" where
  "flags_sf f = f_sf f"

definition flags_of :: "flags \<Rightarrow> bool" where
  "flags_of f = f_of f"

definition materialize_lazy :: "flags \<Rightarrow> flags" where
  "materialize_lazy f =
     (case lz_kind (f_lazy f) of
        LazyNone \<Rightarrow> f
      | Oszapc \<Rightarrow>
          clear_lazy (f\<lparr>f_cf := flags_cf f, f_pf := flags_pf f, f_af := flags_af f,
                        f_zf := flags_zf f, f_sf := flags_sf f, f_of := flags_of f\<rparr>))"

definition flags_clear :: "flags \<Rightarrow> flags" where
  "flags_clear f = (clear_lazy f)\<lparr>f_cf := False, f_pf := False, f_af := False, f_zf := False,
     f_sf := False, f_tf := False, f_if := False, f_df := False, f_of := False,
     f_iopl1 := False, f_iopl2 := False, f_nt := False, f_rf := False, f_vm := False,
     f_ac := False, f_vif := False, f_vip := False, f_id := False\<rparr>"

definition flags_set :: "flags \<Rightarrow> flags" where
  "flags_set f = (clear_lazy f)\<lparr>f_cf := True, f_pf := True, f_af := True, f_zf := True,
     f_sf := True, f_tf := True, f_if := True, f_df := True, f_of := True,
     f_iopl1 := True, f_iopl2 := True, f_nt := True, f_rf := True, f_vm := True,
     f_ac := True, f_vif := True, f_vip := True, f_id := True\<rparr>"

subsection \<open>The EFLAGS image\<close>

text \<open>The macros \<open>get_bit!\<close> and \<open>set_bit!\<close>.\<close>

definition macro_get_bit :: "'a::len word \<Rightarrow> nat \<Rightarrow> 'a word" where
  "macro_get_bit val cnt = drop_bit cnt (val AND push_bit cnt 1)"

definition macro_set_bit :: "'a::len word \<Rightarrow> nat \<Rightarrow> 'a word \<Rightarrow> 'a word" where
  "macro_set_bit val cnt b =
     (if b = 1 then val OR push_bit cnt 1 else val AND NOT (push_bit cnt 1))"

text \<open>\<open>if self.f_x { set_bit!(flags, n, 1) }\<close>, the statement \<open>dump\<close> repeats.\<close>

definition set_bit_if :: "bool \<Rightarrow> nat \<Rightarrow> u32 \<Rightarrow> u32" where
  "set_bit_if b cnt r = (if b then macro_set_bit r cnt 1 else r)"

definition flags_dump :: "flags \<Rightarrow> u32" where
  "flags_dump f =
     (let m = materialize_lazy f;
          r = 0;
          r = set_bit_if (f_cf m) 0 r;
          r = macro_set_bit r 1 1;
          r = set_bit_if (f_pf m) 2 r;
          r = set_bit_if (f_af m) 4 r;
          r = set_bit_if (f_zf m) 6 r;
          r = set_bit_if (f_sf m) 7 r;
          r = set_bit_if (f_tf m) 8 r;
          r = set_bit_if (f_if m) 9 r;
          r = set_bit_if (f_df m) 10 r;
          r = set_bit_if (f_of m) 11 r;
          r = set_bit_if (f_iopl1 m) 12 r;
          r = set_bit_if (f_iopl2 m) 13 r;
          r = set_bit_if (f_nt m) 14 r;
          r = macro_set_bit r 15 0;
          r = set_bit_if (f_rf m) 16 r;
          r = set_bit_if (f_vm m) 17 r;
          r = set_bit_if (f_ac m) 18 r;
          r = set_bit_if (f_vif m) 19 r;
          r = set_bit_if (f_vip m) 20 r;
          r = set_bit_if (f_id m) 21 r
      in r)"

definition flags_load :: "u32 \<Rightarrow> flags \<Rightarrow> flags" where
  "flags_load w f = (clear_lazy f)
     \<lparr>f_cf := (macro_get_bit w 0 = 1),
      f_pf := (macro_get_bit w 2 = 1),
      f_af := (macro_get_bit w 4 = 1),
      f_zf := (macro_get_bit w 6 = 1),
      f_sf := (macro_get_bit w 7 = 1),
      f_tf := (macro_get_bit w 8 = 1),
      f_if := (macro_get_bit w 9 = 1),
      f_df := (macro_get_bit w 10 = 1),
      f_of := (macro_get_bit w 11 = 1),
      f_iopl1 := (macro_get_bit w 12 = 1),
      f_iopl2 := (macro_get_bit w 13 = 1),
      f_nt := (macro_get_bit w 14 = 1),
      f_rf := (macro_get_bit w 16 = 1),
      f_vm := (macro_get_bit w 17 = 1),
      f_ac := (macro_get_bit w 18 = 1),
      f_vif := (macro_get_bit w 19 = 1),
      f_vip := (macro_get_bit w 20 = 1),
      f_id := (macro_get_bit w 21 = 1)\<rparr>"

subsection \<open>Flags of a result\<close>

definition calc_flags :: "u64 \<Rightarrow> nat \<Rightarrow> flags \<Rightarrow> flags" where
  "calc_flags final_value bits f =
     (let f = f\<lparr>f_tf := False\<rparr>
      in set_lazy_from_flags final_value (f_cf f) (f_of f) (f_af f) bits f)"

definition calc_logic_flags_lazy :: "u64 \<Rightarrow> nat \<Rightarrow> flags \<Rightarrow> flags" where
  "calc_logic_flags_lazy final_value bits f =
     set_lazy_logic final_value bits
       (f\<lparr>f_tf := False, f_cf := False, f_af := False, f_of := False\<rparr>)"

definition calc_pf :: "u8 \<Rightarrow> flags \<Rightarrow> flags" where
  "calc_pf final_value f = (materialize_lazy f)\<lparr>f_pf := calc_pf_value final_value\<rparr>"

definition calc_af :: "u64 \<Rightarrow> u64 \<Rightarrow> u64 \<Rightarrow> u64 \<Rightarrow> flags \<Rightarrow> flags" where
  "calc_af value1 value2 result bits f =
     (materialize_lazy f)\<lparr>f_af := calc_af_value value1 value2 result\<rparr>"

definition flags_test :: "u64 \<Rightarrow> u64 \<Rightarrow> nat \<Rightarrow> flags \<Rightarrow> flags" where
  "flags_test value0 value1 sz f = calc_logic_flags_lazy (value0 AND value1) sz f"

subsection \<open>Specification: the status flags of a result\<close>

text \<open>
  \<open>status cf ovf af r f\<close>: the flags read as the given carry, overflow and auxiliary carry, and
  zero, sign and parity are those of the result \<open>r\<close> at its width. \<open>control_flags\<close> forgets the
  status flags, so that an equation between two of them says that nothing else changed.
\<close>

definition status :: "bool \<Rightarrow> bool \<Rightarrow> bool \<Rightarrow> 'a::len word \<Rightarrow> flags \<Rightarrow> bool" where
  "status cf ovf af r f \<longleftrightarrow>
     flags_cf f = cf \<and> flags_of f = ovf \<and> flags_af f = af \<and>
     flags_zf f = (r = 0) \<and> flags_sf f = (sint r < 0) \<and> flags_pf f = parity_even r"

definition control_flags :: "flags \<Rightarrow> flags" where
  "control_flags f = f\<lparr>f_cf := False, f_pf := False, f_af := False, f_zf := False, f_sf := False,
     f_of := False, f_lazy := lazy_flags_default\<rparr>"

subsection \<open>What the lazy flags read back\<close>

lemma bit_add_po: "bit ((x::u32) + 0x40000000) 31 \<longleftrightarrow> bit x 31 \<noteq> bit x 30"
proof -
  have po: "(0x40000000::u32) = push_bit 30 1"
    by simp
  have "carry_at 30 x (push_bit 30 1) False = False"
    by (simp add: carry_at_def)
  then have "carry_at 31 x (push_bit 30 1) False \<longleftrightarrow> bit x 30"
    using carry_at_Suc [of 30 x "push_bit 30 1" False] by (simp add: bit_simps)
  moreover have "\<not> bit (push_bit 30 (1::u32)) 31"
    by (simp add: bit_simps)
  ultimately show ?thesis
    using bit_add_carry [of 31 x "push_bit 30 1" False] unfolding po by simp
qed

lemma cache_fields [simp]:
  "f_cf (cache_oszapc_fields r a f) = bit a 31"
  "f_zf (cache_oszapc_fields r a f) = (r = 0)"
  "f_sf (cache_oszapc_fields r a f) = (bit r 63 \<noteq> bit a 0)"
  "f_of (cache_oszapc_fields r a f) = (bit a 31 \<noteq> bit a 30)"
  by (simp_all only: cache_oszapc_fields_def LF_defs word_bits flags.simps)
     (simp_all add: bit_simps word_bits bit_add_po)

lemma lazy_af: "lz_kind (f_lazy f) = Oszapc \<Longrightarrow> flags_af f = bit (lz_auxbits (f_lazy f)) 3"
  unfolding flags_af_def LF_defs by (simp only: lazy_flags_kind.simps word_bits) simp

lemma count_ones_bits: "n < 2 ^ k \<Longrightarrow> count_ones n = length (filter (bit n) [0..<k])"
proof (induction k arbitrary: n)
  case 0
  then show ?case by (simp add: count_ones.simps)
next
  case (Suc k)
  have up: "[0..<Suc k] = 0 # map Suc [0..<k]"
    by (simp add: upt_conv_Cons map_Suc_upt del: upt_Suc)
  have "count_ones n = n mod 2 + count_ones (n div 2)"
    by (cases "n = 0") (simp_all add: count_ones.simps [of n] count_ones.simps [of 0])
  moreover have "count_ones (n div 2) = length (filter (bit (n div 2)) [0..<k])"
    using Suc.prems by (intro Suc.IH) auto
  ultimately show ?case
    unfolding up by (simp add: filter_map comp_def bit_Suc bit_0 mod2_eq_if del: upt_Suc)
qed

lemma calc_pf_value_parity [simp]: "calc_pf_value b = parity_even b"
proof -
  have lt: "unat b < 256"
    using unsigned_less [of b, where 'a = nat] by simp
  then have "calc_pf_value b = even (count_ones (unat b))"
    by (simp add: calc_pf_value_def PARITY_LOOKUP_TABLE_def even_iff_mod_2_eq_zero)
  also have "\<dots> = even (length (filter (bit (unat b)) [0..<8]))"
    using count_ones_bits [of "unat b" 8] lt by simp
  finally show ?thesis
    by (simp add: parity_even_def bit_unat_fun)
qed

lemma nibble_table:
  assumes "n < 16"
  shows "bit (0x9669 :: u16) n \<longleftrightarrow> (((bit n 0 = bit n 1) = bit n 2) = bit n 3)"
proof -
  have "n \<in> {0, 1, 2, 3, 4, 5, 6, 7, 8, 9, 10, 11, 12, 13, 14, 15}"
    using assms by (simp, arith)
  moreover have "bit (0x9669 :: u16) n = odd (0x9669 div 2 ^ n :: nat)"
    using bit_unat [of "0x9669 :: u16" n] by (simp add: bit_iff_odd)
  ultimately show ?thesis
    unfolding bit_iff_odd [of n] by (elim insertE) simp_all
qed

lemma calc_lazy_pf_value_parity [simp]: "calc_lazy_pf_value b = parity_even b"
proof -
  define t where "t = (b XOR drop_bit 4 b) AND 0x0f"
  have f: "(0x0f :: u8) = mask 4"
    by (simp add: mask_eq_exp_minus_1)
  have "unat t < 16"
    using and_mask_less' [of 4 "b XOR drop_bit 4 b"] unfolding t_def f
    by (simp add: word_less_nat_alt)
  moreover have "bit t i \<longleftrightarrow> i < 4 \<and> bit b i \<noteq> bit b (4 + i)" for i
    unfolding t_def f by (auto simp: bit_simps)
  moreover have "calc_lazy_pf_value b = bit (0x9669 :: u16) (unat t)"
    unfolding calc_lazy_pf_value_def t_def [symmetric] Let_def word_bits
    by (simp add: bit_drop_bit_eq)
  ultimately show ?thesis
    using nibble_table [of "unat t"] by (auto simp: bit_unat parity_even_iff)
qed

lemma pdb_zero_parity:
  "lz_kind (f_lazy f) = Oszapc \<Longrightarrow> (\<And>i. i < 8 \<Longrightarrow> \<not> bit (lz_auxbits (f_lazy f)) (8 + i)) \<Longrightarrow>
   flags_pf f = parity_even (lz_result (f_lazy f))"
  unfolding flags_pf_def LF_defs
  by (auto simp: parity_even_iff bit_simps numeral_eq_Suc)
 

lemma bit_af_mask: "bit (8::int) i \<longleftrightarrow> i = 3"
proof -
  have "(8::int) = push_bit 3 1"
    by simp
  then show ?thesis
    by (simp only: bit_simps) auto
qed

lemma bit_pdb_sd_mask: "bit (0xff01::int) i \<longleftrightarrow> i = 0 \<or> (8 \<le> i \<and> i < 16)"
proof -
  have "(0xff01::int) = 1 OR push_bit 8 (mask 8)"
    by (simp add: mask_eq_exp_minus_1)
  then show ?thesis
    by (simp only: bit_simps) auto
qed

lemma status_packed:
  assumes "\<not> bit a 0" and "\<And>i. i < 8 \<Longrightarrow> \<not> bit a (8 + i)"
  shows "status (bit a 31) (bit a 31 \<noteq> bit a 30) (bit a 3) r
    (cache_oszapc_fields r a f \<lparr>f_lazy := \<lparr>lz_kind = Oszapc, lz_result = r, lz_auxbits = a\<rparr>\<rparr>)"
  using assms
  by (simp add: status_def flags_cf_def flags_of_def flags_zf_def flags_sf_def lazy_af
      pdb_zero_parity sint_neg_iff)

lemma status_scast:
  fixes r :: "'a::len word"
  assumes "8 \<le> LENGTH('a)" and "LENGTH('a) \<le> LENGTH('b::len)"
  shows "status cf ovf af (scast r :: 'b word) f = status cf ovf af r f"
proof -
  note bit_scast_low [OF assms(2), of _ r]
  moreover have "bit (scast r :: 'b word) (LENGTH('b) - Suc 0) = bit r (LENGTH('a) - Suc 0)"
    using assms by (simp add: bit_simps min_def)
  ultimately show ?thesis
    using assms
    by (simp add: status_def sint_neg_iff scast_eq_0_iff parity_even_iff)
qed

lemma status_lazy64:
  "status (bit c 63) (bit c 63 \<noteq> bit c 62) (bit c 3) r (set_lazy_oszapc64 r c f)"
  using status_packed [of "ucast ((c AND ucast LF_MASK_AF) OR push_bit LF_BIT_PO (drop_bit 62 c))" r f]
  unfolding set_lazy_oszapc64_def Let_def LF_defs
  by (simp add: bit_simps bit_af_mask)

lemma status_lazy32:
  "status (bit c 31) (bit c 31 \<noteq> bit c 30) (bit c 3) r (set_lazy_oszapc32 r c f)"
  using status_packed [of "c AND NOT (LF_MASK_PDB OR LF_MASK_SD)" "scast r" f]
  unfolding set_lazy_oszapc32_def Let_def LF_defs
  by (simp add: bit_simps bit_pdb_sd_mask status_scast)

lemma status_lazy16:
  "status (bit c 15) (bit c 15 \<noteq> bit c 14) (bit c 3) r (set_lazy_oszapc16 r c f)"
  using status_packed [of "(c AND LF_MASK_AF) OR push_bit 16 c" "scast r" f]
  unfolding set_lazy_oszapc16_def Let_def LF_defs
  by (simp add: bit_simps bit_af_mask status_scast)

lemma status_lazy8:
  "status (bit c 7) (bit c 7 \<noteq> bit c 6) (bit c 3) r (set_lazy_oszapc8 r c f)"
  using status_packed [of "(c AND LF_MASK_AF) OR push_bit 24 c" "scast r" f]
  unfolding set_lazy_oszapc8_def Let_def LF_defs
  by (simp add: bit_simps bit_af_mask status_scast)

lemma control_lazy [simp]:
  "control_flags (set_lazy_oszapc64 r64 c64 f) = control_flags f"
  "control_flags (set_lazy_oszapc32 r32 c f) = control_flags f"
  "control_flags (set_lazy_oszapc16 r16 c f) = control_flags f"
  "control_flags (set_lazy_oszapc8 r8 c f) = control_flags f"
  by (simp_all add: control_flags_def set_lazy_oszapc64_def set_lazy_oszapc32_def
      set_lazy_oszapc16_def set_lazy_oszapc8_def cache_oszapc_fields_def Let_def)

lemma materialize_observers [simp]:
  "flags_cf (materialize_lazy f) = flags_cf f" "flags_pf (materialize_lazy f) = flags_pf f"
  "flags_af (materialize_lazy f) = flags_af f" "flags_zf (materialize_lazy f) = flags_zf f"
  "flags_sf (materialize_lazy f) = flags_sf f" "flags_of (materialize_lazy f) = flags_of f"
  by (simp_all add: materialize_lazy_def clear_lazy_def lazy_flags_default_def flags_cf_def
      flags_pf_def flags_af_def flags_zf_def flags_sf_def flags_of_def
      split: lazy_flags_kind.splits)

lemma materialize_kind [simp]: "lz_kind (f_lazy (materialize_lazy f)) = LazyNone"
  by (simp add: materialize_lazy_def clear_lazy_def lazy_flags_default_def
      split: lazy_flags_kind.split)

lemma control_materialize [simp]: "control_flags (materialize_lazy f) = control_flags f"
  by (simp add: materialize_lazy_def clear_lazy_def control_flags_def
      split: lazy_flags_kind.split)

lemma materialize_idle: "lz_kind (f_lazy f) = LazyNone \<Longrightarrow> materialize_lazy f = f"
  by (simp add: materialize_lazy_def)

definition encoded_aux :: "bool \<Rightarrow> bool \<Rightarrow> bool \<Rightarrow> u32" where
  "encoded_aux cf ovf af =
     (if af then push_bit 3 1 else 0) OR (if cf then push_bit 31 1 else 0) OR
     (if cf \<noteq> ovf then push_bit 30 1 else 0)"

lemma bit_encoded_aux:
  "bit (encoded_aux cf ovf af) i \<longleftrightarrow> i = 3 \<and> af \<or> i = 31 \<and> cf \<or> i = 30 \<and> cf \<noteq> ovf"
  unfolding encoded_aux_def by (simp only: bit_simps if_distrib [of "\<lambda>w. bit w i"]) auto

lemma set_lazy_encoded_aux:
  "set_lazy_from_encoded_flags r cf ovf af bits f =
     cache_oszapc_fields (sign_extend_result r bits) (encoded_aux cf ovf af) f
       \<lparr>f_lazy := \<lparr>lz_kind = Oszapc, lz_result = sign_extend_result r bits,
                  lz_auxbits = encoded_aux cf ovf af\<rparr>\<rparr>"
  by (simp add: set_lazy_from_encoded_flags_def Let_def encoded_aux_def LF_defs
      cache_oszapc_fields_def or.assoc)

lemma status_encoded:
  "status cf ovf af (sign_extend_result r bits) (set_lazy_from_encoded_flags r cf ovf af bits f)"
proof -
  have "status (bit (encoded_aux cf ovf af) 31)
      (bit (encoded_aux cf ovf af) 31 \<noteq> bit (encoded_aux cf ovf af) 30)
      (bit (encoded_aux cf ovf af) 3) (sign_extend_result r bits)
      (set_lazy_from_encoded_flags r cf ovf af bits f)"
    unfolding set_lazy_encoded_aux by (rule status_packed) (simp_all add: bit_encoded_aux)
  then show ?thesis
    by (cases cf; cases ovf) (simp_all add: bit_encoded_aux)
qed

lemma status_encoded_widths:
  "status cf ovf af r (set_lazy_from_encoded_flags r cf ovf af 64 f)"
  "status cf ovf af (ucast r :: u32) (set_lazy_from_encoded_flags r cf ovf af 32 f)"
  "status cf ovf af (ucast r :: u16) (set_lazy_from_encoded_flags r cf ovf af 16 f)"
  "status cf ovf af (ucast r :: u8) (set_lazy_from_encoded_flags r cf ovf af 8 f)"
  using status_encoded [of cf ovf af r 64 f] status_encoded [of cf ovf af r 32 f]
    status_encoded [of cf ovf af r 16 f] status_encoded [of cf ovf af r 8 f]
  by (simp_all add: sign_extend_result_def status_scast)

lemma control_encoded [simp]:
  "control_flags (set_lazy_from_encoded_flags r cf ovf af bits f) = control_flags f"
  by (simp add: set_lazy_encoded_aux control_flags_def cache_oszapc_fields_def)

lemma status_calc_pf:
  "status cf ovf af r f \<Longrightarrow> parity_even b = parity_even r \<Longrightarrow> status cf ovf af r (calc_pf b f)"
  by (simp add: status_def calc_pf_def flags_cf_def flags_of_def flags_zf_def flags_sf_def
      flags_pf_def flags_af_def)
    (simp add: materialize_lazy_def clear_lazy_def lazy_flags_default_def flags_af_def flags_cf_def flags_of_def flags_zf_def flags_sf_def
      split: lazy_flags_kind.splits)

lemma control_calc_pf [simp]: "control_flags (calc_pf b f) = control_flags f"
proof -
  have "control_flags (calc_pf b f) = control_flags (materialize_lazy f)"
    by (simp only: calc_pf_def control_flags_def) simp
  then show ?thesis
    by simp
qed

lemma control_tf [simp]: "control_flags (f\<lparr>f_of := a, f_cf := b, f_af := c, f_tf := d\<rparr>) = control_flags (f\<lparr>f_tf := d\<rparr>)"
  by (simp add: control_flags_def)

text \<open>
  C13: reading the flags does not depend on whether the lazy part has been written back. All six
  status flags, the EFLAGS image and the other flags are the same before and after
  \<open>materialize_lazy\<close>, afterwards no lazy computation is pending, and doing it twice is doing it
  once.
\<close>

theorem materialize_lazy_transparent:
  "flags_cf (materialize_lazy f) = flags_cf f \<and> flags_pf (materialize_lazy f) = flags_pf f \<and>
   flags_af (materialize_lazy f) = flags_af f \<and> flags_zf (materialize_lazy f) = flags_zf f \<and>
   flags_sf (materialize_lazy f) = flags_sf f \<and> flags_of (materialize_lazy f) = flags_of f \<and>
   flags_dump (materialize_lazy f) = flags_dump f \<and>
   control_flags (materialize_lazy f) = control_flags f \<and>
   lz_kind (f_lazy (materialize_lazy f)) = LazyNone \<and>
   materialize_lazy (materialize_lazy f) = materialize_lazy f"
  by (simp add: flags_dump_def materialize_idle)

text \<open>
  the two parity computations agree. The 256-entry lookup table and the nibble trick of the
  lazy path both say whether the byte has an even number of one bits.
\<close>

theorem parity_table_and_nibble_agree:
  "calc_pf_value b = parity_even b \<and> calc_lazy_pf_value b = parity_even b"
  by simp

subsection \<open>The EFLAGS image\<close>

lemma bit_macro_set_if:
  "n < 32 \<Longrightarrow> bit (set_bit_if b n r) i \<longleftrightarrow> b \<and> i = n \<or> bit r i"
  by (auto simp: set_bit_if_def macro_set_bit_def bit_simps)

lemma bit_macro_set_const:
  "n < 32 \<Longrightarrow> bit (macro_set_bit (r::u32) n 1) i \<longleftrightarrow> i = n \<or> bit r i"
  "n < 32 \<Longrightarrow> bit (macro_set_bit (r::u32) n 0) i \<longleftrightarrow> i \<noteq> n \<and> bit r i"
  by (auto simp: macro_set_bit_def bit_simps dest: bit_imp_le_length)

lemma macro_get_bit_eq_1: "n < LENGTH('a) \<Longrightarrow> macro_get_bit (w::'a::len word) n = 1 \<longleftrightarrow> bit w n"
proof -
  assume n: "n < LENGTH('a)"
  have "bit (macro_get_bit w n) i \<longleftrightarrow> i = 0 \<and> bit w n" for i
    using n by (auto simp: macro_get_bit_def bit_simps dest: bit_imp_le_length)
  then show ?thesis
    by (auto simp: bit_eq_iff bit_1_iff)
qed

lemma bit_flags_dump:
  "bit (flags_dump f) i \<longleftrightarrow> (let m = materialize_lazy f in
     f_id m \<and> i = 21 \<or> f_vip m \<and> i = 20 \<or> f_vif m \<and> i = 19 \<or> f_ac m \<and> i = 18 \<or>
     f_vm m \<and> i = 17 \<or> f_rf m \<and> i = 16 \<or> f_nt m \<and> i = 14 \<or> f_iopl2 m \<and> i = 13 \<or>
     f_iopl1 m \<and> i = 12 \<or> f_of m \<and> i = 11 \<or> f_df m \<and> i = 10 \<or> f_if m \<and> i = 9 \<or>
     f_tf m \<and> i = 8 \<or> f_sf m \<and> i = 7 \<or> f_zf m \<and> i = 6 \<or> f_af m \<and> i = 4 \<or>
     f_pf m \<and> i = 2 \<or> i = 1 \<or> f_cf m \<and> i = 0)"
  unfolding flags_dump_def Let_def
  by (cases "i = 15") (simp_all add: bit_macro_set_if bit_macro_set_const)

text \<open>
  C18: loading a dumped EFLAGS image restores the flags: every flag of the result is the one that
  was dumped, with no lazy computation pending, whatever the flags were before the load.
\<close>

theorem flags_load_dump: "flags_load (flags_dump f) g = clear_lazy (materialize_lazy f)"
  by (simp add: flags_load_def macro_get_bit_eq_1 bit_flags_dump Let_def clear_lazy_def)

lemma bit_dump_load:
  "bit (flags_dump (flags_load w f)) i \<longleftrightarrow>
     bit w 21 \<and> i = 21 \<or> bit w 20 \<and> i = 20 \<or> bit w 19 \<and> i = 19 \<or> bit w 18 \<and> i = 18 \<or>
     bit w 17 \<and> i = 17 \<or> bit w 16 \<and> i = 16 \<or> bit w 14 \<and> i = 14 \<or> bit w 13 \<and> i = 13 \<or>
     bit w 12 \<and> i = 12 \<or> bit w 11 \<and> i = 11 \<or> bit w 10 \<and> i = 10 \<or> bit w 9 \<and> i = 9 \<or>
     bit w 8 \<and> i = 8 \<or> bit w 7 \<and> i = 7 \<or> bit w 6 \<and> i = 6 \<or> bit w 4 \<and> i = 4 \<or>
     bit w 2 \<and> i = 2 \<or> i = 1 \<or> bit w 0 \<and> i = 0"
proof -
  have "materialize_lazy (flags_load w f) = flags_load w f"
    by (simp add: materialize_lazy_def flags_load_def clear_lazy_def lazy_flags_default_def)
  then show ?thesis
    by (simp add: bit_flags_dump flags_load_def macro_get_bit_eq_1)
qed

lemma less_32_cases:
  "i < 32 \<Longrightarrow> i \<in> {0, 1, 2, 3, 4, 5, 6, 7, 8, 9, 10, 11, 12, 13, 14, 15} \<union>
     {16, 17, 18, 19, 20, 21, 22, 23, 24, 25, 26, 27, 28, 29, 30, 31 :: nat}"
  by (simp, arith)

text \<open>
  dumping what was loaded from an image gives the image back, except that the reserved bits
  3, 5, 15 and 22 to 31 read as zero and bit 1 reads as one.
\<close>

theorem flags_dump_load: "flags_dump (flags_load w f) = (w AND 0x3f7fd5) OR 2"
proof (rule bit_word_eqI)
  fix i assume "i < LENGTH(32)"
  then have "i < 32" by simp
  then show "bit (flags_dump (flags_load w f)) i = bit ((w AND 0x3f7fd5) OR 2) i"
    unfolding bit_dump_load
    by (elim less_32_cases [THEN UnE] insertE) (simp_all add: bit_simps)
qed

end
