(* ===== verification/Flags_Arith.thy ===== *)
theory Flags_Arith
  imports Flags
begin

section \<open>Arithmetic operations on the flags\<close>

text \<open>
  The operations of \<^verbatim>\<open>flags.rs\<close> that compute a sum, a difference, an increment, a decrement,
  a negation or a signed product at operand width 64, 32, 16 or 8 and leave the status flags
  of the operation behind. The source has one method per width, and so has the model.
\<close>

subsection \<open>Addition and subtraction\<close>

definition add64 :: "u64 \<Rightarrow> u64 \<Rightarrow> bool \<Rightarrow> bool \<Rightarrow> flags \<Rightarrow> u64 \<times> flags" where
  "add64 value1 value2 cf include_carry f =
     (let c = (if include_carry then of_bool cf else 0);
          result = value1 + value2 + c
      in (result, set_lazy_oszapc64 result (add_cout_vec value1 value2 result) f))"

definition add32 :: "u32 \<Rightarrow> u32 \<Rightarrow> bool \<Rightarrow> bool \<Rightarrow> flags \<Rightarrow> u64 \<times> flags" where
  "add32 value1 value2 cf include_carry f =
     (let c = (if include_carry then of_bool cf else 0);
          result = value1 + value2 + c;
          carries = add_cout_vec (ucast value1) (ucast value2) (ucast result)
      in (ucast result, set_lazy_oszapc32 result (ucast carries) f))"

definition add16 :: "u16 \<Rightarrow> u16 \<Rightarrow> bool \<Rightarrow> bool \<Rightarrow> flags \<Rightarrow> u64 \<times> flags" where
  "add16 value1 value2 cf include_carry f =
     (let c = (if include_carry then of_bool cf else 0);
          result = value1 + value2 + c;
          carries = add_cout_vec (ucast value1) (ucast value2) (ucast result)
      in (ucast result, set_lazy_oszapc16 result (ucast carries) f))"

definition add8 :: "u8 \<Rightarrow> u8 \<Rightarrow> bool \<Rightarrow> bool \<Rightarrow> flags \<Rightarrow> u64 \<times> flags" where
  "add8 value1 value2 cf include_carry f =
     (let c = (if include_carry then of_bool cf else 0);
          result = value1 + value2 + c;
          carries = add_cout_vec (ucast value1) (ucast value2) (ucast result)
      in (ucast result, set_lazy_oszapc8 result (ucast carries) f))"

definition sub64_borrow :: "u64 \<Rightarrow> u64 \<Rightarrow> bool \<Rightarrow> flags \<Rightarrow> u64 \<times> flags" where
  "sub64_borrow value1 value2 borrow f =
     (let result = value1 - value2 - of_bool borrow
      in (result, set_lazy_oszapc64 result (sub_cout_vec value1 value2 result) f))"

definition sub32_borrow :: "u64 \<Rightarrow> u64 \<Rightarrow> bool \<Rightarrow> flags \<Rightarrow> u64 \<times> flags" where
  "sub32_borrow value1 value2 borrow f =
     (let value1 = (ucast value1 :: u32);
          value2 = (ucast value2 :: u32);
          result = value1 - value2 - of_bool borrow;
          carries = sub_cout_vec (ucast value1) (ucast value2) (ucast result)
      in (ucast result, set_lazy_oszapc32 result (ucast carries) f))"

definition sub16_borrow :: "u64 \<Rightarrow> u64 \<Rightarrow> bool \<Rightarrow> flags \<Rightarrow> u64 \<times> flags" where
  "sub16_borrow value1 value2 borrow f =
     (let value1 = (ucast value1 :: u16);
          value2 = (ucast value2 :: u16);
          result = value1 - value2 - of_bool borrow;
          carries = sub_cout_vec (ucast value1) (ucast value2) (ucast result)
      in (ucast result, set_lazy_oszapc16 result (ucast carries) f))"

definition sub8_borrow :: "u64 \<Rightarrow> u64 \<Rightarrow> bool \<Rightarrow> flags \<Rightarrow> u64 \<times> flags" where
  "sub8_borrow value1 value2 borrow f =
     (let value1 = (ucast value1 :: u8);
          value2 = (ucast value2 :: u8);
          result = value1 - value2 - of_bool borrow;
          carries = sub_cout_vec (ucast value1) (ucast value2) (ucast result)
      in (ucast result, set_lazy_oszapc8 result (ucast carries) f))"

definition sub64 :: "u64 \<Rightarrow> u64 \<Rightarrow> flags \<Rightarrow> u64 \<times> flags" where
  "sub64 value1 value2 f =
     (let r = value1 - value2
      in (r, set_lazy_oszapc64 r (sub_cout_vec value1 value2 r) f))"

definition sub32 :: "u64 \<Rightarrow> u64 \<Rightarrow> flags \<Rightarrow> u64 \<times> flags" where
  "sub32 value1 value2 f =
     (let r = ucast value1 - ucast value2 :: u32;
          value1 = (ucast value1 :: u32);
          value2 = (ucast value2 :: u32);
          carries = sub_cout_vec (ucast value1) (ucast value2) (ucast r)
      in (ucast r, set_lazy_oszapc32 r (ucast carries) f))"

definition sub16 :: "u64 \<Rightarrow> u64 \<Rightarrow> flags \<Rightarrow> u64 \<times> flags" where
  "sub16 value1 value2 f =
     (let r = ucast value1 - ucast value2 :: u16;
          value1 = (ucast value1 :: u16);
          value2 = (ucast value2 :: u16);
          carries = sub_cout_vec (ucast value1) (ucast value2) (ucast r)
      in (ucast r, set_lazy_oszapc16 r (ucast carries) f))"

definition sub8 :: "u64 \<Rightarrow> u64 \<Rightarrow> flags \<Rightarrow> u64 \<times> flags" where
  "sub8 value1 value2 f =
     (let r = ucast value1 - ucast value2 :: u8;
          value1 = (ucast value1 :: u8);
          value2 = (ucast value2 :: u8);
          carries = sub_cout_vec (ucast value1) (ucast value2) (ucast r)
      in (ucast r, set_lazy_oszapc8 r (ucast carries) f))"

subsection \<open>Increment, decrement, negation\<close>

definition set_kind_none :: "flags \<Rightarrow> flags" where
  "set_kind_none f = f\<lparr>f_lazy := (f_lazy f)\<lparr>lz_kind := LazyNone\<rparr>\<rparr>"

definition inc64 :: "u64 \<Rightarrow> flags \<Rightarrow> u64 \<times> flags" where
  "inc64 value f =
     (let result = value + 1;
          cf = flags_cf f
      in (result, (set_kind_none f)
           \<lparr>f_cf := cf, f_af := (value AND 0xf = 0xf), f_of := (value = 0x7fffffffffffffff),
            f_zf := (result = 0), f_sf := (sint result < 0),
            f_pf := calc_pf_value (ucast result)\<rparr>))"

definition inc32 :: "u64 \<Rightarrow> flags \<Rightarrow> u64 \<times> flags" where
  "inc32 value f =
     (let value = value AND 0xffffffff;
          result = (value + 1) AND 0xffffffff;
          cf = flags_cf f
      in (result, (set_kind_none f)
           \<lparr>f_cf := cf, f_af := (value AND 0xf = 0xf), f_of := (value = 0x7fffffff),
            f_zf := (result = 0), f_sf := (sint (ucast result :: u32) < 0),
            f_pf := calc_pf_value (ucast result)\<rparr>))"

definition inc16 :: "u64 \<Rightarrow> flags \<Rightarrow> u64 \<times> flags" where
  "inc16 value f =
     (let value = value AND 0xffff;
          result = (value + 1) AND 0xffff;
          cf = flags_cf f
      in (result, (set_kind_none f)
           \<lparr>f_cf := cf, f_af := (value AND 0xf = 0xf), f_of := (value = 0x7fff),
            f_zf := (result = 0), f_sf := (sint (ucast result :: u16) < 0),
            f_pf := calc_pf_value (ucast result)\<rparr>))"

definition inc8 :: "u64 \<Rightarrow> flags \<Rightarrow> u64 \<times> flags" where
  "inc8 value f =
     (let value = value AND 0xff;
          result = (value + 1) AND 0xff;
          cf = flags_cf f
      in (result, (set_kind_none f)
           \<lparr>f_cf := cf, f_af := (value AND 0xf = 0xf), f_of := (value = 0x7f),
            f_zf := (result = 0), f_sf := (sint (ucast result :: u8) < 0),
            f_pf := calc_pf_value (ucast result)\<rparr>))"

definition dec64 :: "u64 \<Rightarrow> flags \<Rightarrow> u64 \<times> flags" where
  "dec64 value f =
     (let result = value - 1;
          cf = flags_cf f
      in (result, (set_kind_none f)
           \<lparr>f_cf := cf, f_af := (value AND 0xf = 0), f_of := (value = 0x8000000000000000),
            f_zf := (result = 0), f_sf := (sint result < 0),
            f_pf := calc_pf_value (ucast result)\<rparr>))"

definition dec32 :: "u64 \<Rightarrow> flags \<Rightarrow> u64 \<times> flags" where
  "dec32 value f =
     (let value = value AND 0xffffffff;
          result = (value - 1) AND 0xffffffff;
          cf = flags_cf f
      in (result, (set_kind_none f)
           \<lparr>f_cf := cf, f_af := (value AND 0xf = 0), f_of := (value = 0x80000000),
            f_zf := (result = 0), f_sf := (sint (ucast result :: u32) < 0),
            f_pf := calc_pf_value (ucast result)\<rparr>))"

definition dec16 :: "u64 \<Rightarrow> flags \<Rightarrow> u64 \<times> flags" where
  "dec16 value f =
     (let value = value AND 0xffff;
          result = (value - 1) AND 0xffff;
          cf = flags_cf f
      in (result, (set_kind_none f)
           \<lparr>f_cf := cf, f_af := (value AND 0xf = 0), f_of := (value = 0x8000),
            f_zf := (result = 0), f_sf := (sint (ucast result :: u16) < 0),
            f_pf := calc_pf_value (ucast result)\<rparr>))"

definition dec8 :: "u64 \<Rightarrow> flags \<Rightarrow> u64 \<times> flags" where
  "dec8 value f =
     (let value = value AND 0xff;
          result = (value - 1) AND 0xff;
          cf = flags_cf f
      in (result, (set_kind_none f)
           \<lparr>f_cf := cf, f_af := (value AND 0xf = 0), f_of := (value = 0x80),
            f_zf := (result = 0), f_sf := (sint (ucast result :: u8) < 0),
            f_pf := calc_pf_value (ucast result)\<rparr>))"

definition neg64 :: "u64 \<Rightarrow> flags \<Rightarrow> u64 \<times> flags" where
  "neg64 value f =
     (let f = f\<lparr>f_of := (value = 0x8000000000000000), f_cf := (value \<noteq> 0),
                f_af := (value AND 0x0f \<noteq> 0)\<rparr>;
          ival = value;
          ival = (if ival \<noteq> 0x8000000000000000 then - ival else ival);
          res = ival;
          f = calc_flags res 64 f;
          f = calc_pf (ucast res) f
      in (res, f))"

definition neg32 :: "u64 \<Rightarrow> flags \<Rightarrow> u64 \<times> flags" where
  "neg32 value f =
     (let f = f\<lparr>f_of := (value = 0x80000000), f_cf := (value AND 0xffffffff \<noteq> 0),
                f_af := (value AND 0x0f \<noteq> 0)\<rparr>;
          ival = (ucast value :: u32);
          ival = (if ival \<noteq> 0x80000000 then - ival else ival);
          res = ucast ival;
          f = calc_flags res 32 f;
          f = calc_pf (ucast res) f
      in (res, f))"

definition neg16 :: "u64 \<Rightarrow> flags \<Rightarrow> u64 \<times> flags" where
  "neg16 value f =
     (let f = f\<lparr>f_of := (value = 0x8000), f_cf := (value AND 0xffff \<noteq> 0),
                f_af := (value AND 0x0f \<noteq> 0)\<rparr>;
          ival = (ucast value :: u16);
          ival = (if ival \<noteq> 0x8000 then - ival else ival);
          res = ucast ival;
          f = calc_flags res 16 f;
          f = calc_pf (ucast res) f
      in (res, f))"

definition neg8 :: "u64 \<Rightarrow> flags \<Rightarrow> u64 \<times> flags" where
  "neg8 value f =
     (let f = f\<lparr>f_of := (value = 0x80), f_cf := (value AND 0xff \<noteq> 0),
                f_af := (value AND 0x0f \<noteq> 0)\<rparr>;
          ival = (ucast value :: u8);
          ival = (if ival \<noteq> 0x80 then - ival else ival);
          res = ucast ival;
          f = calc_flags res 8 f;
          f = calc_pf (ucast res) f
      in (res, f))"

subsection \<open>Signed product with a truncated result\<close>

definition set_imul_overflow :: "bool \<Rightarrow> flags \<Rightarrow> flags" where
  "set_imul_overflow overflow f = f\<lparr>f_cf := overflow, f_of := overflow\<rparr>"

definition imul64p2 :: "u64 \<Rightarrow> u64 \<Rightarrow> flags \<Rightarrow> u64 \<times> flags" where
  "imul64p2 value0 value1 f =
     (let full = (scast value0 * scast value1 :: u128);
          res = (ucast full :: u64)
      in (res, set_imul_overflow (full \<noteq> scast res) f))"

definition imul32p2 :: "u64 \<Rightarrow> u64 \<Rightarrow> flags \<Rightarrow> u64 \<times> flags" where
  "imul32p2 value0 value1 f =
     (let full = (scast (ucast value0 :: u32) * scast (ucast value1 :: u32) :: u64);
          res = (ucast full :: u32)
      in (ucast res, set_imul_overflow (full \<noteq> scast res) f))"

definition imul16p2 :: "u64 \<Rightarrow> u64 \<Rightarrow> flags \<Rightarrow> u64 \<times> flags" where
  "imul16p2 value0 value1 f =
     (let full = (scast (ucast value0 :: u16) * scast (ucast value1 :: u16) :: u32);
          res = (ucast full :: u16)
      in (ucast res, set_imul_overflow (full \<noteq> scast res) f))"

definition imul8p2 :: "u64 \<Rightarrow> u64 \<Rightarrow> flags \<Rightarrow> u64 \<times> flags" where
  "imul8p2 value0 value1 f =
     (let full = (scast (ucast value0 :: u8) * scast (ucast value1 :: u8) :: u16);
          res = (ucast full :: u8)
      in (ucast res, set_imul_overflow (full \<noteq> scast res) f))"

subsection \<open>Specification\<close>

text \<open>
  The flags the processor manual gives for a sum, a difference, an increment, a decrement, a
  negation and a signed product, stated over the unbounded values of the operands: carry and
  borrow as comparisons of unsigned values, overflow as the signed value leaving the range of
  the width, the auxiliary carry as the carry out of the low nibble.
\<close>

definition add_status :: "'a::len word \<Rightarrow> 'a word \<Rightarrow> bool \<Rightarrow> flags \<Rightarrow> bool" where
  "add_status a b c f \<longleftrightarrow>
     status (2 ^ LENGTH('a) \<le> unat a + unat b + of_bool c)
       (sint a + sint b + of_bool c \<notin> {- (2 ^ (LENGTH('a) - 1)) ..< 2 ^ (LENGTH('a) - 1)})
       (16 \<le> unat a mod 16 + unat b mod 16 + of_bool c) (a + b + of_bool c) f"

definition sub_status :: "'a::len word \<Rightarrow> 'a word \<Rightarrow> bool \<Rightarrow> flags \<Rightarrow> bool" where
  "sub_status a b c f \<longleftrightarrow>
     status (unat a < unat b + of_bool c)
       (sint a - sint b - of_bool c \<notin> {- (2 ^ (LENGTH('a) - 1)) ..< 2 ^ (LENGTH('a) - 1)})
       (unat a mod 16 < unat b mod 16 + of_bool c) (a - b - of_bool c) f"

definition computes_add ::
    "'a::len word \<Rightarrow> 'a word \<Rightarrow> bool \<Rightarrow> flags \<Rightarrow> u64 \<times> flags \<Rightarrow> bool" where
  "computes_add a b c f out \<longleftrightarrow>
     fst out = ucast (a + b + of_bool c) \<and> add_status a b c (snd out) \<and>
     control_flags (snd out) = control_flags f"

definition computes_sub ::
    "'a::len word \<Rightarrow> 'a word \<Rightarrow> bool \<Rightarrow> flags \<Rightarrow> u64 \<times> flags \<Rightarrow> bool" where
  "computes_sub a b c f out \<longleftrightarrow>
     fst out = ucast (a - b - of_bool c) \<and> sub_status a b c (snd out) \<and>
     control_flags (snd out) = control_flags f"

definition computes_inc :: "'a::len word \<Rightarrow> flags \<Rightarrow> u64 \<times> flags \<Rightarrow> bool" where
  "computes_inc v f out \<longleftrightarrow>
     fst out = ucast (v + 1) \<and>
     status (flags_cf f) (sint v + 1 \<notin> {- (2 ^ (LENGTH('a) - 1)) ..< 2 ^ (LENGTH('a) - 1)})
       (16 \<le> unat v mod 16 + 1) (v + 1) (snd out) \<and>
     control_flags (snd out) = control_flags f"

definition computes_dec :: "'a::len word \<Rightarrow> flags \<Rightarrow> u64 \<times> flags \<Rightarrow> bool" where
  "computes_dec v f out \<longleftrightarrow>
     fst out = ucast (v - 1) \<and>
     status (flags_cf f) (sint v - 1 \<notin> {- (2 ^ (LENGTH('a) - 1)) ..< 2 ^ (LENGTH('a) - 1)})
       (unat v mod 16 < 1) (v - 1) (snd out) \<and>
     control_flags (snd out) = control_flags f"

definition computes_neg :: "'a::len word \<Rightarrow> flags \<Rightarrow> u64 \<times> flags \<Rightarrow> bool" where
  "computes_neg v f out \<longleftrightarrow>
     fst out = ucast (- v) \<and> sub_status 0 v False (snd out) \<and>
     control_flags (snd out) = control_flags (f\<lparr>f_tf := False\<rparr>)"

definition computes_imul :: "'a::len word \<Rightarrow> 'a word \<Rightarrow> flags \<Rightarrow> u64 \<times> flags \<Rightarrow> bool" where
  "computes_imul a b f out \<longleftrightarrow>
     (let ovf = (sint a * sint b \<notin> {- (2 ^ (LENGTH('a) - 1)) ..< 2 ^ (LENGTH('a) - 1)})
      in out = (ucast (a * b), f\<lparr>f_cf := ovf, f_of := ovf\<rparr>))"

subsection \<open>Addition and subtraction\<close>

lemma add_status_carries:
  fixes a b :: "'a::len word"
  assumes n: "LENGTH('a) = Suc (Suc n)" and "2 < n"
  shows "add_status a b c f =
    status (carry_at (Suc (Suc n)) a b c) (carry_at (Suc (Suc n)) a b c \<noteq> carry_at (Suc n) a b c)
      (carry_at 4 a b c) (a + b + of_bool c) f"
  using signed_add_overflow_iff [of "Suc n" a b c] carry_at_length [of a b c] n
  by (simp add: add_status_def carry_at_def)

lemma sub_status_borrows:
  fixes a b :: "'a::len word"
  assumes n: "LENGTH('a) = Suc (Suc n)" and "2 < n"
  shows "sub_status a b c f =
    status (borrow_at (Suc (Suc n)) a b c) (borrow_at (Suc (Suc n)) a b c \<noteq> borrow_at (Suc n) a b c)
      (borrow_at 4 a b c) (a - b - of_bool c) f"
  using signed_sub_overflow_iff [of "Suc n" a b c] borrow_at_length [of a b c] n
  by (simp add: sub_status_def borrow_at_def)

lemma bit_add_cout_vec:
  fixes a b :: "'a::len word"
  assumes "n < LENGTH('a)" "LENGTH('a) \<le> 64"
  shows "bit (add_cout_vec (ucast a) (ucast b) (ucast (a + b + of_bool c))) n = carry_at (Suc n) a b c"
  using assms unfolding bit_add_cout [OF assms(1), symmetric] add_cout_vec_def
  by (auto simp: bit_simps simp del: of_bool_eq_1_iff of_bool_eq_0_iff)

lemma bit_sub_cout_vec:
  fixes a b :: "'a::len word"
  assumes "n < LENGTH('a)" "LENGTH('a) \<le> 64"
  shows "bit (sub_cout_vec (ucast a) (ucast b) (ucast (a - b - of_bool c))) n = borrow_at (Suc n) a b c"
  using assms unfolding bit_sub_cout [OF assms(1), symmetric] sub_cout_vec_def
  by (auto simp: bit_simps)

lemma add_status64:
  "add_status a b c (set_lazy_oszapc64 (a + b + of_bool c) (add_cout_vec a b (a + b + of_bool c)) f)"
  using add_status_carries [where 'a = 64, of 62 a b c] bit_add_cout_vec [where 'a = 64, of _ a b c]
    status_lazy64 [of "add_cout_vec a b (a + b + of_bool c)"]
  by (simp add: bit_simps)

lemma add_status32:
  "add_status a b c (set_lazy_oszapc32 (a + b + of_bool c)
     (ucast (add_cout_vec (ucast a) (ucast b) (ucast (a + b + of_bool c)))) f)"
  using add_status_carries [where 'a = 32, of 30 a b c] bit_add_cout_vec [where 'a = 32, of _ a b c]
    status_lazy32 [of "ucast (add_cout_vec (ucast a) (ucast b) (ucast (a + b + of_bool c)))"]
  by (simp add: bit_simps)

lemma add_status16:
  "add_status a b c (set_lazy_oszapc16 (a + b + of_bool c)
     (ucast (add_cout_vec (ucast a) (ucast b) (ucast (a + b + of_bool c)))) f)"
  using add_status_carries [where 'a = 16, of 14 a b c] bit_add_cout_vec [where 'a = 16, of _ a b c]
    status_lazy16 [of "ucast (add_cout_vec (ucast a) (ucast b) (ucast (a + b + of_bool c)))"]
  by (simp add: bit_simps)

lemma add_status8:
  "add_status a b c (set_lazy_oszapc8 (a + b + of_bool c)
     (ucast (add_cout_vec (ucast a) (ucast b) (ucast (a + b + of_bool c)))) f)"
  using add_status_carries [where 'a = 8, of 6 a b c] bit_add_cout_vec [where 'a = 8, of _ a b c]
    status_lazy8 [of "ucast (add_cout_vec (ucast a) (ucast b) (ucast (a + b + of_bool c)))"]
  by (simp add: bit_simps)

lemma sub_status64:
  "sub_status a b c (set_lazy_oszapc64 (a - b - of_bool c) (sub_cout_vec a b (a - b - of_bool c)) f)"
  using sub_status_borrows [where 'a = 64, of 62 a b c] bit_sub_cout_vec [where 'a = 64, of _ a b c]
    status_lazy64 [of "sub_cout_vec a b (a - b - of_bool c)"]
  by (simp add: bit_simps)

lemma sub_status32:
  "sub_status a b c (set_lazy_oszapc32 (a - b - of_bool c)
     (ucast (sub_cout_vec (ucast a) (ucast b) (ucast (a - b - of_bool c)))) f)"
  using sub_status_borrows [where 'a = 32, of 30 a b c] bit_sub_cout_vec [where 'a = 32, of _ a b c]
    status_lazy32 [of "ucast (sub_cout_vec (ucast a) (ucast b) (ucast (a - b - of_bool c)))"]
  by (simp add: bit_simps)

lemma sub_status16:
  "sub_status a b c (set_lazy_oszapc16 (a - b - of_bool c)
     (ucast (sub_cout_vec (ucast a) (ucast b) (ucast (a - b - of_bool c)))) f)"
  using sub_status_borrows [where 'a = 16, of 14 a b c] bit_sub_cout_vec [where 'a = 16, of _ a b c]
    status_lazy16 [of "ucast (sub_cout_vec (ucast a) (ucast b) (ucast (a - b - of_bool c)))"]
  by (simp add: bit_simps)

lemma sub_status8:
  "sub_status a b c (set_lazy_oszapc8 (a - b - of_bool c)
     (ucast (sub_cout_vec (ucast a) (ucast b) (ucast (a - b - of_bool c)))) f)"
  using sub_status_borrows [where 'a = 8, of 6 a b c] bit_sub_cout_vec [where 'a = 8, of _ a b c]
    status_lazy8 [of "ucast (sub_cout_vec (ucast a) (ucast b) (ucast (a - b - of_bool c)))"]
  by (simp add: bit_simps)

lemmas arith_status =
  add_status64 add_status32 add_status16 add_status8
  sub_status64 sub_status32 sub_status16 sub_status8

text \<open>
  C8: an addition, with or without carry, at all four widths: the result is the sum modulo
  the width, CF says that the unsigned sum with the carry does not fit, OF that the signed sum
  does not fit, AF that the low nibbles carry, ZF, SF and PF describe the result, and no other
  flag changes. The flags are read through the lazy representation.
\<close>

theorem add_flags_correct:
  "computes_add a64 b64 (inc \<and> cf) f (add64 a64 b64 cf inc f) \<and>
   computes_add a32 b32 (inc \<and> cf) f (add32 a32 b32 cf inc f) \<and>
   computes_add a16 b16 (inc \<and> cf) f (add16 a16 b16 cf inc f) \<and>
   computes_add a8 b8 (inc \<and> cf) f (add8 a8 b8 cf inc f)"
  using arith_status(1-4) [where c = "inc \<and> cf" and f = f]
  by (cases inc) (simp_all add: computes_add_def add64_def add32_def add16_def add8_def Let_def)

text \<open>
  C9: a subtraction with borrow at all four widths: the result is the difference modulo the
  width, CF says that a borrow leaves the width, OF that the signed difference does not fit, AF
  that the low nibble borrows, ZF, SF and PF describe the result, and no other flag changes.
\<close>

theorem sub_borrow_flags_correct:
  "computes_sub a b c f (sub64_borrow a b c f) \<and>
   computes_sub (ucast a :: u32) (ucast b) c f (sub32_borrow a b c f) \<and>
   computes_sub (ucast a :: u16) (ucast b) c f (sub16_borrow a b c f) \<and>
   computes_sub (ucast a :: u8) (ucast b) c f (sub8_borrow a b c f)"
  using arith_status(5-8) [where c = c and f = f]
  by (simp add: computes_sub_def sub64_borrow_def sub32_borrow_def sub16_borrow_def
      sub8_borrow_def Let_def)

text \<open>
  the subtraction and comparison without borrow computes the same at all four widths.
\<close>

theorem sub_flags_correct:
  "computes_sub a b False f (sub64 a b f) \<and>
   computes_sub (ucast a :: u32) (ucast b) False f (sub32 a b f) \<and>
   computes_sub (ucast a :: u16) (ucast b) False f (sub16 a b f) \<and>
   computes_sub (ucast a :: u8) (ucast b) False f (sub8 a b f)"
  using arith_status(5-8) [where c = False and f = f]
  by (simp add: computes_sub_def sub64_def sub32_def sub16_def sub8_def Let_def)

subsection \<open>Increment, decrement, negation\<close>

lemma status_inc_fields:
  "status cf ovf af r (set_kind_none f \<lparr>f_cf := cf', f_af := af', f_of := ovf', f_zf := zf',
       f_sf := sf', f_pf := pf'\<rparr>) \<longleftrightarrow>
     cf' = cf \<and> ovf' = ovf \<and> af' = af \<and> zf' = (r = 0) \<and> sf' = (sint r < 0) \<and> pf' = parity_even r"
  "control_flags (set_kind_none f \<lparr>f_cf := cf', f_af := af', f_of := ovf', f_zf := zf',
       f_sf := sf', f_pf := pf'\<rparr>) = control_flags f"
  by (simp_all add: status_def control_flags_def set_kind_none_def flags_cf_def flags_of_def
      flags_zf_def flags_sf_def flags_pf_def flags_af_def)

lemmas inc_dec_simps = computes_inc_def computes_dec_def Let_def status_inc_fields low_nibble

text \<open>
  an increment at all four widths keeps CF and otherwise leaves the flags of adding one.
\<close>

theorem inc_flags_correct:
  "computes_inc v f (inc64 v f) \<and> computes_inc (ucast v :: u32) f (inc32 v f) \<and>
   computes_inc (ucast v :: u16) f (inc16 v f) \<and> computes_inc (ucast v :: u8) f (inc8 v f)"
  using sint_max_iff(1) [of v]
    sint_max_iff(2) [of "ucast v"] ucast_u64_eq_iff [of "ucast v :: u32" "0x7fffffff"]
    sint_max_iff(3) [of "ucast v"] ucast_u64_eq_iff [of "ucast v :: u16" "0x7fff"]
    sint_max_iff(4) [of "ucast v"] ucast_u64_eq_iff [of "ucast v :: u8" "0x7f"]
  by (simp add: inc_dec_simps ucasts inc64_def inc32_def inc16_def inc8_def)

text \<open>
  a decrement at all four widths keeps CF and otherwise leaves the flags of subtracting one.
\<close>

theorem dec_flags_correct:
  "computes_dec v f (dec64 v f) \<and> computes_dec (ucast v :: u32) f (dec32 v f) \<and>
   computes_dec (ucast v :: u16) f (dec16 v f) \<and> computes_dec (ucast v :: u8) f (dec8 v f)"
  using sint_min_iff(1) [of v]
    sint_min_iff(2) [of "ucast v"] ucast_u64_eq_iff [of "ucast v :: u32" "0x80000000"]
    sint_min_iff(3) [of "ucast v"] ucast_u64_eq_iff [of "ucast v :: u16" "0x8000"]
    sint_min_iff(4) [of "ucast v"] ucast_u64_eq_iff [of "ucast v :: u8" "0x80"]
  by (simp add: inc_dec_simps ucasts dec64_def dec32_def dec16_def dec8_def)

lemma neg_status:
  "sub_status 0 (v64::u64) False f \<longleftrightarrow>
     status (v64 \<noteq> 0) (v64 = 0x8000000000000000) (0 < unat v64 mod 16) (- v64) f"
  "sub_status 0 (v32::u32) False f \<longleftrightarrow>
     status (v32 \<noteq> 0) (v32 = 0x80000000) (0 < unat v32 mod 16) (- v32) f"
  "sub_status 0 (v16::u16) False f \<longleftrightarrow>
     status (v16 \<noteq> 0) (v16 = 0x8000) (0 < unat v16 mod 16) (- v16) f"
  "sub_status 0 (v8::u8) False f \<longleftrightarrow>
     status (v8 \<noteq> 0) (v8 = 0x80) (0 < unat v8 mod 16) (- v8) f"
  using sint_minus_iff(1) [of v64] sint_minus_iff(2) [of v32] sint_minus_iff(3) [of v16]
    sint_minus_iff(4) [of v8]
  by (simp_all add: sub_status_def unat_gt_0)

lemma neg_min:
  "(if v64 \<noteq> 0x8000000000000000 then - v64 else v64) = - (v64 :: u64)"
  "(if v32 \<noteq> 0x80000000 then - v32 else v32) = - (v32 :: u32)"
  "(if v16 \<noteq> 0x8000 then - v16 else v16) = - (v16 :: u16)"
  "(if v8 \<noteq> 0x80 then - v8 else v8) = - (v8 :: u8)"
  by simp_all

lemmas neg_simps = computes_neg_def neg_status calc_flags_def Let_def set_lazy_from_flags_def

lemma neg64_computes: "computes_neg v f (neg64 v f)"
  unfolding neg64_def neg_simps neg_min low_nibble_pos
  by (simp add: status_calc_pf status_encoded_widths)

lemma neg32_computes: "computes_neg v f (neg32 (ucast (v::u32)) f)"
  using ucast_u64_eq_iff [of v "0x80000000"] status_encoded_widths(2) [of _ _ _ "ucast (- v)"]
  unfolding neg32_def neg_simps neg_min low_nibble_pos
  by (simp add: ucasts status_calc_pf)

lemma neg16_computes: "computes_neg v f (neg16 (ucast (v::u16)) f)"
  using ucast_u64_eq_iff [of v "0x8000"] status_encoded_widths(3) [of _ _ _ "ucast (- v)"]
  unfolding neg16_def neg_simps neg_min low_nibble_pos
  by (simp add: ucasts status_calc_pf)

lemma neg8_computes: "computes_neg v f (neg8 (ucast (v::u8)) f)"
  using ucast_u64_eq_iff [of v "0x80"] status_encoded_widths(4) [of _ _ _ "ucast (- v)"]
  unfolding neg8_def neg_simps neg_min low_nibble_pos
  by (simp add: ucasts status_calc_pf)

text \<open>
  a negation at all four widths gives the result and the flags of subtracting the value from
  zero; of the other flags only TF changes, which is cleared.
\<close>

theorem neg_flags_correct:
  "computes_neg v64 f (neg64 v64 f) \<and> computes_neg (v32 :: u32) f (neg32 (ucast v32) f) \<and>
   computes_neg (v16 :: u16) f (neg16 (ucast v16) f) \<and> computes_neg (v8 :: u8) f (neg8 (ucast v8) f)"
  by (simp add: neg64_computes neg32_computes neg16_computes neg8_computes)

subsection \<open>Signed product\<close>

text \<open>
  the truncating signed product at all four widths: the result is the product modulo the
  width, CF and OF say that the exact signed product does not fit, and nothing else changes.
\<close>

theorem imul_flags_correct:
  "computes_imul a b f (imul64p2 a b f) \<and>
   computes_imul (ucast a :: u32) (ucast b) f (imul32p2 a b f) \<and>
   computes_imul (ucast a :: u16) (ucast b) f (imul16p2 a b f) \<and>
   computes_imul (ucast a :: u8) (ucast b) f (imul8p2 a b f)"
  unfolding computes_imul_def imul64p2_def imul32p2_def imul16p2_def imul8p2_def
    set_imul_overflow_def Let_def
  using full_product(2,3) [where 'a = 64 and 'b = 128, of a b]
    full_product(2,3) [where 'a = 32 and 'b = 64, of "ucast a" "ucast b"]
    full_product(2,3) [where 'a = 16 and 'b = 32, of "ucast a" "ucast b"]
    full_product(2,3) [where 'a = 8 and 'b = 16, of "ucast a" "ucast b"]
  by simp

end
