(* ===== verification/Flags_Shift.thy ===== *)
theory Flags_Shift
  imports Flags
begin

section \<open>Shifts on the flags\<close>

text \<open>
  The shift operations of \<^verbatim>\<open>flags.rs\<close>, \<open>shl\<close>, \<open>sal\<close>, \<open>shr\<close> and \<open>sar\<close>, with one method per
  width. The methods whose names end in \<open>_bug\<close> and \<open>_overflow\<close> are superseded variants that
  nothing calls; they are not modelled.

  The count is masked before it is used, so every shift amount below is less than 64, and the
  plain \<open>push_bit\<close> and \<open>drop_bit\<close> are Rust's \<open><<\<close> and \<open>>>\<close>.
\<close>

subsection \<open>Shifts\<close>

definition shl2p8 :: "u64 \<Rightarrow> u64 \<Rightarrow> flags \<Rightarrow> u64 \<times> flags" where
  "shl2p8 value0 value1 f =
     (let count = unat (value1 AND 0x1f)
      in if count = 0 then (value0 AND 0xff, f)
         else
           let result = push_bit count value0 AND 0xff;
               f = f\<lparr>f_cf := (if count \<le> 8 then drop_bit (8 - count) value0 AND 1 = 1
                              else False)\<rparr>;
               f = f\<lparr>f_of := (if count = 1 then drop_bit 7 result AND 1 \<noteq> drop_bit 7 value0 AND 1
                              else False)\<rparr>
           in (result, calc_flags result 8 f))"

definition shl2p16 :: "u64 \<Rightarrow> u64 \<Rightarrow> flags \<Rightarrow> u64 \<times> flags" where
  "shl2p16 value0 value1 f =
     (let count = unat (value1 AND 0x1f)
      in if count = 0 then (value0 AND 0xffff, f)
         else
           let result = push_bit count value0 AND 0xffff;
               f = f\<lparr>f_cf := (if count \<le> 16 then drop_bit (16 - count) value0 AND 1 = 1
                              else False)\<rparr>;
               f = f\<lparr>f_of := (if count = 1 then drop_bit 15 result AND 1 \<noteq> drop_bit 15 value0 AND 1
                              else False)\<rparr>
           in (result, calc_flags result 16 f))"

definition shl2p32 :: "u64 \<Rightarrow> u64 \<Rightarrow> flags \<Rightarrow> u64 \<times> flags" where
  "shl2p32 value0 value1 f =
     (let count = unat (value1 AND 0x1f)
      in if count = 0 then (value0 AND 0xffffffff, f)
         else
           let result = push_bit count value0 AND 0xffffffff;
               f = f\<lparr>f_cf := (if count \<le> 32 then drop_bit (32 - count) value0 AND 1 = 1
                              else False)\<rparr>;
               f = f\<lparr>f_of := (if count = 1 then drop_bit 31 result AND 1 \<noteq> drop_bit 31 value0 AND 1
                              else False)\<rparr>
           in (result, calc_flags result 32 f))"

definition shl2p64 :: "u64 \<Rightarrow> u64 \<Rightarrow> flags \<Rightarrow> u64 \<times> flags" where
  "shl2p64 value0 value1 f =
     (let count = unat (value1 AND 0x3f)
      in if count = 0 then (value0, f)
         else
           let result = push_bit count value0;
               f = f\<lparr>f_cf := (if count \<le> 64 then drop_bit (64 - count) value0 AND 1 = 1
                              else False)\<rparr>;
               f = f\<lparr>f_of := (if count = 1 then drop_bit 63 result AND 1 \<noteq> drop_bit 63 value0 AND 1
                              else False)\<rparr>
           in (result, calc_flags result 64 f))"

definition shl1p64 :: "u64 \<Rightarrow> flags \<Rightarrow> u64 \<times> flags" where
  "shl1p64 value f = shl2p64 value 1 f"

definition shl1p32 :: "u64 \<Rightarrow> flags \<Rightarrow> u64 \<times> flags" where
  "shl1p32 value f = shl2p32 value 1 f"

definition shl1p16 :: "u64 \<Rightarrow> flags \<Rightarrow> u64 \<times> flags" where
  "shl1p16 value f = shl2p16 value 1 f"

definition shl1p8 :: "u64 \<Rightarrow> flags \<Rightarrow> u64 \<times> flags" where
  "shl1p8 value f = shl2p8 value 1 f"

definition sal2p64 :: "u64 \<Rightarrow> u64 \<Rightarrow> flags \<Rightarrow> u64 \<times> flags" where
  "sal2p64 value0 value1 f = shl2p64 value0 value1 f"

definition sal2p32 :: "u64 \<Rightarrow> u64 \<Rightarrow> flags \<Rightarrow> u64 \<times> flags" where
  "sal2p32 value0 value1 f = shl2p32 value0 value1 f"

definition sal2p16 :: "u64 \<Rightarrow> u64 \<Rightarrow> flags \<Rightarrow> u64 \<times> flags" where
  "sal2p16 value0 value1 f = shl2p16 value0 value1 f"

definition sal2p8 :: "u64 \<Rightarrow> u64 \<Rightarrow> flags \<Rightarrow> u64 \<times> flags" where
  "sal2p8 value0 value1 f = shl2p8 value0 value1 f"

definition sal1p64 :: "u64 \<Rightarrow> flags \<Rightarrow> u64 \<times> flags" where
  "sal1p64 value f = shl1p64 value f"

definition sal1p32 :: "u64 \<Rightarrow> flags \<Rightarrow> u64 \<times> flags" where
  "sal1p32 value f = shl1p32 value f"

definition sal1p16 :: "u64 \<Rightarrow> flags \<Rightarrow> u64 \<times> flags" where
  "sal1p16 value f = shl1p16 value f"

definition sal1p8 :: "u64 \<Rightarrow> flags \<Rightarrow> u64 \<times> flags" where
  "sal1p8 value f = shl1p8 value f"

definition shr2p8 :: "u64 \<Rightarrow> u64 \<Rightarrow> flags \<Rightarrow> u64 \<times> flags" where
  "shr2p8 value0 value1 f =
     (let count = unat (value1 AND 0x1f)
      in if count = 0 then (value0 AND 0xff, f)
         else
           let result = drop_bit count value0 AND 0xff;
               f = f\<lparr>f_cf := (if count \<le> 8 then drop_bit (count - 1) value0 AND 1 = 1
                              else False)\<rparr>;
               f = f\<lparr>f_of := (if count = 1 then drop_bit 7 value0 AND 1 = 1 else False)\<rparr>
           in (result, calc_flags result 8 f))"

definition shr2p16 :: "u64 \<Rightarrow> u64 \<Rightarrow> flags \<Rightarrow> u64 \<times> flags" where
  "shr2p16 value0 value1 f =
     (let count = unat (value1 AND 0x1f)
      in if count = 0 then (value0 AND 0xffff, f)
         else
           let result = drop_bit count value0 AND 0xffff;
               f = f\<lparr>f_cf := (if count \<le> 16 then drop_bit (count - 1) value0 AND 1 = 1
                              else False)\<rparr>;
               f = f\<lparr>f_of := (if count = 1 then drop_bit 15 value0 AND 1 = 1 else False)\<rparr>
           in (result, calc_flags result 16 f))"

definition shr2p32 :: "u64 \<Rightarrow> u64 \<Rightarrow> flags \<Rightarrow> u64 \<times> flags" where
  "shr2p32 value0 value1 f =
     (let count = unat (value1 AND 0x1f)
      in if count = 0 then (value0 AND 0xffffffff, f)
         else
           let result = drop_bit count value0 AND 0xffffffff;
               f = f\<lparr>f_cf := (if count \<le> 32 then drop_bit (count - 1) value0 AND 1 = 1
                              else False)\<rparr>;
               f = f\<lparr>f_of := (if count = 1 then drop_bit 31 value0 AND 1 = 1 else False)\<rparr>
           in (result, calc_flags result 32 f))"

definition shr2p64 :: "u64 \<Rightarrow> u64 \<Rightarrow> flags \<Rightarrow> u64 \<times> flags" where
  "shr2p64 value0 value1 f =
     (let count = unat (value1 AND 0x3f)
      in if count = 0 then (value0, f)
         else
           let result = drop_bit count value0;
               f = f\<lparr>f_cf := (if count \<le> 64 then drop_bit (count - 1) value0 AND 1 = 1
                              else False)\<rparr>;
               f = f\<lparr>f_of := (if count = 1 then drop_bit 63 value0 AND 1 = 1 else False)\<rparr>
           in (result, calc_flags result 64 f))"

definition shr1p64 :: "u64 \<Rightarrow> flags \<Rightarrow> u64 \<times> flags" where
  "shr1p64 value f = shr2p64 value 1 f"

definition shr1p32 :: "u64 \<Rightarrow> flags \<Rightarrow> u64 \<times> flags" where
  "shr1p32 value f = shr2p32 value 1 f"

definition shr1p16 :: "u64 \<Rightarrow> flags \<Rightarrow> u64 \<times> flags" where
  "shr1p16 value f = shr2p16 value 1 f"

definition shr1p8 :: "u64 \<Rightarrow> flags \<Rightarrow> u64 \<times> flags" where
  "shr1p8 value f = shr2p8 value 1 f"

definition sar2p64 :: "u64 \<Rightarrow> u64 \<Rightarrow> flags \<Rightarrow> u64 \<times> flags" where
  "sar2p64 value0 value1 f =
     (let s64 = value0;
          count = unat (value1 AND 0x3f)
      in if count = 0 then (value0, f)
         else
           let s_result = (if count < 64 then signed_drop_bit count s64
                           else if sint s64 < 0 then - 1 else 0);
               result = s_result;
               f = f\<lparr>f_cf := (if count \<le> 64 then drop_bit (count - 1) value0 AND 1 = 1
                              else False)\<rparr>;
               f = f\<lparr>f_of := False\<rparr>
           in (result, calc_flags result 64 f))"

definition sar2p32 :: "u64 \<Rightarrow> u64 \<Rightarrow> flags \<Rightarrow> u64 \<times> flags" where
  "sar2p32 value0 value1 f =
     (let s32 = (ucast value0 :: u32);
          count = unat (value1 AND 0x1f)
      in if count = 0 then (value0, f)
         else
           let s_result = (if count < 32 then signed_drop_bit count s32
                           else if sint s32 < 0 then - 1 else 0);
               result = ucast s_result;
               f = f\<lparr>f_cf := (if count \<le> 32 then drop_bit (count - 1) value0 AND 1 = 1
                              else False)\<rparr>;
               f = f\<lparr>f_of := False\<rparr>
           in (result, calc_flags result 32 f))"

definition sar2p16 :: "u64 \<Rightarrow> u64 \<Rightarrow> flags \<Rightarrow> u64 \<times> flags" where
  "sar2p16 value0 value1 f =
     (let s16 = (ucast value0 :: u16);
          count = unat (value1 AND 0x1f)
      in if count = 0 then (value0, f)
         else
           let s_result = (if count < 16 then signed_drop_bit count s16
                           else if sint s16 < 0 then - 1 else 0);
               result = ucast s_result;
               f = f\<lparr>f_cf := (if count < 16 then drop_bit (count - 1) value0 AND 1 = 1
                              else drop_bit 15 value0 AND 1 = 1)\<rparr>;
               f = f\<lparr>f_of := False\<rparr>
           in (result, calc_flags result 16 f))"

definition sar2p8 :: "u64 \<Rightarrow> u64 \<Rightarrow> flags \<Rightarrow> u64 \<times> flags" where
  "sar2p8 value0 value1 f =
     (let s8 = (ucast value0 :: u8);
          count = unat (value1 AND 0x1f)
      in if count = 0 then (value0, f)
         else
           let s_result = (if count < 8 then signed_drop_bit count s8
                           else if sint s8 < 0 then - 1 else 0);
               result = ucast s_result;
               f = f\<lparr>f_cf := (if count < 8 then drop_bit (count - 1) value0 AND 1 = 1
                              else drop_bit 7 value0 AND 1 = 1)\<rparr>;
               f = f\<lparr>f_of := False\<rparr>
           in (result, calc_flags result 8 f))"

definition sar1p64 :: "u64 \<Rightarrow> flags \<Rightarrow> u64 \<times> flags" where
  "sar1p64 value f = sar2p64 value 1 f"

definition sar1p32 :: "u64 \<Rightarrow> flags \<Rightarrow> u64 \<times> flags" where
  "sar1p32 value f = sar2p32 value 1 f"

definition sar1p16 :: "u64 \<Rightarrow> flags \<Rightarrow> u64 \<times> flags" where
  "sar1p16 value f = sar2p16 value 1 f"

definition sar1p8 :: "u64 \<Rightarrow> flags \<Rightarrow> u64 \<times> flags" where
  "sar1p8 value f = sar2p8 value 1 f"

subsection \<open>Specification\<close>

text \<open>
  A shift by a count of zero changes nothing. Otherwise the result is the shifted value, CF is
  the last bit shifted out, OF is set only for a count of one, AF keeps its stored value, and
  ZF, SF and PF describe the result; of the other flags only TF changes, which is cleared. The
  arithmetic right shift is specified on the signed value: division by a power of two rounding
  down, and the bits of the sign-extended operand as carries.
\<close>

definition shifted :: "bool \<Rightarrow> bool \<Rightarrow> 'a::len word \<Rightarrow> flags \<Rightarrow> u64 \<times> flags \<Rightarrow> bool" where
  "shifted cf ovf r f out \<longleftrightarrow>
     fst out = ucast r \<and> status cf ovf (f_af f) r (snd out) \<and>
     control_flags (snd out) = control_flags (f\<lparr>f_tf := False\<rparr>)"

definition computes_shl :: "'a::len word \<Rightarrow> nat \<Rightarrow> flags \<Rightarrow> u64 \<times> flags \<Rightarrow> bool" where
  "computes_shl w n f out \<longleftrightarrow>
     (if n = 0 then out = (ucast w, f)
      else shifted (n \<le> LENGTH('a) \<and> bit w (LENGTH('a) - n))
             (n = 1 \<and> bit (push_bit n w) (LENGTH('a) - 1) \<noteq> bit w (LENGTH('a) - 1))
             (push_bit n w) f out)"

definition computes_shr :: "'a::len word \<Rightarrow> nat \<Rightarrow> flags \<Rightarrow> u64 \<times> flags \<Rightarrow> bool" where
  "computes_shr w n f out \<longleftrightarrow>
     (if n = 0 then out = (ucast w, f)
      else shifted (bit w (n - 1)) (n = 1 \<and> bit w (LENGTH('a) - 1)) (drop_bit n w) f out)"

definition computes_sar :: "'a::len word \<Rightarrow> nat \<Rightarrow> flags \<Rightarrow> u64 \<times> flags \<Rightarrow> bool" where
  "computes_sar w n f out \<longleftrightarrow>
     (if n = 0 then out = (ucast w, f)
      else shifted (bit (sint w) (n - 1)) False (word_of_int (sint w div 2 ^ n) :: 'a word) f out)"

subsection \<open>Correctness\<close>

lemma status_calc_flags:
  "status (f_cf f) (f_of f) (f_af f) r (calc_flags r 64 f)"
  "status (f_cf f) (f_of f) (f_af f) (ucast r :: u32) (calc_flags r 32 f)"
  "status (f_cf f) (f_of f) (f_af f) (ucast r :: u16) (calc_flags r 16 f)"
  "status (f_cf f) (f_of f) (f_af f) (ucast r :: u8) (calc_flags r 8 f)"
  by (simp_all add: calc_flags_def set_lazy_from_flags_def status_encoded_widths Let_def)

lemma control_calc_flags:
  "control_flags (calc_flags r n f) = control_flags (f\<lparr>f_tf := False\<rparr>)"
  by (simp add: calc_flags_def set_lazy_from_flags_def Let_def)

lemma control_cf_of [simp]:
  "control_flags (f\<lparr>f_cf := a, f_of := b, f_tf := c\<rparr>) = control_flags (f\<lparr>f_tf := c\<rparr>)"
  by (simp add: control_flags_def)

lemma shiftedI:
  "x = r \<Longrightarrow> cf' = cf \<Longrightarrow> ovf' = ovf \<Longrightarrow>
     shifted cf ovf r f (x, calc_flags x 64 (f\<lparr>f_cf := cf', f_of := ovf'\<rparr>))"
  "x = ucast r32 \<Longrightarrow> cf' = cf \<Longrightarrow> ovf' = ovf \<Longrightarrow>
     shifted cf ovf (r32::u32) f (x, calc_flags x 32 (f\<lparr>f_cf := cf', f_of := ovf'\<rparr>))"
  "x = ucast r16 \<Longrightarrow> cf' = cf \<Longrightarrow> ovf' = ovf \<Longrightarrow>
     shifted cf ovf (r16::u16) f (x, calc_flags x 16 (f\<lparr>f_cf := cf', f_of := ovf'\<rparr>))"
  "x = ucast r8 \<Longrightarrow> cf' = cf \<Longrightarrow> ovf' = ovf \<Longrightarrow>
     shifted cf ovf (r8::u8) f (x, calc_flags x 8 (f\<lparr>f_cf := cf', f_of := ovf'\<rparr>))"
  using status_calc_flags(1) [of "f\<lparr>f_cf := cf, f_of := ovf\<rparr>" r]
    status_calc_flags(2) [of "f\<lparr>f_cf := cf, f_of := ovf\<rparr>" "ucast r32"]
    status_calc_flags(3) [of "f\<lparr>f_cf := cf, f_of := ovf\<rparr>" "ucast r16"]
    status_calc_flags(4) [of "f\<lparr>f_cf := cf, f_of := ovf\<rparr>" "ucast r8"]
  by (simp_all add: shifted_def control_calc_flags ucast_id_up)

lemmas shift_unfold = computes_shl_def computes_shr_def Let_def bit_drop_and_one and_low_mask
  bit_ucast_iff bit_push_bit_iff

lemma shl_computes:
  "computes_shl w (unat (c AND 0x3f)) f (shl2p64 w c f)"
  "computes_shl w32 (unat (c AND 0x1f)) f (shl2p32 (ucast (w32::u32)) c f)"
  "computes_shl w16 (unat (c AND 0x1f)) f (shl2p16 (ucast (w16::u16)) c f)"
  "computes_shl w8 (unat (c AND 0x1f)) f (shl2p8 (ucast (w8::u8)) c f)"
  unfolding shift_unfold shl2p64_def shl2p32_def shl2p16_def shl2p8_def
  by (auto intro!: shiftedI simp: push_bit_ucast ucast_id_up)

lemma shr_computes:
  "computes_shr w (unat (c AND 0x3f)) f (shr2p64 w c f)"
  "computes_shr w32 (unat (c AND 0x1f)) f (shr2p32 (ucast (w32::u32)) c f)"
  "computes_shr w16 (unat (c AND 0x1f)) f (shr2p16 (ucast (w16::u16)) c f)"
  "computes_shr w8 (unat (c AND 0x1f)) f (shr2p8 (ucast (w8::u8)) c f)"
  unfolding shift_unfold shr2p64_def shr2p32_def shr2p16_def shr2p8_def
  by (auto intro!: shiftedI simp: drop_bit_ucast ucast_id_up bit_word_ge)

lemma sar_word:
  "(if n < LENGTH('a) then signed_drop_bit n w else if sint w < 0 then - 1 else 0)
     = (word_of_int (sint (w::'a::len word) div 2 ^ n) :: 'a word)"
  unfolding sint_neg_iff drop_bit_eq_div [symmetric]
  by (rule bit_word_eqI) (auto simp: bit_simps bit_sint)

lemma sar_computes:
  "computes_sar w (unat (c AND 0x3f)) f (sar2p64 w c f)"
  "computes_sar w32 (unat (c AND 0x1f)) f (sar2p32 (ucast (w32::u32)) c f)"
  "computes_sar w16 (unat (c AND 0x1f)) f (sar2p16 (ucast (w16::u16)) c f)"
  "computes_sar w8 (unat (c AND 0x1f)) f (sar2p8 (ucast (w8::u8)) c f)"
  using sar_word [of "unat (c AND 0x3f)" w] sar_word [of "unat (c AND 0x1f)" w32]
    sar_word [of "unat (c AND 0x1f)" w16] sar_word [of "unat (c AND 0x1f)" w8] unat_and_mask [of c]
  unfolding computes_sar_def shift_unfold sar2p64_def sar2p32_def sar2p16_def sar2p8_def
  by (auto intro!: shiftedI simp: ucast_id_up bit_sint min.absorb1 min.absorb2 bit_ucast_iff)

text \<open>
  the left shifts at all four widths, \<open>shl\<close> and \<open>sal\<close> with an explicit count (masked to five
  or six bits) and with the count one.
\<close>

theorem shift_left_correct:
  "computes_shl w64 (unat (c AND 0x3f)) f (shl2p64 w64 c f) \<and>
   computes_shl (w32 :: u32) (unat (c AND 0x1f)) f (shl2p32 (ucast w32) c f) \<and>
   computes_shl (w16 :: u16) (unat (c AND 0x1f)) f (shl2p16 (ucast w16) c f) \<and>
   computes_shl (w8 :: u8) (unat (c AND 0x1f)) f (shl2p8 (ucast w8) c f) \<and>
   computes_shl w64 (unat (c AND 0x3f)) f (sal2p64 w64 c f) \<and>
   computes_shl w32 (unat (c AND 0x1f)) f (sal2p32 (ucast w32) c f) \<and>
   computes_shl w16 (unat (c AND 0x1f)) f (sal2p16 (ucast w16) c f) \<and>
   computes_shl w8 (unat (c AND 0x1f)) f (sal2p8 (ucast w8) c f) \<and>
   computes_shl w64 1 f (sal1p64 w64 f) \<and> computes_shl w32 1 f (sal1p32 (ucast w32) f) \<and>
   computes_shl w16 1 f (sal1p16 (ucast w16) f) \<and> computes_shl w8 1 f (sal1p8 (ucast w8) f)"
  using shl_computes(1) [of w64 1 f] shl_computes(2) [of w32 1 f] shl_computes(3) [of w16 1 f]
    shl_computes(4) [of w8 1 f]
  by (simp add: shl_computes sal2p64_def sal2p32_def sal2p16_def sal2p8_def sal1p64_def
      sal1p32_def sal1p16_def sal1p8_def shl1p64_def shl1p32_def shl1p16_def shl1p8_def)

text \<open>
  the logical right shifts at all four widths, with an explicit count and with the count one.
\<close>

theorem shift_right_correct:
  "computes_shr w64 (unat (c AND 0x3f)) f (shr2p64 w64 c f) \<and>
   computes_shr (w32 :: u32) (unat (c AND 0x1f)) f (shr2p32 (ucast w32) c f) \<and>
   computes_shr (w16 :: u16) (unat (c AND 0x1f)) f (shr2p16 (ucast w16) c f) \<and>
   computes_shr (w8 :: u8) (unat (c AND 0x1f)) f (shr2p8 (ucast w8) c f) \<and>
   computes_shr w64 1 f (shr1p64 w64 f) \<and> computes_shr w32 1 f (shr1p32 (ucast w32) f) \<and>
   computes_shr w16 1 f (shr1p16 (ucast w16) f) \<and> computes_shr w8 1 f (shr1p8 (ucast w8) f)"
  using shr_computes(1) [of w64 1 f] shr_computes(2) [of w32 1 f] shr_computes(3) [of w16 1 f]
    shr_computes(4) [of w8 1 f]
  by (simp add: shr_computes shr1p64_def shr1p32_def shr1p16_def shr1p8_def)

text \<open>
  the arithmetic right shifts at all four widths, counts past the operand width included:
  the signed value divided by the power of two, rounding down.
\<close>

theorem shift_arithmetic_right_correct:
  "computes_sar w64 (unat (c AND 0x3f)) f (sar2p64 w64 c f) \<and>
   computes_sar (w32 :: u32) (unat (c AND 0x1f)) f (sar2p32 (ucast w32) c f) \<and>
   computes_sar (w16 :: u16) (unat (c AND 0x1f)) f (sar2p16 (ucast w16) c f) \<and>
   computes_sar (w8 :: u8) (unat (c AND 0x1f)) f (sar2p8 (ucast w8) c f) \<and>
   computes_sar w64 1 f (sar1p64 w64 f) \<and> computes_sar w32 1 f (sar1p32 (ucast w32) f) \<and>
   computes_sar w16 1 f (sar1p16 (ucast w16) f) \<and> computes_sar w8 1 f (sar1p8 (ucast w8) f)"
  using sar_computes(1) [of w64 1 f] sar_computes(2) [of w32 1 f] sar_computes(3) [of w16 1 f]
    sar_computes(4) [of w8 1 f]
  by (simp add: sar_computes sar1p64_def sar1p32_def sar1p16_def sar1p8_def)

end
