(* ===== verification/Flags_Rotate.thy ===== *)
theory Flags_Rotate
  imports Flags_Shift
begin

section \<open>Rotates and double shifts on the flags\<close>

text \<open>
  The operations of \<^verbatim>\<open>flags.rs\<close> that take the operand size as an argument: the rotates through
  carry \<open>rcr\<close> and \<open>rcl\<close>, the rotates \<open>ror\<close> and \<open>rol\<close>, and the double shifts \<open>shrd\<close> and \<open>shld\<close>. The
  superseded variants \<open>rcr_prev\<close>, \<open>rcr_of_and_cf\<close>, \<open>ror_overflow\<close> and \<open>rol_overflow\<close>, which nothing
  calls, are not modelled.
\<close>

subsection \<open>Rotates\<close>

text \<open>
  The rotated values of \<open>rcr\<close> (its \<open>match\<close> on the count) and of \<open>rcl\<close> (the carry appended below
  the value, the extended value rotated left; the source computes it in \<open>u128\<close> for 64-bit
  operands and in \<open>u64\<close> for the others).
\<close>

definition rcr_value :: "u64 \<Rightarrow> nat \<Rightarrow> nat \<Rightarrow> bool \<Rightarrow> u64 \<Rightarrow> u64" where
  "rcr_value value0 count sz cf pow =
     (if count = 0 then value0 AND pow
      else if count = 1 then (drop_bit 1 value0 OR push_bit (sz - 1) (of_bool cf)) AND pow
      else (drop_bit count value0 OR push_bit (sz - count) (of_bool cf)
             OR push_bit (sz + 1 - count) value0) AND pow)"

definition rcr :: "u64 \<Rightarrow> u64 \<Rightarrow> nat \<Rightarrow> flags \<Rightarrow> u64 \<times> flags" where
  "rcr value0 value1 sz f =
     (let mask = (if sz = 64 then 0x3f else 0x1f);
          count = unat (value1 AND mask);
          pow = (if sz = 64 then - 1 else push_bit sz 1 - 1);
          count = count mod (sz + 1);
          res = rcr_value value0 count sz (f_cf f) pow;
          f = (if count \<noteq> 0 then f\<lparr>f_cf := (drop_bit (count - 1) value0 AND 1 \<noteq> 0)\<rparr> else f);
          f = (if count = 1
               then f\<lparr>f_of := (drop_bit (sz - 1) (res XOR push_bit 1 res) AND 1 \<noteq> 0)\<rparr> else f)
      in (res, f))"

definition rcl_rotated :: "'a::len word \<Rightarrow> nat \<Rightarrow> nat \<Rightarrow> bool \<Rightarrow> 'a word" where
  "rcl_rotated value0 count sz cf =
     (let extended = push_bit 1 value0 OR of_bool cf
      in (push_bit count extended OR drop_bit (sz + 1 - count) extended)
           AND (push_bit (sz + 1) 1 - 1))"

definition rcl :: "u64 \<Rightarrow> u64 \<Rightarrow> nat \<Rightarrow> flags \<Rightarrow> u64 \<times> flags" where
  "rcl value0 value1 sz f =
     (let mask = (if sz = 64 then 0x3f else 0x1f);
          count = unat (value1 AND mask) mod (sz + 1)
      in if count = 0 then
           (let pow = (if sz = 64 then - 1 else push_bit sz 1 - 1) in (value0 AND pow, f))
         else if sz = 64 then
           (let pow128 = ucast (- 1 :: u64) :: u128;
                rotated = rcl_rotated (ucast value0 AND pow128) count 64 (f_cf f);
                res = drop_bit 1 rotated AND pow128;
                f = f\<lparr>f_cf := (rotated AND 1 \<noteq> 0)\<rparr>;
                f = (if count = 1
                     then f\<lparr>f_of := (f_cf f \<noteq> (drop_bit 63 res AND 1 \<noteq> 0))\<rparr> else f)
            in (ucast res, f))
         else
           (let pow = push_bit sz 1 - 1;
                rotated = rcl_rotated (value0 AND pow) count sz (f_cf f);
                res = drop_bit 1 rotated AND pow;
                f = f\<lparr>f_cf := (rotated AND 1 \<noteq> 0)\<rparr>;
                f = (if count = 1
                     then f\<lparr>f_of := (f_cf f \<noteq> (drop_bit (sz - 1) res AND 1 \<noteq> 0))\<rparr> else f)
            in (res, f)))"

definition ror :: "u64 \<Rightarrow> u64 \<Rightarrow> nat \<Rightarrow> flags \<Rightarrow> u64 \<times> flags" where
  "ror value0 value1 sz f =
     (let mask = (if sz = 64 then 0x3f else 0x1f);
          count = unat (value1 AND mask);
          res_mask = (if sz = 64 then 0xffffffffffffffff else if sz = 32 then 0xffffffff
                      else if sz = 16 then 0xffff else 0xff)
      in if count = 0 then (value0 AND res_mask, f)
         else
           (let shift = count mod sz;
                res = (drop_bit shift value0 OR shl value0 (sz - shift)) AND res_mask;
                f = f\<lparr>f_cf := (drop_bit (sz - 1) res AND 1 = 1)\<rparr>;
                f = f\<lparr>f_of := (if shift = 1 then
                                (let msb = drop_bit (sz - 1) res AND 1;
                                     sec_msb = drop_bit (sz - 2) res AND 1
                                 in msb XOR sec_msb = 1)
                               else False)\<rparr>
            in (res, f)))"

definition rol :: "u64 \<Rightarrow> u64 \<Rightarrow> nat \<Rightarrow> flags \<Rightarrow> u64 \<times> flags" where
  "rol value0 value1 sz f =
     (let mask = (if sz = 64 then 0x3f else 0x1f)
      in if sz \<notin> {64, 32, 16, 8} then (0, f)
         else
           (let res_mask = (if sz = 64 then 0xffffffffffffffff else if sz = 32 then 0xffffffff
                            else if sz = 16 then 0xffff else 0xff);
                width = sz;
                value0 = value0 AND res_mask;
                masked = unat (value1 AND mask);
                rot = masked mod width;
                res = (if rot = 0 then value0
                       else (push_bit rot value0 OR drop_bit (width - rot) value0) AND res_mask);
                f = (if masked \<noteq> 0 then
                       (let f = f\<lparr>f_cf := (res AND 1 = 1)\<rparr>
                        in if masked = 1 then
                             (let msb = drop_bit (width - 1) res AND 1;
                                  lsb = res AND 1
                              in f\<lparr>f_of := (msb XOR lsb = 1)\<rparr>)
                           else f)
                     else f)
            in (res, f)))"

subsection \<open>Double shifts\<close>

definition shrd :: "u64 \<Rightarrow> u64 \<Rightarrow> u64 \<Rightarrow> nat \<Rightarrow> flags \<Rightarrow> u64 \<times> flags" where
  "shrd value0 value1 count sz f =
     (let mask = (if sz = 64 then 0x3f else 0x1f);
          count = min (unat (count AND mask)) sz;
          res_mask = (if sz = 64 then 0xffffffffffffffff else if sz = 32 then 0xffffffff
                      else if sz = 16 then 0xffff else 0xff)
      in if count = 0 then (value0 AND res_mask, f)
         else
           (let res = (drop_bit count value0 OR push_bit (sz - count) value1) AND res_mask;
                f = f\<lparr>f_cf := (drop_bit (count - 1) value0 AND 1 = 1)\<rparr>;
                f = f\<lparr>f_of := (if count = 1
                               then drop_bit (sz - 1) value0 AND 1 \<noteq> drop_bit (sz - 1) res AND 1
                               else False)\<rparr>
            in (res, calc_flags res sz f)))"

definition shld :: "u64 \<Rightarrow> u64 \<Rightarrow> u64 \<Rightarrow> nat \<Rightarrow> flags \<Rightarrow> u64 \<times> flags" where
  "shld value0 value1 count sz f =
     (let mask = (if sz = 64 then 0x3f else 0x1f);
          count = min (unat (count AND mask)) sz;
          res_mask = (if sz = 64 then 0xffffffffffffffff else if sz = 32 then 0xffffffff
                      else if sz = 16 then 0xffff else 0xff)
      in if count = 0 then (value0 AND res_mask, f)
         else
           (let res = (drop_bit (sz - count) value1 OR push_bit count value0) AND res_mask;
                f = f\<lparr>f_cf := (drop_bit (sz - count) value0 AND 1 = 1)\<rparr>;
                f = f\<lparr>f_of := (if count = 1
                               then drop_bit (sz - 1) res AND 1 \<noteq> of_bool (f_cf f)
                               else False)\<rparr>
            in (res, calc_flags res sz f)))"

subsection \<open>Specification\<close>

text \<open>
  A rotate is specified by where each bit of the result comes from. For the rotates through
  carry, \<open>ext_bit\<close> places the carry above the most significant bit of the operand, and the
  rotation is one of \<open>sz + 1\<close> positions. A double shift is specified by the bits of its result and
  the flags that \<open>status\<close> reads.
\<close>

definition rc_count :: "nat \<Rightarrow> u64 \<Rightarrow> nat" where
  "rc_count sz c = unat (c AND (if sz = 64 then 0x3f else 0x1f)) mod (sz + 1)"

definition ext_bit :: "nat \<Rightarrow> u64 \<Rightarrow> bool \<Rightarrow> nat \<Rightarrow> bool" where
  "ext_bit sz v cf i = (if i = sz then cf else i < sz \<and> bit v i)"

definition rotates_through_carry ::
    "nat \<Rightarrow> nat \<Rightarrow> u64 \<Rightarrow> flags \<Rightarrow> u64 \<times> flags \<Rightarrow> bool" where
  "rotates_through_carry sz n v f out \<longleftrightarrow>
     (\<forall>i \<le> sz. ext_bit sz (fst out) (f_cf (snd out)) i = ext_bit sz v (f_cf f) ((n + i) mod (sz + 1))) \<and>
     take_bit sz (fst out) = fst out \<and>
     snd out\<lparr>f_cf := False, f_of := False\<rparr> = f\<lparr>f_cf := False, f_of := False\<rparr>"

definition rot_count :: "nat \<Rightarrow> u64 \<Rightarrow> nat" where
  "rot_count sz c = unat (c AND (if sz = 64 then 0x3f else 0x1f))"

definition rotates :: "nat \<Rightarrow> nat \<Rightarrow> u64 \<Rightarrow> u64 \<Rightarrow> bool" where
  "rotates sz n v r \<longleftrightarrow> (\<forall>i < sz. bit r i = bit v ((n + i) mod sz)) \<and> take_bit sz r = r"

definition dshift_count :: "nat \<Rightarrow> u64 \<Rightarrow> nat" where
  "dshift_count sz c = min (rot_count sz c) sz"

definition double_shifted ::
    "nat \<Rightarrow> (nat \<Rightarrow> bool) \<Rightarrow> bool \<Rightarrow> bool \<Rightarrow> flags \<Rightarrow> u64 \<times> flags \<Rightarrow> bool" where
  "double_shifted sz b cf ovf f out \<longleftrightarrow>
     (\<forall>i. bit (fst out) i \<longleftrightarrow> i < sz \<and> b i) \<and>
     status cf ovf (f_af f) (sign_extend_result (fst out) sz) (snd out) \<and>
     control_flags (snd out) = control_flags (f\<lparr>f_tf := False\<rparr>)"

subsection \<open>Rotates through carry\<close>

lemma rot_index:
  fixes i n sz :: nat
  shows "i \<le> sz \<Longrightarrow> n \<le> sz \<Longrightarrow>
     (n + i) mod (sz + 1) = (if n + i \<le> sz then n + i else i + n - Suc sz)"
  by (simp add: le_mod_geq add.commute)

lemma bit_rcr_value:
  assumes "n \<le> sz" "2 \<le> sz" "sz \<le> 64" and v: "take_bit sz v = v"
  shows "bit (rcr_value v n sz cf (mask sz)) i \<longleftrightarrow> i < sz \<and> ext_bit sz v cf ((n + i) mod (sz + 1))"
proof (cases "i < sz")
  case True
  have hi: "\<not> bit v k" if "sz \<le> k" for k
    using v that by (simp add: take_bit_self_iff)
  have x: "(n + i) mod (sz + 1) = (if n + i \<le> sz then n + i else i + n - Suc sz)"
    using assms True by (intro rot_index) simp_all
  consider "n = 0" | "n = 1" | "2 \<le> n" by linarith
  then show ?thesis
  proof cases
    case 3
    have "push_bit (sz - n) (of_bool cf) = (if cf then push_bit (sz - n) 1 else (0::u64))"
      by simp
    then show ?thesis
      using assms(1-3) True 3 hi unfolding x by (auto simp: rcr_value_def bit_simps ext_bit_def)
  qed (use assms(1-3) True hi x in \<open>auto simp: rcr_value_def bit_simps ext_bit_def\<close>)
qed (simp add: rcr_value_def bit_simps)

lemma rc_count_le: "rc_count sz c \<le> sz"
  using mod_less_divisor [of "sz + 1" "unat (c AND (if sz = 64 then 0x3f else 0x1f))"]
  unfolding rc_count_def by linarith

lemma rcr_eq:
  fixes c v :: u64 and f :: flags
  assumes "2 \<le> sz" "sz \<le> 64"
  defines "n \<equiv> rc_count sz c"
  defines "res \<equiv> rcr_value v n sz (f_cf f) (mask sz)"
  shows "rcr v c sz f = (res,
    f\<lparr>f_cf := (if n = 0 then f_cf f else bit v (n - 1)),
      f_of := (if n = 1 then bit res (sz - 1) \<noteq> bit res (sz - 2) else f_of f)\<rparr>)"
proof -
  have u: "drop_bit k x AND 1 \<noteq> 0 \<longleftrightarrow> bit (x::u64) k" for k x
    by (simp add: word_bits bit_drop_bit_eq)
  have "bit (res XOR push_bit 1 res) (sz - 1) \<longleftrightarrow> bit res (sz - 1) \<noteq> bit res (sz - 2)"
  proof -
    have "sz - 1 - 1 = sz - 2" "1 \<le> sz - 1" "sz - 1 < LENGTH(64)"
      using assms(1,2) by simp_all
    then show ?thesis
      unfolding bit_xor_iff bit_push_bit_iff by simp
  qed
  then show ?thesis
    unfolding rcr_def Let_def pow_mask [OF assms(2)] rc_count_def [symmetric] n_def [symmetric]
      res_def [symmetric] u by simp
qed

lemma rotates_through_carryI:
  assumes "\<And>i. bit r i \<longleftrightarrow> i < sz \<and> ext_bit sz v (f_cf f) ((n + i) mod (sz + 1))"
    and "cf = ext_bit sz v (f_cf f) ((n + sz) mod (sz + 1))"
  shows "rotates_through_carry sz n v f (r, f\<lparr>f_cf := cf, f_of := ovf\<rparr>)"
  using assms by (auto simp: rotates_through_carry_def ext_bit_def take_bit_self_iff)

lemma rcr_rotates:
  assumes "2 \<le> sz" "sz \<le> 64" "take_bit sz v = v"
  shows "rotates_through_carry sz (rc_count sz c) v f (rcr v c sz f)"
proof -
  define n where "n = rc_count sz c"
  have n: "n \<le> sz"
    by (simp add: n_def rc_count_le)
  have cf: "(if n = 0 then f_cf f else bit v (n - 1)) = ext_bit sz v (f_cf f) ((n + sz) mod (sz + 1))"
    using n unfolding rot_index [OF order_refl n] by (auto simp: ext_bit_def)
  show ?thesis
    unfolding rcr_eq [OF assms(1,2)] n_def [symmetric]
    by (rule rotates_through_carryI [OF bit_rcr_value [OF n assms] cf])
qed

lemma bit_extended:
  fixes v :: "'a::len word"
  assumes "take_bit sz v = v" "sz + 1 < LENGTH('a)"
  shows "bit (push_bit 1 v OR of_bool cf) e \<longleftrightarrow> (if e = 0 then cf else e \<le> sz \<and> bit v (e - 1))"
proof -
  have "bit v j \<Longrightarrow> Suc j \<le> sz" for j
    using assms(1) bit_take_bit_iff [of sz v j] by (metis Suc_leI)
  moreover from this have "bit v j \<Longrightarrow> Suc j < LENGTH('a)" for j
    using assms(2) by fastforce
  ultimately show ?thesis
    using assms(2) unfolding bit_or_iff bit_push_bit_iff by (cases e) (auto simp: bit_simps)
qed

lemma bit_rcl_rotated:
  fixes v :: "'a::len word"
  assumes v: "take_bit sz v = v" and sz: "sz + 1 < LENGTH('a)" and n: "0 < n" "n \<le> sz" and "e \<le> sz"
  shows "bit (rcl_rotated v n sz cf) e \<longleftrightarrow>
    (if e = n then cf
     else if n < e then bit v (e - n - 1) else bit v (sz + e - n))"
proof -
  have m: "push_bit (sz + 1) 1 - 1 = (mask (sz + 1) :: 'a word)"
    by (simp add: mask_eq_exp_minus_1)
  show ?thesis
    using assms
    unfolding rcl_rotated_def Let_def m bit_and_iff bit_or_iff [of "push_bit n _"] bit_push_bit_iff [of n] bit_drop_bit_eq bit_extended [OF v sz]
    by (auto simp: bit_simps)
qed

lemma rcl_res:
  fixes v :: "'a::len word" and v0 :: u64 and cf :: bool
  assumes "take_bit sz v = v" "sz + 1 < LENGTH('a)" "0 < n" "n \<le> sz" "sz \<le> 64"
    and eq: "\<And>i. bit v i = bit v0 i"
  defines "rotated \<equiv> rcl_rotated v n sz cf"
  shows "bit (ucast (drop_bit 1 rotated AND mask sz) :: u64) i \<longleftrightarrow>
      i < sz \<and> ext_bit sz v0 cf ((sz + 1 - n + i) mod (sz + 1))"
    and "rotated AND 1 \<noteq> 0 \<longleftrightarrow> ext_bit sz v0 cf ((sz + 1 - n + sz) mod (sz + 1))"
proof -
  have ix: "(sz + 1 - n + j) mod (sz + 1) = (if j < n then sz + Suc j - n else j - n)" if "j \<le> sz" for j
    using that assms(3,4) by (auto simp: le_mod_geq)
  have r: "bit rotated (Suc i) \<longleftrightarrow> ext_bit sz v0 cf ((sz + 1 - n + i) mod (sz + 1))" if "i < sz"
    using assms(3,4) that unfolding rotated_def ix [OF less_imp_le [OF that]]
    by (subst bit_rcl_rotated [OF assms(1-4)]) (auto simp: ext_bit_def eq)
  show "bit (ucast (drop_bit 1 rotated AND mask sz) :: u64) i \<longleftrightarrow>
      i < sz \<and> ext_bit sz v0 cf ((sz + 1 - n + i) mod (sz + 1))"
    using assms(2,5) r by (auto simp: bit_simps)
  show "rotated AND 1 \<noteq> 0 \<longleftrightarrow> ext_bit sz v0 cf ((sz + 1 - n + sz) mod (sz + 1))"
    using assms(3,4) unfolding ix [OF order_refl] word_bits rotated_def
    by (subst bit_rcl_rotated [OF assms(1-4)]) (auto simp: ext_bit_def eq)
qed

lemma rcl_eq_64:
  fixes v c :: u64 and f :: flags
  assumes n: "rc_count sz c \<noteq> 0" and sz: "sz = 64"
  defines "n \<equiv> rc_count sz c"
  defines "rot \<equiv> rcl_rotated (ucast v AND mask sz :: u128) n sz (f_cf f)"
  defines "r \<equiv> (ucast (drop_bit 1 rot AND mask sz) :: u64)"
  shows "rcl v c sz f = (r, f\<lparr>f_cf := (rot AND 1 \<noteq> 0),
     f_of := (if n = 1 then (rot AND 1 \<noteq> 0) \<noteq> bit r (sz - 1) else f_of f)\<rparr>)"
  using n sz unfolding rcl_def Let_def rc_count_def [symmetric] n_def [symmetric] pow128
    bit_drop_and_nonzero rot_def r_def
  by (simp add: bit_ucast_iff)

lemma rcl_eq_small:
  fixes v c :: u64 and f :: flags
  assumes n: "rc_count sz c \<noteq> 0" and sz: "sz \<noteq> 64"
  defines "n \<equiv> rc_count sz c"
  defines "rot \<equiv> rcl_rotated (v AND mask sz) n sz (f_cf f)"
  defines "r \<equiv> drop_bit 1 rot AND mask sz"
  shows "rcl v c sz f = (r, f\<lparr>f_cf := (rot AND 1 \<noteq> 0),
     f_of := (if n = 1 then (rot AND 1 \<noteq> 0) \<noteq> bit r (sz - 1) else f_of f)\<rparr>)"
proof -
  have m: "push_bit sz 1 - 1 = (mask sz :: u64)"
    by (simp add: mask_eq_exp_minus_1)
  show ?thesis
    using n sz unfolding rcl_def Let_def rc_count_def [symmetric] n_def [symmetric] m
      bit_drop_and_nonzero rot_def r_def by simp
qed

lemma rcl_rotates:
  assumes "sz \<in> {8, 16, 32, 64}" "take_bit sz v = v"
  shows "rotates_through_carry sz (sz + 1 - rc_count sz c) v f (rcl v c sz f)"
proof -
  define n where "n = rc_count sz c"
  have n: "n \<le> sz" by (simp add: n_def rc_count_le)
  have sz: "sz \<le> 64"
    using assms by auto
  consider "n = 0" | "0 < n" "sz = 64" | "0 < n" "sz + 1 < 64"
    using assms by (cases "n = 0") auto
  then show ?thesis
  proof cases
    case 1
    then have "rcl v c sz f = (v, f\<lparr>f_cf := f_cf f, f_of := f_of f\<rparr>)"
      using assms(2) unfolding rcl_def Let_def rc_count_def [symmetric] n_def [symmetric]
        pow_mask [OF sz] by (simp add: take_bit_eq_mask)
    moreover have "(sz + 1 + i) mod (sz + 1) = i" if "i \<le> sz" for i
      using that by (simp add: le_mod_geq)
    ultimately show ?thesis
      using assms(2) 1 by (simp add: n_def [symmetric] rotates_through_carry_def)
  next
    case 2
    let ?v = "ucast v AND mask sz :: u128"
    have c: "rc_count sz c \<noteq> 0" and t: "take_bit sz ?v = ?v" and l: "sz + 1 < LENGTH(128)"
      using 2 by (simp_all add: n_def take_bit_eq_mask)
    have e: "bit ?v i = bit v i" for i
      using 2 by (auto simp: bit_simps dest: bit_imp_le_length)
    show ?thesis
      unfolding rcl_eq_64 [OF c 2(2)] n_def [symmetric]
      by (intro rotates_through_carryI rcl_res [OF t l 2(1) n sz e])
  next
    case 3
    have c: "rc_count sz c \<noteq> 0" "sz \<noteq> 64" and l: "sz + 1 < LENGTH(64)" and t: "v AND mask sz = v"
      using 3 assms(2) by (simp_all add: n_def take_bit_eq_mask)
    show ?thesis
      unfolding rcl_eq_small [OF c] n_def [symmetric] t
      using rcl_res [OF assms(2) l 3(1) n sz refl, of "f_cf f"]
      by (intro rotates_through_carryI) (simp_all add: bit_ucast_iff)
  qed
qed

lemma rotates_compose:
  assumes "rotates_through_carry sz a v f out" "rotates_through_carry sz b (fst out) (snd out) out'"
  shows "rotates_through_carry sz (a + b) v f out'"
proof -
  have "ext_bit sz (fst out') (f_cf (snd out')) i = ext_bit sz v (f_cf f) ((a + b + i) mod (sz + 1))"
    if "i \<le> sz" for i
  proof -
    have le: "(b + i) mod (sz + 1) \<le> sz"
      using mod_less_divisor [of "sz + 1" "b + i"] by linarith
    have "(a + b + i) mod (sz + 1) = (a + (b + i) mod (sz + 1)) mod (sz + 1)"
      by (simp add: mod_add_right_eq add.assoc)
    then show ?thesis
      using assms that le by (simp only: rotates_through_carry_def)
  qed
  then show ?thesis
    using assms by (simp add: rotates_through_carry_def)
qed

lemma rotates_full:
  assumes "rotates_through_carry sz (sz + 1) v f out" and v: "take_bit sz v = v"
  shows "fst out = v" "f_cf (snd out) = f_cf f"
proof -
  have e: "ext_bit sz (fst out) (f_cf (snd out)) i = ext_bit sz v (f_cf f) i" if "i \<le> sz" for i
    using assms(1) that by (simp add: rotates_through_carry_def le_mod_geq)
  have t: "take_bit sz (fst out) = fst out"
    using assms(1) by (simp add: rotates_through_carry_def)
  show "f_cf (snd out) = f_cf f"
    using e [of sz] by (simp add: ext_bit_def)
  have "bit (fst out) i = bit v i" for i
  proof (cases "i < sz")
    case True
    then show ?thesis
      using e [of i] by (simp add: ext_bit_def)
  next
    case False
    then show ?thesis
      using t v by (simp add: take_bit_self_iff)
  qed
  then show "fst out = v"
    by (rule bit_eqI)
qed

text \<open>
  the rotates through carry at every operand size. \<open>rcr\<close> rotates the \<open>sz + 1\<close> bits formed by
  the carry and the operand to the right by the masked count modulo \<open>sz + 1\<close>, \<open>rcl\<close> to the left by
  the same; no flag but CF and OF changes; and \<open>rcr\<close> undoes \<open>rcl\<close>, the carry included.
\<close>

theorem rotate_through_carry_correct:
  assumes "sz \<in> {8, 16, 32, 64}" and "take_bit sz v = v"
  shows "rotates_through_carry sz (rc_count sz c) v f (rcr v c sz f)
    \<and> rotates_through_carry sz (sz + 1 - rc_count sz c) v f (rcl v c sz f)
    \<and> (case rcl v c sz f of (r, f') \<Rightarrow>
         fst (rcr r c sz f') = v \<and> f_cf (snd (rcr r c sz f')) = f_cf f)"
proof -
  have sz: "2 \<le> sz" "sz \<le> 64"
    using assms by auto
  have l: "rotates_through_carry sz (sz + 1 - rc_count sz c) v f (rcl v c sz f)"
    by (rule rcl_rotates [OF assms])
  then have "take_bit sz (fst (rcl v c sz f)) = fst (rcl v c sz f)"
    by (simp add: rotates_through_carry_def)
  from rotates_compose [OF l rcr_rotates [OF sz this, of c]]
  have "rotates_through_carry sz (sz + 1) v f (rcr (fst (rcl v c sz f)) c sz (snd (rcl v c sz f)))"
    using rc_count_le [of sz c] by simp
  from rotates_full [OF this assms(2)] show ?thesis
    using l rcr_rotates [OF sz assms(2)] by (simp add: case_prod_beta)
qed

theorem rotate_through_carry_correct_witness:
  "rotates_through_carry 8 (rc_count 8 11) 0x81 flags_new (rcr 0x81 11 8 flags_new)"
  using rotate_through_carry_correct [of 8 "0x81" 11 flags_new] by simp

subsection \<open>Rotates\<close>

lemma rot_bits:
  fixes v :: u64
  assumes v: "take_bit sz v = v" and "0 < n" "n < sz" "sz \<le> 64"
  shows "rotates sz n v ((drop_bit n v OR push_bit (sz - n) v) AND mask sz)"
proof -
  have hi: "\<not> bit v k" if "sz \<le> k" for k
    using v that by (simp add: take_bit_self_iff)
  have "bit ((drop_bit n v OR push_bit (sz - n) v) AND mask sz) i = bit v ((n + i) mod sz)" if "i < sz" for i
  proof (cases "n + i < sz")
    case True
    then show ?thesis
      using that assms by (auto simp: bit_simps)
  next
    case False
    then have "(n + i) mod sz = i + n - sz"
      using that assms by (simp add: le_mod_geq add.commute)
    then show ?thesis
      using that assms False hi by (auto simp: bit_simps)
  qed
  then show ?thesis
    by (simp add: rotates_def take_bit_eq_mask and.assoc)
qed

lemma rotates_0: "take_bit sz v = v \<Longrightarrow> rotates sz 0 v v"
  by (simp add: rotates_def)

lemma rotates_self: "take_bit sz v = v \<Longrightarrow> rotates sz sz v v"
  by (simp add: rotates_def)

lemma rol_eq:
  fixes c v :: u64
  assumes sz: "sz \<in> {8, 16, 32, 64}" and v: "take_bit sz v = v"
  defines "n \<equiv> rot_count sz c"
  obtains r where "rotates sz (sz - n mod sz) v r"
    and "rol v c sz f = (r, if n = 0 then f else
      f\<lparr>f_cf := bit r 0, f_of := (if n = 1 then bit r (sz - 1) \<noteq> bit r 0 else f_of f)\<rparr>)"
proof -
  let ?r = "if n mod sz = 0 then v else (push_bit (n mod sz) v OR drop_bit (sz - n mod sz) v) AND mask sz"
  have vm: "v AND mask sz = v"
    using v by (simp add: take_bit_eq_mask)
  have s: "sz \<notin> {64, 32, 16, 8} \<longleftrightarrow> False"
    using sz by auto
  have x: "(a AND 1) XOR (b AND 1) = 1 \<longleftrightarrow> bit a 0 \<noteq> bit b 0" for a b :: u64
    by (simp add: and_one_of_bool)
  have "rol v c sz f = (?r, if n = 0 then f else
      f\<lparr>f_cf := bit ?r 0, f_of := (if n = 1 then bit ?r (sz - 1) \<noteq> bit ?r 0 else f_of f)\<rparr>)"
    unfolding rol_def Let_def res_mask_eq [OF sz] rot_count_def [symmetric] n_def [symmetric] vm x
      word_bits bit_drop_bit_eq s if_False by simp
  moreover have "rotates sz (sz - n mod sz) v ?r"
    using rot_bits [OF v, of "sz - n mod sz"] sz v mod_less_divisor [of sz n]
    by (auto simp: rotates_self or.commute)
  ultimately show ?thesis
    using that by blast
qed

lemma ror_eq:
  fixes c v :: u64
  assumes sz: "sz \<in> {8, 16, 32, 64}" and v: "take_bit sz v = v"
  defines "n \<equiv> rot_count sz c"
  obtains r where "rotates sz (n mod sz) v r"
    and "ror v c sz f = (r, if n = 0 then f else
      f\<lparr>f_cf := bit r (sz - 1),
        f_of := (if n mod sz = 1 then bit r (sz - 1) \<noteq> bit r (sz - 2) else False)\<rparr>)"
proof -
  let ?r = "if n = 0 then v else (drop_bit (n mod sz) v OR shl v (sz - n mod sz)) AND mask sz"
  have vm: "v AND mask sz = v"
    using v by (simp add: take_bit_eq_mask)
  have x: "(a AND 1) XOR (b AND 1) = 1 \<longleftrightarrow> bit a 0 \<noteq> bit b 0" for a b :: u64
    by (simp add: and_one_of_bool)
  have "ror v c sz f = (?r, if n = 0 then f else
      f\<lparr>f_cf := bit ?r (sz - 1),
        f_of := (if n mod sz = 1 then bit ?r (sz - 1) \<noteq> bit ?r (sz - 2) else False)\<rparr>)"
    using sz unfolding ror_def Let_def res_mask_eq [OF sz] rot_count_def [symmetric] n_def [symmetric] vm x word_bits bit_drop_bit_eq
    by simp
  moreover have "rotates sz (n mod sz) v ?r"
  proof (cases "n mod sz = 0")
    case True
    have "?r = v"
    proof (cases "n = 0")
      case False
      then have "sz \<noteq> 64"
        using True unat_and_mask(2) [of c] by (auto simp: n_def rot_count_def)
      moreover have "shl v sz AND mask sz = 0" if "sz < 64"
        using that by (intro bit_word_eqI) (simp add: bit_simps shl_def)
      ultimately show ?thesis
        using True False sz vm by (auto simp: bit.conj_disj_distrib2)
    qed simp
    then show ?thesis
      using True v by (simp add: rotates_0)
  next
    case False
    then have "n \<noteq> 0"
      by (metis mod_0)
    note False this
    moreover have "n mod sz < sz" "sz \<le> 64"
      using sz by auto
    moreover have "?r = (drop_bit (n mod sz) v OR push_bit (sz - n mod sz) v) AND mask sz"
      using calculation by (simp add: shl_def)
    ultimately show ?thesis
      using rot_bits [OF v, of "n mod sz"] by simp
  qed
  ultimately show ?thesis
    using that by blast
qed

lemma rotates_trans:
  assumes "0 < sz" "rotates sz a v r" "rotates sz b r s"
  shows "rotates sz (a + b) v s"
proof -
  have "bit s i = bit v ((a + b + i) mod sz)" if "i < sz" for i
  proof -
    have "(a + b + i) mod sz = (a + (b + i) mod sz) mod sz"
      by (simp add: mod_add_right_eq add.assoc)
    then show ?thesis
      using assms that by (simp add: rotates_def)
  qed
  then show ?thesis
    using assms by (simp add: rotates_def)
qed

lemma rotates_all:
  assumes "rotates sz sz v r" "take_bit sz v = v"
  shows "r = v"
proof (rule bit_eqI)
  fix i
  show "bit r i = bit v i"
    using assms by (cases "i < sz") (simp_all add: rotates_def take_bit_self_iff)
qed

text \<open>
  the rotates at every operand size. \<open>rol\<close> and \<open>ror\<close> move every bit by the masked count modulo
  the size. A masked count of zero changes no flag; otherwise CF is the bit that was rotated
  around (the lowest bit after \<open>rol\<close>, the highest after \<open>ror\<close>), also for a nonzero multiple of the
  size, and OF is defined by the two bits the manual names for a rotate by one. \<open>ror\<close> undoes \<open>rol\<close>.
\<close>

theorem rotate_correct:
  fixes c :: u64
  assumes "sz \<in> {8, 16, 32, 64}" and "take_bit sz v = v"
  defines "n \<equiv> rot_count sz c"
  shows "(case rol v c sz f of (r, f') \<Rightarrow>
      rotates sz (sz - n mod sz) v r \<and> fst (ror r c sz f') = v \<and>
      f' = (if n = 0 then f else f\<lparr>f_cf := bit r 0,
              f_of := (if n = 1 then bit r (sz - 1) \<noteq> bit r 0 else f_of f)\<rparr>))
    \<and> (case ror v c sz f of (r, f') \<Rightarrow>
      rotates sz (n mod sz) v r \<and>
      f' = (if n = 0 then f else f\<lparr>f_cf := bit r (sz - 1),
              f_of := (if n mod sz = 1 then bit r (sz - 1) \<noteq> bit r (sz - 2) else False)\<rparr>))"
proof -
  obtain r g where l: "rotates sz (sz - n mod sz) v r" "rol v c sz f = (r, g)"
      "g = (if n = 0 then f else f\<lparr>f_cf := bit r 0,
              f_of := (if n = 1 then bit r (sz - 1) \<noteq> bit r 0 else f_of f)\<rparr>)"
    using rol_eq [OF assms(1,2), of c f] unfolding n_def by blast
  then have t: "take_bit sz r = r"
    by (simp add: rotates_def)
  obtain s g' where s: "rotates sz (n mod sz) r s" "ror r c sz g = (s, g')"
    using ror_eq [OF assms(1) t, of c g] unfolding n_def by blast
  have "0 < sz"
    using assms(1) by auto
  from rotates_trans [OF this l(1) s(1)] have "rotates sz sz v s"
    using \<open>0 < sz\<close> by (simp add: less_imp_le)
  then have "s = v"
    by (rule rotates_all [OF _ assms(2)])
  moreover obtain q h where "rotates sz (n mod sz) v q" "ror v c sz f = (q, h)"
      "h = (if n = 0 then f else f\<lparr>f_cf := bit q (sz - 1),
              f_of := (if n mod sz = 1 then bit q (sz - 1) \<noteq> bit q (sz - 2) else False)\<rparr>)"
    using ror_eq [OF assms(1,2), of c f] unfolding n_def by blast
  ultimately show ?thesis
    using l s by simp
qed

theorem rotate_correct_witness:
  "case rol 0x8001 17 16 flags_new of (r, f') \<Rightarrow> fst (ror r 17 16 f') = 0x8001"
  using rotate_correct [where sz = 16 and v = "0x8001" and c = 17 and f = flags_new] by (auto simp: case_prod_beta)

subsection \<open>Double shifts\<close>

lemma status_calc_flags_any:
  "status (f_cf f) (f_of f) (f_af f) (sign_extend_result r bits) (calc_flags r bits f)"
  using status_encoded [of "f_cf f" "f_of f" "f_af f" r bits "f\<lparr>f_tf := False\<rparr>"]
  by (simp add: calc_flags_def set_lazy_from_flags_def Let_def)

lemma double_shiftedI:
  assumes "\<And>i. bit r i \<longleftrightarrow> i < sz \<and> b i" "cf' = cf" "ovf' = ovf"
  shows "double_shifted sz b cf ovf f (r, calc_flags r sz (f\<lparr>f_cf := cf', f_of := ovf'\<rparr>))"
  using status_calc_flags_any [of "f\<lparr>f_cf := cf, f_of := ovf\<rparr>" r sz] assms
  by (simp add: double_shifted_def control_calc_flags)

lemma shrd_computes:
  fixes v0 v1 c :: u64
  assumes sz: "sz \<in> {8, 16, 32, 64}" and v: "take_bit sz v0 = v0"
  defines "n \<equiv> dshift_count sz c"
  shows "n = 0 \<Longrightarrow> shrd v0 v1 c sz f = (v0, f)"
    and "n \<noteq> 0 \<Longrightarrow> double_shifted sz (\<lambda>i. if i + n < sz then bit v0 (i + n) else bit v1 (i + n - sz))
      (bit v0 (n - 1)) (n = 1 \<and> bit v0 (sz - 1) \<noteq> bit v1 0) f (shrd v0 v1 c sz f)"
proof -
  let ?r = "(drop_bit n v0 OR push_bit (sz - n) v1) AND mask sz"
  have vm: "v0 AND mask sz = v0"
    using v by (simp add: take_bit_eq_mask)
  have n: "n \<le> sz" "sz \<le> 64"
    using sz by (auto simp: n_def dshift_count_def)
  have eq: "shrd v0 v1 c sz f = (if n = 0 then (v0, f) else (?r, calc_flags ?r sz
      (f\<lparr>f_cf := bit v0 (n - 1), f_of := (if n = 1 then bit v0 (sz - 1) \<noteq> bit ?r (sz - 1) else False)\<rparr>)))"
    unfolding shrd_def Let_def res_mask_eq [OF sz] rot_count_def [symmetric]
      dshift_count_def [symmetric] n_def [symmetric] vm bit_drop_and_one
    by simp
  show "n = 0 \<Longrightarrow> shrd v0 v1 c sz f = (v0, f)"
    by (simp add: eq)
  have hi: "\<not> bit v0 k" if "sz \<le> k" for k
    using v that by (simp add: take_bit_self_iff)
  have b: "bit ?r i \<longleftrightarrow> i < sz \<and> (if i + n < sz then bit v0 (i + n) else bit v1 (i + n - sz))"
    if "n \<noteq> 0" for i
  proof (cases "i + n < sz")
    case True
    then show ?thesis
      using n by (auto simp: bit_simps add.commute)
  next
    case False
    then show ?thesis
      using n hi [of "n + i"] by (auto simp: bit_simps add.commute)
  qed
  show "double_shifted sz (\<lambda>i. if i + n < sz then bit v0 (i + n) else bit v1 (i + n - sz))
      (bit v0 (n - 1)) (n = 1 \<and> bit v0 (sz - 1) \<noteq> bit v1 0) f (shrd v0 v1 c sz f)" if nz: "n \<noteq> 0"
  proof -
    have "(if n = 1 then bit v0 (sz - 1) \<noteq> bit ?r (sz - 1) else False) =
        (n = 1 \<and> bit v0 (sz - 1) \<noteq> bit v1 0)"
    proof (cases "n = 1")
      case True
      have "0 < sz"
        using sz by auto
      then show ?thesis
        using b [OF nz, of "sz - 1"] unfolding True by simp
    qed simp
    from double_shiftedI [OF b [OF nz] refl this] show ?thesis
      using nz unfolding eq by simp
  qed
qed

lemma shld_computes:
  fixes v0 v1 c :: u64
  assumes sz: "sz \<in> {8, 16, 32, 64}" and v: "take_bit sz v0 = v0" "take_bit sz v1 = v1"
  defines "n \<equiv> dshift_count sz c"
  shows "n = 0 \<Longrightarrow> shld v0 v1 c sz f = (v0, f)"
    and "n \<noteq> 0 \<Longrightarrow> double_shifted sz (\<lambda>i. if n \<le> i then bit v0 (i - n) else bit v1 (i + sz - n))
      (bit v0 (sz - n)) (n = 1 \<and> bit v0 (sz - 2) \<noteq> bit v0 (sz - 1)) f (shld v0 v1 c sz f)"
proof -
  let ?r = "(drop_bit (sz - n) v1 OR push_bit n v0) AND mask sz"
  have vm: "v0 AND mask sz = v0"
    using v by (simp add: take_bit_eq_mask)
  have n: "n \<le> sz" "sz \<le> 64"
    using sz by (auto simp: n_def dshift_count_def)
  have x: "drop_bit k w AND 1 \<noteq> of_bool b' \<longleftrightarrow> bit (w::u64) k \<noteq> b'" for k w b'
    by (simp add: and_one_of_bool bit_drop_bit_eq)
  have eq: "shld v0 v1 c sz f = (if n = 0 then (v0, f) else (?r, calc_flags ?r sz
      (f\<lparr>f_cf := bit v0 (sz - n),
         f_of := (if n = 1 then bit ?r (sz - 1) \<noteq> bit v0 (sz - n) else False)\<rparr>)))"
    unfolding shld_def Let_def res_mask_eq [OF sz] rot_count_def [symmetric]
      dshift_count_def [symmetric] n_def [symmetric] vm bit_drop_and_one x
    by simp
  show "n = 0 \<Longrightarrow> shld v0 v1 c sz f = (v0, f)"
    by (simp add: eq)
  have hi: "\<not> bit v1 k" if "sz \<le> k" for k
    using v that by (simp add: take_bit_self_iff)
  have b: "bit ?r i \<longleftrightarrow> i < sz \<and> (if n \<le> i then bit v0 (i - n) else bit v1 (i + sz - n))" for i
  proof (cases "n \<le> i")
    case True
    then show ?thesis
      using n hi [of "sz - n + i"] by (auto simp: bit_simps)
  next
    case False
    moreover have "sz - n + i = i + sz - n"
      using n by simp
    ultimately show ?thesis
      using n by (auto simp: bit_simps)
  qed
  show "double_shifted sz (\<lambda>i. if n \<le> i then bit v0 (i - n) else bit v1 (i + sz - n))
      (bit v0 (sz - n)) (n = 1 \<and> bit v0 (sz - 2) \<noteq> bit v0 (sz - 1)) f (shld v0 v1 c sz f)"
    if nz: "n \<noteq> 0"
  proof -
    have "(if n = 1 then bit ?r (sz - 1) \<noteq> bit v0 (sz - n) else False) =
        (n = 1 \<and> bit v0 (sz - 2) \<noteq> bit v0 (sz - 1))"
    proof (cases "n = 1")
      case True
      have "1 \<le> sz - 1" "sz - 1 < sz" "sz - 1 - 1 = sz - 2"
        using sz by auto
      then show ?thesis
        using b [of "sz - 1"] unfolding True by simp
    qed simp
    from double_shiftedI [OF b refl this] show ?thesis
      using nz unfolding eq by simp
  qed
qed

text \<open>
  the double shifts at every operand size. With a masked (and clamped) count of zero nothing
  changes; otherwise \<open>shrd\<close> shifts the low bits of the second operand in from the left and \<open>shld\<close>
  the high bits in from the right, CF is the last bit shifted out, OF says for a count of one
  that the sign changed, and ZF, SF and PF describe the result.
\<close>

theorem double_shift_correct:
  fixes c :: u64
  assumes "sz \<in> {8, 16, 32, 64}" and "take_bit sz v0 = v0" and "take_bit sz v1 = v1"
  defines "n \<equiv> dshift_count sz c"
  shows "if n = 0 then shrd v0 v1 c sz f = (v0, f) \<and> shld v0 v1 c sz f = (v0, f)
    else double_shifted sz (\<lambda>i. if i + n < sz then bit v0 (i + n) else bit v1 (i + n - sz))
           (bit v0 (n - 1)) (n = 1 \<and> bit v0 (sz - 1) \<noteq> bit v1 0) f (shrd v0 v1 c sz f)
       \<and> double_shifted sz (\<lambda>i. if n \<le> i then bit v0 (i - n) else bit v1 (i + sz - n))
           (bit v0 (sz - n)) (n = 1 \<and> bit v0 (sz - 2) \<noteq> bit v0 (sz - 1)) f (shld v0 v1 c sz f)"
  using shrd_computes [OF assms(1,2), of c v1 f] shld_computes [OF assms(1-3), of c f]
  unfolding n_def by simp

theorem double_shift_correct_witness:
  "dshift_count 32 40 = 8 \<and>
   double_shifted 32 (\<lambda>i. if i + 8 < 32 then bit (0x12345678 :: u64) (i + 8) else bit (0xff :: u64) (i + 8 - 32))
     (bit (0x12345678 :: u64) (8 - 1)) (8 = (1 :: nat) \<and> bit (0x12345678 :: u64) (32 - 1) \<noteq> bit (0xff :: u64) 0)
     flags_new (shrd 0x12345678 0xff 40 32 flags_new)"
proof -
  have n: "dshift_count 32 40 = 8"
    by (simp add: dshift_count_def rot_count_def)
  then show ?thesis
    using double_shift_correct [where sz = 32 and ?v0.0 = "0x12345678" and ?v1.0 = "0xff" and c = 40
        and f = flags_new] unfolding n by simp
qed

end
