(* ===== verification/Scalar.thy ===== *)
theory Scalar
  imports Word_Casts
begin

section \<open>Little-endian scalars\<close>

text \<open>
  A model of \<^verbatim>\<open>crates/libmwemu/src/maps/scalar.rs\<close>. The trait \<open>LittleEndianScalar\<close> is implemented
  for \<open>u8\<close>, \<open>u16\<close>, \<open>u32\<close>, \<open>u64\<close> and \<open>u128\<close>; the model is polymorphic in the width, with \<open>SIZE\<close> the number
  of bytes. \<open>ScalarKind\<close> and \<open>ScalarTrace\<close> only label log messages and are not modelled.
\<close>

definition scalar_size :: "'a::len word itself \<Rightarrow> nat" where
  "scalar_size t = LENGTH('a) div 8"

definition to_le_bytes :: "'a::len word \<Rightarrow> u8 list" where
  "to_le_bytes w = map (\<lambda>i. ucast (drop_bit (8 * i) w)) [0..<scalar_size TYPE('a word)]"

definition from_le_bytes :: "u8 list \<Rightarrow> 'a::len word" where
  "from_le_bytes bs = foldr (\<lambda>b acc. ucast b OR push_bit 8 acc) bs 0"

definition from_le_slice :: "u8 list \<Rightarrow> 'a::len word outcome" where
  "from_le_slice bytes =
     (if length bytes = scalar_size TYPE('a word) then Ret (from_le_bytes bytes)
      else Panic UnwrapNone)"

definition to_le_vec :: "'a::len word \<Rightarrow> u8 list" where
  "to_le_vec w = to_le_bytes w"

definition write_le :: "'a::len word \<Rightarrow> u8 list \<Rightarrow> u8 list outcome" where
  "write_le w out = copy_from_slice out 0 (scalar_size TYPE('a word)) (to_le_bytes w)"

definition read_le :: "u8 list \<Rightarrow> 'a::len word option outcome" where
  "read_le bytes =
     (if length bytes < scalar_size TYPE('a word) then Ret None
      else obind (slice_index bytes 0 (scalar_size TYPE('a word)))
             (\<lambda>s. obind (from_le_slice s) (\<lambda>w. Ret (Some w))))"

text \<open>The widths the trait is implemented for: whole bytes, at most sixteen of them.\<close>

definition scalar_width :: "'a::len word itself \<Rightarrow> bool" where
  "scalar_width t \<longleftrightarrow> LENGTH('a) mod 8 = 0 \<and> LENGTH('a) \<le> 128"

subsection \<open>Encoding and decoding are inverse\<close>

lemma scalar_size_values [simp]:
  "scalar_size TYPE(8 word) = 1" "scalar_size TYPE(16 word) = 2" "scalar_size TYPE(32 word) = 4"
  "scalar_size TYPE(64 word) = 8" "scalar_size TYPE(128 word) = 16"
  by (simp_all add: scalar_size_def)

lemma scalar_widths [simp]:
  "scalar_width TYPE(8 word)" "scalar_width TYPE(16 word)" "scalar_width TYPE(32 word)"
  "scalar_width TYPE(64 word)" "scalar_width TYPE(128 word)"
  by (simp_all add: scalar_width_def)

lemma scalar_width_size:
  "scalar_width TYPE('a::len word) \<Longrightarrow> 8 * scalar_size TYPE('a word) = LENGTH('a)"
  by (auto simp: scalar_width_def scalar_size_def)

lemma scalar_size_bounds:
  assumes "scalar_width TYPE('a::len word)"
  shows "0 < scalar_size TYPE('a word)" "scalar_size TYPE('a word) \<le> 16"
  using scalar_width_size [OF assms] assms len_gt_0 [where 'a = 'a]
  unfolding scalar_width_def by linarith+

lemma length_to_le_bytes [simp]:
  "length (to_le_bytes (w :: 'a::len word)) = scalar_size TYPE('a word)"
  by (simp add: to_le_bytes_def)

lemma bit_from_le_bytes:
  "bit (from_le_bytes bs :: 'a::len word) i \<longleftrightarrow>
     i < LENGTH('a) \<and> i div 8 < length bs \<and> bit (bs ! (i div 8)) (i mod 8)"
proof (induction bs arbitrary: i)
  case Nil
  then show ?case by (simp add: from_le_bytes_def)
next
  case (Cons b bs)
  have e: "(from_le_bytes (b # bs) :: 'a word) = ucast b OR push_bit 8 (from_le_bytes bs)"
    by (simp add: from_le_bytes_def)
  show ?case
  proof (cases "i < 8")
    case True
    then show ?thesis
      by (auto simp: e bit_simps dest: bit_imp_le_length)
  next
    case False
    then have "i div 8 = Suc ((i - 8) div 8)" "i mod 8 = (i - 8) mod 8"
      by (simp_all add: le_div_geq le_mod_geq)
    then show ?thesis
      using False Cons.IH [of "i - 8"] by (auto simp: e bit_simps dest: bit_imp_le_length)
  qed
qed

lemma from_to_le_bytes [simp]:
  assumes "scalar_width TYPE('a::len word)"
  shows "from_le_bytes (to_le_bytes w) = (w :: 'a word)"
proof (rule bit_word_eqI)
  fix i assume "i < LENGTH('a)"
  moreover from this have "i div 8 < scalar_size TYPE('a word)"
    using scalar_width_size [OF assms] by (simp add: less_mult_imp_div_less mult.commute)
  ultimately show "bit (from_le_bytes (to_le_bytes w) :: 'a word) i = bit w i"
    by (simp add: bit_from_le_bytes to_le_bytes_def bit_simps)
qed

lemma to_from_le_bytes:
  assumes "scalar_width TYPE('a::len word)" "length bs = scalar_size TYPE('a word)"
  shows "to_le_bytes (from_le_bytes bs :: 'a word) = bs"
proof (rule nth_equalityI)
  fix i assume "i < length (to_le_bytes (from_le_bytes bs :: 'a word))"
  then have i: "i < scalar_size TYPE('a word)"
    by simp
  show "to_le_bytes (from_le_bytes bs :: 'a word) ! i = bs ! i"
  proof (rule bit_word_eqI)
    fix j assume "j < LENGTH(8)"
    moreover from this i have "8 * i + j < LENGTH('a)" "(8 * i + j) div 8 = i" "(8 * i + j) mod 8 = j"
      using scalar_width_size [OF assms(1)] by simp_all
    ultimately show "bit (to_le_bytes (from_le_bytes bs :: 'a word) ! i) j = bit (bs ! i) j"
      using i assms(2) by (simp add: to_le_bytes_def bit_simps bit_from_le_bytes)
  qed
qed (simp add: assms)

lemma write_le_16:
  assumes "scalar_width TYPE('a::len word)"
  shows "write_le (w :: 'a word) (replicate 16 0) =
    Ret (to_le_bytes w @ replicate (16 - scalar_size TYPE('a word)) 0)"
  using scalar_size_bounds [OF assms]
  by (simp add: write_le_def copy_from_slice_def splice_def)

lemma read_le_exact:
  "length bs = scalar_size TYPE('a word) \<Longrightarrow> read_le bs = Ret (Some (from_le_bytes bs :: 'a::len word))"
  by (simp add: read_le_def from_le_slice_def slice_index_def slice_get_def)

lemma read_le_short:
  "length bs < scalar_size TYPE('a word) \<Longrightarrow> read_le bs = Ret (None :: 'a::len word option)"
  by (simp add: read_le_def)

end
