(* ===== verification/Mem64.thy ===== *)
theory Mem64
  imports Scalar
begin

section \<open>A memory region\<close>

text \<open>
  A model of \<^verbatim>\<open>crates/libmwemu/src/maps/mem64.rs\<close>: permissions, the region record and its
  operations. Log and trace output, hashing and file input and output are not modelled; the
  string operations are modelled on the bytes they read and write, without the UTF-8 and UTF-16
  conversions. The allocation of host memory always succeeds; in the source a vector of \<open>2 ^ 63\<close> bytes or more
  panics.
\<close>

subsection \<open>Permissions\<close>

datatype permission = Permission (perm_bits: u8)

definition PERM_NONE :: permission where "PERM_NONE = Permission 0"
definition PERM_READ :: permission where "PERM_READ = Permission 1"
definition PERM_WRITE :: permission where "PERM_WRITE = Permission 2"
definition PERM_EXECUTE :: permission where "PERM_EXECUTE = Permission 4"
definition PERM_READ_WRITE :: permission where "PERM_READ_WRITE = Permission 3"
definition PERM_READ_EXECUTE :: permission where "PERM_READ_EXECUTE = Permission 5"
definition PERM_WRITE_EXECUTE :: permission where "PERM_WRITE_EXECUTE = Permission 6"
definition PERM_READ_WRITE_EXECUTE :: permission where "PERM_READ_WRITE_EXECUTE = Permission 7"

lemmas PERM_defs = PERM_NONE_def PERM_READ_def PERM_WRITE_def PERM_EXECUTE_def
  PERM_READ_WRITE_def PERM_READ_EXECUTE_def PERM_WRITE_EXECUTE_def PERM_READ_WRITE_EXECUTE_def

definition perm_from_bits :: "u8 \<Rightarrow> permission" where
  "perm_from_bits bits = Permission (bits AND 7)"

definition perm_from_flags :: "bool \<Rightarrow> bool \<Rightarrow> bool \<Rightarrow> permission" where
  "perm_from_flags r w x =
     (let bits = 0;
          bits = (if r then bits OR 1 else bits);
          bits = (if w then bits OR 2 else bits);
          bits = (if x then bits OR 4 else bits)
      in Permission bits)"

definition perm_can_read :: "permission \<Rightarrow> bool" where
  "perm_can_read p \<longleftrightarrow> perm_bits p AND 1 \<noteq> 0"

definition perm_can_write :: "permission \<Rightarrow> bool" where
  "perm_can_write p \<longleftrightarrow> perm_bits p AND 2 \<noteq> 0"

definition perm_can_execute :: "permission \<Rightarrow> bool" where
  "perm_can_execute p \<longleftrightarrow> perm_bits p AND 4 \<noteq> 0"

definition perm_is_accessible :: "permission \<Rightarrow> bool" where
  "perm_is_accessible p \<longleftrightarrow> perm_bits p \<noteq> 0"

definition perm_add :: "permission \<Rightarrow> permission \<Rightarrow> permission" where
  "perm_add p q = Permission (perm_bits p OR perm_bits q)"

definition perm_remove :: "permission \<Rightarrow> permission \<Rightarrow> permission" where
  "perm_remove p q = Permission (perm_bits p AND NOT (perm_bits q))"

definition perm_contains :: "permission \<Rightarrow> permission \<Rightarrow> bool" where
  "perm_contains p q \<longleftrightarrow> perm_bits p AND perm_bits q = perm_bits q"

definition perm_to_flags :: "permission \<Rightarrow> bool \<times> bool \<times> bool" where
  "perm_to_flags p = (perm_can_read p, perm_can_write p, perm_can_execute p)"

definition perm_bitor :: "permission \<Rightarrow> permission \<Rightarrow> permission" where
  "perm_bitor p q = Permission (perm_bits p OR perm_bits q)"

definition perm_bitand :: "permission \<Rightarrow> permission \<Rightarrow> permission" where
  "perm_bitand p q = Permission (perm_bits p AND perm_bits q)"

definition perm_bitxor :: "permission \<Rightarrow> permission \<Rightarrow> permission" where
  "perm_bitxor p q = Permission (perm_bits p XOR perm_bits q)"

definition perm_not :: "permission \<Rightarrow> permission" where
  "perm_not p = Permission (NOT (perm_bits p) AND 7)"

subsection \<open>The region\<close>

record mem64 =
  mem_name :: string
  base_addr :: u64
  bottom_addr :: u64
  permission :: permission
  mem :: "u8 list"

definition mem64_default :: mem64 where
  "mem64_default = \<lparr>mem_name = '''', base_addr = 0, bottom_addr = 0,
     permission = perm_from_flags True True False, mem = []\<rparr>"

definition mem64_new :: "string \<Rightarrow> u64 \<Rightarrow> u64 \<Rightarrow> u8 list \<Rightarrow> permission \<Rightarrow> mem64" where
  "mem64_new n base bottom bs p =
     \<lparr>mem_name = n, base_addr = base, bottom_addr = bottom, permission = p, mem = bs\<rparr>"

definition set_permission :: "permission \<Rightarrow> mem64 \<Rightarrow> mem64" where
  "set_permission p m = m\<lparr>permission := p\<rparr>"

definition add_permission :: "permission \<Rightarrow> mem64 \<Rightarrow> mem64" where
  "add_permission p m = m\<lparr>permission := perm_add (permission m) p\<rparr>"

definition remove_permission :: "permission \<Rightarrow> mem64 \<Rightarrow> mem64" where
  "remove_permission p m = m\<lparr>permission := perm_remove (permission m) p\<rparr>"

definition can_read :: "mem64 \<Rightarrow> bool" where
  "can_read m \<longleftrightarrow> perm_can_read (permission m)"

definition can_write :: "mem64 \<Rightarrow> bool" where
  "can_write m \<longleftrightarrow> perm_can_write (permission m)"

definition can_execute :: "mem64 \<Rightarrow> bool" where
  "can_execute m \<longleftrightarrow> perm_can_execute (permission m)"

definition mem_clear :: "mem64 \<Rightarrow> mem64" where
  "mem_clear m = m\<lparr>mem_name := '''', base_addr := 0, bottom_addr := 0, mem := []\<rparr>"

definition set_name :: "string \<Rightarrow> mem64 \<Rightarrow> mem64" where
  "set_name n m = m\<lparr>mem_name := n\<rparr>"

definition mem_alloc :: "usize \<Rightarrow> mem64 \<Rightarrow> mem64" where
  "mem_alloc amount m = m\<lparr>mem := replicate (unat amount) 0\<rparr>"

definition mem_extend :: "usize \<Rightarrow> mem64 \<Rightarrow> mem64" where
  "mem_extend amount m =
     m\<lparr>mem := mem m @ replicate (unat amount) 0, bottom_addr := bottom_addr m + amount\<rparr>"

definition mem_size :: "mem64 \<Rightarrow> usize" where
  "mem_size m = of_nat (length (mem m))"

definition drop_front :: "usize \<Rightarrow> mem64 \<Rightarrow> mem64 outcome" where
  "drop_front n m =
     (if length (mem m) < unat n then Panic SliceOutOfRange
      else Ret (m\<lparr>mem := drop (unat n) (mem m), base_addr := base_addr m + n\<rparr>))"

definition mem_truncate :: "usize \<Rightarrow> mem64 \<Rightarrow> mem64" where
  "mem_truncate n m = m\<lparr>mem := take (unat n) (mem m), bottom_addr := base_addr m + n\<rparr>"

definition split_off :: "u64 \<Rightarrow> mem64 \<Rightarrow> (u8 list \<times> mem64) outcome" where
  "split_off at m =
     (let n = unat (at - base_addr m)
      in if length (mem m) < n then Panic SliceOutOfRange
         else Ret (drop n (mem m), m\<lparr>mem := take n (mem m), bottom_addr := at\<rparr>))"

definition mem_memcpy :: "u8 list \<Rightarrow> usize \<Rightarrow> mem64 \<Rightarrow> mem64 outcome" where
  "mem_memcpy ptr sz m =
     (if length (mem m) < unat sz then Ret m
      else obind (slice_index ptr 0 (unat sz)) (\<lambda>src.
           obind (copy_from_slice (mem m) 0 (unat sz) src) (\<lambda>bs. Ret (m\<lparr>mem := bs\<rparr>))))"

definition inside :: "mem64 \<Rightarrow> u64 \<Rightarrow> bool" where
  "inside m addr \<longleftrightarrow> base_addr m \<le> addr \<and> addr < bottom_addr m"

definition set_base :: "u64 \<Rightarrow> mem64 \<Rightarrow> mem64" where
  "set_base base m = m\<lparr>base_addr := base, bottom_addr := base\<rparr>"

definition update_base :: "u64 \<Rightarrow> mem64 \<Rightarrow> mem64" where
  "update_base base m = m\<lparr>base_addr := base\<rparr>"

definition set_bottom :: "u64 \<Rightarrow> mem64 \<Rightarrow> mem64" where
  "set_bottom bottom m =
     (let m = m\<lparr>bottom_addr := bottom\<rparr> in mem_alloc (bottom_addr m - base_addr m) m)"

definition update_bottom :: "u64 \<Rightarrow> mem64 \<Rightarrow> mem64" where
  "update_bottom bottom m = m\<lparr>bottom_addr := bottom\<rparr>"

definition set_size :: "u64 \<Rightarrow> mem64 \<Rightarrow> mem64" where
  "set_size sz m = mem_alloc sz (m\<lparr>bottom_addr := base_addr m + sz\<rparr>)"

subsection \<open>Reading\<close>

definition unwrap_or_empty :: "'a list option \<Rightarrow> 'a list" where
  "unwrap_or_empty x = (case x of None \<Rightarrow> [] | Some bs \<Rightarrow> bs)"

definition mem_read_from :: "u64 \<Rightarrow> mem64 \<Rightarrow> u8 list" where
  "mem_read_from addr m =
     (if \<not> can_read m then []
      else if addr < base_addr m \<or> bottom_addr m \<le> addr then []
      else
        let idx = unat (addr - base_addr m);
            max_sz = unat (bottom_addr m - base_addr m)
        in unwrap_or_empty (slice_get (mem m) idx max_sz))"

definition mem_read_bytes :: "u64 \<Rightarrow> usize \<Rightarrow> mem64 \<Rightarrow> u8 list" where
  "mem_read_bytes addr sz m =
     (if \<not> can_read m then []
      else if base_addr m + mem_size m \<le> addr then []
      else if addr < base_addr m then []
      else
        let idx = addr - base_addr m;
            sz2 = idx + sz
        in if mem_size m < sz2 then unwrap_or_empty (slice_get (mem m) (unat idx) (length (mem m)))
           else unwrap_or_empty (slice_get (mem m) (unat idx) (unat sz2)))"

definition mem_get_bytes :: "mem64 \<Rightarrow> u8 list" where
  "mem_get_bytes m =
     (let idx = 0; sz2 = length (mem m)
      in if length (mem m) < sz2 then unwrap_or_empty (slice_get (mem m) idx (length (mem m)))
         else unwrap_or_empty (slice_get (mem m) idx sz2))"

definition mem_read_byte :: "u64 \<Rightarrow> mem64 \<Rightarrow> u8 outcome" where
  "mem_read_byte addr m =
     (if \<not> can_read m then Ret 0 else vec_index (mem m) (unat (addr - base_addr m)))"

definition mem_read_scalar :: "u64 \<Rightarrow> mem64 \<Rightarrow> 'a::len word outcome" where
  "mem_read_scalar addr m =
     (let SIZE = scalar_size TYPE('a word);
          zeros = obind (read_le (replicate SIZE 0)) expect
      in if \<not> can_read m then zeros
         else
           let idx = addr - base_addr m
           in if mem_size m < idx + of_nat SIZE then zeros
              else obind (slice_index (mem m) (unat idx) (unat (idx + of_nat SIZE)))
                     (\<lambda>bs. obind (read_le bs) expect))"

definition mem_read_word :: "u64 \<Rightarrow> mem64 \<Rightarrow> u16 outcome" where
  "mem_read_word addr m = mem_read_scalar addr m"

definition mem_read_dword :: "u64 \<Rightarrow> mem64 \<Rightarrow> u32 outcome" where
  "mem_read_dword addr m = mem_read_scalar addr m"

definition mem_read_qword :: "u64 \<Rightarrow> mem64 \<Rightarrow> u64 outcome" where
  "mem_read_qword addr m = mem_read_scalar addr m"

definition mem_read_oword :: "u64 \<Rightarrow> mem64 \<Rightarrow> u128 outcome" where
  "mem_read_oword addr m = mem_read_scalar addr m"

text \<open>\<open>read_string\<close> up to the lossy UTF-8 decoding of the bytes it found.\<close>

definition mem_read_string :: "u64 \<Rightarrow> mem64 \<Rightarrow> u8 list outcome" where
  "mem_read_string addr m =
     (if \<not> can_read m then Ret []
      else
        let MAX_SIZE_STR = 1000000;
            start = unat (addr - base_addr m);
            avail = min (length (mem m) - start) MAX_SIZE_STR
        in obind (slice_index (mem m) start (start + avail)) (\<lambda>region. Ret (takeWhile (\<lambda>b. b \<noteq> 0) region)))"

subsection \<open>Writing\<close>

definition force_write_byte :: "u64 \<Rightarrow> u8 \<Rightarrow> mem64 \<Rightarrow> mem64 outcome" where
  "force_write_byte addr v m =
     obind (vec_store (mem m) (unat (addr - base_addr m)) v) (\<lambda>bs. Ret (m\<lparr>mem := bs\<rparr>))"

definition force_write_bytes :: "u64 \<Rightarrow> u8 list \<Rightarrow> mem64 \<Rightarrow> mem64 outcome" where
  "force_write_bytes addr bs m =
     (let idx = addr - base_addr m
      in obind (copy_from_slice (mem m) (unat idx) (unat (of_nat (length bs) + idx)) bs)
           (\<lambda>bs. Ret (m\<lparr>mem := bs\<rparr>)))"

definition force_write_string :: "u64 \<Rightarrow> u8 list \<Rightarrow> mem64 \<Rightarrow> mem64 outcome" where
  "force_write_string addr s m = force_write_bytes addr (s @ [0]) m"

definition force_write_scalar :: "u64 \<Rightarrow> 'a::len word \<Rightarrow> mem64 \<Rightarrow> mem64 outcome" where
  "force_write_scalar addr v m =
     (let SIZE = scalar_size TYPE('a word); idx = addr - base_addr m
      in obind (write_le v (replicate 16 0)) (\<lambda>buf.
         obind (slice_index buf 0 SIZE) (\<lambda>src.
         obind (copy_from_slice (mem m) (unat idx) (unat (idx + of_nat SIZE)) src)
           (\<lambda>bs. Ret (m\<lparr>mem := bs\<rparr>)))))"

definition mem_write_byte :: "u64 \<Rightarrow> u8 \<Rightarrow> mem64 \<Rightarrow> mem64 outcome" where
  "mem_write_byte addr v m = (if \<not> can_write m then Ret m else force_write_byte addr v m)"

definition mem_write_bytes :: "u64 \<Rightarrow> u8 list \<Rightarrow> mem64 \<Rightarrow> mem64 outcome" where
  "mem_write_bytes addr bs m = (if \<not> can_write m then Ret m else force_write_bytes addr bs m)"

definition mem_write_scalar :: "u64 \<Rightarrow> 'a::len word \<Rightarrow> mem64 \<Rightarrow> mem64 outcome" where
  "mem_write_scalar addr v m = (if \<not> can_write m then Ret m else force_write_scalar addr v m)"

definition mem_write_string :: "u64 \<Rightarrow> u8 list \<Rightarrow> mem64 \<Rightarrow> mem64 outcome" where
  "mem_write_string addr s m =
     (if \<not> can_write m then Ret m
      else
        let v = (if s \<noteq> [] \<and> last s = 0 then s else s @ [0])
        in mem_write_bytes addr v m)"

subsection \<open>The shape of a region\<close>

text \<open>
  A well-formed region does not reach past the last address, and its bottom is its base plus
  the number of its bytes.
\<close>

definition mem_wf :: "mem64 \<Rightarrow> bool" where
  "mem_wf m \<longleftrightarrow>
     unat (base_addr m) + length (mem m) < 2 ^ 64 \<and>
     bottom_addr m = base_addr m + of_nat (length (mem m))"

text \<open>The byte of a region at an address inside it.\<close>

definition byte_of :: "mem64 \<Rightarrow> u64 \<Rightarrow> u8" where
  "byte_of m a = mem m ! unat (a - base_addr m)"

lemma mem_wf_len: "mem_wf m \<Longrightarrow> length (mem m) < 2 ^ 64"
  by (simp add: mem_wf_def)

lemma unat_mem_size: "mem_wf m \<Longrightarrow> unat (mem_size m) = length (mem m)"
  using mem_wf_len [of m] by (simp add: mem_size_def unat_of_nat64)

lemma unat_bottom: "mem_wf m \<Longrightarrow> unat (bottom_addr m) = unat (base_addr m) + length (mem m)"
  by (simp add: mem_wf_def unat_add64 unat_of_nat64)

lemma inside_iff:
  "mem_wf m \<Longrightarrow> inside m a \<longleftrightarrow> unat (base_addr m) \<le> unat a \<and> unat a < unat (base_addr m) + length (mem m)"
  by (simp add: inside_def word_le_nat_alt word_less_nat_alt unat_bottom)

lemma inside_index:
  "mem_wf m \<Longrightarrow> inside m a \<Longrightarrow>
     unat (a - base_addr m) = unat a - unat (base_addr m) \<and> unat (a - base_addr m) < length (mem m)"
  by (auto simp: inside_iff unat_sub word_le_nat_alt)

text \<open>Consecutive addresses of a range that does not wrap.\<close>

lemma unat_add_of_nat:
  fixes a :: u64
  shows "unat a + n < 2 ^ 64 \<Longrightarrow> unat (a + of_nat n) = unat a + n"
  by (simp add: unat_add64 unat_of_nat64)

lemma unat_range_index:
  fixes a b :: u64
  assumes "b \<le> a" and "unat a + n < 2 ^ 64"
  shows "unat (a + of_nat n - b) = unat (a - b) + n"
proof -
  have "b \<le> a + of_nat n"
    using assms by (simp add: word_le_nat_alt unat_add_of_nat)
  then show ?thesis
    using assms by (simp add: unat_sub unat_add_of_nat word_le_nat_alt)
qed

lemma mem_read_bytes_range:
  assumes wf: "mem_wf m" and r: "can_read m" and i: "inside m a"
    and n: "unat a + n \<le> unat (base_addr m) + length (mem m)"
  shows "mem_read_bytes a (of_nat n) m = take n (drop (unat (a - base_addr m)) (mem m))"
proof -
  have b: "base_addr m \<le> a" "\<not> base_addr m + mem_size m \<le> a"
    using i wf by (simp_all add: inside_def mem_wf_def mem_size_def not_le)
  have u: "unat (a - base_addr m) = unat a - unat (base_addr m)"
    using wf i by (simp add: inside_index)
  have "unat (a - base_addr m) + n < 2 ^ 64"
    using n mem_wf_len [OF wf] b(1) unfolding u by (simp add: word_le_nat_alt)
  then have s: "unat (a - base_addr m + of_nat n) = unat (a - base_addr m) + n"
    by (rule unat_add_of_nat)
  then have "\<not> mem_size m < a - base_addr m + of_nat n"
    using n b(1) unfolding u by (simp add: word_less_nat_alt unat_mem_size [OF wf] word_le_nat_alt)
  moreover have "unat (a - base_addr m) + n \<le> length (mem m)"
    using n b(1) unfolding u by (simp add: word_le_nat_alt)
  ultimately show ?thesis
    using r b s by (simp add: mem_read_bytes_def unwrap_or_empty_def slice_get_def Let_def)
qed

lemma nth_read_range:
  assumes "mem_wf m" and "inside m a" and "unat a + n \<le> unat (base_addr m) + length (mem m)" and "j < n"
  shows "take n (drop (unat (a - base_addr m)) (mem m)) ! j = byte_of m (a + of_nat j)"
proof -
  have "unat (a + of_nat j - base_addr m) = unat (a - base_addr m) + j"
    using assms by (intro unat_range_index) (auto simp: inside_def mem_wf_def)
  then show ?thesis
    using assms by (auto simp: byte_of_def inside_index)
qed

lemma force_write_bytes_range:
  assumes wf: "mem_wf m" and i: "inside m a"
    and n: "unat a + length bs \<le> unat (base_addr m) + length (mem m)"
  shows "force_write_bytes a bs m = Ret (m\<lparr>mem := splice (mem m) (unat (a - base_addr m)) bs\<rparr>)"
proof -
  have u: "unat (a - base_addr m) = unat a - unat (base_addr m)" "unat (base_addr m) \<le> unat a"
    using wf i by (simp_all add: inside_index inside_iff)
  have "unat (a - base_addr m) + length bs < 2 ^ 64"
    using n u mem_wf_len [OF wf] by simp
  then have "unat (of_nat (length bs) + (a - base_addr m)) = unat (a - base_addr m) + length bs"
    using unat_add_of_nat [of "a - base_addr m" "length bs"] by (simp add: add.commute)
  moreover have "unat (a - base_addr m) + length bs \<le> length (mem m)"
    using n u by linarith
  ultimately show ?thesis
    by (simp add: force_write_bytes_def copy_from_slice_def Let_def)
qed

lemma byte_of_splice:
  assumes "mem_wf m" and "inside m a" and "inside m c"
    and "unat a + length bs \<le> unat (base_addr m) + length (mem m)"
  shows "byte_of (m\<lparr>mem := splice (mem m) (unat (a - base_addr m)) bs\<rparr>) c =
    (if unat a \<le> unat c \<and> unat c < unat a + length bs then bs ! (unat c - unat a) else byte_of m c)"
  using assms inside_index [OF assms(1,2)] inside_index [OF assms(1,3)]
  by (auto simp: byte_of_def nth_splice inside_iff)

lemma splice_wf:
  "mem_wf m \<Longrightarrow> i + length bs \<le> length (mem m) \<Longrightarrow> mem_wf (m\<lparr>mem := splice (mem m) i bs\<rparr>)"
  by (simp add: mem_wf_def)

end
