(* ===== verification/Tlb.thy ===== *)
theory Tlb
  imports Word_Casts
begin

section \<open>The translation look-aside buffer\<close>

text \<open>
  A model of \<^verbatim>\<open>crates/libmwemu/src/maps/tlb.rs\<close>. The array of \<open>TLB_SIZE\<close> entries is a function from
  indices; \<open>get_index_of\<close> is shown to stay below \<open>TLB_SIZE\<close>, so the array accesses of the source do
  not panic.
\<close>

definition TLB_SIZE :: nat where
  "TLB_SIZE = 2048"

definition LPF_OF :: "u64 \<Rightarrow> u64" where
  "LPF_OF addr = addr AND 0xfffffffffffff000"

definition INVALID_TLB_ENTRY :: u64 where
  "INVALID_TLB_ENTRY = 0xffffffffffffffff"

record tlb_entry =
  te_lpf :: u64
  te_mem64 :: nat

definition tlb_entry_new :: tlb_entry where
  "tlb_entry_new = \<lparr>te_lpf = INVALID_TLB_ENTRY, te_mem64 = 0\<rparr>"

definition tlb_entry_valid :: "tlb_entry \<Rightarrow> bool" where
  "tlb_entry_valid e \<longleftrightarrow> te_lpf e \<noteq> INVALID_TLB_ENTRY"

definition tlb_entry_invalidate :: "tlb_entry \<Rightarrow> tlb_entry" where
  "tlb_entry_invalidate e = e\<lparr>te_lpf := INVALID_TLB_ENTRY\<rparr>"

definition tlb_entry_set_mem :: "u64 \<Rightarrow> nat \<Rightarrow> tlb_entry \<Rightarrow> tlb_entry" where
  "tlb_entry_set_mem lpf mem64 e = e\<lparr>te_lpf := lpf, te_mem64 := mem64\<rparr>"

definition tlb_entry_get_mem :: "tlb_entry \<Rightarrow> nat" where
  "tlb_entry_get_mem e = te_mem64 e"

type_synonym tlb = "nat \<Rightarrow> tlb_entry"

definition tlb_new :: tlb where
  "tlb_new = (\<lambda>i. tlb_entry_new)"

definition tlb_flush :: "tlb \<Rightarrow> tlb" where
  "tlb_flush t = (\<lambda>i. tlb_entry_invalidate (t i))"

definition get_index_of :: "u64 \<Rightarrow> u64 \<Rightarrow> nat" where
  "get_index_of lpf len =
     (let TLB_MASK = (0x7ff000 :: u64) in unat (drop_bit 12 ((lpf + len) AND TLB_MASK)))"

definition get_entry_of :: "tlb \<Rightarrow> u64 \<Rightarrow> u64 \<Rightarrow> tlb_entry" where
  "get_entry_of t addr len = t (get_index_of (LPF_OF addr) len)"

text \<open>A write through the reference that \<open>get_entry_of_mut\<close> returns.\<close>

definition update_entry_of :: "tlb \<Rightarrow> u64 \<Rightarrow> u64 \<Rightarrow> (tlb_entry \<Rightarrow> tlb_entry) \<Rightarrow> tlb" where
  "update_entry_of t addr len g =
     (let idx = get_index_of (LPF_OF addr) len in t(idx := g (t idx)))"

definition invlpg :: "tlb \<Rightarrow> u64 \<Rightarrow> tlb" where
  "invlpg t laddr =
     (if LPF_OF (te_lpf (get_entry_of t laddr 0)) = LPF_OF laddr
      then update_entry_of t laddr 0 tlb_entry_invalidate else t)"

lemma get_index_of_less: "get_index_of lpf len < TLB_SIZE"
proof -
  have "drop_bit 12 (x AND push_bit 12 (mask 11)) = take_bit 11 (drop_bit 12 x)" for x :: u64
    by (intro bit_word_eqI) (auto simp: bit_and_iff bit_drop_bit_eq bit_push_bit_iff bit_mask_iff
        bit_take_bit_iff)
  moreover have "unat (take_bit 11 y) < 2 ^ 11" for y :: u64
    by (simp only: unsigned_take_bit_eq take_bit_nat_less_exp)
  moreover have "(0x7ff000 :: u64) = push_bit 12 (mask 11)"
    by (simp add: mask_eq_exp_minus_1)
  ultimately show ?thesis
    by (simp only: get_index_of_def TLB_SIZE_def Let_def) simp
qed

end
