(* ===== verification/Ordered_Map.thy ===== *)
theory Ordered_Map
  imports Main
begin

section \<open>Ordered maps\<close>

text \<open>
  The contract of an ordered map (\<open>BTreeMap\<close> of the Rust standard library, and the key-ordered
  contents of a slab) as a locale, its derived laws, and its implementation by association
  lists with strictly increasing keys, which is what the memory model evaluates.

  \<open>last_le k\<close> is \<open>range(..=k).next_back()\<close>, \<open>first_ge k\<close> is \<open>range(k..).next()\<close> and \<open>entries\<close> is
  \<open>iter()\<close>.
\<close>

subsection \<open>Association lists with increasing keys\<close>

type_synonym ('k, 'v) omap = "('k \<times> 'v) list"

definition om_empty :: "('k, 'v) omap" where
  "om_empty = []"

fun om_get :: "('k, 'v) omap \<Rightarrow> 'k \<Rightarrow> 'v option" where
  "om_get [] k = None"
| "om_get ((k', v) # m) k = (if k = k' then Some v else om_get m k)"

fun om_insert :: "'k::linorder \<Rightarrow> 'v \<Rightarrow> ('k, 'v) omap \<Rightarrow> ('k, 'v) omap" where
  "om_insert k v [] = [(k, v)]"
| "om_insert k v ((k', v') # m) =
     (if k < k' then (k, v) # (k', v') # m
      else if k = k' then (k, v) # m
      else (k', v') # om_insert k v m)"

definition om_remove :: "'k \<Rightarrow> ('k, 'v) omap \<Rightarrow> ('k, 'v) omap" where
  "om_remove k m = filter (\<lambda>(k', v). k' \<noteq> k) m"

fun om_last_le :: "('k, 'v) omap \<Rightarrow> 'k::linorder \<Rightarrow> ('k \<times> 'v) option" where
  "om_last_le [] k = None"
| "om_last_le ((k', v) # m) k =
     (if k' \<le> k then (case om_last_le m k of None \<Rightarrow> Some (k', v) | Some e \<Rightarrow> Some e) else None)"

fun om_first_ge :: "('k, 'v) omap \<Rightarrow> 'k::linorder \<Rightarrow> ('k \<times> 'v) option" where
  "om_first_ge [] k = None"
| "om_first_ge ((k', v) # m) k = (if k \<le> k' then Some (k', v) else om_first_ge m k)"

definition om_range :: "('k, 'v) omap \<Rightarrow> 'k::linorder \<Rightarrow> 'k \<Rightarrow> ('k \<times> 'v) list" where
  "om_range m lo hi = filter (\<lambda>(k, v). lo \<le> k \<and> k < hi) m"

definition om_ok :: "('k::linorder, 'v) omap \<Rightarrow> bool" where
  "om_ok m \<longleftrightarrow> sorted_wrt (<) (map fst m)"

subsection \<open>The contract\<close>

locale ordered_map =
  fixes empty :: 'm
    and get :: "'m \<Rightarrow> 'k::linorder \<Rightarrow> 'v option"
    and insert :: "'k \<Rightarrow> 'v \<Rightarrow> 'm \<Rightarrow> 'm"
    and remove :: "'k \<Rightarrow> 'm \<Rightarrow> 'm"
    and last_le :: "'m \<Rightarrow> 'k \<Rightarrow> ('k \<times> 'v) option"
    and first_ge :: "'m \<Rightarrow> 'k \<Rightarrow> ('k \<times> 'v) option"
    and entries :: "'m \<Rightarrow> ('k \<times> 'v) list"
    and ok :: "'m \<Rightarrow> bool"
  assumes ok_empty: "ok empty"
    and ok_insert: "ok m \<Longrightarrow> ok (insert k v m)"
    and ok_remove: "ok m \<Longrightarrow> ok (remove k m)"
    and get_empty: "get empty k = None"
    and get_insert: "ok m \<Longrightarrow> get (insert k v m) k' = (if k' = k then Some v else get m k')"
    and get_remove: "ok m \<Longrightarrow> get (remove k m) k' = (if k' = k then None else get m k')"
    and last_le_Some: "ok m \<Longrightarrow> last_le m k = Some (k', v) \<longleftrightarrow>
      get m k' = Some v \<and> k' \<le> k \<and> (\<forall>j. k' < j \<and> j \<le> k \<longrightarrow> get m j = None)"
    and first_ge_Some: "ok m \<Longrightarrow> first_ge m k = Some (k', v) \<longleftrightarrow>
      get m k' = Some v \<and> k \<le> k' \<and> (\<forall>j. k \<le> j \<and> j < k' \<longrightarrow> get m j = None)"
    and last_le_None: "ok m \<Longrightarrow> last_le m k = None \<longleftrightarrow> (\<forall>j \<le> k. get m j = None)"
    and first_ge_None: "ok m \<Longrightarrow> first_ge m k = None \<longleftrightarrow> (\<forall>j \<ge> k. get m j = None)"
    and entries_get: "ok m \<Longrightarrow> (k, v) \<in> set (entries m) \<longleftrightarrow> get m k = Some v"
    and entries_sorted: "ok m \<Longrightarrow> sorted_wrt (<) (map fst (entries m))"
begin

text \<open>A lookup sees the last update of its key; the greatest entry below a present key is itself.\<close>

lemma insert_insert:
  "ok m \<Longrightarrow> get (insert k v (insert k v' m)) j = get (insert k v m) j"
  by (simp add: get_insert ok_insert)

lemma remove_insert:
  "ok m \<Longrightarrow> get m k = None \<Longrightarrow> get (remove k (insert k v m)) j = get m j"
  by (simp add: get_insert get_remove ok_insert)

lemma last_le_present: "ok m \<Longrightarrow> get m k = Some v \<Longrightarrow> last_le m k = Some (k, v)"
  by (force simp: last_le_Some)

lemma first_ge_present: "ok m \<Longrightarrow> get m k = Some v \<Longrightarrow> first_ge m k = Some (k, v)"
  by (force simp: first_ge_Some)

text \<open>The greatest entry below a key, characterised by any entry that has none above it.\<close>

lemma last_le_eqI:
  "ok m \<Longrightarrow> get m k' = Some v \<Longrightarrow> k' \<le> k \<Longrightarrow>
     (\<And>j u. get m j = Some u \<Longrightarrow> j \<le> k \<Longrightarrow> j \<le> k') \<Longrightarrow> last_le m k = Some (k', v)"
  by (force simp: last_le_Some)

lemma last_le_above: "ok m \<Longrightarrow> last_le m k = Some (k', v) \<Longrightarrow> get m j = Some u \<Longrightarrow> j \<le> k \<Longrightarrow> j \<le> k'"
  by (force simp: last_le_Some)

lemma entries_distinct: "ok m \<Longrightarrow> distinct (map fst (entries m))"
  using entries_sorted strict_sorted_iff by blast

end

subsection \<open>The implementation meets the contract\<close>

lemma om_get_None_iff: "om_get m k = None \<longleftrightarrow> k \<notin> fst ` set m"
  by (induction m k rule: om_get.induct) auto

lemma om_get_Some_set: "om_get m k = Some v \<Longrightarrow> (k, v) \<in> set m"
  by (induction m k rule: om_get.induct) (auto split: if_splits)

lemma om_get_iff: "om_ok m \<Longrightarrow> om_get m k = Some v \<longleftrightarrow> (k, v) \<in> set m"
proof (induction m k rule: om_get.induct)
  case (2 k' v' m k)
  then show ?case
    by (force simp: om_ok_def)
qed simp

lemma om_insert_keys: "fst ` set (om_insert k v m) = insert k (fst ` set m)"
  by (induction k v m rule: om_insert.induct) auto

lemma om_ok_insert: "om_ok m \<Longrightarrow> om_ok (om_insert k v m)"
proof (induction k v m rule: om_insert.induct)
  case (2 k v k' v' m)
  have "\<forall>x \<in> set (map fst (om_insert k v m)). x = k \<or> x \<in> fst ` set m"
    using om_insert_keys [of k v m] by auto
  then show ?case
    using 2 by (fastforce simp: om_ok_def)
qed (simp add: om_ok_def)

lemma om_get_insert: "om_ok m \<Longrightarrow> om_get (om_insert k v m) k' = (if k' = k then Some v else om_get m k')"
  by (induction k v m rule: om_insert.induct) (auto simp: om_ok_def)

lemma om_ok_remove: "om_ok m \<Longrightarrow> om_ok (om_remove k m)"
  unfolding om_ok_def om_remove_def
  by (induction m) auto

lemma om_get_remove: "om_get (om_remove k m) k' = (if k' = k then None else om_get m k')"
  unfolding om_remove_def by (induction m) auto

lemma om_ok_Cons: "om_ok (e # m) \<longleftrightarrow> (\<forall>x \<in> fst ` set m. fst e < x) \<and> om_ok m"
  by (auto simp: om_ok_def)

lemma om_last_le_None: "om_ok m \<Longrightarrow> om_last_le m k = None \<longleftrightarrow> (\<forall>j \<le> k. om_get m j = None)"
  by (induction m k rule: om_last_le.induct)
    (force simp: om_ok_Cons om_get_None_iff split: option.splits)+

lemma om_first_ge_None: "om_ok m \<Longrightarrow> om_first_ge m k = None \<longleftrightarrow> (\<forall>j \<ge> k. om_get m j = None)"
  by (induction m k rule: om_first_ge.induct) (force simp: om_ok_Cons om_get_None_iff)+

lemma om_last_le_sound:
  "om_ok m \<Longrightarrow> om_last_le m k = Some (k', v) \<Longrightarrow>
     om_get m k' = Some v \<and> k' \<le> k \<and> (\<forall>j. k' < j \<and> j \<le> k \<longrightarrow> om_get m j = None)"
proof (induction m k rule: om_last_le.induct)
  case (2 k0 v0 m k)
  then show ?case
  proof (cases "om_last_le m k")
    case None
    then have "\<forall>j \<le> k. om_get m j = None"
      using 2 by (simp add: om_ok_Cons om_last_le_None)
    then show ?thesis
      using 2 None by (auto split: if_splits)
  next
    case (Some e)
    then show ?thesis
      using 2 by (force simp: om_ok_Cons om_get_iff split: if_splits)
  qed
qed simp

lemma om_first_ge_sound:
  "om_ok m \<Longrightarrow> om_first_ge m k = Some (k', v) \<Longrightarrow>
     om_get m k' = Some v \<and> k \<le> k' \<and> (\<forall>j. k \<le> j \<and> j < k' \<longrightarrow> om_get m j = None)"
  by (induction m k rule: om_first_ge.induct)
    (force simp: om_ok_Cons om_get_iff om_get_None_iff split: if_splits)+

lemma om_last_le_Some:
  assumes "om_ok m"
  shows "om_last_le m k = Some (k', v) \<longleftrightarrow>
     om_get m k' = Some v \<and> k' \<le> k \<and> (\<forall>j. k' < j \<and> j \<le> k \<longrightarrow> om_get m j = None)"
proof (cases "om_last_le m k")
  case None
  then show ?thesis
    using assms om_last_le_None [OF assms, of k] by auto
next
  case (Some e)
  then have "om_get m (fst e) = Some (snd e) \<and> fst e \<le> k \<and>
      (\<forall>j. fst e < j \<and> j \<le> k \<longrightarrow> om_get m j = None)"
    using om_last_le_sound [OF assms, of k "fst e" "snd e"] by simp
  then show ?thesis
    using Some by (cases e) (auto, (metis linorder_neqE option.distinct(1) option.inject)+)
qed

lemma om_first_ge_Some:
  assumes "om_ok m"
  shows "om_first_ge m k = Some (k', v) \<longleftrightarrow>
     om_get m k' = Some v \<and> k \<le> k' \<and> (\<forall>j. k \<le> j \<and> j < k' \<longrightarrow> om_get m j = None)"
proof (cases "om_first_ge m k")
  case None
  then show ?thesis
    using assms om_first_ge_None [OF assms, of k] by auto
next
  case (Some e)
  then have "om_get m (fst e) = Some (snd e) \<and> k \<le> fst e \<and>
      (\<forall>j. k \<le> j \<and> j < fst e \<longrightarrow> om_get m j = None)"
    using om_first_ge_sound [OF assms, of k "fst e" "snd e"] by simp
  then show ?thesis
    using Some by (cases e) (auto, (metis linorder_neqE option.distinct(1) option.inject)+)
qed

interpretation om: ordered_map om_empty om_get om_insert om_remove om_last_le om_first_ge
    "\<lambda>m. m" om_ok
  by unfold_locales
    (simp_all add: om_ok_insert om_ok_remove om_get_insert om_get_remove om_last_le_Some
      om_first_ge_Some om_last_le_None om_first_ge_None om_get_iff om_empty_def,
     simp_all add: om_ok_def)

lemma om_range_get:
  "om_ok m \<Longrightarrow> (k, v) \<in> set (om_range m lo hi) \<longleftrightarrow> om_get m k = Some v \<and> lo \<le> k \<and> k < hi"
  by (auto simp: om_range_def om_get_iff)

end
