(* ===== verification/Maps.thy ===== *)
theory Maps
  imports Mem64 Tlb Ordered_Map
begin

section \<open>The memory map manager\<close>

text \<open>
  A model of \<^verbatim>\<open>crates/libmwemu/src/maps/mod.rs\<close>. The manager owns the regions in a slab, finds them
  by address through an ordered map from base addresses to slab keys and a look-aside buffer,
  and by name through a hash map.

  \<^item> \<open>Slab<Mem64>\<close> (a third-party container) is its contents, an ordered map from keys to regions.
    Which vacant key an insertion takes is a parameter \<open>vk\<close> of the operations that insert; the
    only thing the code relies on is that the key was vacant (\<open>vacant_key\<close>).
  \<^item> \<open>BTreeMap<u64, usize>\<close> is an ordered map, \<open>AHashMap<String, usize>\<close> a map.
  \<^item> A reference \<open>&Mem64\<close> or \<open>&mut Mem64\<close> into the slab is the key of the region.
  \<^item> The look-aside buffer and the log of code writes sit in \<open>RefCell\<close>s and change under \<open>&self\<close>,
    so also the operations that take \<open>&self\<close> return the new state.

  Log output is not modelled.
\<close>

subsection \<open>State\<close>

type_synonym slab = "(nat, mem64) omap"

record maps =
  banzai :: bool
  mem_slab :: slab
  maps :: "(u64, nat) omap"
  name_map :: "string \<Rightarrow> nat option"
  is_64bits :: bool
  tlb :: tlb
  max_alloc_size :: u64
  code_writes :: "(u64 \<times> u64) list"

definition vacant_key :: "(slab \<Rightarrow> nat) \<Rightarrow> bool" where
  "vacant_key vk \<longleftrightarrow> (\<forall>s. om_get s (vk s) = None)"

definition maps_default :: maps where
  "maps_default = \<lparr>banzai = False, mem_slab = om_empty, maps = om_empty, name_map = Map.empty,
     is_64bits = False, tlb = tlb_new, max_alloc_size = 0xffffff, code_writes = []\<rparr>"

definition maps_new ::
    "slab \<Rightarrow> (u64, nat) omap \<Rightarrow> (string \<Rightarrow> nat option) \<Rightarrow> bool \<Rightarrow> bool \<Rightarrow> tlb \<Rightarrow> maps" where
  "maps_new slab m names is64 bz t = \<lparr>banzai = bz, mem_slab = slab, maps = m, name_map = names,
     is_64bits = is64, tlb = t, max_alloc_size = 0xffffff, code_writes = []\<rparr>"

definition DEFAULT_ALIGNMENT :: u64 where
  "DEFAULT_ALIGNMENT = 0x1000"

definition CODE_WRITES_CAP :: nat where
  "CODE_WRITES_CAP = 64"

definition CODE_WRITES_ALL :: "u64 \<times> u64" where
  "CODE_WRITES_ALL = (0, 0xffffffffffffffff)"

definition note_code_write :: "u64 \<Rightarrow> u64 \<Rightarrow> maps \<Rightarrow> maps" where
  "note_code_write addr len s =
     (let log = code_writes s
      in if log \<noteq> [] \<and> hd log = CODE_WRITES_ALL then s
         else if CODE_WRITES_CAP \<le> length log then s\<lparr>code_writes := [CODE_WRITES_ALL]\<rparr>
         else s\<lparr>code_writes := log @ [(addr, len)]\<rparr>)"

definition has_code_writes :: "maps \<Rightarrow> bool" where
  "has_code_writes s \<longleftrightarrow> code_writes s \<noteq> []"

definition drain_code_writes :: "maps \<Rightarrow> (u64 \<times> u64) list \<times> maps" where
  "drain_code_writes s = (code_writes s, s\<lparr>code_writes := []\<rparr>)"

definition set_banzai :: "bool \<Rightarrow> maps \<Rightarrow> maps" where
  "set_banzai b s = s\<lparr>banzai := b\<rparr>"

definition maps_clear :: "maps \<Rightarrow> maps" where
  "maps_clear s = s\<lparr>mem_slab := om_empty, maps := om_empty, name_map := Map.empty\<rparr>"

definition ends_with :: "string \<Rightarrow> string \<Rightarrow> bool" where
  "ends_with s suffix \<longleftrightarrow>
     length suffix \<le> length s \<and> drop (length s - length suffix) s = suffix"

definition starts_with :: "string \<Rightarrow> string \<Rightarrow> bool" where
  "starts_with s p \<longleftrightarrow> take (length p) s = p"

definition maps_get_base :: "maps \<Rightarrow> u64 option" where
  "maps_get_base s =
     map_option (\<lambda>(k, m). base_addr m)
       (List.find (\<lambda>(k, m). ends_with (mem_name m) ''.pe'') (mem_slab s))"

subsection \<open>Lookups\<close>

definition overflow_predicted :: "u64 \<Rightarrow> u64 \<Rightarrow> maps \<Rightarrow> bool" where
  "overflow_predicted addr amount s =
     (case om_last_le (maps s) addr of
        None \<Rightarrow> True
      | Some (start, key) \<Rightarrow>
          (case om_get (mem_slab s) key of
             None \<Rightarrow> True
           | Some region \<Rightarrow>
               let sz = mem_size region
               in if start \<le> addr \<and> addr < start + sz then \<not> addr + amount < start + sz
                  else True))"

definition exists_mapname :: "string \<Rightarrow> maps \<Rightarrow> bool" where
  "exists_mapname n s \<longleftrightarrow> name_map s n \<noteq> None"

definition get_map_by_name :: "string \<Rightarrow> maps \<Rightarrow> nat option" where
  "get_map_by_name n s =
     (case name_map s n of
        None \<Rightarrow> None
      | Some key \<Rightarrow> if om_get (mem_slab s) key = None then None else Some key)"

definition get_mem_size :: "u64 \<Rightarrow> maps \<Rightarrow> usize option" where
  "get_mem_size addr s =
     (case om_last_le (maps s) addr of
        None \<Rightarrow> None
      | Some (start, key) \<Rightarrow>
          (case om_get (mem_slab s) key of
             None \<Rightarrow> None
           | Some region \<Rightarrow>
               let sz = mem_size region
               in if start \<le> addr \<and> addr < start + sz then Some sz else None))"

text \<open>The search in the ordered map that both address lookups fall back to.\<close>

definition search_maps :: "u64 \<Rightarrow> maps \<Rightarrow> nat option" where
  "search_maps addr s =
     (case om_last_le (maps s) addr of
        None \<Rightarrow> None
      | Some (start, key) \<Rightarrow>
          (case om_get (mem_slab s) key of
             None \<Rightarrow> None
           | Some m \<Rightarrow> if inside m addr then Some key else None))"

definition update_tlb :: "u64 \<Rightarrow> nat \<Rightarrow> maps \<Rightarrow> maps" where
  "update_tlb addr key s =
     s\<lparr>tlb := update_entry_of (tlb s) addr 0 (tlb_entry_set_mem (LPF_OF addr) key)\<rparr>"

definition get_mem_by_addr_mut :: "u64 \<Rightarrow> maps \<Rightarrow> nat option \<times> maps" where
  "get_mem_by_addr_mut addr s =
     (let mem_key = tlb_entry_get_mem (get_entry_of (tlb s) addr 0);
          miss = (\<lambda>s. case search_maps addr s of
                    None \<Rightarrow> (None, s)
                  | Some key \<Rightarrow> (Some key, update_tlb addr key s))
      in case om_get (mem_slab s) mem_key of
           Some m \<Rightarrow> if inside m addr then (Some mem_key, s) else miss s
         | None \<Rightarrow> miss (s\<lparr>tlb := update_entry_of (tlb s) addr 0 tlb_entry_invalidate\<rparr>))"

definition get_mem_by_addr :: "u64 \<Rightarrow> maps \<Rightarrow> nat option \<times> maps" where
  "get_mem_by_addr addr s =
     (let mem_key = tlb_entry_get_mem (get_entry_of (tlb s) addr 0);
          miss = (case search_maps addr s of
                    None \<Rightarrow> (None, s)
                  | Some key \<Rightarrow> (Some key, update_tlb addr key s))
      in case om_get (mem_slab s) mem_key of
           Some m \<Rightarrow> if inside m addr then (Some mem_key, s) else miss
         | None \<Rightarrow> miss)"

definition get_addr_base :: "u64 \<Rightarrow> maps \<Rightarrow> u64 option \<times> maps" where
  "get_addr_base addr s =
     (let (k, s') = get_mem_by_addr addr s
      in (Option.bind k (\<lambda>k. map_option base_addr (om_get (mem_slab s') k)), s'))"

definition get_addr_name :: "u64 \<Rightarrow> maps \<Rightarrow> string option \<times> maps" where
  "get_addr_name addr s =
     (let (k, s') = get_mem_by_addr addr s
      in (Option.bind k (\<lambda>k. map_option mem_name (om_get (mem_slab s') k)), s'))"

definition next_mapped_addr :: "u64 \<Rightarrow> maps \<Rightarrow> u64 option" where
  "next_mapped_addr addr s = map_option fst (om_first_ge (maps s) (saturating_add addr 1))"

definition is_mapped :: "u64 \<Rightarrow> maps \<Rightarrow> bool \<times> maps" where
  "is_mapped addr s = (let (k, s') = get_mem_by_addr addr s in (k \<noteq> None, s'))"

definition is_allocated :: "u64 \<Rightarrow> maps \<Rightarrow> bool \<times> maps" where
  "is_allocated addr s = (let (k, s') = get_mem_by_addr addr s in (k \<noteq> None, s'))"

definition is_valid_ptr :: "u64 \<Rightarrow> maps \<Rightarrow> bool \<times> maps" where
  "is_valid_ptr addr s =
     (if 0 < addr then let (k, s') = get_mem_by_addr addr s in (k \<noteq> None, s') else (False, s))"

definition maps_size :: "maps \<Rightarrow> usize" where
  "maps_size s = foldl (\<lambda>sz (k, m). sz + mem_size m) 0 (mem_slab s)"

definition overlaps :: "u64 \<Rightarrow> u64 \<Rightarrow> maps \<Rightarrow> bool outcome" where
  "overlaps addr sz s =
     (if addr + sz < addr then Panic RangeStartAfterEnd
      else Ret (om_range (maps s) addr (addr + sz) \<noteq> []))"

definition alloc_region_base_for_free :: "u64 \<Rightarrow> maps \<Rightarrow> u64 option \<times> maps" where
  "alloc_region_base_for_free addr s =
     (let (b, s) = get_addr_base addr s
      in if b \<noteq> None then (b, s)
         else
           let (b, s) = (if 0 < addr then get_addr_base (addr - 1) s else (None, s))
           in if b \<noteq> None then (b, s)
              else
                (map_option (\<lambda>(k, m). base_addr m)
                   (List.find (\<lambda>(k, m). starts_with (mem_name m) ''alloc_'' \<and>
                        (inside m addr \<or> 0 < addr \<and> inside m (addr - 1) \<or> addr = bottom_addr m))
                      (mem_slab s)), s))"

subsection \<open>Creating a map\<close>

datatype map_error = AddressExists u64 | NameExists string

definition create_map ::
    "(slab \<Rightarrow> nat) \<Rightarrow> string \<Rightarrow> u64 \<Rightarrow> u64 \<Rightarrow> permission \<Rightarrow> maps \<Rightarrow> (map_error + nat) \<times> maps" where
  "create_map vk name base sz perm s =
     (let (found, s) = get_mem_by_addr_mut base s
      in if found \<noteq> None then (Inl (AddressExists base), s)
         else if exists_mapname name s then (Inl (NameExists name), s)
         else
           let m = set_permission perm (set_size sz (set_base base (set_name name mem64_default)));
               base_key = vk (mem_slab s);
               s = s\<lparr>mem_slab := om_insert base_key m (mem_slab s)\<rparr>;
               s = s\<lparr>name_map := (name_map s)(name \<mapsto> base_key)\<rparr>;
               s = s\<lparr>maps := om_insert base base_key (maps s)\<rparr>;
               s = s\<lparr>tlb := tlb_flush (tlb s)\<rparr>;
               s = (if perm_can_execute perm then note_code_write base sz s else s)
           in (Inr base_key, s))"

subsection \<open>Reading and writing\<close>

text \<open>A write through a reference to the region with the given key.\<close>

definition put_mem :: "nat \<Rightarrow> mem64 \<Rightarrow> maps \<Rightarrow> maps" where
  "put_mem key m s = s\<lparr>mem_slab := om_insert key m (mem_slab s)\<rparr>"

definition next_mem_at :: "u64 \<Rightarrow> maps \<Rightarrow> (nat \<times> mem64) option" where
  "next_mem_at boundary s =
     (case om_first_ge (maps s) boundary of
        None \<Rightarrow> None
      | Some (next_base, next_key) \<Rightarrow>
          if next_base = boundary
          then map_option (\<lambda>m. (next_key, m)) (om_get (mem_slab s) next_key)
          else None)"

text \<open>
  A scalar that starts in the region \<open>m\<close> and ends in the next one, which begins where \<open>m\<close> ends: the
  second match arm of \<open>read_scalar\<close>, and the part of \<open>write_scalar\<close> before its match. \<open>write_across\<close>
  is \<open>None\<close> when the source falls through to the match.
\<close>

definition read_across :: "u64 \<Rightarrow> mem64 \<Rightarrow> maps \<Rightarrow> ('a::len word option \<times> maps) outcome" where
  "read_across addr m s =
     (let SIZE = scalar_size TYPE('a word);
          boundary = bottom_addr m;
          lo_len = boundary - addr;
          hi_len = of_nat SIZE - lo_len
      in case next_mem_at boundary s of
           None \<Rightarrow> Ret (None, s)
         | Some (next_key, next_mem) \<Rightarrow>
             if can_read next_mem \<and> inside next_mem (boundary + hi_len - 1) then
               obind (copy_from_slice (replicate 16 0) 0 (unat lo_len)
                        (mem_read_bytes addr lo_len m)) (\<lambda>buf.
               obind (copy_from_slice buf (unat lo_len) SIZE
                        (mem_read_bytes boundary hi_len next_mem)) (\<lambda>buf.
               obind (slice_index buf 0 SIZE) (\<lambda>bs.
               obind (read_le bs) (\<lambda>v. Ret (v, s)))))
             else Ret (None, s))"

definition read_scalar :: "u64 \<Rightarrow> maps \<Rightarrow> ('a::len word option \<times> maps) outcome" where
  "read_scalar addr s =
     (let SIZE = scalar_size TYPE('a word)
      in case checked_add addr (of_nat SIZE - 1) of
           None \<Rightarrow> Ret (None, s)
         | Some end_addr \<Rightarrow>
             let (k, s) = get_mem_by_addr addr s
             in case Option.bind k (om_get (mem_slab s)) of
                  None \<Rightarrow> Ret (None, s)
                | Some m \<Rightarrow>
                    if inside m end_addr \<and> can_read m then
                      obind (read_le (mem_read_bytes addr (of_nat SIZE) m)) (\<lambda>v. Ret (v, s))
                    else if \<not> inside m end_addr \<and> can_read m \<and> 1 < SIZE then read_across addr m s
                    else Ret (None, s))"

definition write_across ::
    "u64 \<Rightarrow> 'a::len word \<Rightarrow> mem64 \<Rightarrow> maps \<Rightarrow> (bool \<times> maps) outcome option" where
  "write_across addr v m s =
     (let SIZE = scalar_size TYPE('a word);
          boundary = bottom_addr m;
          lo_len = boundary - addr;
          hi_len = of_nat SIZE - lo_len
      in case next_mem_at boundary s of
           None \<Rightarrow> None
         | Some (next_key, next_mem) \<Rightarrow>
             if can_write next_mem \<and> inside next_mem (boundary + hi_len - 1) then
               Some (
                 let exec = (can_execute m \<or> can_execute next_mem)
                 in obind (write_le v (replicate 16 0)) (\<lambda>buf.
                    case om_last_le (maps s) addr of
                      None \<Rightarrow> Ret (False, s)
                    | Some (_, first_key) \<Rightarrow>
                        (case om_get (mem_slab s) first_key of
                           None \<Rightarrow> Ret (False, s)
                         | Some first_mem \<Rightarrow>
                             obind (slice_index buf 0 (unat lo_len)) (\<lambda>lo.
                             obind (mem_write_bytes addr lo first_mem) (\<lambda>first_mem.
                             let s = put_mem first_key first_mem s
                             in case om_get (mem_slab s) next_key of
                                  None \<Rightarrow> Ret (False, s)
                                | Some next_mem_mut \<Rightarrow>
                                    obind (slice_index buf (unat lo_len) SIZE) (\<lambda>hi.
                                    obind (mem_write_bytes boundary hi next_mem_mut) (\<lambda>next_mem_mut.
                                    let s = put_mem next_key next_mem_mut s
                                    in Ret (True, if exec then note_code_write addr (of_nat SIZE) s
                                                  else s))))))))
             else None)"

text \<open>The final match of \<open>write_scalar\<close>.\<close>

definition write_within :: "u64 \<Rightarrow> u64 \<Rightarrow> 'a::len word \<Rightarrow> maps \<Rightarrow> (bool \<times> maps) outcome" where
  "write_within addr end_addr v s =
     (let SIZE = scalar_size TYPE('a word);
          (k, s) = get_mem_by_addr_mut addr s
      in case k of
           None \<Rightarrow> Ret (False, s)
         | Some key \<Rightarrow>
             (case om_get (mem_slab s) key of
                None \<Rightarrow> Ret (False, s)
              | Some m \<Rightarrow>
                  if inside m end_addr \<and> can_write m then
                    obind (write_le v (replicate 16 0)) (\<lambda>buf.
                    obind (slice_index buf 0 SIZE) (\<lambda>bs.
                    obind (mem_write_bytes addr bs m) (\<lambda>m'.
                    let s = put_mem key m' s
                    in Ret (True, if can_execute m' then note_code_write addr (of_nat SIZE) s
                                  else s))))
                  else Ret (False, s)))"

definition write_scalar :: "u64 \<Rightarrow> 'a::len word \<Rightarrow> maps \<Rightarrow> (bool \<times> maps) outcome" where
  "write_scalar addr v s =
     (let SIZE = scalar_size TYPE('a word)
      in case checked_add addr (of_nat SIZE - 1) of
           None \<Rightarrow> Ret (False, s)
         | Some end_addr \<Rightarrow>
             if 1 < SIZE then
               let (k, s) = get_mem_by_addr addr s
               in case Option.bind k (om_get (mem_slab s)) of
                    None \<Rightarrow> write_within addr end_addr v s
                  | Some m \<Rightarrow>
                      if \<not> inside m end_addr \<and> can_write m then
                        (case write_across addr v m s of
                           Some result \<Rightarrow> result
                         | None \<Rightarrow> write_within addr end_addr v s)
                      else write_within addr end_addr v s
             else write_within addr end_addr v s)"

definition maps_read_byte :: "u64 \<Rightarrow> maps \<Rightarrow> (u8 option \<times> maps) outcome" where
  "maps_read_byte addr s = read_scalar addr s"

definition maps_read_word :: "u64 \<Rightarrow> maps \<Rightarrow> (u16 option \<times> maps) outcome" where
  "maps_read_word addr s = read_scalar addr s"

definition maps_read_dword :: "u64 \<Rightarrow> maps \<Rightarrow> (u32 option \<times> maps) outcome" where
  "maps_read_dword addr s = read_scalar addr s"

definition maps_read_qword :: "u64 \<Rightarrow> maps \<Rightarrow> (u64 option \<times> maps) outcome" where
  "maps_read_qword addr s = read_scalar addr s"

definition maps_read_128bits_le :: "u64 \<Rightarrow> maps \<Rightarrow> (u128 option \<times> maps) outcome" where
  "maps_read_128bits_le addr s = read_scalar addr s"

definition maps_write_byte :: "u64 \<Rightarrow> u8 \<Rightarrow> maps \<Rightarrow> (bool \<times> maps) outcome" where
  "maps_write_byte addr v s = write_scalar addr v s"

definition maps_write_word :: "u64 \<Rightarrow> u16 \<Rightarrow> maps \<Rightarrow> (bool \<times> maps) outcome" where
  "maps_write_word addr v s = write_scalar addr v s"

definition maps_write_dword :: "u64 \<Rightarrow> u32 \<Rightarrow> maps \<Rightarrow> (bool \<times> maps) outcome" where
  "maps_write_dword addr v s = write_scalar addr v s"

definition maps_write_qword :: "u64 \<Rightarrow> u64 \<Rightarrow> maps \<Rightarrow> (bool \<times> maps) outcome" where
  "maps_write_qword addr v s = write_scalar addr v s"

definition maps_write_128bits_le :: "u64 \<Rightarrow> u128 \<Rightarrow> maps \<Rightarrow> (bool \<times> maps) outcome" where
  "maps_write_128bits_le addr v s = write_scalar addr v s"

text \<open>The slow path of \<open>write_bytes\<close>: one byte at a time, stopping at the first that fails.\<close>

fun write_each :: "u64 \<Rightarrow> u8 list \<Rightarrow> maps \<Rightarrow> (bool \<times> maps) outcome" where
  "write_each addr [] s = Ret (True, s)"
| "write_each addr (b # bs) s =
     obind (maps_write_byte addr b s) (\<lambda>(ok, s).
       if \<not> ok then Ret (False, s) else write_each (addr + 1) bs s)"

definition maps_write_bytes :: "u64 \<Rightarrow> u8 list \<Rightarrow> maps \<Rightarrow> (bool \<times> maps) outcome" where
  "maps_write_bytes addr data s =
     (if data = [] then Ret (True, s)
      else
        case checked_add addr (of_nat (length data) - 1) of
          None \<Rightarrow> Ret (False, s)
        | Some end_addr \<Rightarrow>
            let (k, s) = get_mem_by_addr_mut addr s
            in case k of
                 None \<Rightarrow> Ret (False, s)
               | Some key \<Rightarrow>
                   (case om_get (mem_slab s) key of
                      None \<Rightarrow> Ret (False, s)
                    | Some m \<Rightarrow>
                        if inside m end_addr \<and> can_write m then
                          obind (mem_write_bytes addr data m) (\<lambda>m'.
                          let s = put_mem key m' s
                          in Ret (True, if can_execute m'
                                        then note_code_write addr (of_nat (length data)) s else s))
                        else write_each addr data s))"

end
