(* ===== verification/Maps_Inv.thy ===== *)
theory Maps_Inv
  imports Maps
begin

section \<open>The invariant of the memory map manager\<close>

text \<open>
  \<open>maps_wf\<close> ties the three indexes of the manager together: every entry of the address map and of
  the name map points at a region of the slab with that base and that name, every region is
  entered in both, and two regions never overlap. Nothing is required of the look-aside buffer:
  whatever it holds, the lookups through it return what the search in the address map returns.

  \<open>flat\<close> is the abstract memory, a partial function from addresses to a permission and a byte.
\<close>

definition region_before :: "mem64 \<Rightarrow> mem64 \<Rightarrow> bool" where
  "region_before m m' \<longleftrightarrow> unat (base_addr m) + length (mem m) \<le> unat (base_addr m')"

definition maps_wf :: "maps \<Rightarrow> bool" where
  "maps_wf s \<longleftrightarrow>
     om_ok (maps s) \<and> om_ok (mem_slab s) \<and>
     (\<forall>b k. om_get (maps s) b = Some k \<longrightarrow>
        (\<exists>m. om_get (mem_slab s) k = Some m \<and> base_addr m = b)) \<and>
     (\<forall>k m. om_get (mem_slab s) k = Some m \<longrightarrow>
        mem_wf m \<and> om_get (maps s) (base_addr m) = Some k \<and> name_map s (mem_name m) = Some k) \<and>
     (\<forall>n k. name_map s n = Some k \<longrightarrow>
        (\<exists>m. om_get (mem_slab s) k = Some m \<and> mem_name m = n)) \<and>
     (\<forall>k m k' m'. om_get (mem_slab s) k = Some m \<longrightarrow> om_get (mem_slab s) k' = Some m' \<longrightarrow>
        base_addr m < base_addr m' \<longrightarrow> region_before m m')"

definition flat :: "maps \<Rightarrow> u64 \<Rightarrow> (permission \<times> u8) option" where
  "flat s a =
     (case Option.bind (search_maps a s) (om_get (mem_slab s)) of
        None \<Rightarrow> None
      | Some m \<Rightarrow> Some (permission m, byte_of m a))"

lemma wf_tlb [simp]: "maps_wf (s\<lparr>tlb := t\<rparr>) = maps_wf s"
  by (simp add: maps_wf_def)

lemma wf_code_writes [simp]: "maps_wf (s\<lparr>code_writes := c\<rparr>) = maps_wf s"
  by (simp add: maps_wf_def)

lemma search_maps_tlb [simp]:
  "search_maps a (s\<lparr>tlb := t\<rparr>) = search_maps a s" "search_maps a (s\<lparr>code_writes := c\<rparr>) = search_maps a s"
  by (simp_all add: search_maps_def split: option.split)

lemma flat_tlb [simp]:
  "flat (s\<lparr>tlb := t\<rparr>) = flat s" "flat (s\<lparr>code_writes := c\<rparr>) = flat s"
  by (simp_all add: fun_eq_iff flat_def)

lemma wf_region: "maps_wf s \<Longrightarrow> om_get (mem_slab s) k = Some m \<Longrightarrow> mem_wf m"
  by (simp add: maps_wf_def)

lemma wf_region_base:
  "maps_wf s \<Longrightarrow> om_get (mem_slab s) k = Some m \<Longrightarrow> om_get (maps s) (base_addr m) = Some k"
  by (simp add: maps_wf_def)

lemma wf_region_name:
  "maps_wf s \<Longrightarrow> om_get (mem_slab s) k = Some m \<Longrightarrow> name_map s (mem_name m) = Some k"
  by (simp add: maps_wf_def)

lemma wf_entry:
  "maps_wf s \<Longrightarrow> om_get (maps s) b = Some k \<Longrightarrow>
     \<exists>m. om_get (mem_slab s) k = Some m \<and> base_addr m = b"
  by (simp add: maps_wf_def)

lemma wf_name:
  "maps_wf s \<Longrightarrow> name_map s n = Some k \<Longrightarrow>
     \<exists>m. om_get (mem_slab s) k = Some m \<and> mem_name m = n"
  by (simp add: maps_wf_def)

lemma wf_ok: "maps_wf s \<Longrightarrow> om_ok (maps s)" "maps_wf s \<Longrightarrow> om_ok (mem_slab s)"
  by (simp_all add: maps_wf_def)

lemma wf_before:
  "maps_wf s \<Longrightarrow> om_get (mem_slab s) k = Some m \<Longrightarrow> om_get (mem_slab s) k' = Some m' \<Longrightarrow>
     base_addr m < base_addr m' \<Longrightarrow> region_before m m'"
  unfolding maps_wf_def by blast

lemma inside_base_le: "inside m a \<Longrightarrow> base_addr m \<le> a"
  by (simp add: inside_def)

text \<open>An address lies inside at most one region.\<close>

lemma inside_unique:
  assumes wf: "maps_wf s" and "om_get (mem_slab s) k = Some m" "om_get (mem_slab s) k' = Some m'"
    and "inside m a" "inside m' a"
  shows "k = k'"
proof -
  have "base_addr m = base_addr m'"
  proof (rule ccontr)
    assume "base_addr m \<noteq> base_addr m'"
    then consider "base_addr m < base_addr m'" | "base_addr m' < base_addr m"
      by fastforce
    then show False
      using assms wf_before [OF wf] wf_region [OF wf]
      by cases (fastforce simp: region_before_def inside_iff)+
  qed
  then show ?thesis
    using wf_region_base [OF wf] assms(2,3) by (metis option.inject)
qed

lemma last_le_inside:
  assumes wf: "maps_wf s" and m: "om_get (mem_slab s) k = Some m" "inside m a"
  shows "om_last_le (maps s) a = Some (base_addr m, k)"
proof (rule om.last_le_eqI)
  fix j u assume j: "om_get (maps s) j = Some u" "j \<le> a"
  then obtain m' where m': "om_get (mem_slab s) u = Some m'" "base_addr m' = j"
    using wf_entry [OF wf] by blast
  show "j \<le> base_addr m"
  proof (rule ccontr)
    assume "\<not> j \<le> base_addr m"
    then have "region_before m m'"
      using wf_before [OF wf m(1) m'(1)] m'(2) by simp
    then show False
      using m m' j wf_region [OF wf m(1)]
      by (simp add: region_before_def inside_iff word_le_nat_alt)
  qed
qed (use wf m in \<open>simp_all add: wf_ok wf_region_base inside_base_le\<close>)

lemma search_maps_iff:
  assumes wf: "maps_wf s"
  shows "search_maps a s = Some k \<longleftrightarrow> (\<exists>m. om_get (mem_slab s) k = Some m \<and> inside m a)"
proof
  assume "search_maps a s = Some k"
  then show "\<exists>m. om_get (mem_slab s) k = Some m \<and> inside m a"
    by (auto simp: search_maps_def split: option.splits if_splits)
next
  assume "\<exists>m. om_get (mem_slab s) k = Some m \<and> inside m a"
  then obtain m where m: "om_get (mem_slab s) k = Some m" "inside m a"
    by blast
  then show "search_maps a s = Some k"
    using last_le_inside [OF wf m] by (simp add: search_maps_def)
qed

lemma search_maps_None_iff:
  "maps_wf s \<Longrightarrow> search_maps a s = None \<longleftrightarrow> (\<forall>k m. om_get (mem_slab s) k = Some m \<longrightarrow> \<not> inside m a)"
  using search_maps_iff [of s a] by (metis not_None_eq)

lemma flat_inside:
  "maps_wf s \<Longrightarrow> om_get (mem_slab s) k = Some m \<Longrightarrow> inside m a \<Longrightarrow>
     flat s a = Some (permission m, byte_of m a)"
  using search_maps_iff [of s a k] by (auto simp: flat_def)

lemma flat_SomeE:
  assumes wf: "maps_wf s" and "flat s a = Some (p, b)"
  obtains k m where "om_get (mem_slab s) k = Some m" "inside m a" "p = permission m" "b = byte_of m a"
proof -
  obtain k m where "search_maps a s = Some k" "om_get (mem_slab s) k = Some m"
      "p = permission m" "b = byte_of m a"
    using assms(2) by (auto simp: flat_def split: option.splits bind_splits)
  moreover from this have "inside m a"
    using search_maps_iff [OF wf, of a k] by auto
  ultimately show ?thesis
    using that by blast
qed

lemma flat_None_iff:
  assumes wf: "maps_wf s"
  shows "flat s a = None \<longleftrightarrow> search_maps a s = None"
proof (cases "search_maps a s")
  case (Some k)
  then obtain m where "om_get (mem_slab s) k = Some m" "inside m a"
    using search_maps_iff [OF wf] by blast
  then show ?thesis
    using Some flat_inside [OF wf] by simp
qed (simp add: flat_def)

lemma same_tlb: "\<exists>t. s = s\<lparr>tlb := t\<rparr>"
  by (rule exI [of _ "tlb s"]) simp

subsection \<open>The look-aside buffer is transparent\<close>

lemma get_mem_by_addr_wf:
  assumes "maps_wf s"
  obtains t where "get_mem_by_addr a s = (search_maps a s, s\<lparr>tlb := t\<rparr>)"
proof -
  let ?k = "tlb_entry_get_mem (get_entry_of (tlb s) a 0)"
  have "search_maps a s = Some ?k" if "om_get (mem_slab s) ?k = Some m" "inside m a" for m
    using that search_maps_iff [OF assms] by blast
  then have "\<exists>t. get_mem_by_addr a s = (search_maps a s, s\<lparr>tlb := t\<rparr>)"
    by (auto simp: get_mem_by_addr_def Let_def update_tlb_def same_tlb split: option.split)
  then show ?thesis
    using that by blast
qed

lemma get_mem_by_addr_mut_wf:
  assumes "maps_wf s"
  obtains t where "get_mem_by_addr_mut a s = (search_maps a s, s\<lparr>tlb := t\<rparr>)"
proof -
  let ?k = "tlb_entry_get_mem (get_entry_of (tlb s) a 0)"
  have "search_maps a s = Some ?k" if "om_get (mem_slab s) ?k = Some m" "inside m a" for m
    using that search_maps_iff [OF assms] by blast
  then have "\<exists>t. get_mem_by_addr_mut a s = (search_maps a s, s\<lparr>tlb := t\<rparr>)"
    by (auto simp: get_mem_by_addr_mut_def Let_def update_tlb_def same_tlb split: option.split)
  then show ?thesis
    using that by blast
qed

subsection \<open>Replacing the bytes of a region\<close>

lemma put_mem_get [simp]:
  "maps_wf s \<Longrightarrow> om_get (mem_slab (put_mem k m s)) k' = (if k' = k then Some m else om_get (mem_slab s) k')"
  "maps (put_mem k m s) = maps s" "name_map (put_mem k m s) = name_map s"
  by (simp_all add: put_mem_def om.get_insert wf_ok)

lemma inside_mem_update [simp]: "inside (m\<lparr>mem := bs\<rparr>) a = inside m a"
  by (simp add: inside_def)

lemma put_mem_wf:
  assumes wf: "maps_wf s" and k: "om_get (mem_slab s) k = Some m" and len: "length bs = length (mem m)"
  shows "maps_wf (put_mem k (m\<lparr>mem := bs\<rparr>) s)"
proof -
  let ?s = "put_mem k (m\<lparr>mem := bs\<rparr>) s"
  have g: "om_get (mem_slab ?s) k' = Some m' \<longleftrightarrow>
      (\<exists>m0. om_get (mem_slab s) k' = Some m0 \<and> m' = (if k' = k then m\<lparr>mem := bs\<rparr> else m0))" for k' m'
    using wf k by auto
  have ok: "om_ok (mem_slab ?s)"
    using wf by (simp add: put_mem_def om.ok_insert wf_ok)
  have "region_before m1 m2"
    if g1: "om_get (mem_slab ?s) k1 = Some m1" and g2: "om_get (mem_slab ?s) k2 = Some m2"
      and lt: "base_addr m1 < base_addr m2"
    for k1 m1 k2 m2
  proof -
    obtain n1 n2 where n: "om_get (mem_slab s) k1 = Some n1" "om_get (mem_slab s) k2 = Some n2"
        "base_addr n1 = base_addr m1" "base_addr n2 = base_addr m2" "length (mem n1) = length (mem m1)"
      using g1 g2 k len unfolding g by (auto split: if_splits)
    then have "region_before n1 n2"
      using wf_before [OF wf n(1,2)] lt n by simp
    then show ?thesis
      using n by (simp add: region_before_def)
  qed
  moreover have "mem_wf (m\<lparr>mem := bs\<rparr>)"
    using wf_region [OF wf k] len by (simp add: mem_wf_def)
  moreover have "\<exists>m'. om_get (mem_slab ?s) k' = Some m' \<and> base_addr m' = b"
    if "om_get (maps ?s) b = Some k'" for b k'
    using wf_entry [OF wf, of b k'] that k by (auto simp: wf)
  moreover have "\<exists>m'. om_get (mem_slab ?s) k' = Some m' \<and> mem_name m' = n"
    if "name_map ?s n = Some k'" for n k'
    using wf_name [OF wf, of n k'] that k by (auto simp: wf)
  ultimately show ?thesis
    using wf k ok wf_region [OF wf] wf_region_base [OF wf] wf_region_name [OF wf]
    unfolding maps_wf_def [of ?s] by (auto simp: wf_ok)
qed

lemma flat_put_mem:
  assumes wf: "maps_wf s" and k: "om_get (mem_slab s) k = Some m" and len: "length bs = length (mem m)"
  shows "flat (put_mem k (m\<lparr>mem := bs\<rparr>) s) a =
    (if inside m a then Some (permission m, byte_of (m\<lparr>mem := bs\<rparr>) a) else flat s a)"
proof (cases "inside m a")
  case True
  then show ?thesis
    using flat_inside [OF put_mem_wf [OF assms], of k "m\<lparr>mem := bs\<rparr>" a] wf by simp
next
  case False
  let ?s = "put_mem k (m\<lparr>mem := bs\<rparr>) s"
  show ?thesis
  proof (cases "flat s a")
    case None
    then have "search_maps a ?s = None"
      using False wf k by (auto simp: flat_None_iff search_maps_None_iff put_mem_wf len split: if_splits)
    then show ?thesis
      using False None flat_None_iff [OF put_mem_wf [OF assms]] by simp
  next
    case (Some pb)
    then obtain k' m' where m': "om_get (mem_slab s) k' = Some m'" "inside m' a"
        "fst pb = permission m'" "snd pb = byte_of m' a"
      using flat_SomeE [OF wf, of a "fst pb" "snd pb"] by auto
    then have "om_get (mem_slab ?s) k' = Some m'"
      using wf k False by auto
    then show ?thesis
      using flat_inside [OF put_mem_wf [OF assms] _ m'(2)] m' Some False by (simp add: prod_eq_iff)
  qed
qed

end
