(* ===== verification/Maps_Access.thy ===== *)
theory Maps_Access
  imports Maps_Inv
begin

section \<open>Reading and writing scalars\<close>

text \<open>
  The scalar accesses of the manager against the abstract memory \<open>flat\<close>. An access succeeds
  exactly when its bytes lie in one region, or in two regions of which the second begins where
  the first ends, with the permission it needs (\<open>reachable\<close>). A successful read returns the
  little-endian value of the bytes of \<open>flat\<close>; a successful write updates exactly those bytes; a
  failed access changes nothing. No access panics.
\<close>

definition flat_byte :: "maps \<Rightarrow> u64 \<Rightarrow> u8" where
  "flat_byte s a = (case flat s a of None \<Rightarrow> 0 | Some (p, b) \<Rightarrow> b)"

definition flat_bytes :: "maps \<Rightarrow> u64 \<Rightarrow> nat \<Rightarrow> u8 list" where
  "flat_bytes s a n = map (\<lambda>i. flat_byte s (a + of_nat i)) [0..<n]"

text \<open>The address of the last byte of an access.\<close>

definition last_addr :: "u64 \<Rightarrow> nat \<Rightarrow> u64" where
  "last_addr a n = a + (of_nat n - 1)"

definition reachable :: "(permission \<Rightarrow> bool) \<Rightarrow> maps \<Rightarrow> u64 \<Rightarrow> nat \<Rightarrow> bool" where
  "reachable ok s a n \<longleftrightarrow>
     unat a + n \<le> 2 ^ 64 \<and>
     (\<exists>k m. om_get (mem_slab s) k = Some m \<and> inside m a \<and> ok (permission m) \<and>
        (inside m (last_addr a n) \<or>
         (\<exists>k' m'. om_get (mem_slab s) k' = Some m' \<and> base_addr m' = bottom_addr m \<and>
            ok (permission m') \<and> inside m' (last_addr a n))))"

definition in_range :: "u64 \<Rightarrow> nat \<Rightarrow> u64 \<Rightarrow> bool" where
  "in_range a n x \<longleftrightarrow> unat a \<le> unat x \<and> unat x < unat a + n"

text \<open>The abstract memory after a write: new bytes in the range, permissions as they were.\<close>

definition flat_update :: "u64 \<Rightarrow> u8 list \<Rightarrow> (u64 \<Rightarrow> (permission \<times> u8) option) \<Rightarrow>
    u64 \<Rightarrow> (permission \<times> u8) option" where
  "flat_update a bs fm x =
     (if in_range a (length bs) x
      then map_option (\<lambda>(p, b). (p, bs ! (unat x - unat a))) (fm x) else fm x)"

text \<open>
  Two states of the same shape have the same regions but for their bytes. \<open>wrote a bs s s'\<close>: the
  bytes \<open>bs\<close>, and nothing else, were written at \<open>a\<close>. \<open>writable_prefix\<close> counts the writable
  addresses from an address on, up to a bound.
\<close>

definition mem_shape :: "mem64 \<Rightarrow> string \<times> u64 \<times> u64 \<times> permission \<times> nat" where
  "mem_shape m = (mem_name m, base_addr m, bottom_addr m, permission m, length (mem m))"

definition same_shape :: "maps \<Rightarrow> maps \<Rightarrow> bool" where
  "same_shape s s' \<longleftrightarrow>
     maps s' = maps s \<and> name_map s' = name_map s \<and> is_64bits s' = is_64bits s \<and>
     max_alloc_size s' = max_alloc_size s \<and> banzai s' = banzai s \<and>
     (\<forall>k. map_option mem_shape (om_get (mem_slab s') k) = map_option mem_shape (om_get (mem_slab s) k))"

definition log_write :: "(u64 \<times> u64) list \<Rightarrow> u64 \<Rightarrow> u64 \<Rightarrow> (u64 \<times> u64) list" where
  "log_write log a n =
     (if log \<noteq> [] \<and> hd log = CODE_WRITES_ALL then log
      else if CODE_WRITES_CAP \<le> length log then [CODE_WRITES_ALL] else log @ [(a, n)])"

definition wrote :: "u64 \<Rightarrow> u8 list \<Rightarrow> maps \<Rightarrow> maps \<Rightarrow> bool" where
  "wrote a bs s s' \<longleftrightarrow> maps_wf s' \<and> flat s' = flat_update a bs (flat s) \<and> same_shape s s'"

definition writable :: "maps \<Rightarrow> u64 \<Rightarrow> bool" where
  "writable s a \<longleftrightarrow> (case flat s a of None \<Rightarrow> False | Some (p, b) \<Rightarrow> perm_can_write p)"

definition writable_prefix :: "maps \<Rightarrow> u64 \<Rightarrow> nat \<Rightarrow> nat" where
  "writable_prefix s a n = length (takeWhile (\<lambda>i. writable s (a + of_nat i)) [0..<n])"

subsection \<open>Auxiliary facts\<close>

lemma flat_bytes_region:
  assumes wf: "maps_wf s" and k: "om_get (mem_slab s) k = Some m" and "inside m a"
    and n: "unat a + n \<le> unat (base_addr m) + length (mem m)"
  shows "take n (drop (unat (a - base_addr m)) (mem m)) = flat_bytes s a n"
proof (rule nth_equalityI)
  have mwf: "mem_wf m"
    using wf_region [OF wf k] .
  show "length (take n (drop (unat (a - base_addr m)) (mem m))) = length (flat_bytes s a n)"
    using inside_index [OF mwf assms(3)] n assms(3) mwf by (simp add: flat_bytes_def inside_iff)
  fix i assume "i < length (take n (drop (unat (a - base_addr m)) (mem m)))"
  then have i: "i < n"
    by simp
  have "unat (a + of_nat i) = unat a + i"
    using i n mwf by (intro unat_add_of_nat) (simp add: mem_wf_def)
  then have "inside m (a + of_nat i)"
    using i n assms(3) mwf by (simp add: inside_iff)
  then show "take n (drop (unat (a - base_addr m)) (mem m)) ! i = flat_bytes s a n ! i"
    using nth_read_range [OF mwf assms(3) n i] flat_inside [OF wf k] i
    by (simp add: flat_bytes_def flat_byte_def)
qed

lemma length_flat_bytes [simp]: "length (flat_bytes s a n) = n"
  by (simp add: flat_bytes_def)

lemma flat_bytes_append:
  "flat_bytes s a (n + n') = flat_bytes s a n @ flat_bytes s (a + of_nat n) n'"
  by (induction n') (simp_all add: flat_bytes_def add.assoc)

lemma flat_bytes_tlb [simp]: "flat_bytes (s\<lparr>tlb := t\<rparr>) = flat_bytes s"
  by (simp add: fun_eq_iff flat_bytes_def flat_byte_def)

lemma next_mem_at_iff:
  assumes wf: "maps_wf s"
  shows "next_mem_at b s = Some (k, m) \<longleftrightarrow> om_get (mem_slab s) k = Some m \<and> base_addr m = b"
proof
  assume "next_mem_at b s = Some (k, m)"
  then have "om_first_ge (maps s) b = Some (b, k)" "om_get (mem_slab s) k = Some m"
    by (auto simp: next_mem_at_def split: option.splits if_splits)
  moreover from this have "om_get (maps s) b = Some k"
    using om.first_ge_Some [of "maps s" b b k] wf_ok [OF wf] by blast
  ultimately show "om_get (mem_slab s) k = Some m \<and> base_addr m = b"
    using wf_entry [OF wf, of b k] by auto
next
  assume a: "om_get (mem_slab s) k = Some m \<and> base_addr m = b"
  then have "om_first_ge (maps s) b = Some (b, k)"
    using om.first_ge_present [of "maps s" b k] wf_ok [OF wf] wf_region_base [OF wf, of k m] by simp
  then show "next_mem_at b s = Some (k, m)"
    using a by (simp add: next_mem_at_def)
qed

lemma unat_last_addr:
  assumes "0 < n" "unat a + n \<le> 2 ^ 64" "n < 2 ^ 64"
  shows "unat (last_addr a n) = unat a + n - 1"
proof -
  have "last_addr a n = a + of_nat (n - 1)"
    using assms(1) by (simp add: last_addr_def of_nat_diff)
  then show ?thesis
    using unat_add_of_nat [of a "n - 1"] assms by simp
qed

lemma checked_end:
  assumes "0 < n" "n < 2 ^ 64"
  shows "checked_add a (of_nat n - 1) = (if unat a + n \<le> 2 ^ 64 then Some (last_addr a n) else None)"
proof -
  have "unat (of_nat n - 1 :: u64) = n - 1"
    using assms unat_of_nat64 [of "n - 1"] by (simp add: of_nat_diff)
  then show ?thesis
    using assms(1) by (auto simp: checked_add_def last_addr_def)
qed

lemma crossing:
  fixes a :: u64
  assumes wf: "mem_wf m" and i: "inside m a" and n: "0 < n" "unat a + n \<le> 2 ^ 64" "n < 2 ^ 64"
    and out: "\<not> inside m (last_addr a n)"
  obtains lo hi where "n = lo + hi" "0 < lo" "0 < hi"
    "bottom_addr m - a = of_nat lo" "of_nat n - (bottom_addr m - a) = of_nat hi"
    "bottom_addr m = a + of_nat lo" "unat (of_nat lo :: u64) = lo"
    "unat a + lo = unat (base_addr m) + length (mem m)"
    "bottom_addr m + (of_nat n - (bottom_addr m - a)) - 1 = last_addr a n"
proof -
  define lo where "lo = unat (base_addr m) + length (mem m) - unat a"
  have a: "unat (base_addr m) \<le> unat a" "unat a < unat (base_addr m) + length (mem m)"
    using i wf by (simp_all add: inside_iff)
  then have lt: "lo < n"
    using out unat_last_addr [OF n] n(1) unfolding inside_iff [OF wf] lo_def by linarith
  have "a \<le> bottom_addr m"
    using i by (auto simp: inside_def)
  then have "unat (bottom_addr m - a) = lo"
    by (simp add: unat_sub64 unat_bottom [OF wf] lo_def)
  moreover have "of_nat (unat (bottom_addr m - a)) = bottom_addr m - a"
    by simp
  ultimately have b: "bottom_addr m - a = of_nat lo"
    by metis
  have 1: "of_nat n - (bottom_addr m - a) = (of_nat (n - lo) :: u64)"
    using lt unfolding b by (simp add: of_nat_diff)
  have 2: "bottom_addr m = a + of_nat lo"
    using b by (simp add: algebra_simps)
  have 3: "bottom_addr m + (of_nat n - (bottom_addr m - a)) - 1 = last_addr a n"
    by (simp add: last_addr_def)
  have "unat (of_nat lo :: u64) = lo"
    using lt n by (intro unat_of_nat64) simp
  then show ?thesis
    using that [of lo "n - lo"] lt a 1 2 3 b by (simp add: lo_def)
qed

lemma read_across_wf:
  fixes a :: u64
  assumes wf: "maps_wf s" and sw: "scalar_width TYPE('a::len word)"
    and k: "om_get (mem_slab s) k = Some m" and i: "inside m a" and r: "can_read m"
    and n: "unat a + scalar_size TYPE('a word) \<le> 2 ^ 64"
    and out: "\<not> inside m (last_addr a (scalar_size TYPE('a word)))"
  shows "read_across a m s =
    Ret (if \<exists>k' m'. om_get (mem_slab s) k' = Some m' \<and> base_addr m' = bottom_addr m \<and>
              can_read m' \<and> inside m' (last_addr a (scalar_size TYPE('a word)))
         then Some (from_le_bytes (flat_bytes s a (scalar_size TYPE('a word))) :: 'a word) else None, s)"
proof -
  let ?n = "scalar_size TYPE('a word)"
  have mwf: "mem_wf m" using wf_region [OF wf k] .
  have sz: "0 < ?n" "?n \<le> 16" "?n < 2 ^ 64" using scalar_size_bounds [OF sw] by simp_all
  obtain lo hi where c: "?n = lo + hi" "0 < lo" "0 < hi"
    "bottom_addr m - a = of_nat lo" "of_nat ?n - (bottom_addr m - a) = of_nat hi"
    "bottom_addr m = a + of_nat lo" "unat (of_nat lo :: u64) = lo"
    "unat a + lo = unat (base_addr m) + length (mem m)"
    "bottom_addr m + (of_nat ?n - (bottom_addr m - a)) - 1 = last_addr a ?n"
    using crossing [OF mwf i sz(1) n sz(3) out] .
  have c9: "bottom_addr m + of_nat hi - 1 = last_addr a ?n"
    using c(9) unfolding c(5) .
  show ?thesis
  proof (cases "\<exists>k' m'. om_get (mem_slab s) k' = Some m' \<and> base_addr m' = bottom_addr m \<and>
              can_read m' \<and> inside m' (last_addr a ?n)")
    case True
    then obtain k' m' where m': "om_get (mem_slab s) k' = Some m'" "base_addr m' = bottom_addr m"
        "can_read m'" "inside m' (last_addr a ?n)"
      by blast
    have m'wf: "mem_wf m'" using wf_region [OF wf m'(1)] .
    have hi: "unat (bottom_addr m) + hi \<le> unat (base_addr m') + length (mem m')"
      using m'(4) c(1,3,8) unat_last_addr [OF sz(1) n sz(3)] unfolding inside_iff [OF m'wf] unat_bottom [OF mwf]
      by linarith
    then have i': "inside m' (bottom_addr m)"
      using m'(2) c(3) unfolding inside_iff [OF m'wf] by auto
    have lo_b: "mem_read_bytes a (of_nat lo) m = flat_bytes s a lo"
      using mem_read_bytes_range [OF mwf r i, of lo] flat_bytes_region [OF wf k i, of lo] c(8) by simp
    have hi_b: "mem_read_bytes (bottom_addr m) (of_nat hi) m' = flat_bytes s (bottom_addr m) hi"
      using mem_read_bytes_range [OF m'wf m'(3) i' hi] flat_bytes_region [OF wf m'(1) i' hi] m'(2) by simp
    have all: "flat_bytes s a lo @ flat_bytes s (bottom_addr m) hi = flat_bytes s a ?n"
      unfolding c(1) flat_bytes_append c(6) ..
    have nx: "next_mem_at (bottom_addr m) s = Some (k', m')"
      using m' by (simp add: next_mem_at_iff [OF wf])
    have le: "lo + hi \<le> 16"
      using sz c by simp
    show ?thesis
      using True nx m' le
      unfolding read_across_def Let_def c(5) unfolding c(4) c(7) c9
      by (simp add: lo_b hi_b copy_from_slice_def splice_def slice_index_def slice_get_def all c(1)
          read_le_exact)
  next
    case False
    then show ?thesis
      unfolding read_across_def Let_def c(9)
      using next_mem_at_iff [OF wf] by (auto split: option.split)
  qed
qed

lemma not_reachable_unmapped:
  "maps_wf s \<Longrightarrow> search_maps a s = None \<Longrightarrow> \<not> reachable ok s a n"
  by (auto simp: reachable_def search_maps_None_iff)

lemma reachable_iff:
  assumes "maps_wf s" "om_get (mem_slab s) k = Some m" "inside m a" "unat a + n \<le> 2 ^ 64"
  shows "reachable ok s a n \<longleftrightarrow> ok (permission m) \<and>
    (inside m (last_addr a n) \<or>
     (\<exists>k' m'. om_get (mem_slab s) k' = Some m' \<and> base_addr m' = bottom_addr m \<and>
        ok (permission m') \<and> inside m' (last_addr a n)))"
  using assms inside_unique [OF assms(1,2) _ assms(3)] unfolding reachable_def
  by (metis option.inject)

lemma inside_last_bound:
  assumes "mem_wf m" "0 < n" "unat a + n \<le> 2 ^ 64" "n < 2 ^ 64" "inside m (last_addr a n)"
  shows "unat a + n \<le> unat (base_addr m) + length (mem m)"
  using assms(2,5) unat_last_addr [OF assms(2-4)] unfolding inside_iff [OF assms(1)] by linarith

lemma read_scalar_wf:
  fixes a :: u64
  assumes wf: "maps_wf s" and sw: "scalar_width TYPE('a::len word)"
  obtains t where "read_scalar a s =
    Ret (if reachable perm_can_read s a (scalar_size TYPE('a word))
         then Some (from_le_bytes (flat_bytes s a (scalar_size TYPE('a word))) :: 'a word) else None,
         s\<lparr>tlb := t\<rparr>)"
proof -
  let ?n = "scalar_size TYPE('a word)"
  have sz: "0 < ?n" "?n \<le> 16" "?n < 2 ^ 64" using scalar_size_bounds [OF sw] by simp_all
  obtain t where t: "get_mem_by_addr a s = (search_maps a s, s\<lparr>tlb := t\<rparr>)"
    using get_mem_by_addr_wf [OF wf] .
  show ?thesis
  proof (cases "unat a + ?n \<le> 2 ^ 64")
    case False
    then show ?thesis
      using that [of "tlb s"] unfolding read_scalar_def Let_def checked_end [OF sz(1,3)]
      by (simp add: reachable_def)
  next
    case n: True
    then have ca: "checked_add a (of_nat ?n - 1) = Some (last_addr a ?n)"
      using checked_end [OF sz(1,3)] by simp
    show ?thesis
    proof (cases "search_maps a s")
      case None
      then show ?thesis
        using that [of t] t ca not_reachable_unmapped [OF wf None]
        by (simp add: read_scalar_def Let_def)
    next
      case (Some k)
      then obtain m where m: "om_get (mem_slab s) k = Some m" "inside m a"
        using search_maps_iff [OF wf] by blast
      have mwf: "mem_wf m" using wf_region [OF wf m(1)] .
      have twf: "maps_wf (s\<lparr>tlb := t\<rparr>)" "om_get (mem_slab (s\<lparr>tlb := t\<rparr>)) k = Some m"
        using wf m by simp_all
      note ac = read_across_wf [OF twf(1) sw twf(2) m(2) _ n]
      have wi: "mem_read_bytes a (of_nat ?n) m = flat_bytes s a ?n"
        if "can_read m" "inside m (last_addr a ?n)"
        using that mem_read_bytes_range [OF mwf _ m(2)] flat_bytes_region [OF wf m]
          inside_last_bound [OF mwf sz(1) n sz(3)] by simp
      have one: "1 < ?n" if "\<not> inside m (last_addr a ?n)"
        using that m(2) sz(1) by (cases "?n = 1") (auto simp: last_addr_def)
      have "read_scalar a s =
        Ret (if reachable perm_can_read s a ?n then Some (from_le_bytes (flat_bytes s a ?n) :: 'a word)
             else None, s\<lparr>tlb := t\<rparr>)"
        using t ca Some m(1) one
        by (cases "can_read m"; cases "inside m (last_addr a ?n)")
          (simp_all add: read_scalar_def Let_def ac wi read_le_exact reachable_iff [OF wf m n] can_read_def,
            blast)
      then show ?thesis
        using that by blast
    qed
  qed
qed

lemma same_shape_trans: "same_shape s s' \<Longrightarrow> same_shape s' s'' \<Longrightarrow> same_shape s s''"
  by (simp add: same_shape_def)

lemma same_shape_sym: "same_shape s s' \<Longrightarrow> same_shape s' s"
  by (simp add: same_shape_def)

lemma same_shape_refl [simp]: "same_shape s s"
  by (simp_all add: same_shape_def)

lemma same_shape_get:
  assumes "same_shape s s'" "om_get (mem_slab s) k = Some m"
  obtains m' where "om_get (mem_slab s') k = Some m'" "mem_shape m' = mem_shape m"
proof -
  have "map_option mem_shape (om_get (mem_slab s') k) = Some (mem_shape m)"
    using assms by (simp add: same_shape_def)
  then show ?thesis
    using that by auto
qed

lemma shape_inside: "mem_shape m' = mem_shape m \<Longrightarrow> inside m' a = inside m a"
  by (simp add: mem_shape_def inside_def)

lemma reachable_one:
  "unat a + n \<le> 2 ^ 64 \<Longrightarrow> om_get (mem_slab s) k = Some m \<Longrightarrow> inside m a \<Longrightarrow> ok (permission m) \<Longrightarrow>
     inside m (last_addr a n) \<Longrightarrow> reachable ok s a n"
  unfolding reachable_def by blast

lemma reachable_two:
  "unat a + n \<le> 2 ^ 64 \<Longrightarrow> om_get (mem_slab s) k = Some m \<Longrightarrow> inside m a \<Longrightarrow> ok (permission m) \<Longrightarrow>
     om_get (mem_slab s) k' = Some m' \<Longrightarrow> base_addr m' = bottom_addr m \<Longrightarrow> ok (permission m') \<Longrightarrow>
     inside m' (last_addr a n) \<Longrightarrow> reachable ok s a n"
  unfolding reachable_def by blast

lemma same_shape_reachable_imp:
  assumes s: "same_shape s s'" and r: "reachable ok s a n"
  shows "reachable ok s' a n"
proof -
  obtain k m where m: "om_get (mem_slab s) k = Some m" "inside m a" "ok (permission m)"
      and le: "unat a + n \<le> 2 ^ 64"
      and alt: "inside m (last_addr a n) \<or>
         (\<exists>k' m'. om_get (mem_slab s) k' = Some m' \<and> base_addr m' = bottom_addr m \<and>
            ok (permission m') \<and> inside m' (last_addr a n))"
    using r unfolding reachable_def by blast
  obtain n1 where n1: "om_get (mem_slab s') k = Some n1" "mem_shape n1 = mem_shape m"
    using same_shape_get [OF s m(1)] .
  then have f1: "inside n1 a" "ok (permission n1)" "bottom_addr n1 = bottom_addr m"
    using m shape_inside [of n1 m] by (simp_all add: mem_shape_def)
  from alt show ?thesis
  proof (elim disjE exE conjE)
    assume "inside m (last_addr a n)"
    then show ?thesis
      using reachable_one [where ok = ok, OF le n1(1) f1(1,2)] shape_inside [OF n1(2)] by simp
  next
    fix k' m' assume a: "om_get (mem_slab s) k' = Some m'" "base_addr m' = bottom_addr m"
      "ok (permission m')" "inside m' (last_addr a n)"
    obtain n2 where n2: "om_get (mem_slab s') k' = Some n2" "mem_shape n2 = mem_shape m'"
      using same_shape_get [OF s a(1)] .
    then show ?thesis
      using reachable_two [where ok = ok, OF le n1(1) f1(1,2) n2(1)] a f1 shape_inside [OF n2(2)]
      by (simp add: mem_shape_def)
  qed
qed

lemma same_shape_reachable: "same_shape s s' \<Longrightarrow> reachable ok s' a n = reachable ok s a n"
  using same_shape_reachable_imp same_shape_sym by blast

lemma flat_update_append:
  "unat a + length bs = unat b \<Longrightarrow>
    flat_update b cs (flat_update a bs f) = flat_update a (bs @ cs) f"
  by (auto simp: fun_eq_iff flat_update_def in_range_def nth_append split: option.split)

lemma write_region:
  assumes wf: "maps_wf s" and k: "om_get (mem_slab s) k = Some m" and w: "can_write m"
    and i: "inside m a" and n: "unat a + length bs \<le> unat (base_addr m) + length (mem m)"
  obtains m' where "mem_write_bytes a bs m = Ret m'" "maps_wf (put_mem k m' s)"
    "flat (put_mem k m' s) = flat_update a bs (flat s)" "same_shape s (put_mem k m' s)"
    "permission m' = permission m" "om_get (mem_slab (put_mem k m' s)) = (om_get (mem_slab s))(k \<mapsto> m')"
proof
  let ?m = "m\<lparr>mem := splice (mem m) (unat (a - base_addr m)) bs\<rparr>"
  have mwf: "mem_wf m" using wf_region [OF wf k] .
  have u: "unat (a - base_addr m) = unat a - unat (base_addr m)" "unat (base_addr m) \<le> unat a"
    using mwf i by (simp_all add: inside_index inside_iff)
  then have len: "length (splice (mem m) (unat (a - base_addr m)) bs) = length (mem m)"
    using n by (intro length_splice) linarith
  show "mem_write_bytes a bs m = Ret ?m"
    using w force_write_bytes_range [OF mwf i n] by (simp add: mem_write_bytes_def)
  show "maps_wf (put_mem k ?m s)"
    by (rule put_mem_wf [OF wf k len])
  show "om_get (mem_slab (put_mem k ?m s)) = (om_get (mem_slab s))(k \<mapsto> ?m)"
    using wf by (auto simp: fun_eq_iff)
  show "same_shape s (put_mem k ?m s)"
    using k len wf by (simp add: same_shape_def put_mem_def om.get_insert wf_ok mem_shape_def)
  show "permission ?m = permission m" by simp
  show "flat (put_mem k ?m s) = flat_update a bs (flat s)"
  proof
    fix x
    show "flat (put_mem k ?m s) x = flat_update a bs (flat s) x"
    proof (cases "inside m x")
      case True
      then show ?thesis
        using flat_put_mem [OF wf k len, of x] byte_of_splice [OF mwf i True n] flat_inside [OF wf k True]
        by (simp add: flat_update_def in_range_def)
    next
      case False
      then have "\<not> in_range a (length bs) x"
        using n u unfolding inside_iff [OF mwf] in_range_def by linarith
      then show ?thesis
        using False flat_put_mem [OF wf k len, of x] by (simp add: flat_update_def)
    qed
  qed
qed

lemma note_code_write_eq:
  "note_code_write a n s = s\<lparr>code_writes := log_write (code_writes s) a n\<rparr>"
  by (simp add: note_code_write_def log_write_def Let_def)

lemma same_shape_code_writes [simp]:
  "same_shape s' (s\<lparr>code_writes := c\<rparr>) = same_shape s' s" "same_shape s' (s\<lparr>tlb := t\<rparr>) = same_shape s' s"
  "same_shape (s'\<lparr>code_writes := c\<rparr>) s = same_shape s' s" "same_shape (s'\<lparr>tlb := t\<rparr>) s = same_shape s' s"
  by (simp_all add: same_shape_def)

lemma note_code_write_frame [simp]:
  "maps_wf (note_code_write a n s) = maps_wf s" "flat (note_code_write a n s) = flat s"
  "same_shape s' (note_code_write a n s) = same_shape s' s"
  by (simp_all add: note_code_write_eq)

lemma write_within_unmapped:
  assumes "maps_wf s" "search_maps a s = None"
  shows "\<exists>t. write_within a e v s = Ret (False, s\<lparr>tlb := t\<rparr>)"
proof -
  obtain t where "get_mem_by_addr_mut a s = (search_maps a s, s\<lparr>tlb := t\<rparr>)"
    using get_mem_by_addr_mut_wf [OF assms(1)] .
  then show ?thesis
    using assms by (auto simp: write_within_def Let_def)
qed

lemma write_within_region:
  fixes a :: u64 and v :: "'a::len word"
  assumes wf: "maps_wf s" and sw: "scalar_width TYPE('a word)"
    and n: "unat a + scalar_size TYPE('a word) \<le> 2 ^ 64"
    and m: "om_get (mem_slab s) k = Some m" "inside m a"
  shows "if can_write m \<and> inside m (last_addr a (scalar_size TYPE('a word)))
    then \<exists>s'. write_within a (last_addr a (scalar_size TYPE('a word))) v s = Ret (True, s') \<and>
           wrote a (to_le_bytes v) s s'
    else \<exists>t. write_within a (last_addr a (scalar_size TYPE('a word))) v s = Ret (False, s\<lparr>tlb := t\<rparr>)"
proof -
  let ?n = "scalar_size TYPE('a word)"
  have sz: "0 < ?n" "?n \<le> 16" "?n < 2 ^ 64" using scalar_size_bounds [OF sw] by simp_all
  obtain t where t: "get_mem_by_addr_mut a s = (Some k, s\<lparr>tlb := t\<rparr>)"
    using get_mem_by_addr_mut_wf [OF wf, of a] search_maps_iff [OF wf, of a k] m by auto
  let ?s = "s\<lparr>tlb := t\<rparr>"
  show ?thesis
  proof (cases "can_write m \<and> inside m (last_addr a ?n)")
    case False
    then show ?thesis
      using t m by (auto simp: write_within_def Let_def)
  next
    case True
    have "unat a + length (to_le_bytes v) \<le> unat (base_addr m) + length (mem m)"
      using inside_last_bound [OF wf_region [OF wf m(1)] sz(1) n sz(3)] True by simp
    moreover have "maps_wf ?s" "om_get (mem_slab ?s) k = Some m"
      using wf m by simp_all
    ultimately obtain m' where w: "mem_write_bytes a (to_le_bytes v) m = Ret m'"
        "maps_wf (put_mem k m' ?s)" "flat (put_mem k m' ?s) = flat_update a (to_le_bytes v) (flat ?s)"
        "same_shape ?s (put_mem k m' ?s)"
      using write_region [of ?s k m a "to_le_bytes v"] True m by blast
    have "write_within a (last_addr a ?n) v s = Ret (True,
        if can_execute m' then note_code_write a (of_nat ?n) (put_mem k m' ?s) else put_mem k m' ?s)"
      using t m True w(1)
      by (simp add: write_within_def Let_def write_le_16 [OF sw] slice_index_def slice_get_def)
    then show ?thesis
      using w True by (simp add: wrote_def)
  qed
qed

lemma write_across_wf:
  fixes a :: u64 and v :: "'a::len word"
  assumes wf: "maps_wf s" and sw: "scalar_width TYPE('a word)"
    and k: "om_get (mem_slab s) k = Some m" and i: "inside m a" and w: "can_write m"
    and n: "unat a + scalar_size TYPE('a word) \<le> 2 ^ 64"
    and out: "\<not> inside m (last_addr a (scalar_size TYPE('a word)))"
  shows "if \<exists>k' m'. om_get (mem_slab s) k' = Some m' \<and> base_addr m' = bottom_addr m \<and>
              can_write m' \<and> inside m' (last_addr a (scalar_size TYPE('a word)))
         then \<exists>s'. write_across a v m s = Some (Ret (True, s')) \<and> wrote a (to_le_bytes v) s s'
         else write_across a v m s = None"
proof -
  let ?n = "scalar_size TYPE('a word)"
  have mwf: "mem_wf m" using wf_region [OF wf k] .
  have sz: "0 < ?n" "?n \<le> 16" "?n < 2 ^ 64" using scalar_size_bounds [OF sw] by simp_all
  obtain lo hi where c: "?n = lo + hi" "0 < lo" "0 < hi"
    "bottom_addr m - a = of_nat lo" "of_nat ?n - (bottom_addr m - a) = of_nat hi"
    "bottom_addr m = a + of_nat lo" "unat (of_nat lo :: u64) = lo"
    "unat a + lo = unat (base_addr m) + length (mem m)"
    "bottom_addr m + (of_nat ?n - (bottom_addr m - a)) - 1 = last_addr a ?n"
    using crossing [OF mwf i sz(1) n sz(3) out] .
  have c9: "bottom_addr m + of_nat hi - 1 = last_addr a ?n"
    using c(9) unfolding c(5) .
  show ?thesis
  proof (cases "\<exists>k' m'. om_get (mem_slab s) k' = Some m' \<and> base_addr m' = bottom_addr m \<and>
              can_write m' \<and> inside m' (last_addr a ?n)")
    case True
    then obtain k' m' where m': "om_get (mem_slab s) k' = Some m'" "base_addr m' = bottom_addr m"
        "can_write m'" "inside m' (last_addr a ?n)"
      by blast
    have m'wf: "mem_wf m'" using wf_region [OF wf m'(1)] .
    have hi: "unat (bottom_addr m) + hi \<le> unat (base_addr m') + length (mem m')"
      using m'(4) c(1,3,8) unat_last_addr [OF sz(1) n sz(3)] unfolding inside_iff [OF m'wf] unat_bottom [OF mwf]
      by linarith
    then have i': "inside m' (bottom_addr m)"
      using m'(2) c(3) unfolding inside_iff [OF m'wf] by auto
    have "k' \<noteq> k"
      using m' k out by auto
    let ?lo = "take lo (to_le_bytes v)" and ?hi = "drop lo (to_le_bytes v)"
    obtain m1 where m1: "mem_write_bytes a ?lo m = Ret m1" "maps_wf (put_mem k m1 s)"
        "flat (put_mem k m1 s) = flat_update a ?lo (flat s)" "same_shape s (put_mem k m1 s)"
        "om_get (mem_slab (put_mem k m1 s)) = (om_get (mem_slab s))(k \<mapsto> m1)"
      using write_region [OF wf k w i, of ?lo] c by auto
    let ?s = "put_mem k m1 s"
    obtain m2 where m2: "mem_write_bytes (bottom_addr m) ?hi m' = Ret m2" "maps_wf (put_mem k' m2 ?s)"
        "flat (put_mem k' m2 ?s) = flat_update (bottom_addr m) ?hi (flat ?s)"
        "same_shape ?s (put_mem k' m2 ?s)"
      using write_region [OF m1(2) _ m'(3) i', of k' ?hi] c hi m1(5) m' \<open>k' \<noteq> k\<close> by auto
    have nx: "next_mem_at (bottom_addr m) s = Some (k', m')"
      using m' by (simp add: next_mem_at_iff [OF wf])
    have fk: "om_last_le (maps s) a = Some (base_addr m, k)"
      by (rule last_le_inside [OF wf k i])
    have "flat (put_mem k' m2 ?s) = flat_update a (?lo @ ?hi) (flat s)"
      unfolding m2(3) m1(3) using c(1,8) unat_bottom [OF mwf]
      by (intro flat_update_append) simp
    then have "wrote a (to_le_bytes v) s (put_mem k' m2 ?s)"
      using m2 m1 same_shape_trans by (auto simp: wrote_def)
    moreover have "write_across a v m s = Some (Ret (True, if can_execute m \<or> can_execute m'
        then note_code_write a (of_nat ?n) (put_mem k' m2 ?s) else put_mem k' m2 ?s))"
      using nx m' k fk m1(1,5) m2(1) \<open>k' \<noteq> k\<close> sz c(1)
      unfolding write_across_def Let_def c(5) unfolding c(4) c(7) c9
      by (simp add: write_le_16 [OF sw] slice_index_def slice_get_def)
    ultimately show ?thesis
      using True by (simp add: wrote_def)
  next
    case False
    then show ?thesis
      unfolding write_across_def Let_def c(9)
      using next_mem_at_iff [OF wf] by (auto split: option.split)
  qed
qed

lemma write_scalar_wf:
  fixes a :: u64 and v :: "'a::len word"
  assumes wf: "maps_wf s" and sw: "scalar_width TYPE('a word)"
  shows "if reachable perm_can_write s a (scalar_size TYPE('a word))
    then \<exists>s'. write_scalar a v s = Ret (True, s') \<and> wrote a (to_le_bytes v) s s'
    else \<exists>t. write_scalar a v s = Ret (False, s\<lparr>tlb := t\<rparr>)"
proof -
  let ?n = "scalar_size TYPE('a word)"
  have sz: "0 < ?n" "?n \<le> 16" "?n < 2 ^ 64" using scalar_size_bounds [OF sw] by simp_all
  obtain t where t: "get_mem_by_addr a s = (search_maps a s, s\<lparr>tlb := t\<rparr>)"
    using get_mem_by_addr_wf [OF wf] .
  let ?s = "s\<lparr>tlb := t\<rparr>"
  show ?thesis
  proof (cases "unat a + ?n \<le> 2 ^ 64")
    case False
    then show ?thesis
      unfolding write_scalar_def Let_def checked_end [OF sz(1,3)]
      by (simp add: reachable_def same_tlb)
  next
    case n: True
    then have ca: "checked_add a (of_nat ?n - 1) = Some (last_addr a ?n)"
      using checked_end [OF sz(1,3)] by simp
    have twf: "maps_wf ?s" using wf by simp
    show ?thesis
    proof (cases "search_maps a s")
      case None
      then have "\<not> reachable perm_can_write s a ?n"
        by (rule not_reachable_unmapped [OF wf])
      moreover have "write_scalar a v s = write_within a (last_addr a ?n) v (if 1 < ?n then ?s else s)"
        using t ca None by (simp add: write_scalar_def Let_def)
      ultimately show ?thesis
        using write_within_unmapped [OF wf None] write_within_unmapped [OF twf] None by auto
    next
      case (Some k)
      then obtain m where m: "om_get (mem_slab s) k = Some m" "inside m a"
        using search_maps_iff [OF wf] by blast
      have tm: "om_get (mem_slab ?s) k = Some m"
        using m by simp
      have one: "1 < ?n" if "\<not> inside m (last_addr a ?n)"
        using that m(2) sz(1) by (cases "?n = 1") (auto simp: last_addr_def)
      note r = reachable_iff [OF wf m n, of perm_can_write, folded can_write_def]
      show ?thesis
      proof (cases "\<not> inside m (last_addr a ?n) \<and> can_write m")
        case True
        have "write_scalar a v s = (case write_across a v m ?s of Some result \<Rightarrow> result
            | None \<Rightarrow> write_within a (last_addr a ?n) v ?s)"
          using t ca Some m True one by (simp add: write_scalar_def Let_def)
        then show ?thesis
          using True r write_across_wf [OF twf sw tm m(2) _ n, of v]
            write_within_region [OF twf sw n tm m(2), of v]
          by (auto simp: wrote_def split: if_splits)
      next
        case False
        have "write_scalar a v s = write_within a (last_addr a ?n) v (if 1 < ?n then ?s else s)"
          using t ca Some m False by (auto simp: write_scalar_def Let_def)
        then show ?thesis
          using False r write_within_region [OF twf sw n tm m(2), of v]
            write_within_region [OF wf sw n m, of v]
          by (auto simp: wrote_def split: if_splits)
      qed
    qed
  qed
qed

lemma reachable_mapped:
  assumes wf: "maps_wf s" and r: "reachable ok s a n" and x: "in_range a n x" and n: "n < 2 ^ 64"
  obtains p b where "flat s x = Some (p, b)" "ok p"
proof -
  obtain k m where m: "om_get (mem_slab s) k = Some m" "inside m a" "ok (permission m)"
      and le: "unat a + n \<le> 2 ^ 64"
      and alt: "inside m (last_addr a n) \<or>
         (\<exists>k' m'. om_get (mem_slab s) k' = Some m' \<and> base_addr m' = bottom_addr m \<and>
            ok (permission m') \<and> inside m' (last_addr a n))"
    using r unfolding reachable_def by blast
  have mwf: "mem_wf m" using wf_region [OF wf m(1)] .
  have "0 < n" using x by (auto simp: in_range_def)
  note l = unat_last_addr [OF this le n]
  consider "inside m x" | k' m' where "om_get (mem_slab s) k' = Some m'" "ok (permission m')" "inside m' x"
  proof (cases "unat x < unat (base_addr m) + length (mem m)")
    case True
    then have "inside m x"
      using m(2) x unfolding inside_iff [OF mwf] in_range_def by linarith
    then show ?thesis using that by blast
  next
    case False
    then have "\<not> inside m (last_addr a n)"
      using x l \<open>0 < n\<close> unfolding inside_iff [OF mwf] in_range_def by linarith
    then obtain k' m' where m': "om_get (mem_slab s) k' = Some m'" "base_addr m' = bottom_addr m"
        "ok (permission m')" "inside m' (last_addr a n)"
      using alt by blast
    have "inside m' x"
      using m'(2,4) False x l unat_bottom [OF mwf] unfolding inside_iff [OF wf_region [OF wf m'(1)]] in_range_def
      by auto
    then show ?thesis using that m' by blast
  qed
  then show ?thesis
  proof cases
    case 1
    then show ?thesis using flat_inside [OF wf m(1)] m(3) that by blast
  next
    case 2
    then show ?thesis using flat_inside [OF wf] that by blast
  qed
qed

lemma reachable_1:
  assumes wf: "maps_wf s"
  shows "reachable ok s a 1 \<longleftrightarrow> (\<exists>p b. flat s a = Some (p, b) \<and> ok p)"
proof
  assume "reachable ok s a 1"
  then show "\<exists>p b. flat s a = Some (p, b) \<and> ok p"
    using reachable_mapped [OF wf, of ok a 1 a] by (force simp: in_range_def)
next
  assume "\<exists>p b. flat s a = Some (p, b) \<and> ok p"
  then obtain k m where "om_get (mem_slab s) k = Some m" "inside m a" "ok (permission m)"
    using flat_SomeE [OF wf] by metis
  moreover have "unat a + 1 \<le> 2 ^ 64" "last_addr a 1 = a"
    using unsigned_less [of a, where 'a = nat] by (simp_all add: last_addr_def)
  ultimately show "reachable ok s a 1"
    using reachable_one by metis
qed

lemma flat_bytes_update:
  assumes "\<And>x. in_range a (length bs) x \<Longrightarrow> flat s x \<noteq> None" "flat s' = flat_update a bs (flat s)"
    "unat a + length bs \<le> 2 ^ 64"
  shows "flat_bytes s' a (length bs) = bs"
proof (rule nth_equalityI)
  fix i assume "i < length (flat_bytes s' a (length bs))"
  then have i: "i < length bs" by simp
  then have "unat (a + of_nat i) = unat a + i"
    using assms(3) by (intro unat_add_of_nat) simp
  then have "in_range a (length bs) (a + of_nat i)" "unat (a + of_nat i) - unat a = i"
    using i by (simp_all add: in_range_def)
  then show "flat_bytes s' a (length bs) ! i = bs ! i"
    using i assms(1) [of "a + of_nat i"] assms(2)
    by (auto simp: flat_bytes_def flat_byte_def flat_update_def)
qed simp

lemma wrote_Nil: "maps_wf s \<Longrightarrow> wrote a [] s (s\<lparr>tlb := t\<rparr>)"
  by (auto simp: wrote_def fun_eq_iff flat_update_def in_range_def)

lemma wrote_append:
  assumes "wrote a bs s s'" "wrote b cs s' s''" "unat a + length bs = unat b"
  shows "wrote a (bs @ cs) s s''"
  using assms flat_update_append [OF assms(3)] same_shape_trans by (auto simp: wrote_def)

lemma wrote_writable: "wrote a bs s s' \<Longrightarrow> writable s' x = writable s x"
  by (auto simp: writable_def wrote_def flat_update_def split: option.splits)

lemma writable_prefix_Suc:
  "writable_prefix s a (Suc n) = (if writable s a then Suc (writable_prefix s (a + 1) n) else 0)"
proof -
  have "[0..<Suc n] = 0 # map Suc [0..<n]"
    by (simp add: upt_conv_Cons map_Suc_upt del: upt_Suc)
  then show ?thesis
    by (simp add: writable_prefix_def takeWhile_map comp_def add.assoc del: upt_Suc)
qed

lemma writable_prefix_wrote:
  "wrote a bs s s' \<Longrightarrow> writable_prefix s' b n = writable_prefix s b n"
  by (simp add: writable_prefix_def wrote_writable)

lemma write_each_wf:
  assumes "maps_wf s" "unat a + length bs \<le> 2 ^ 64"
  shows "\<exists>s'. write_each a bs s = Ret (writable_prefix s a (length bs) = length bs, s') \<and>
    wrote a (take (writable_prefix s a (length bs)) bs) s s'"
  using assms
proof (induction bs arbitrary: a s)
  case Nil
  then show ?case
    using wrote_Nil [of s a "tlb s"] by (simp add: writable_prefix_def)
next
  case (Cons b bs)
  have w: "reachable perm_can_write s a 1 = writable s a"
    using reachable_1 [OF Cons.prems(1)] by (auto simp: writable_def split: option.split)
  show ?case
  proof (cases "writable s a")
    case False
    then obtain t where "maps_write_byte a b s = Ret (False, s\<lparr>tlb := t\<rparr>)"
      using write_scalar_wf [OF Cons.prems(1), of a b] w by (auto simp: maps_write_byte_def)
    then show ?thesis
      using False wrote_Nil [OF Cons.prems(1)] by (simp add: writable_prefix_Suc)
  next
    case True
    then obtain s1 where s1: "maps_write_byte a b s = Ret (True, s1)" "wrote a (to_le_bytes b) s s1"
      using write_scalar_wf [OF Cons.prems(1), of a b] w by (auto simp: maps_write_byte_def)
    have tb: "to_le_bytes b = [b]"
      by (simp add: to_le_bytes_def)
    show ?thesis
    proof (cases "bs = []")
      case True
      then show ?thesis
        using s1 tb \<open>writable s a\<close> by (simp add: writable_prefix_Suc) (simp add: writable_prefix_def)
    next
      case False
      then have "unat a + 1 < 2 ^ 64"
        using Cons.prems(2) by (cases bs) simp_all
      then have u: "unat (a + 1) = unat a + 1"
        using unat_add_of_nat [of a 1] by simp
      have "maps_wf s1"
        using s1(2) by (simp add: wrote_def)
      from Cons.IH [OF this, of "a + 1"] Cons.prems(2) u
      obtain s2 where s2: "write_each (a + 1) bs s1 =
            Ret (writable_prefix s1 (a + 1) (length bs) = length bs, s2)"
          "wrote (a + 1) (take (writable_prefix s1 (a + 1) (length bs)) bs) s1 s2"
        by auto
      have "wrote a ([b] @ take (writable_prefix s (a + 1) (length bs)) bs) s s2"
        using wrote_append [OF s1(2) s2(2)] u unfolding tb writable_prefix_wrote [OF s1(2)] by simp
      then show ?thesis
        using s1(1) s2(1) \<open>writable s a\<close> writable_prefix_wrote [OF s1(2)]
        by (simp add: writable_prefix_Suc)
    qed
  qed
qed

lemma writable_prefix_full:
  "writable_prefix s a n = n \<longleftrightarrow> (\<forall>i < n. writable s (a + of_nat i))"
proof (induction n arbitrary: a)
  case 0
  then show ?case by (simp add: writable_prefix_def)
next
  case (Suc n)
  have "(\<forall>i < Suc n. writable s (a + of_nat i)) \<longleftrightarrow>
      writable s a \<and> (\<forall>i < n. writable s (a + 1 + of_nat i))"
    by (auto simp: less_Suc_eq_0_disj add.assoc)
  then show ?case
    using Suc.IH [of "a + 1"] by (simp add: writable_prefix_Suc)
qed

lemma maps_write_bytes_wf:
  assumes wf: "maps_wf s" and len: "length data < 2 ^ 64"
  shows "if unat a + length data \<le> 2 ^ 64
    then \<exists>s'. maps_write_bytes a data s = Ret (writable_prefix s a (length data) = length data, s') \<and>
      wrote a (take (writable_prefix s a (length data)) data) s s'
    else maps_write_bytes a data s = Ret (False, s)"
proof (cases "data = []")
  case True
  then show ?thesis
    using wrote_Nil [OF wf, of a "tlb s"] unsigned_less [of a, where 'a = nat]
    by (auto simp: maps_write_bytes_def writable_prefix_def)
next
  case False
  let ?n = "length data"
  have sz: "0 < ?n" using False by simp
  show ?thesis
  proof (cases "unat a + ?n \<le> 2 ^ 64")
    case n: True
    then have ca: "checked_add a (of_nat ?n - 1) = Some (last_addr a ?n)"
      using checked_end [OF sz len] by simp
    obtain t where t: "get_mem_by_addr_mut a s = (search_maps a s, s\<lparr>tlb := t\<rparr>)"
      using get_mem_by_addr_mut_wf [OF wf] .
    let ?s = "s\<lparr>tlb := t\<rparr>"
    have twf: "maps_wf ?s" using wf by simp
    have pre: "writable_prefix ?s a ?n = writable_prefix s a ?n"
      by (simp add: writable_prefix_def writable_def)
    show ?thesis
    proof (cases "search_maps a s")
      case None
      then have "\<not> writable s a"
        using flat_None_iff [OF wf, of a] by (simp add: writable_def)
      then have "writable_prefix s a ?n = 0"
        using False by (cases data) (simp_all add: writable_prefix_Suc)
      moreover have "maps_write_bytes a data s = Ret (False, ?s)"
        using False ca t None by (simp add: maps_write_bytes_def)
      ultimately show ?thesis
        using n sz wrote_Nil [OF wf] by simp
    next
      case (Some k)
      then obtain m where m: "om_get (mem_slab s) k = Some m" "inside m a"
        using search_maps_iff [OF wf] by blast
      have mwf: "mem_wf m" using wf_region [OF wf m(1)] .
      show ?thesis
      proof (cases "inside m (last_addr a ?n) \<and> can_write m")
        case True
        then have b: "unat a + ?n \<le> unat (base_addr m) + length (mem m)"
          using inside_last_bound [OF mwf sz n len] by simp
        have "writable s (a + of_nat i)" if "i < ?n" for i
        proof -
          have "unat (a + of_nat i) = unat a + i"
            using n that by (intro unat_add_of_nat) simp
          then have "inside m (a + of_nat i)"
            using b m(2) that unfolding inside_iff [OF mwf] by linarith
          then show ?thesis
            using flat_inside [OF wf m(1)] True by (simp add: writable_def can_write_def)
        qed
        then have full: "writable_prefix s a ?n = ?n"
          by (simp add: writable_prefix_full)
        obtain m' where w: "mem_write_bytes a data m = Ret m'" "maps_wf (put_mem k m' ?s)"
            "flat (put_mem k m' ?s) = flat_update a data (flat ?s)" "same_shape ?s (put_mem k m' ?s)"
          using write_region [OF twf, of k m a data] True m b by auto
        have "maps_write_bytes a data s = Ret (True, if can_execute m'
            then note_code_write a (of_nat ?n) (put_mem k m' ?s) else put_mem k m' ?s)"
          using False ca t Some m True w(1) by (simp add: maps_write_bytes_def)
        then show ?thesis
          using n full w by (simp add: wrote_def)
      next
        case no: False
        have "maps_write_bytes a data s = write_each a data ?s"
          using False ca t Some m no by (auto simp: maps_write_bytes_def)
        then show ?thesis
          using n write_each_wf [OF twf n] pre by (auto simp: wrote_def)
      qed
    qed
  next
    case False
    then show ?thesis
      using \<open>data \<noteq> []\<close> checked_end [OF sz len, of a] by (simp add: maps_write_bytes_def)
  qed
qed

end
