(* ===== verification/Maps_Create.thy ===== *)
theory Maps_Create
  imports Maps_Access
begin

section \<open>Creating a map\<close>

text \<open>
  \<open>create_map\<close> against the invariant and the abstract memory. On a free range it makes the range
  readable as zeros with the permission asked for and leaves the rest of memory as it was; on a
  mapped base or a name in use it refuses and changes nothing. The second part shows what its
  only address check, that the base itself is unmapped, does not exclude.
\<close>

text \<open>No region meets the range, and no region (not even an empty one) has its base.\<close>

definition free_range :: "maps \<Rightarrow> u64 \<Rightarrow> nat \<Rightarrow> bool" where
  "free_range s a n \<longleftrightarrow>
     (\<forall>k m. om_get (mem_slab s) k = Some m \<longrightarrow>
        base_addr m \<noteq> a \<and>
        (unat (base_addr m) + length (mem m) \<le> unat a \<or> unat a + n \<le> unat (base_addr m)))"

definition fresh_region :: "string \<Rightarrow> u64 \<Rightarrow> u64 \<Rightarrow> permission \<Rightarrow> mem64" where
  "fresh_region name base sz p =
     \<lparr>mem_name = name, base_addr = base, bottom_addr = base + sz, permission = p,
      mem = replicate (unat sz) 0\<rparr>"

text \<open>The abstract memory with a new range of zeros.\<close>

definition flat_map :: "u64 \<Rightarrow> nat \<Rightarrow> permission \<Rightarrow> (u64 \<Rightarrow> (permission \<times> u8) option) \<Rightarrow>
    u64 \<Rightarrow> (permission \<times> u8) option" where
  "flat_map a n p fm x = (if in_range a n x then Some (p, 0) else fm x)"

lemma maps_wfI:
  assumes "om_ok (maps s)" "om_ok (mem_slab s)"
    and "\<And>b k. om_get (maps s) b = Some k \<Longrightarrow> \<exists>m. om_get (mem_slab s) k = Some m \<and> base_addr m = b"
    and "\<And>k m. om_get (mem_slab s) k = Some m \<Longrightarrow>
      mem_wf m \<and> om_get (maps s) (base_addr m) = Some k \<and> name_map s (mem_name m) = Some k"
    and "\<And>n k. name_map s n = Some k \<Longrightarrow> \<exists>m. om_get (mem_slab s) k = Some m \<and> mem_name m = n"
    and "\<And>k m k' m'. om_get (mem_slab s) k = Some m \<Longrightarrow> om_get (mem_slab s) k' = Some m' \<Longrightarrow>
      base_addr m < base_addr m' \<Longrightarrow> region_before m m'"
  shows "maps_wf s"
  using assms unfolding maps_wf_def by blast

text \<open>The abstract memory at an address depends on the region that holds the address only.\<close>

lemma flat_cong:
  assumes wf: "maps_wf s" "maps_wf s'"
    and r: "\<And>k m. inside m x \<Longrightarrow> om_get (mem_slab s) k = Some m \<longleftrightarrow> om_get (mem_slab s') k = Some m"
  shows "flat s x = flat s' x"
proof (cases "flat s x")
  case None
  then have "search_maps x s' = None"
    using r by (metis flat_None_iff search_maps_None_iff wf)
  then show ?thesis
    using None flat_None_iff [OF wf(2), of x] by simp
next
  case (Some pb)
  then have "flat s x = Some (fst pb, snd pb)"
    by simp
  then obtain k m where k: "om_get (mem_slab s) k = Some m" and i: "inside m x"
      and p: "fst pb = permission m" "snd pb = byte_of m x"
    by (rule flat_SomeE [OF wf(1)])
  then have "om_get (mem_slab s') k = Some m"
    using r by blast
  from flat_inside [OF wf(2) this i] show ?thesis
    using Some p by (simp add: prod_eq_iff)
qed

lemma fresh_region_eq:
  "set_permission p (set_size sz (set_base base (set_name n mem64_default))) = fresh_region n base sz p"
  by (simp add: set_permission_def set_size_def set_base_def set_name_def mem64_default_def
      mem_alloc_def fresh_region_def)

lemma fresh_region_sel [simp]:
  "mem_name (fresh_region n b sz p) = n" "base_addr (fresh_region n b sz p) = b"
  "bottom_addr (fresh_region n b sz p) = b + sz" "permission (fresh_region n b sz p) = p"
  "mem (fresh_region n b sz p) = replicate (unat sz) 0"
  by (simp_all add: fresh_region_def)

lemma fresh_region_wf: "unat b + unat sz < 2 ^ 64 \<Longrightarrow> mem_wf (fresh_region n b sz p)"
  by (simp add: mem_wf_def)

lemma fresh_region_inside:
  "unat b + unat sz < 2 ^ 64 \<Longrightarrow> inside (fresh_region n b sz p) x = in_range b (unat sz) x"
  using inside_iff [OF fresh_region_wf, of b sz n p x] by (simp add: in_range_def)

lemma fresh_region_byte:
  "unat b + unat sz < 2 ^ 64 \<Longrightarrow> in_range b (unat sz) x \<Longrightarrow> byte_of (fresh_region n b sz p) x = 0"
  using inside_index [OF fresh_region_wf, of b sz n p x] fresh_region_inside [of b sz n p x]
  by (simp add: byte_of_def)

text \<open>The state after the three insertions.\<close>

definition add_region :: "nat \<Rightarrow> mem64 \<Rightarrow> maps \<Rightarrow> maps" where
  "add_region k m s = s\<lparr>mem_slab := om_insert k m (mem_slab s),
     name_map := (name_map s)(mem_name m \<mapsto> k), maps := om_insert (base_addr m) k (maps s)\<rparr>"

lemma add_region_get [simp]:
  assumes "maps_wf s"
  shows "om_get (mem_slab (add_region k m s)) k' = (if k' = k then Some m else om_get (mem_slab s) k')"
    and "om_get (maps (add_region k m s)) b = (if b = base_addr m then Some k else om_get (maps s) b)"
    and "name_map (add_region k m s) = (name_map s)(mem_name m \<mapsto> k)"
    and "om_ok (maps (add_region k m s))" "om_ok (mem_slab (add_region k m s))"
  using wf_ok [OF assms] by (simp_all add: add_region_def om.get_insert om.ok_insert)

lemma free_rangeD:
  "free_range s a n \<Longrightarrow> om_get (mem_slab s) k = Some m \<Longrightarrow>
     base_addr m \<noteq> a \<and> (base_addr m < a \<longrightarrow> unat (base_addr m) + length (mem m) \<le> unat a) \<and>
     (a < base_addr m \<longrightarrow> unat a + n \<le> unat (base_addr m))"
  by (simp add: free_range_def word_less_nat_alt) (metis add_leE not_less)

lemma add_region_wf:
  assumes wf: "maps_wf s" and k: "om_get (mem_slab s) k = None" and m: "mem_wf m"
    and free: "free_range s (base_addr m) (length (mem m))" and n: "name_map s (mem_name m) = None"
  shows "maps_wf (add_region k m s)"
proof (rule maps_wfI)
  fix b k' assume "om_get (maps (add_region k m s)) b = Some k'"
  then show "\<exists>m'. om_get (mem_slab (add_region k m s)) k' = Some m' \<and> base_addr m' = b"
    using wf_entry [OF wf, of b k'] wf k by (auto split: if_splits)
next
  fix k' m' assume "om_get (mem_slab (add_region k m s)) k' = Some m'"
  then show "mem_wf m' \<and> om_get (maps (add_region k m s)) (base_addr m') = Some k' \<and>
      name_map (add_region k m s) (mem_name m') = Some k'"
    using wf m n free_rangeD [OF free, of k' m'] wf_region [OF wf, of k' m']
      wf_region_base [OF wf, of k' m'] wf_region_name [OF wf, of k' m']
    by (auto split: if_splits)
next
  fix n' k' assume "name_map (add_region k m s) n' = Some k'"
  then show "\<exists>m'. om_get (mem_slab (add_region k m s)) k' = Some m' \<and> mem_name m' = n'"
    using wf_name [OF wf, of n' k'] wf k by (auto split: if_splits)
next
  fix k1 m1 k2 m2
  assume g: "om_get (mem_slab (add_region k m s)) k1 = Some m1"
      "om_get (mem_slab (add_region k m s)) k2 = Some m2" and lt: "base_addr m1 < base_addr m2"
  consider "k1 = k" "k2 = k" | "k1 = k" "k2 \<noteq> k" | "k1 \<noteq> k" "k2 = k" | "k1 \<noteq> k" "k2 \<noteq> k"
    by blast
  then show "region_before m1 m2"
  proof cases
    case 1
    then show ?thesis using g lt wf by simp
  next
    case 2
    then have "m1 = m" "om_get (mem_slab s) k2 = Some m2" using g wf by simp_all
    then show ?thesis using free_rangeD [OF free, of k2 m2] lt by (simp add: region_before_def)
  next
    case 3
    then have "om_get (mem_slab s) k1 = Some m1" "m2 = m" using g wf by simp_all
    then show ?thesis using free_rangeD [OF free, of k1 m1] lt by (simp add: region_before_def)
  next
    case 4
    then have "om_get (mem_slab s) k1 = Some m1" "om_get (mem_slab s) k2 = Some m2"
      using g wf by simp_all
    then show ?thesis using wf_before [OF wf _ _ lt] by blast
  qed
qed (use wf in simp_all)

lemma flat_add_region:
  assumes wf: "maps_wf s" and k: "om_get (mem_slab s) k = None" and m: "mem_wf m"
    and free: "free_range s (base_addr m) (length (mem m))" and n: "name_map s (mem_name m) = None"
  shows "flat (add_region k m s) x =
    (if inside m x then Some (permission m, byte_of m x) else flat s x)"
proof (cases "inside m x")
  case True
  then show ?thesis
    using flat_inside [OF add_region_wf [OF assms], of k m] wf by simp
next
  case False
  then have "flat (add_region k m s) x = flat s x"
    using wf k by (intro flat_cong add_region_wf [OF assms]) auto
  then show ?thesis
    using False by simp
qed

subsection \<open>The behaviour of \<open>create_map\<close>\<close>

lemma create_map_eq:
  assumes wf: "maps_wf s" and free: "search_maps base s = None"
  obtains t where "create_map vk name base sz p s =
    (if name_map s name \<noteq> None then (Inl (NameExists name), s\<lparr>tlb := t\<rparr>)
     else (Inr (vk (mem_slab s)),
       (add_region (vk (mem_slab s)) (fresh_region name base sz p) s)
         \<lparr>tlb := tlb_flush t,
          code_writes := if perm_can_execute p then log_write (code_writes s) base sz else code_writes s\<rparr>))"
proof -
  obtain t where t: "get_mem_by_addr_mut base s = (search_maps base s, s\<lparr>tlb := t\<rparr>)"
    using get_mem_by_addr_mut_wf [OF wf] .
  show ?thesis
    by (rule that [of t])
      (simp add: create_map_def t free exists_mapname_def fresh_region_eq note_code_write_eq add_region_def Let_def)
qed

lemma create_map_mapped:
  assumes wf: "maps_wf s" and "search_maps base s \<noteq> None"
  obtains t where "create_map vk name base sz p s = (Inl (AddressExists base), s\<lparr>tlb := t\<rparr>)"
proof -
  obtain t where t: "get_mem_by_addr_mut base s = (search_maps base s, s\<lparr>tlb := t\<rparr>)"
    using get_mem_by_addr_mut_wf [OF wf] .
  show ?thesis
    by (rule that [of t]) (use assms in \<open>simp add: create_map_def t\<close>)
qed

lemma free_range_unmapped:
  assumes wf: "maps_wf s" and free: "free_range s a n"
  shows "search_maps a s = None"
proof -
  have "\<not> inside m a" if "om_get (mem_slab s) k = Some m" for k m
    using free_rangeD [OF free that] wf_region [OF wf that] by (auto simp: inside_iff word_less_nat_alt word_unat_eq_iff)
  then show ?thesis
    using search_maps_None_iff [OF wf] by blast
qed

lemma create_map_free:
  assumes wf: "maps_wf s" and vk: "vacant_key vk" and no_wrap: "unat base + unat sz < 2 ^ 64"
    and free: "free_range s base (unat sz)" and name: "name_map s name = None"
  obtains t where "create_map vk name base sz p s = (Inr (vk (mem_slab s)),
       (add_region (vk (mem_slab s)) (fresh_region name base sz p) s)
         \<lparr>tlb := t,
          code_writes := if perm_can_execute p then log_write (code_writes s) base sz else code_writes s\<rparr>)"
    and "maps_wf (add_region (vk (mem_slab s)) (fresh_region name base sz p) s)"
    and "flat (add_region (vk (mem_slab s)) (fresh_region name base sz p) s) =
      flat_map base (unat sz) p (flat s)"
proof -
  let ?k = "vk (mem_slab s)" and ?m = "fresh_region name base sz p"
  have k: "om_get (mem_slab s) ?k = None"
    using vk by (simp add: vacant_key_def)
  note pre = wf k fresh_region_wf [OF no_wrap, of name p]
  have w: "maps_wf (add_region ?k ?m s)"
    using free name by (intro add_region_wf pre) simp_all
  have "flat (add_region ?k ?m s) x = flat_map base (unat sz) p (flat s) x" for x
    using free name flat_add_region [OF pre, of x] fresh_region_inside [OF no_wrap, of name p x]
      fresh_region_byte [OF no_wrap, of x name p]
    by (simp add: flat_map_def)
  moreover obtain t where "create_map vk name base sz p s =
    (if name_map s name \<noteq> None then (Inl (NameExists name), s\<lparr>tlb := t\<rparr>)
     else (Inr ?k, (add_region ?k ?m s)
         \<lparr>tlb := tlb_flush t,
          code_writes := if perm_can_execute p then log_write (code_writes s) base sz else code_writes s\<rparr>))"
    using create_map_eq [OF wf free_range_unmapped [OF wf free]] .
  ultimately show ?thesis
    using that [of "tlb_flush t"] w name by (simp add: fun_eq_iff)
qed

subsection \<open>A small address space\<close>

text \<open>
  A concrete choice of vacant keys, the first above all keys in use, and a state with two regions
  that touch. They show that the hypotheses of the properties can be met.
\<close>

definition next_key :: "slab \<Rightarrow> nat" where
  "next_key s = foldr (\<lambda>(k, m) n. max (Suc k) n) s 0"

definition one_map :: maps where
  "one_map = snd (create_map next_key ''a'' 0x1000 4 PERM_READ_WRITE maps_default)"

definition two_maps :: maps where
  "two_maps = snd (create_map next_key ''b'' 0x1004 8 PERM_READ_WRITE one_map)"

lemma next_key_above: "k \<in> fst ` set s \<Longrightarrow> k < next_key s"
  unfolding next_key_def by (induction s) (force simp: less_max_iff_disj)+

lemma vacant_next_key: "vacant_key next_key"
  unfolding vacant_key_def om_get_None_iff using next_key_above by blast

lemma maps_default_wf: "maps_wf maps_default"
  by (simp add: maps_wf_def maps_default_def om_empty_def om_ok_def)

lemma maps_default_get [simp]: "om_get (mem_slab maps_default) k = None" "name_map maps_default n = None"
  by (simp_all add: maps_default_def om_empty_def)

lemma one_map_slab:
  "mem_slab one_map = [(0, fresh_region ''a'' 0x1000 4 PERM_READ_WRITE)]"
  "name_map one_map = [''a'' \<mapsto> 0]"
  and one_map_wf: "maps_wf one_map"
proof -
  let ?m = "fresh_region ''a'' 0x1000 4 PERM_READ_WRITE"
  have "free_range maps_default 0x1000 (unat 4)"
    by (simp add: free_range_def)
  then obtain t where "create_map next_key ''a'' 0x1000 4 PERM_READ_WRITE maps_default =
      (Inr (next_key (mem_slab maps_default)),
       (add_region (next_key (mem_slab maps_default)) ?m maps_default)
         \<lparr>tlb := t, code_writes := if perm_can_execute PERM_READ_WRITE
            then log_write (code_writes maps_default) 0x1000 4 else code_writes maps_default\<rparr>)"
      "maps_wf (add_region (next_key (mem_slab maps_default)) ?m maps_default)"
    by (rule create_map_free [OF maps_default_wf vacant_next_key, rotated]) simp_all
  then have o: "one_map = (add_region (next_key (mem_slab maps_default)) ?m maps_default)
         \<lparr>tlb := t, code_writes := if perm_can_execute PERM_READ_WRITE
            then log_write (code_writes maps_default) 0x1000 4 else code_writes maps_default\<rparr>"
      "maps_wf (add_region (next_key (mem_slab maps_default)) ?m maps_default)"
    by (simp_all add: one_map_def)
  show "maps_wf one_map"
    unfolding o(1) using o(2) by simp
  show "mem_slab one_map = [(0, ?m)]" "name_map one_map = [''a'' \<mapsto> 0]"
    by (simp_all add: o add_region_def maps_default_def om_empty_def next_key_def)
qed

lemma one_map_free:
  "unat a + n \<le> 0x1000 \<and> a \<noteq> 0x1000 \<or> 0x1004 \<le> unat a \<Longrightarrow> free_range one_map a n"
  by (auto simp: free_range_def one_map_slab)

lemma two_maps_slab:
  "mem_slab two_maps = [(0, fresh_region ''a'' 0x1000 4 PERM_READ_WRITE),
     (1, fresh_region ''b'' 0x1004 8 PERM_READ_WRITE)]"
  "name_map two_maps = [''a'' \<mapsto> 0, ''b'' \<mapsto> 1]"
  and two_maps_wf: "maps_wf two_maps"
proof -
  let ?m = "fresh_region ''b'' 0x1004 8 PERM_READ_WRITE"
  have "free_range one_map 0x1004 (unat 8)" "name_map one_map ''b'' = None"
    by (simp_all add: one_map_free one_map_slab)
  then obtain t where "create_map next_key ''b'' 0x1004 8 PERM_READ_WRITE one_map =
      (Inr (next_key (mem_slab one_map)), (add_region (next_key (mem_slab one_map)) ?m one_map)
         \<lparr>tlb := t, code_writes := if perm_can_execute PERM_READ_WRITE
            then log_write (code_writes one_map) 0x1004 8 else code_writes one_map\<rparr>)"
      "maps_wf (add_region (next_key (mem_slab one_map)) ?m one_map)"
    by (rule create_map_free [OF one_map_wf vacant_next_key, rotated]) simp_all
  then have o: "two_maps = (add_region (next_key (mem_slab one_map)) ?m one_map)
         \<lparr>tlb := t, code_writes := if perm_can_execute PERM_READ_WRITE
            then log_write (code_writes one_map) 0x1004 8 else code_writes one_map\<rparr>"
      "maps_wf (add_region (next_key (mem_slab one_map)) ?m one_map)"
    by (simp_all add: two_maps_def)
  show "maps_wf two_maps"
    unfolding o(1) using o(2) by simp
  show "mem_slab two_maps = [(0, fresh_region ''a'' 0x1000 4 PERM_READ_WRITE), (1, ?m)]"
    "name_map two_maps = [''a'' \<mapsto> 0, ''b'' \<mapsto> 1]"
    by (simp_all add: o add_region_def next_key_def one_map_slab)
qed

lemma two_maps_get:
  "om_get (mem_slab two_maps) k = Some m \<longleftrightarrow>
     k = 0 \<and> m = fresh_region ''a'' 0x1000 4 PERM_READ_WRITE \<or>
     k = 1 \<and> m = fresh_region ''b'' 0x1004 8 PERM_READ_WRITE"
  by (auto simp: two_maps_slab)

lemma two_maps_ex:
  "(\<exists>k m. om_get (mem_slab two_maps) k = Some m \<and> P m) \<longleftrightarrow>
     P (fresh_region ''a'' 0x1000 4 PERM_READ_WRITE) \<or> P (fresh_region ''b'' 0x1004 8 PERM_READ_WRITE)"
  unfolding two_maps_get by blast

lemma read_write_allowed: "perm_can_read PERM_READ_WRITE" "perm_can_write PERM_READ_WRITE"
  by (simp_all add: PERM_READ_WRITE_def perm_can_read_def perm_can_write_def)

lemma two_maps_inside:
  "inside (fresh_region ''a'' 0x1000 4 p) a \<longleftrightarrow> in_range 0x1000 4 a"
  "inside (fresh_region ''b'' 0x1004 8 p) a \<longleftrightarrow> in_range 0x1004 8 a"
  by (simp_all add: fresh_region_inside)

text \<open>
C10: On a well-formed state whose slab hands out a vacant key, \<open>create_map\<close> on a free range that
does not reach the end of the address space, under an unused name, succeeds and returns that key.
The new state is well-formed; every byte of the range reads as zero with the permission asked
for, every other address is as before; the name is bound to the key; and the range is logged for
the instruction cache exactly when it is executable.
\<close>

theorem create_map_correct:
  assumes "maps_wf s" "vacant_key vk" "unat base + unat sz < 2 ^ 64"
    and "free_range s base (unat sz)" "name_map s name = None"
  shows "\<exists>s'. create_map vk name base sz p s = (Inr (vk (mem_slab s)), s') \<and> maps_wf s' \<and>
    flat s' = flat_map base (unat sz) p (flat s) \<and>
    name_map s' = (name_map s)(name \<mapsto> vk (mem_slab s)) \<and>
    om_get (mem_slab s') (vk (mem_slab s)) = Some (fresh_region name base sz p) \<and>
    code_writes s' = (if perm_can_execute p then log_write (code_writes s) base sz else code_writes s)"
proof -
  let ?s = "add_region (vk (mem_slab s)) (fresh_region name base sz p) s"
  obtain t where "create_map vk name base sz p s = (Inr (vk (mem_slab s)),
       ?s\<lparr>tlb := t, code_writes := if perm_can_execute p then log_write (code_writes s) base sz
                                    else code_writes s\<rparr>)"
      "maps_wf ?s" "flat ?s = flat_map base (unat sz) p (flat s)"
    using create_map_free [OF assms] .
  then show ?thesis
    using assms(1) by simp
qed

theorem create_map_correct_witness:
  "\<exists>s'. create_map next_key ''b'' 0x1004 8 PERM_READ_WRITE one_map = (Inr 1, s') \<and> maps_wf s' \<and>
    flat s' = flat_map 0x1004 8 PERM_READ_WRITE (flat one_map)"
  using create_map_correct [OF one_map_wf vacant_next_key, of "0x1004" 8 "''b''" PERM_READ_WRITE]
  by (force simp: one_map_free one_map_slab next_key_def)

text \<open>
\<open>create_map\<close> refuses a base address that is mapped and, on an unmapped base, a name that is
in use, each with its own error, and then changes nothing but the look-aside buffer.
\<close>

theorem create_map_refuses:
  assumes "maps_wf s"
  shows "(flat s base \<noteq> None \<longrightarrow>
      (\<exists>t. create_map vk name base sz p s = (Inl (AddressExists base), s\<lparr>tlb := t\<rparr>))) \<and>
    (flat s base = None \<and> exists_mapname name s \<longrightarrow>
      (\<exists>t. create_map vk name base sz p s = (Inl (NameExists name), s\<lparr>tlb := t\<rparr>)))"
proof (cases "flat s base")
  case None
  then show ?thesis
    using create_map_eq [OF assms, of base vk name sz p] flat_None_iff [OF assms, of base]
    by (metis exists_mapname_def)
next
  case (Some pb)
  then show ?thesis
    using create_map_mapped [OF assms, of base vk name sz p] flat_None_iff [OF assms, of base]
    by (metis option.distinct(1))
qed

theorem create_map_refuses_witness:
  "(\<exists>t. create_map next_key ''c'' 0x1003 8 PERM_READ two_maps = (Inl (AddressExists 0x1003), two_maps\<lparr>tlb := t\<rparr>)) \<and>
   (\<exists>t. create_map next_key ''b'' 0x2000 8 PERM_READ two_maps = (Inl (NameExists ''b''), two_maps\<lparr>tlb := t\<rparr>))"
proof -
  have "flat two_maps 0x1003 \<noteq> None"
    using flat_inside [OF two_maps_wf, of 0 _ "0x1003"] by (simp add: two_maps_slab inside_def)
  moreover have "flat two_maps 0x2000 = None"
    unfolding flat_None_iff [OF two_maps_wf] search_maps_None_iff [OF two_maps_wf]
    by (simp add: two_maps_slab inside_def)
  moreover have "exists_mapname ''b'' two_maps"
    by (simp add: exists_mapname_def two_maps_slab)
  ultimately show ?thesis
    using create_map_refuses [OF two_maps_wf] by blast
qed

text \<open>
C19: The address check of \<open>create_map\<close> is on the base alone. A range whose base is unmapped but
which runs into a non-empty region above it is accepted, and afterwards the base of that region
lies in two regions: the state is no longer well-formed.
\<close>

theorem create_map_accepts_overlap:
  assumes wf: "maps_wf s" and vk: "vacant_key vk" and no_wrap: "unat base + unat sz < 2 ^ 64"
    and base: "flat s base = None" and name: "name_map s name = None"
    and m: "om_get (mem_slab s) k = Some m" "mem m \<noteq> []"
    and above: "base < base_addr m" "unat (base_addr m) < unat base + unat sz"
  shows "\<exists>s'. create_map vk name base sz p s = (Inr (vk (mem_slab s)), s') \<and> \<not> maps_wf s' \<and>
    (\<exists>k' m'. k' \<noteq> k \<and> om_get (mem_slab s') k = Some m \<and> om_get (mem_slab s') k' = Some m' \<and>
       inside m (base_addr m) \<and> inside m' (base_addr m))"
proof -
  let ?k = "vk (mem_slab s)" and ?m = "fresh_region name base sz p"
  have k: "om_get (mem_slab s) ?k = None"
    using vk by (simp add: vacant_key_def)
  obtain t where c: "create_map vk name base sz p s =
    (if name_map s name \<noteq> None then (Inl (NameExists name), s\<lparr>tlb := t\<rparr>)
     else (Inr ?k, (add_region ?k ?m s)\<lparr>tlb := tlb_flush t,
          code_writes := if perm_can_execute p then log_write (code_writes s) base sz else code_writes s\<rparr>))"
    using create_map_eq [OF wf] base flat_None_iff [OF wf] by blast
  let ?s = "(add_region ?k ?m s)\<lparr>tlb := tlb_flush t,
          code_writes := if perm_can_execute p then log_write (code_writes s) base sz else code_writes s\<rparr>"
  have two: "?k \<noteq> k" "om_get (mem_slab ?s) k = Some m" "om_get (mem_slab ?s) ?k = Some ?m"
    using k m wf by auto
  moreover have "inside m (base_addr m)" "inside ?m (base_addr m)"
    using m above wf_region [OF wf m(1)] fresh_region_inside [OF no_wrap]
    by (simp_all add: inside_iff in_range_def word_less_nat_alt)
  moreover from calculation have "\<not> maps_wf ?s"
    using inside_unique [of ?s k m ?k ?m "base_addr m"] by metis
  ultimately show ?thesis
    using c name by auto
qed

theorem create_map_accepts_overlap_witness:
  "\<exists>s'. create_map next_key ''c'' 0xFFC 8 PERM_READ two_maps = (Inr 2, s') \<and> \<not> maps_wf s'"
proof -
  have "flat two_maps 0xFFC = None"
    unfolding flat_None_iff [OF two_maps_wf] search_maps_None_iff [OF two_maps_wf]
    by (simp add: two_maps_slab inside_def)
  then have "\<exists>s'. create_map next_key ''c'' 0xFFC 8 PERM_READ two_maps =
      (Inr (next_key (mem_slab two_maps)), s') \<and> \<not> maps_wf s'"
    using create_map_accepts_overlap [OF two_maps_wf vacant_next_key, of "0xFFC" 8 "''c''" 0
        "fresh_region ''a'' 0x1000 4 PERM_READ_WRITE" PERM_READ]
    by (simp add: two_maps_slab) blast
  then show ?thesis
    by (simp add: two_maps_slab next_key_def numeral_2_eq_2)
qed

end
