(* ===== verification/Number_Format.thy ===== *)
theory Number_Format
  imports Mwemu_Prelude
begin

section \<open>Formatting numbers\<close>

text \<open>
  The two number formats of the Rust standard library that map names are built with: \<open>{}\<close> of an
  \<open>i32\<close> (decimal) and \<open>{:x}\<close> of a \<open>u64\<close> (lower-case hexadecimal, no leading zeros). Different
  numbers give different texts, which is what makes generated names distinct.
\<close>

definition digit_char :: "nat \<Rightarrow> char" where
  "digit_char d = (if d < 10 then char_of (48 + d) else char_of (87 + d))"

function fmt_radix :: "nat \<Rightarrow> nat \<Rightarrow> string" where
  "fmt_radix b n =
     (if b < 2 \<or> n < b then [digit_char n] else fmt_radix b (n div b) @ [digit_char (n mod b)])"
  by auto
termination
  by (relation "measure snd") auto

declare fmt_radix.simps [simp del]

definition fmt_i32 :: "u32 \<Rightarrow> string" where
  "fmt_i32 n =
     (if sint n < 0 then CHR ''-'' # fmt_radix 10 (nat (- sint n)) else fmt_radix 10 (nat (sint n)))"

definition fmt_hex :: "u64 \<Rightarrow> string" where
  "fmt_hex n = fmt_radix 16 (unat n)"

subsection \<open>Reading a formatted number back\<close>

definition char_digit :: "char \<Rightarrow> nat" where
  "char_digit c = (let n = of_char c in if n < 58 then n - 48 else n - 87)"

definition read_radix :: "nat \<Rightarrow> string \<Rightarrow> nat" where
  "read_radix b s = foldl (\<lambda>acc c. acc * b + char_digit c) 0 s"

lemma char_digit_digit_char [simp]: "d < 16 \<Longrightarrow> char_digit (digit_char d) = d"
  by (simp add: char_digit_def digit_char_def Let_def)

lemma read_fmt_radix:
  "2 \<le> b \<Longrightarrow> b \<le> 16 \<Longrightarrow> read_radix b (fmt_radix b n) = n"
proof (induction b n rule: fmt_radix.induct)
  case (1 b n)
  show ?case
  proof (cases "n < b")
    case True
    then show ?thesis
      using 1 by (simp add: fmt_radix.simps [of b n] read_radix_def)
  next
    case False
    then have "n mod b < 16"
      using 1 mod_less_divisor [of b n] by linarith
    then show ?thesis
      using 1 False by (simp add: fmt_radix.simps [of b n] read_radix_def)
  qed
qed

lemma fmt_radix_inject:
  "2 \<le> b \<Longrightarrow> b \<le> 16 \<Longrightarrow> fmt_radix b n = fmt_radix b m \<longleftrightarrow> n = m"
  by (metis read_fmt_radix)

lemma fmt_hex_inject: "fmt_hex n = fmt_hex m \<longleftrightarrow> n = m"
  by (simp add: fmt_hex_def fmt_radix_inject word_unat_eq_iff)

lemma fmt_i32_nat:
  assumes "n < 2 ^ 31"
  shows "fmt_i32 (of_nat n) = fmt_radix 10 n"
proof -
  have "sint (of_nat n :: u32) = int n"
    using assms
    by (simp add: sint_uint unsigned_of_nat of_nat_take_bit take_bit_int_eq_self
        signed_take_bit_int_eq_self)
  then show ?thesis
    by (simp add: fmt_i32_def)
qed

end
