(* ===== verification/Maps_Alloc.thy ===== *)
theory Maps_Alloc
  imports Maps Number_Format
begin

section \<open>Unmapping and allocation\<close>

text \<open>
  The rest of \<^verbatim>\<open>crates/libmwemu/src/maps/mod.rs\<close>: generated names, the check of a whole range
  before a write, freeing, unmapping a range with the semantics of \<^verbatim>\<open>munmap\<close>, and the search for a
  free range that \<open>map\<close> and \<open>map_lib\<close> allocate from. The bounds of the search are those of
  \<^verbatim>\<open>windows/constants.rs\<close>.
\<close>

definition ALLOC32_MIN :: u64 where "ALLOC32_MIN = 0x6000000"
definition ALLOC32_MAX :: u64 where "ALLOC32_MAX = 0x6FFFFFFF"
definition LIBS32_MIN :: u64 where "LIBS32_MIN = 0x70000000"
definition LIBS32_MAX :: u64 where "LIBS32_MAX = 0x7FFE0000"
definition ALLOC64_MIN :: u64 where "ALLOC64_MIN = 0x710000000000"
definition ALLOC64_MAX :: u64 where "ALLOC64_MAX = 0x7fefffffffff"
definition LIBS64_MIN :: u64 where "LIBS64_MIN = 0x7FF000000000"
definition LIBS64_MAX :: u64 where "LIBS64_MAX = 0x7FFFFFFFFFFF"

subsection \<open>Generated names\<close>

text \<open>
  The candidates are numbered by an \<open>i32\<close> that counts from 1. The search has no bound of its own:
  not returning is \<open>None\<close>.
\<close>

partial_function (option) find_name :: "(string \<Rightarrow> nat option) \<Rightarrow> string \<Rightarrow> u32 \<Rightarrow> string option" where
  "find_name names prefix n =
     (let name = prefix @ ''_'' @ fmt_i32 n
      in if names name = None then Some name else find_name names prefix (n + 1))"

definition unique_map_name :: "string \<Rightarrow> maps \<Rightarrow> string option" where
  "unique_map_name prefix s =
     (if \<not> exists_mapname prefix s then Some prefix else find_name (name_map s) prefix 1)"

subsection \<open>Checking a range before a write\<close>

function validate_from :: "u64 \<Rightarrow> u64 \<Rightarrow> maps \<Rightarrow> bool" where
  "validate_from cursor end_addr s =
     (if cursor < end_addr then
        (case om_last_le (maps s) cursor of
           None \<Rightarrow> False
         | Some (map_base, key) \<Rightarrow>
             (case om_get (mem_slab s) key of
                None \<Rightarrow> False
              | Some m \<Rightarrow>
                  if \<not> perm_can_write (permission m) then False
                  else
                    let map_end = bottom_addr m
                    in if cursor < map_base \<or> map_end \<le> cursor then False
                       else validate_from (if map_end \<le> end_addr then map_end else end_addr) end_addr s))
      else True)"
  by auto
termination
proof (relation "measure (\<lambda>(cursor, end_addr, s). unat end_addr - unat cursor)", goal_cases)
  case (2 cursor end_addr s x map_base key m map_end)
  then have "unat cursor < unat end_addr" "unat cursor < unat map_end"
    by (simp_all add: word_less_nat_alt word_le_nat_alt)
  then show ?case
    by (simp add: diff_less_mono2)
qed simp

declare validate_from.simps [simp del]

definition validate_write_range :: "u64 \<Rightarrow> u64 \<Rightarrow> maps \<Rightarrow> bool" where
  "validate_write_range addr len s =
     (if len = 0 then True
      else if addr = 0 then False
      else case checked_add addr len of None \<Rightarrow> False | Some end_addr \<Rightarrow> validate_from addr end_addr s)"

subsection \<open>Freeing\<close>

definition flush_tlb :: "maps \<Rightarrow> maps" where
  "flush_tlb s = s\<lparr>tlb := tlb_flush (tlb s)\<rparr>"

definition maps_free :: "string \<Rightarrow> maps \<Rightarrow> maps" where
  "maps_free name s =
     (case name_map s name of
        None \<Rightarrow> s
      | Some key \<Rightarrow>
          (case om_get (mem_slab s) key of
             None \<Rightarrow> s\<lparr>name_map := (name_map s)(name := None)\<rparr>
           | Some m \<Rightarrow>
               let base = base_addr m;
                   s = put_mem key (mem_clear m) s;
                   s = s\<lparr>maps := om_remove base (maps s)\<rparr>;
                   s = s\<lparr>mem_slab := om_remove key (mem_slab s)\<rparr>;
                   s = flush_tlb s
               in s\<lparr>name_map := (name_map s)(name := None)\<rparr>))"

definition dealloc :: "u64 \<Rightarrow> maps \<Rightarrow> maps" where
  "dealloc addr s =
     (case om_get (maps s) addr of
        None \<Rightarrow> s
      | Some mem_key \<Rightarrow>
          (case om_get (mem_slab s) mem_key of
             None \<Rightarrow> s\<lparr>maps := om_remove addr (maps s)\<rparr>
           | Some m \<Rightarrow>
               let s = s\<lparr>name_map := (name_map s)(mem_name m := None)\<rparr>;
                   s = (if can_execute m then note_code_write (base_addr m) (mem_size m) s else s);
                   s = put_mem mem_key (mem_clear m) s;
                   s = s\<lparr>mem_slab := om_remove mem_key (mem_slab s)\<rparr>;
                   s = flush_tlb s
               in s\<lparr>maps := om_remove addr (maps s)\<rparr>))"

text \<open>Indexing a map with \<open>[]\<close> panics when the key is absent.\<close>

definition om_index :: "('k, 'v) omap \<Rightarrow> 'k \<Rightarrow> 'v outcome" where
  "om_index m k = (case om_get m k of None \<Rightarrow> Panic IndexOutOfBounds | Some v \<Rightarrow> Ret v)"

fun overlapping_bases :: "u64 \<Rightarrow> slab \<Rightarrow> (u64 \<times> nat) list \<Rightarrow> u64 list outcome" where
  "overlapping_bases addr slab [] = Ret []"
| "overlapping_bases addr slab ((base, key) # es) =
     obind (om_index slab key) (\<lambda>m.
     obind (overlapping_bases addr slab es) (\<lambda>bs.
       Ret (if addr < bottom_addr m then base # bs else bs)))"

definition unmap_split :: "(slab \<Rightarrow> nat) \<Rightarrow> u64 \<Rightarrow> u64 \<Rightarrow> u64 \<Rightarrow> nat \<Rightarrow> mem64 \<Rightarrow> maps \<Rightarrow> maps outcome" where
  "unmap_split vk addr end_addr base key m s =
     obind (split_off end_addr m) (\<lambda>(tail, m).
       let m = mem_truncate (addr - base) m;
           s = put_mem key m s;
           perm = permission m;
           name = mem_name m @ ''_'' @ fmt_hex end_addr;
           (r, s) = create_map vk name end_addr (of_nat (length tail)) perm s
       in case r of
            Inl e \<Rightarrow> Ret s
          | Inr k \<Rightarrow>
              obind (om_index (mem_slab s) k) (\<lambda>m.
              obind (force_write_bytes end_addr tail m) (\<lambda>m. Ret (put_mem k m s))))"

definition unmap_one :: "(slab \<Rightarrow> nat) \<Rightarrow> u64 \<Rightarrow> u64 \<Rightarrow> u64 \<Rightarrow> maps \<Rightarrow> maps outcome" where
  "unmap_one vk addr end_addr base s =
     obind (om_index (maps s) base) (\<lambda>key.
     obind (om_index (mem_slab s) key) (\<lambda>m.
       let bottom = bottom_addr m
       in if addr \<le> base \<and> bottom \<le> end_addr then Ret (dealloc base s)
          else if addr \<le> base then
            obind (drop_front (end_addr - base) m) (\<lambda>m.
              let s = put_mem key m s;
                  s = s\<lparr>maps := om_remove base (maps s)\<rparr>
              in Ret (s\<lparr>maps := om_insert end_addr key (maps s)\<rparr>))
          else if bottom \<le> end_addr then Ret (put_mem key (mem_truncate (addr - base) m) s)
          else unmap_split vk addr end_addr base key m s))"

fun unmap_each :: "(slab \<Rightarrow> nat) \<Rightarrow> u64 \<Rightarrow> u64 \<Rightarrow> u64 list \<Rightarrow> maps \<Rightarrow> maps outcome" where
  "unmap_each vk addr end_addr [] s = Ret s"
| "unmap_each vk addr end_addr (base # bs) s =
     obind (unmap_one vk addr end_addr base s) (unmap_each vk addr end_addr bs)"

definition unmap_range :: "(slab \<Rightarrow> nat) \<Rightarrow> u64 \<Rightarrow> u64 \<Rightarrow> maps \<Rightarrow> maps outcome" where
  "unmap_range vk addr len s =
     (case checked_add addr len of
        None \<Rightarrow> Ret s
      | Some end_addr \<Rightarrow>
          obind (overlapping_bases addr (mem_slab s) (om_range (maps s) 0 end_addr)) (\<lambda>bs.
          obind (unmap_each vk addr end_addr bs s) (\<lambda>s. Ret (flush_tlb s))))"

text \<open>
  \<open>addr.saturating_add(len)\<close> is never below \<open>addr\<close>, so this range is never the one that panics.
\<close>

definition is_range_free :: "u64 \<Rightarrow> u64 \<Rightarrow> maps \<Rightarrow> bool \<times> maps" where
  "is_range_free addr len s =
     (let end_addr = saturating_add addr len;
          (mapped, s) = is_mapped addr s
      in (\<not> mapped \<and> om_range (maps s) addr end_addr = [], s))"

subsection \<open>Searching for a free range\<close>

definition align_up :: "u64 \<Rightarrow> u64 \<Rightarrow> u64" where
  "align_up addr align = (addr + (align - 1)) AND NOT (align - 1)"

definition align_down :: "u64 \<Rightarrow> u64 \<Rightarrow> u64" where
  "align_down addr align = addr AND NOT (align - 1)"

text \<open>\<open>maps.range(..top).next_back()\<close>\<close>

definition last_below :: "u64 \<Rightarrow> maps \<Rightarrow> (u64 \<times> nat) option" where
  "last_below top_addr s =
     (case om_range (maps s) 0 top_addr of [] \<Rightarrow> None | es \<Rightarrow> Some (last es))"

definition last_entry_end :: "u64 \<Rightarrow> u64 \<Rightarrow> maps \<Rightarrow> u64" where
  "last_entry_end bottom_aligned top_addr s =
     max (case last_below top_addr s of
            None \<Rightarrow> bottom_aligned
          | Some (base, key) \<Rightarrow>
              let sz = (case om_get (mem_slab s) key of None \<Rightarrow> 0 | Some m \<Rightarrow> mem_size m)
              in align_up (base + sz) DEFAULT_ALIGNMENT)
       bottom_aligned"

fun scan_gaps :: "u64 \<Rightarrow> slab \<Rightarrow> u64 \<Rightarrow> u64 \<Rightarrow> (u64 \<times> nat) list \<Rightarrow> u64 option" where
  "scan_gaps aligned_size slab prev sz [] = None"
| "scan_gaps aligned_size slab prev sz ((mem_base, mem_key) # es) =
     (if (case checked_sub mem_base (prev + sz) of
            None \<Rightarrow> False
          | Some result \<Rightarrow> aligned_size < result)
      then Some (prev + sz)
      else
        case om_get slab mem_key of
          None \<Rightarrow> scan_gaps aligned_size slab prev sz es
        | Some m \<Rightarrow> scan_gaps aligned_size slab mem_base (mem_size m) es)"

definition alloc_uncapped :: "u64 \<Rightarrow> u64 \<Rightarrow> u64 \<Rightarrow> maps \<Rightarrow> u64 option outcome" where
  "alloc_uncapped sz bottom top_addr s =
     (let bottom_aligned = align_up bottom DEFAULT_ALIGNMENT;
          aligned_size = align_up sz DEFAULT_ALIGNMENT;
          last_end = last_entry_end bottom_aligned top_addr s
      in if (case checked_sub top_addr last_end of None \<Rightarrow> False | Some result \<Rightarrow> aligned_size < result)
         then Ret (Some last_end)
         else if top_addr < bottom_aligned then Panic RangeStartAfterEnd
         else Ret (scan_gaps aligned_size (mem_slab s) bottom_aligned 0
                     (om_range (maps s) bottom_aligned top_addr)))"

definition alloc_capped :: "u64 \<Rightarrow> u64 \<Rightarrow> u64 \<Rightarrow> bool \<Rightarrow> maps \<Rightarrow> u64 option outcome" where
  "alloc_capped sz bottom top_addr lib s = alloc_uncapped (min sz (max_alloc_size s)) bottom top_addr s"

definition maps_alloc :: "u64 \<Rightarrow> maps \<Rightarrow> u64 option outcome" where
  "maps_alloc sz s =
     (if is_64bits s then alloc_capped sz ALLOC64_MIN ALLOC64_MAX False s
      else alloc_capped sz ALLOC32_MIN ALLOC32_MAX False s)"

definition lib64_alloc :: "u64 \<Rightarrow> maps \<Rightarrow> u64 option outcome" where
  "lib64_alloc sz s = alloc_capped sz LIBS64_MIN LIBS64_MAX True s"

definition lib64_reserve :: "u64 \<Rightarrow> maps \<Rightarrow> u64 option outcome" where
  "lib64_reserve sz s = alloc_uncapped sz LIBS64_MIN LIBS64_MAX s"

definition lib32_alloc :: "u64 \<Rightarrow> maps \<Rightarrow> u64 option outcome" where
  "lib32_alloc sz s = alloc_capped sz LIBS32_MIN LIBS32_MAX True s"

definition map_at :: "(slab \<Rightarrow> nat) \<Rightarrow> string \<Rightarrow> u64 \<Rightarrow> permission \<Rightarrow> u64 option \<Rightarrow> maps \<Rightarrow> u64 \<times> maps" where
  "map_at vk name sz perm addr s =
     (case addr of
        None \<Rightarrow> (0, s)
      | Some addr \<Rightarrow>
          (case create_map vk name addr sz perm s of
             (Inl e, s) \<Rightarrow> (0, s)
           | (Inr k, s) \<Rightarrow> (addr, s)))"

definition maps_map ::
    "(slab \<Rightarrow> nat) \<Rightarrow> string \<Rightarrow> u64 \<Rightarrow> permission \<Rightarrow> maps \<Rightarrow> (u64 \<times> maps) outcome" where
  "maps_map vk name sz perm s =
     obind (maps_alloc sz s) (\<lambda>addr. Ret (map_at vk name sz perm addr s))"

definition map_lib ::
    "(slab \<Rightarrow> nat) \<Rightarrow> string \<Rightarrow> u64 \<Rightarrow> permission \<Rightarrow> maps \<Rightarrow> (u64 \<times> maps) outcome" where
  "map_lib vk name sz perm s =
     obind (if is_64bits s then lib64_alloc sz s else lib32_alloc sz s)
       (\<lambda>addr. Ret (map_at vk name sz perm addr s))"

subsection \<open>The consistency check\<close>

definition mem_test :: "maps \<Rightarrow> bool" where
  "mem_test s =
     (let regions = map (\<lambda>(k, m). (base_addr m, bottom_addr m)) (mem_slab s)
      in (\<forall>i \<in> set [0..<length regions]. \<forall>j \<in> set [0..<length regions].
            i \<noteq> j \<longrightarrow> (case (regions ! i, regions ! j) of
              ((b1, t1), (b2, t2)) \<Rightarrow> \<not> (b1 < t2 \<and> b2 < t1))) \<and>
         (\<forall>(k, m) \<in> set (mem_slab s). base_addr m + mem_size m = bottom_addr m))"

end
