(* ===== verification/Maps_Unmap.thy ===== *)
theory Maps_Unmap
  imports Maps_Create Maps_Alloc
begin

section \<open>Freeing and unmapping\<close>

text \<open>
  Removing regions from the address space: \<open>free\<close>, \<open>dealloc\<close> and \<open>unmap_range\<close> against the
  invariant and the abstract memory. Trimming a region is removing it and adding what is left of
  it under the same key, so the four cases of \<open>unmap_range\<close> rest on two lemmas, one for removing
  (\<open>remove_region\<close>) and one for adding (\<open>add_region\<close>).
\<close>

definition remove_region :: "nat \<Rightarrow> mem64 \<Rightarrow> maps \<Rightarrow> maps" where
  "remove_region k m s = s\<lparr>mem_slab := om_remove k (mem_slab s),
     name_map := (name_map s)(mem_name m := None), maps := om_remove (base_addr m) (maps s)\<rparr>"

subsection \<open>Ordered maps are determined by their lookups\<close>

lemma om_ok_eqI:
  assumes "om_ok m" "om_ok m'" "\<And>k. om_get m k = om_get m' k"
  shows "m = m'"
proof -
  have "(k, v) \<in> set m \<longleftrightarrow> (k, v) \<in> set m'" for k v
    using assms(3) [of k] by (simp add: assms(1,2) flip: om_get_iff)
  then have "set m = set m'"
    by auto
  moreover have "sorted (map fst m)" "sorted (map fst m')" "distinct (map fst m)" "distinct (map fst m')"
    using assms(1,2) strict_sorted_iff unfolding om_ok_def by blast+
  ultimately show ?thesis
    by (intro map_sorted_distinct_set_unique [of fst]) (simp_all add: distinct_map)
qed

lemma om_insert_remove:
  "om_ok m \<Longrightarrow> om_insert k v (om_remove k m) = om_insert k v m"
  by (rule om_ok_eqI) (simp_all add: om.ok_insert om.ok_remove om.get_insert om.get_remove)

lemma om_insert_same:
  "om_ok m \<Longrightarrow> om_get m k = Some v \<Longrightarrow> om_insert k v m = m"
  by (rule om_ok_eqI) (simp_all add: om.ok_insert om.ok_remove om.get_insert om.get_remove)

lemma om_remove_insert:
  "om_ok m \<Longrightarrow> om_remove k (om_insert k v m) = om_remove k m"
  by (rule om_ok_eqI) (simp_all add: om.ok_insert om.ok_remove om.get_insert om.get_remove)

subsection \<open>Removing a region\<close>

lemma remove_region_get [simp]:
  assumes "maps_wf s"
  shows "om_get (mem_slab (remove_region k m s)) k' = (if k' = k then None else om_get (mem_slab s) k')"
    and "om_get (maps (remove_region k m s)) b = (if b = base_addr m then None else om_get (maps s) b)"
    and "name_map (remove_region k m s) = (name_map s)(mem_name m := None)"
    and "om_ok (maps (remove_region k m s))" "om_ok (mem_slab (remove_region k m s))"
  using wf_ok [OF assms] by (simp_all add: remove_region_def om.get_remove om.ok_remove)

lemma wf_distinct:
  assumes wf: "maps_wf s" and g: "om_get (mem_slab s) k = Some m" "om_get (mem_slab s) k' = Some m'"
    and ne: "k \<noteq> k'"
  shows "base_addr m \<noteq> base_addr m'" "mem_name m \<noteq> mem_name m'"
  using wf_region_base [OF wf g(1)] wf_region_base [OF wf g(2)] wf_region_name [OF wf g(1)]
    wf_region_name [OF wf g(2)] ne by auto

lemma remove_region_wf:
  assumes wf: "maps_wf s" and k: "om_get (mem_slab s) k = Some m"
  shows "maps_wf (remove_region k m s)"
proof (rule maps_wfI)
  fix b k' assume "om_get (maps (remove_region k m s)) b = Some k'"
  then have "om_get (maps s) b = Some k'" "b \<noteq> base_addr m"
    using wf by (simp_all split: if_splits)
  then show "\<exists>m'. om_get (mem_slab (remove_region k m s)) k' = Some m' \<and> base_addr m' = b"
    using wf_entry [OF wf, of b k'] wf k by auto
next
  fix k' m' assume "om_get (mem_slab (remove_region k m s)) k' = Some m'"
  then have "om_get (mem_slab s) k' = Some m'" "k' \<noteq> k"
    using wf by (simp_all split: if_splits)
  then show "mem_wf m' \<and> om_get (maps (remove_region k m s)) (base_addr m') = Some k' \<and>
      name_map (remove_region k m s) (mem_name m') = Some k'"
    using wf k wf_distinct [OF wf k, of k' m'] wf_region [OF wf, of k' m']
      wf_region_base [OF wf, of k' m'] wf_region_name [OF wf, of k' m']
    by auto
next
  fix n k' assume "name_map (remove_region k m s) n = Some k'"
  then have "name_map s n = Some k'" "n \<noteq> mem_name m"
    using wf by (simp_all split: if_splits)
  then show "\<exists>m'. om_get (mem_slab (remove_region k m s)) k' = Some m' \<and> mem_name m' = n"
    using wf_name [OF wf, of n k'] wf k by auto
next
  fix k1 m1 k2 m2
  assume "om_get (mem_slab (remove_region k m s)) k1 = Some m1"
    "om_get (mem_slab (remove_region k m s)) k2 = Some m2" and lt: "base_addr m1 < base_addr m2"
  then have "om_get (mem_slab s) k1 = Some m1" "om_get (mem_slab s) k2 = Some m2"
    using wf by (simp_all split: if_splits)
  then show "region_before m1 m2"
    using wf_before [OF wf _ _ lt] by blast
qed (use wf in simp_all)

lemma flat_remove_region:
  assumes wf: "maps_wf s" and k: "om_get (mem_slab s) k = Some m"
  shows "flat (remove_region k m s) x = (if inside m x then None else flat s x)"
proof (cases "inside m x")
  case True
  have "\<not> inside m' x" if "om_get (mem_slab (remove_region k m s)) k' = Some m'" for k' m'
  proof -
    have "om_get (mem_slab s) k' = Some m'" "k' \<noteq> k"
      using that wf by (simp_all split: if_splits)
    then show ?thesis
      using inside_unique [OF wf k _ True] by metis
  qed
  then show ?thesis
    using True search_maps_None_iff [OF remove_region_wf [OF assms], of x]
      flat_None_iff [OF remove_region_wf [OF assms], of x] by simp
next
  case False
  have "flat (remove_region k m s) x = flat s x"
    by (rule flat_cong [OF remove_region_wf [OF assms] wf]) (use wf k False in auto)
  then show ?thesis
    using False by simp
qed

text \<open>A part of a removed region is free.\<close>

lemma free_range_removed:
  assumes wf: "maps_wf s" and k: "om_get (mem_slab s) k = Some m"
    and a: "unat (base_addr m) \<le> unat a" "unat a + n \<le> unat (base_addr m) + length (mem m)"
      "a = base_addr m \<or> unat a < unat (base_addr m) + length (mem m)"
  shows "free_range (remove_region k m s) a n"
  unfolding free_range_def
proof (intro allI impI)
  fix k' m' assume "om_get (mem_slab (remove_region k m s)) k' = Some m'"
  then have k': "om_get (mem_slab s) k' = Some m'" "k' \<noteq> k"
    using wf by (simp_all split: if_splits)
  then have "base_addr m \<noteq> base_addr m'"
    using wf_distinct [OF wf k k'(1)] by metis
  then consider "base_addr m < base_addr m'" | "base_addr m' < base_addr m"
    by fastforce
  then show "base_addr m' \<noteq> a \<and>
      (unat (base_addr m') + length (mem m') \<le> unat a \<or> unat a + n \<le> unat (base_addr m'))"
  proof cases
    case 1
    then have "unat (base_addr m) + length (mem m) \<le> unat (base_addr m')"
      using wf_before [OF wf k k'(1)] by (simp add: region_before_def)
    then show ?thesis
      using a 1 by auto
  next
    case 2
    then have "unat (base_addr m') + length (mem m') \<le> unat (base_addr m)"
      using wf_before [OF wf k'(1) k] by (simp add: region_before_def)
    moreover have "base_addr m' \<noteq> a"
      using a(1) 2 by (auto simp: word_less_nat_alt)
    ultimately show ?thesis
      using a by auto
  qed
qed

subsection \<open>\<open>free\<close> and \<open>dealloc\<close>\<close>

lemma flush_tlb_frame [simp]:
  "maps_wf (flush_tlb s) = maps_wf s" "flat (flush_tlb s) = flat s" "maps (flush_tlb s) = maps s"
  "mem_slab (flush_tlb s) = mem_slab s" "name_map (flush_tlb s) = name_map s"
  "code_writes (flush_tlb s) = code_writes s"
  by (simp_all add: flush_tlb_def)

lemma dealloc_eq:
  assumes wf: "maps_wf s" and k: "om_get (mem_slab s) k = Some m"
  obtains t where "dealloc (base_addr m) s = (remove_region k m s)\<lparr>tlb := t, code_writes :=
    if can_execute m then log_write (code_writes s) (base_addr m) (mem_size m) else code_writes s\<rparr>"
proof
  show "dealloc (base_addr m) s = (remove_region k m s)\<lparr>tlb := tlb_flush (tlb s), code_writes :=
    if can_execute m then log_write (code_writes s) (base_addr m) (mem_size m) else code_writes s\<rparr>"
    using wf_ok [OF wf]
    by (simp add: dealloc_def wf_region_base [OF wf k] k note_code_write_eq put_mem_def flush_tlb_def
        remove_region_def om_remove_insert Let_def)
qed

lemma dealloc_absent:
  "maps_wf s \<Longrightarrow> om_get (maps s) a = None \<Longrightarrow> dealloc a s = s"
  by (simp add: dealloc_def)

lemma maps_free_eq:
  assumes wf: "maps_wf s" and k: "om_get (mem_slab s) k = Some m"
  obtains t where "maps_free (mem_name m) s = (remove_region k m s)\<lparr>tlb := t\<rparr>"
proof
  show "maps_free (mem_name m) s = (remove_region k m s)\<lparr>tlb := tlb_flush (tlb s)\<rparr>"
    using wf_ok [OF wf]
    by (simp add: maps_free_def wf_region_name [OF wf k] k put_mem_def flush_tlb_def
        remove_region_def om_remove_insert Let_def)
qed

subsection \<open>Trimming a region\<close>

text \<open>Replacing a region by a part of it, under the same key and name.\<close>

definition trim_region :: "nat \<Rightarrow> mem64 \<Rightarrow> mem64 \<Rightarrow> maps \<Rightarrow> maps" where
  "trim_region k m m' s = add_region k m' (remove_region k m s)"

definition part_of :: "mem64 \<Rightarrow> mem64 \<Rightarrow> bool" where
  "part_of m' m \<longleftrightarrow> mem_wf m' \<and> mem_name m' = mem_name m \<and> permission m' = permission m \<and>
     unat (base_addr m) \<le> unat (base_addr m') \<and>
     unat (base_addr m') + length (mem m') \<le> unat (base_addr m) + length (mem m) \<and>
     (base_addr m' = base_addr m \<or> unat (base_addr m') < unat (base_addr m) + length (mem m)) \<and>
     (\<forall>x. inside m' x \<longrightarrow> byte_of m' x = byte_of m x)"

lemma trim_region_wf:
  assumes wf: "maps_wf s" and k: "om_get (mem_slab s) k = Some m" and p: "part_of m' m"
  shows "maps_wf (trim_region k m m' s)"
    and "flat (trim_region k m m' s) x = (if inside m x \<and> \<not> inside m' x then None else flat s x)"
proof -
  let ?r = "remove_region k m s"
  note wf_r = remove_region_wf [OF wf k]
  have free: "free_range ?r (base_addr m') (length (mem m'))"
    using p unfolding part_of_def by (intro free_range_removed [OF wf k]) auto
  have pre: "om_get (mem_slab ?r) k = None" "mem_wf m'" "name_map ?r (mem_name m') = None"
    using wf p by (simp_all add: part_of_def)
  show "maps_wf (trim_region k m m' s)"
    unfolding trim_region_def using add_region_wf [OF wf_r pre(1,2) free pre(3)] .
  have "inside m' x \<Longrightarrow> inside m x"
    using p wf_region [OF wf k] by (auto simp: part_of_def inside_iff)
  moreover have "inside m' x \<Longrightarrow> Some (permission m', byte_of m' x) = Some (permission m, byte_of m x)"
    using p by (simp add: part_of_def)
  ultimately show "flat (trim_region k m m' s) x =
      (if inside m x \<and> \<not> inside m' x then None else flat s x)"
    unfolding trim_region_def
    using flat_add_region [OF wf_r pre(1,2) free pre(3)] flat_remove_region [OF wf k]
      flat_inside [OF wf k] by auto
qed

lemma trim_region_get:
  assumes "maps_wf s" "om_get (mem_slab s) k = Some m"
  shows "om_get (mem_slab (trim_region k m m' s)) k' = (if k' = k then Some m' else om_get (mem_slab s) k')"
    and "om_get (maps (trim_region k m m' s)) b =
      (if b = base_addr m' then Some k else if b = base_addr m then None else om_get (maps s) b)"
    and "part_of m' m \<Longrightarrow> name_map (trim_region k m m' s) = name_map s"
  using remove_region_wf [OF assms] assms wf_region_name [OF assms]
  by (simp_all add: trim_region_def part_of_def fun_upd_idem)

text \<open>The two updates of the source that trim a region: its bytes alone, or its base as well.\<close>

lemma trim_region_put:
  assumes wf: "maps_wf s" and k: "om_get (mem_slab s) k = Some m"
    and m': "base_addr m' = base_addr m" "mem_name m' = mem_name m"
  shows "put_mem k m' s = trim_region k m m' s"
  using wf_ok [OF wf] wf_region_base [OF wf k] wf_region_name [OF wf k]
  by (simp add: trim_region_def add_region_def remove_region_def put_mem_def m' om_insert_remove
      om_insert_same fun_upd_idem)

lemma trim_region_rebase:
  assumes wf: "maps_wf s" and k: "om_get (mem_slab s) k = Some m" and m': "mem_name m' = mem_name m"
  shows "(put_mem k m' s)\<lparr>maps := om_insert (base_addr m') k (om_remove (base_addr m) (maps s))\<rparr> =
    trim_region k m m' s"
  using wf_ok [OF wf] wf_region_name [OF wf k]
  by (simp add: trim_region_def add_region_def remove_region_def put_mem_def m' om_insert_remove
      fun_upd_idem)

lemma part_of_truncate:
  assumes "mem_wf m" "unat n \<le> length (mem m)"
  shows "part_of (mem_truncate n m) m" "inside (mem_truncate n m) x \<longleftrightarrow> inside m x \<and> unat x < unat (base_addr m) + unat n"
proof -
  have w: "mem_wf (mem_truncate n m)"
    using assms by (simp add: mem_wf_def mem_truncate_def)
  show i: "inside (mem_truncate n m) x \<longleftrightarrow> inside m x \<and> unat x < unat (base_addr m) + unat n" for x
    using assms unfolding inside_iff [OF w] inside_iff [OF assms(1)] by (auto simp: mem_truncate_def)
  have "byte_of (mem_truncate n m) x = byte_of m x" if "inside (mem_truncate n m) x" for x
    using inside_index [OF w that] assms by (simp add: byte_of_def mem_truncate_def)
  then show "part_of (mem_truncate n m) m"
    using w assms by (simp add: part_of_def mem_truncate_def)
qed

lemma part_of_drop_front:
  assumes "mem_wf m" "unat n < length (mem m)"
  obtains m' where "drop_front n m = Ret m'" "part_of m' m" "base_addr m' = base_addr m + n"
    "\<And>x. inside m' x \<longleftrightarrow> inside m x \<and> unat (base_addr m) + unat n \<le> unat x"
proof -
  let ?m = "m\<lparr>mem := drop (unat n) (mem m), base_addr := base_addr m + n\<rparr>"
  have b: "unat (base_addr m + n) = unat (base_addr m) + unat n"
    using assms by (intro unat_add64) (simp add: mem_wf_def)
  have w: "mem_wf ?m"
    using assms b by (simp add: mem_wf_def of_nat_diff)
  have i: "inside ?m x \<longleftrightarrow> inside m x \<and> unat (base_addr m) + unat n \<le> unat x" for x
    using assms b unfolding inside_iff [OF w] inside_iff [OF assms(1)] by auto
  have "byte_of ?m x = byte_of m x" if "inside ?m x" for x
  proof -
    have "inside m x" "unat (base_addr m) + unat n \<le> unat x"
      using that i by simp_all
    then show ?thesis
      using inside_index [OF w that] inside_index [OF assms(1)] assms b by (simp add: byte_of_def)
  qed
  then have "part_of ?m m"
    using w assms b by (simp add: part_of_def)
  with i show ?thesis
    using that [of ?m] assms by (simp add: drop_front_def)
qed

subsection \<open>Unmapping a range\<close>

definition region_at :: "maps \<Rightarrow> u64 \<Rightarrow> mem64 \<Rightarrow> bool" where
  "region_at s b m \<longleftrightarrow> (\<exists>k. om_get (maps s) b = Some k \<and> om_get (mem_slab s) k = Some m)"

text \<open>The region meets the range; it sticks out of the range on both sides.\<close>

definition meets :: "u64 \<Rightarrow> u64 \<Rightarrow> mem64 \<Rightarrow> bool" where
  "meets a e m \<longleftrightarrow> base_addr m < e \<and> a < bottom_addr m"

definition surrounds :: "u64 \<Rightarrow> u64 \<Rightarrow> mem64 \<Rightarrow> bool" where
  "surrounds a e m \<longleftrightarrow> base_addr m < a \<and> e < bottom_addr m"

lemma region_at_base: "maps_wf s \<Longrightarrow> region_at s b m \<Longrightarrow> base_addr m = b"
  using wf_entry unfolding region_at_def by fastforce

lemma region_at_fun: "region_at s b m \<Longrightarrow> region_at s b m' \<Longrightarrow> m = m'"
  unfolding region_at_def by auto

lemma region_at_inside:
  "maps_wf s \<Longrightarrow> flat s x \<noteq> None \<longleftrightarrow> (\<exists>b m. region_at s b m \<and> inside m x)"
  using flat_None_iff [of s x] search_maps_None_iff [of s x] wf_region_base wf_entry
  unfolding region_at_def by (metis option.distinct(1))

text \<open>The range is gone from the region at \<open>b\<close>; the regions at the other bases are as they were.\<close>

definition unmapped :: "u64 \<Rightarrow> u64 \<Rightarrow> u64 \<Rightarrow> mem64 \<Rightarrow> maps \<Rightarrow> maps \<Rightarrow> bool" where
  "unmapped a e b m s s' \<longleftrightarrow> maps_wf s' \<and>
     (\<forall>x. flat s' x = (if inside m x \<and> a \<le> x \<and> x < e then None else flat s x)) \<and>
     (\<forall>b' m'. b' \<noteq> b \<longrightarrow> b' < e \<longrightarrow> region_at s' b' m' = region_at s b' m')"

lemma unmap_one_eq:
  assumes "om_get (maps s) b = Some k" "om_get (mem_slab s) k = Some m"
  shows "unmap_one vk a e b s =
    (if a \<le> b \<and> bottom_addr m \<le> e then Ret (dealloc b s)
     else if a \<le> b then obind (drop_front (e - b) m)
       (\<lambda>m'. Ret ((put_mem k m' s)\<lparr>maps := om_insert e k (om_remove b (maps s))\<rparr>))
     else if bottom_addr m \<le> e then Ret (put_mem k (mem_truncate (a - b) m) s)
     else unmap_split vk a e b k m s)"
  using assms by (simp add: unmap_one_def om_index_def put_mem_def Let_def)

lemma unmapped_trim:
  assumes wf: "maps_wf s" and k: "om_get (maps s) b = Some k" "om_get (mem_slab s) k = Some m"
    and p: "part_of m' m" and base: "base_addr m' = b \<or> base_addr m' = e"
    and i: "\<And>x. inside m' x \<longleftrightarrow> inside m x \<and> \<not> (a \<le> x \<and> x < e)"
  shows "unmapped a e b m s (trim_region k m m' s)"
proof -
  have b: "base_addr m = b"
    using wf_entry [OF wf k(1)] k(2) by simp
  have "region_at (trim_region k m m' s) b' m2 = region_at s b' m2" if "b' \<noteq> b" "b' < e" for b' m2
  proof -
    have "om_get (maps s) b' = Some k' \<Longrightarrow> k' \<noteq> k" for k'
      using wf_entry [OF wf, of b' k'] k(2) b that by auto
    moreover have "b' \<noteq> base_addr m'"
      using base that by auto
    ultimately show ?thesis
      using that b unfolding region_at_def trim_region_get [OF wf k(2)] by simp metis
  qed
  moreover have "flat (trim_region k m m' s) x = (if inside m x \<and> a \<le> x \<and> x < e then None else flat s x)" for x
    using trim_region_wf(2) [OF wf k(2) p, of x] i by simp
  ultimately show ?thesis
    using trim_region_wf(1) [OF wf k(2) p] by (simp add: unmapped_def)
qed

lemma unmapped_dealloc:
  assumes wf: "maps_wf s" and k: "om_get (maps s) b = Some k" "om_get (mem_slab s) k = Some m"
    and c: "a \<le> b" "bottom_addr m \<le> e"
  shows "unmapped a e b m s (dealloc b s)"
proof -
  have b: "base_addr m = b"
    using wf_entry [OF wf k(1)] k(2) by simp
  obtain t where t: "dealloc b s = (remove_region k m s)\<lparr>tlb := t, code_writes :=
      if can_execute m then log_write (code_writes s) (base_addr m) (mem_size m) else code_writes s\<rparr>"
    using dealloc_eq [OF wf k(2)] b by metis
  have "inside m x \<Longrightarrow> a \<le> x \<and> x < e" for x
    using c b by (auto simp: inside_def)
  then have "flat (dealloc b s) x = (if inside m x \<and> a \<le> x \<and> x < e then None else flat s x)" for x
    by (auto simp: t flat_remove_region [OF wf k(2)])
  moreover have "region_at (dealloc b s) b' m2 = region_at s b' m2" if "b' \<noteq> b" for b' m2
  proof -
    have "om_get (maps s) b' = Some k' \<Longrightarrow> k' \<noteq> k" for k'
      using wf_entry [OF wf, of b' k'] k(2) b that by auto
    then show ?thesis
      using that b wf unfolding region_at_def t by simp metis
  qed
  ultimately show ?thesis
    using remove_region_wf [OF wf k(2)] by (simp add: unmapped_def t)
qed

lemma unmapped_front:
  assumes wf: "maps_wf s" and k: "om_get (maps s) b = Some k" "om_get (mem_slab s) k = Some m"
    and c: "a \<le> b" "b < e" "e < bottom_addr m"
  obtains m' where "drop_front (e - b) m = Ret m'" "mem_name m' = mem_name m" "base_addr m' = e"
    "unmapped a e b m s (trim_region k m m' s)"
proof -
  have b: "base_addr m = b"
    using wf_entry [OF wf k(1)] k(2) by simp
  note m = wf_region [OF wf k(2)]
  have n: "unat (e - b) = unat e - unat b" "unat b < unat e" "unat e < unat b + length (mem m)"
    using c unat_bottom [OF m] b by (simp_all add: unat_sub64 word_less_nat_alt word_le_nat_alt)
  then have "unat (e - b) < length (mem m)"
    by linarith
  from part_of_drop_front [OF m this] obtain m' where m': "drop_front (e - b) m = Ret m'" "part_of m' m"
      "base_addr m' = base_addr m + (e - b)"
      "\<And>x. inside m' x \<longleftrightarrow> inside m x \<and> unat (base_addr m) + unat (e - b) \<le> unat x"
    by blast
  have "inside m' x \<longleftrightarrow> inside m x \<and> \<not> (a \<le> x \<and> x < e)" for x
    using m'(4) [of x] n c b by (auto simp: inside_def word_le_nat_alt word_less_nat_alt)
  then have "unmapped a e b m s (trim_region k m m' s)"
    using m'(3) b by (intro unmapped_trim [OF wf k m'(2)]) simp_all
  then show ?thesis
    using that m' b by (simp add: part_of_def)
qed

lemma unmapped_rear:
  assumes wf: "maps_wf s" and k: "om_get (maps s) b = Some k" "om_get (mem_slab s) k = Some m"
    and c: "b < a" "a < bottom_addr m" "bottom_addr m \<le> e"
  shows "unmapped a e b m s (trim_region k m (mem_truncate (a - b) m) s)"
proof -
  have b: "base_addr m = b"
    using wf_entry [OF wf k(1)] k(2) by simp
  note m = wf_region [OF wf k(2)]
  have n: "unat (a - b) = unat a - unat b" "unat b < unat a" "unat a < unat b + length (mem m)"
    using c unat_bottom [OF m] b by (simp_all add: unat_sub64 word_less_nat_alt word_le_nat_alt)
  then have le: "unat (a - b) \<le> length (mem m)"
    by linarith
  have "inside (mem_truncate (a - b) m) x \<longleftrightarrow> inside m x \<and> \<not> (a \<le> x \<and> x < e)" for x
    using part_of_truncate(2) [OF m le, of x] n c b
    by (auto simp: inside_def word_le_nat_alt word_less_nat_alt)
  then show ?thesis
    using b by (intro unmapped_trim [OF wf k part_of_truncate(1) [OF m le]]) (simp_all add: mem_truncate_def)
qed

lemma unmap_one_trim:
  assumes wf: "maps_wf s" and r: "region_at s b m" and ov: "meets a e m" "\<not> surrounds a e m"
  obtains s' where "unmap_one vk a e b s = Ret s'" "unmapped a e b m s s'"
proof -
  obtain k where k: "om_get (maps s) b = Some k" "om_get (mem_slab s) k = Some m" and b: "base_addr m = b"
    using r region_at_base [OF wf r] unfolding region_at_def by blast
  have lt: "b < e" "a < bottom_addr m"
    using ov b by (simp_all add: meets_def)
  consider (all) "a \<le> b" "bottom_addr m \<le> e" | (front) "a \<le> b" "e < bottom_addr m"
    | (rear) "b < a" "bottom_addr m \<le> e"
    using ov(2) b unfolding surrounds_def by (meson linorder_not_le)
  then show ?thesis
  proof cases
    case all
    then show ?thesis
      using unmapped_dealloc [OF wf k] that unmap_one_eq [OF k] by simp
  next
    case front
    obtain m' where m': "drop_front (e - b) m = Ret m'" "mem_name m' = mem_name m" "base_addr m' = e"
        "unmapped a e b m s (trim_region k m m' s)"
      using unmapped_front [OF wf k front(1) lt(1) front(2)] .
    then show ?thesis
      using that [OF _ m'(4)] front unmap_one_eq [OF k] trim_region_rebase [OF wf k(2) m'(2)] b
      by (simp add: linorder_not_le)
  next
    case rear
    have "put_mem k (mem_truncate (a - b) m) s = trim_region k m (mem_truncate (a - b) m) s"
      by (rule trim_region_put [OF wf k(2)]) (simp_all add: mem_truncate_def)
    then have "unmap_one vk a e b s = Ret (trim_region k m (mem_truncate (a - b) m) s)"
      using rear unmap_one_eq [OF k, of vk a e] by (simp add: leD)
    then show ?thesis
      using that unmapped_rear [OF wf k rear(1) lt(2) rear(2)] by blast
  qed
qed

text \<open>A region that surrounds the range is split: its head is trimmed, its tail a new region.\<close>

definition tail_name :: "mem64 \<Rightarrow> u64 \<Rightarrow> string" where
  "tail_name m e = mem_name m @ ''_'' @ fmt_hex e"

lemma fill_fresh_region:
  assumes "unat e + length bs < 2 ^ 64" "bs \<noteq> []"
  shows "force_write_bytes e bs (fresh_region n e (of_nat (length bs)) p) =
    Ret ((fresh_region n e (of_nat (length bs)) p)\<lparr>mem := bs\<rparr>)"
proof -
  let ?m = "fresh_region n e (of_nat (length bs)) p"
  have l: "unat (of_nat (length bs) :: u64) = length bs"
    using assms by (intro unat_of_nat64) simp
  then have w: "mem_wf ?m"
    using assms by (intro fresh_region_wf) simp
  have i: "inside ?m e"
    using assms l w by (simp add: inside_iff)
  show ?thesis
    using force_write_bytes_range [OF w i, of bs] l by (simp add: splice_def)
qed

lemma free_range_tail:
  assumes wf: "maps_wf s" and k: "om_get (mem_slab s) k = Some m" and p: "part_of m' m"
    and e: "unat (base_addr m') + length (mem m') \<le> unat e" "base_addr m' \<noteq> e"
      "unat e < unat (base_addr m) + length (mem m)" "unat e + n \<le> unat (base_addr m) + length (mem m)"
  shows "free_range (trim_region k m m' s) e n"
proof -
  have "unat (base_addr m) \<le> unat e"
    using p e(1) by (simp add: part_of_def)
  then have f: "free_range (remove_region k m s) e n"
    using e by (intro free_range_removed [OF wf k]) auto
  show ?thesis
    unfolding free_range_def
  proof (intro allI impI)
    fix k2 m2 assume g: "om_get (mem_slab (trim_region k m m' s)) k2 = Some m2"
    show "base_addr m2 \<noteq> e \<and>
        (unat (base_addr m2) + length (mem m2) \<le> unat e \<or> unat e + n \<le> unat (base_addr m2))"
    proof (cases "k2 = k")
      case True
      then show ?thesis using g e by (simp add: trim_region_get [OF wf k])
    next
      case False
      then have "om_get (mem_slab (remove_region k m s)) k2 = Some m2"
        using g wf by (simp add: trim_region_get [OF wf k])
      then show ?thesis using f unfolding free_range_def by blast
    qed
  qed
qed

lemma unmap_split_state:
  assumes wf: "maps_wf s" and k: "om_get (mem_slab s) k = Some m"
    and vk: "vacant_key vk" and name: "name_map s (tail_name m e) = None"
    and c: "base_addr m < a" "a \<le> e" "e < bottom_addr m"
  obtains t cw m' k' f where "m' = mem_truncate (a - base_addr m) m"
    "f = fresh_region (tail_name m e) e (of_nat (length (mem m) - unat (e - base_addr m))) (permission m)"
    "unmap_split vk a e (base_addr m) k m s =
      Ret (put_mem k' (f\<lparr>mem := drop (unat (e - base_addr m)) (mem m)\<rparr>)
        ((add_region k' f (trim_region k m m' s))\<lparr>tlb := t, code_writes := cw\<rparr>))"
    "maps_wf (add_region k' f (trim_region k m m' s))"
    "flat (add_region k' f (trim_region k m m' s)) =
      flat_map e (length (mem m) - unat (e - base_addr m)) (permission m) (flat (trim_region k m m' s))"
    "part_of m' m"
proof -
  let ?b = "base_addr m" and ?m = "mem_truncate (a - base_addr m) m"
  let ?n = "unat (e - ?b)" let ?tl = "drop ?n (mem m)" and ?s1 = "trim_region k m ?m s"
  note m = wf_region [OF wf k]
  have u: "unat (a - ?b) = unat a - unat ?b" "?n = unat e - unat ?b" "unat ?b < unat a"
      "unat a \<le> unat e" "unat e < unat ?b + length (mem m)" "unat ?b + length (mem m) < 2 ^ 64"
    using c m unat_bottom [OF m]
    by (simp_all add: unat_sub64 word_less_nat_alt word_le_nat_alt mem_wf_def)
  then have le: "unat (a - ?b) \<le> ?n" "?n < length (mem m)"
    by linarith+
  then have p: "part_of ?m m"
    using part_of_truncate(1) [OF m] by simp
  have l: "unat (of_nat (length ?tl) :: u64) = length ?tl" "unat e + length ?tl = unat ?b + length (mem m)"
    by (rule unat_of_nat64) (use u le in simp_all)
  have free: "free_range ?s1 e (unat (of_nat (length ?tl) :: u64))"
    using u le l c by (intro free_range_tail [OF wf k p]) (auto simp: mem_truncate_def)
  have fresh: "name_map ?s1 (tail_name m e) = None"
    using name trim_region_get(3) [OF wf k p] by simp
  let ?f = "fresh_region (tail_name m e) e (of_nat (length ?tl)) (permission m)"
  obtain t where t: "create_map vk (tail_name m e) e (of_nat (length ?tl)) (permission m) ?s1 =
      (Inr (vk (mem_slab ?s1)), (add_region (vk (mem_slab ?s1)) ?f ?s1)\<lparr>tlb := t, code_writes :=
         if perm_can_execute (permission m)
         then log_write (code_writes ?s1) e (of_nat (length ?tl)) else code_writes ?s1\<rparr>)"
      "maps_wf (add_region (vk (mem_slab ?s1)) ?f ?s1)"
      "flat (add_region (vk (mem_slab ?s1)) ?f ?s1) =
        flat_map e (unat (of_nat (length ?tl) :: u64)) (permission m) (flat ?s1)"
    by (rule create_map_free [OF trim_region_wf(1) [OF wf k p] vk _ free fresh]) (use l u in simp_all)
  have sp: "split_off e m = Ret (?tl, m\<lparr>mem := take ?n (mem m), bottom_addr := e\<rparr>)"
      "mem_truncate (a - ?b) (m\<lparr>mem := take ?n (mem m), bottom_addr := e\<rparr>) = ?m"
    using le by (simp_all add: split_off_def mem_truncate_def min_def Let_def)
  have pm: "put_mem k ?m s = ?s1"
    by (rule trim_region_put [OF wf k]) (simp_all add: mem_truncate_def)
  have "unmap_split vk a e ?b k m s =
      Ret (put_mem (vk (mem_slab ?s1)) (?f\<lparr>mem := ?tl\<rparr>)
        ((add_region (vk (mem_slab ?s1)) ?f ?s1)\<lparr>tlb := t, code_writes :=
         if perm_can_execute (permission m)
         then log_write (code_writes ?s1) e (of_nat (length ?tl)) else code_writes ?s1\<rparr>))"
    unfolding unmap_split_def sp(1) obind.simps prod.case sp(2) Let_def pm
    using t(1) fill_fresh_region [of e ?tl "tail_name m e" "permission m"] l u le
      trim_region_wf(1) [OF wf k p]
    by (simp add: mem_truncate_def tail_name_def om_index_def)
  from that [OF refl refl _ _ _ p, simplified, OF this [simplified]] show ?thesis
    using t(2,3) l(1) by simp
qed

lemma unmap_one_split:
  assumes wf: "maps_wf s" and r: "region_at s b m" and sur: "surrounds a e m" and ae: "a \<le> e"
    and vk: "vacant_key vk" and name: "name_map s (tail_name m e) = None"
  obtains s' where "unmap_one vk a e b s = Ret s'" "maps_wf s'"
    "\<And>x. flat s' x = (if inside m x \<and> a \<le> x \<and> x < e then None else flat s x)"
proof -
  obtain k where k: "om_get (maps s) b = Some k" "om_get (mem_slab s) k = Some m" and b: "base_addr m = b"
    using r region_at_base [OF wf r] unfolding region_at_def by blast
  note m = wf_region [OF wf k(2)]
  have c: "base_addr m < a" "e < bottom_addr m"
    using sur by (simp_all add: surrounds_def)
  obtain t cw m' k' f where m': "m' = mem_truncate (a - base_addr m) m"
    and f: "f = fresh_region (tail_name m e) e (of_nat (length (mem m) - unat (e - base_addr m))) (permission m)"
    and r: "unmap_split vk a e (base_addr m) k m s =
      Ret (put_mem k' (f\<lparr>mem := drop (unat (e - base_addr m)) (mem m)\<rparr>)
        ((add_region k' f (trim_region k m m' s))\<lparr>tlb := t, code_writes := cw\<rparr>))"
    and A: "maps_wf (add_region k' f (trim_region k m m' s))"
      "flat (add_region k' f (trim_region k m m' s)) =
      flat_map e (length (mem m) - unat (e - base_addr m)) (permission m) (flat (trim_region k m m' s))"
    and p: "part_of m' m"
    by (rule unmap_split_state [OF wf k(2) vk name c(1) ae c(2)])
  define s2 where "s2 = (add_region k' f (trim_region k m m' s))\<lparr>tlb := t, code_writes := cw\<rparr>"
  define tl where "tl = drop (unat (e - base_addr m)) (mem m)"
  have u: "unat (a - b) = unat a - unat b" "unat (e - b) = unat e - unat b" "unat b < unat a"
      "unat a \<le> unat e" "unat e < unat b + length (mem m)" "unat b + length (mem m) < 2 ^ 64"
    using c ae m unat_bottom [OF m] b
    by (simp_all add: unat_sub64 word_less_nat_alt word_le_nat_alt mem_wf_def)
  have l: "unat (of_nat (length tl) :: u64) = length tl" "unat e + length tl = unat b + length (mem m)"
    by (rule unat_of_nat64) (use u b in \<open>simp_all add: tl_def\<close>)
  have s2: "maps_wf s2" "om_get (mem_slab s2) k' = Some f"
    using A(1) trim_region_wf(1) [OF wf k(2) p] by (simp_all add: s2_def)
  have lf: "length tl = length (mem f)"
    using l(1) by (simp add: f tl_def b)
  have fin: "inside f x \<longleftrightarrow> inside m x \<and> e \<le> x" for x
    using fresh_region_inside [of e "of_nat (length tl)" "tail_name m e" "permission m" x] l u b
    by (auto simp: f tl_def in_range_def inside_iff [OF m] word_le_nat_alt)
  have min: "inside m' x \<longleftrightarrow> inside m x \<and> x < a" for x
    using part_of_truncate(2) [OF m, of "a - b" x] u b by (auto simp: m' word_less_nat_alt)
  have byte: "byte_of (f\<lparr>mem := tl\<rparr>) x = byte_of m x" if "inside f x" for x
  proof -
    have "unat e \<le> unat x" "unat b \<le> unat x" "unat x < unat b + length (mem m)"
      using that fin b by (simp_all add: inside_iff [OF m] word_le_nat_alt)
    then show ?thesis
      using u b by (simp add: byte_of_def f tl_def unat_sub64 word_le_nat_alt)
  qed
  have "flat (put_mem k' (f\<lparr>mem := tl\<rparr>) s2) x = (if inside m x \<and> a \<le> x \<and> x < e then None else flat s x)" for x
  proof -
    have "flat s2 x = (if inside f x then Some (permission m, 0) else flat (trim_region k m m' s) x)"
      using fresh_region_inside [of e "of_nat (length tl)" "tail_name m e" "permission m" x] l u A(2)
      by (simp add: s2_def f tl_def flat_map_def)
    then have "flat (put_mem k' (f\<lparr>mem := tl\<rparr>) s2) x =
        (if inside f x then Some (permission m, byte_of m x) else flat (trim_region k m m' s) x)"
      using flat_put_mem [OF s2 lf, of x] byte [of x] by (simp add: f)
    then show ?thesis
      using trim_region_wf(2) [OF wf k(2) p, of x] flat_inside [OF wf k(2), of x] fin [of x] min [of x] c ae
      by auto
  qed
  moreover have "unmap_one vk a e b s = Ret (put_mem k' (f\<lparr>mem := tl\<rparr>) s2)"
    using r c b unmap_one_eq [OF k, of vk a e] by (simp add: s2_def tl_def flip: linorder_not_le)
  ultimately show ?thesis
    using that put_mem_wf [OF s2 lf] by blast
qed

text \<open>The case in which the tail cannot be created: only the head is left.\<close>

lemma unmap_one_lost:
  assumes wf: "maps_wf s" and r: "region_at s b m" and sur: "surrounds a e m" and ae: "a \<le> e"
    and name: "name_map s (tail_name m e) \<noteq> None"
  obtains s' where "unmap_one vk a e b s = Ret s'"
    "\<And>x. flat s' x = (if inside m x \<and> a \<le> x then None else flat s x)"
proof -
  obtain k where k: "om_get (maps s) b = Some k" "om_get (mem_slab s) k = Some m" and b: "base_addr m = b"
    using r region_at_base [OF wf r] unfolding region_at_def by blast
  note m = wf_region [OF wf k(2)]
  let ?m = "mem_truncate (a - b) m" and ?n = "unat (e - b)"
  let ?s1 = "trim_region k m ?m s"
  have c: "b < a" "e < bottom_addr m"
    using sur b by (simp_all add: surrounds_def)
  have u: "unat (a - b) = unat a - unat b" "?n = unat e - unat b" "unat b < unat a"
      "unat a \<le> unat e" "unat e < unat b + length (mem m)"
    using c ae unat_bottom [OF m] b by (simp_all add: unat_sub64 word_less_nat_alt word_le_nat_alt)
  then have le: "unat (a - b) \<le> ?n" "?n < length (mem m)"
    by linarith+
  then have p: "part_of ?m m" and i: "inside ?m x \<longleftrightarrow> inside m x \<and> x < a" for x
    using part_of_truncate [OF m, of "a - b"] u b by (simp_all add: word_less_nat_alt)
  note wf1 = trim_region_wf(1) [OF wf k(2) p]
  have f1: "flat ?s1 x = (if inside m x \<and> a \<le> x then None else flat s x)" for x
    using trim_region_wf(2) [OF wf k(2) p, of x] i [of x] by (auto simp: linorder_not_less)
  have sp: "split_off e m = Ret (drop ?n (mem m), m\<lparr>mem := take ?n (mem m), bottom_addr := e\<rparr>)"
      "mem_truncate (a - b) (m\<lparr>mem := take ?n (mem m), bottom_addr := e\<rparr>) = ?m"
    using le b by (simp_all add: split_off_def mem_truncate_def min_def Let_def)
  have pm: "put_mem k ?m s = ?s1"
    by (rule trim_region_put [OF wf k(2)]) (simp_all add: mem_truncate_def)
  have un: "search_maps e ?s1 = None"
    using f1 [of e] c ae b flat_None_iff [OF wf1, of e] order.trans [of b a e]
    by (simp add: inside_def)
  obtain t where "create_map vk (tail_name m e) e (of_nat (length (drop ?n (mem m)))) (permission m) ?s1 =
      (Inl (NameExists (tail_name m e)), ?s1\<lparr>tlb := t\<rparr>)"
    using create_map_eq [OF wf1 un, of vk "tail_name m e"] name trim_region_get(3) [OF wf k(2) p] by metis
  then have "unmap_split vk a e b k m s = Ret (?s1\<lparr>tlb := t\<rparr>)"
    unfolding unmap_split_def sp(1) obind.simps prod.case sp(2) Let_def pm
    by (simp add: mem_truncate_def tail_name_def)
  then have "unmap_one vk a e b s = Ret (?s1\<lparr>tlb := t\<rparr>)"
    using unmap_one_eq [OF k, of vk a e] c by (simp flip: linorder_not_le)
  then show ?thesis
    using that f1 by simp
qed

lemma unmap_each_trim:
  assumes "maps_wf s" "distinct bs"
    and "\<And>b. b \<in> set bs \<Longrightarrow> \<exists>m. region_at s b m \<and> meets a e m \<and> \<not> surrounds a e m"
  shows "\<exists>s'. unmap_each vk a e bs s = Ret s' \<and> maps_wf s' \<and>
    (\<forall>x. flat s' x = (if a \<le> x \<and> x < e \<and> (\<exists>b \<in> set bs. \<exists>m. region_at s b m \<and> inside m x)
                     then None else flat s x))"
  using assms
proof (induction bs arbitrary: s)
  case Nil
  then show ?case by simp
next
  case (Cons b bs)
  obtain m where m: "region_at s b m" "meets a e m" "\<not> surrounds a e m"
    using Cons.prems(3) [of b] by auto
  obtain s1 where s1: "unmap_one vk a e b s = Ret s1" "unmapped a e b m s s1"
    using unmap_one_trim [OF Cons.prems(1) m] .
  have same: "region_at s1 b' m' = region_at s b' m'" if b': "b' \<in> set bs" for b' m'
  proof -
    obtain m'' where "region_at s b' m''" "meets a e m''"
      using Cons.prems(3) [of b'] b' by auto
    then have "b' < e" "b' \<noteq> b"
      using region_at_base [OF Cons.prems(1)] b' Cons.prems(2) by (auto simp: meets_def)
    then show ?thesis using s1(2) by (simp add: unmapped_def)
  qed
  have "\<exists>s'. unmap_each vk a e bs s1 = Ret s' \<and> maps_wf s' \<and>
    (\<forall>x. flat s' x = (if a \<le> x \<and> x < e \<and> (\<exists>b \<in> set bs. \<exists>m. region_at s1 b m \<and> inside m x)
                     then None else flat s1 x))"
    using Cons.prems(2,3) s1(2) same by (intro Cons.IH) (auto simp: unmapped_def)
  then obtain s' where s': "unmap_each vk a e bs s1 = Ret s'" "maps_wf s'"
    "\<And>x. flat s' x = (if a \<le> x \<and> x < e \<and> (\<exists>b \<in> set bs. \<exists>m. region_at s1 b m \<and> inside m x)
                     then None else flat s1 x)"
    by blast
  have "flat s' x = (if a \<le> x \<and> x < e \<and> (\<exists>b' \<in> set (b # bs). \<exists>m. region_at s b' m \<and> inside m x)
                     then None else flat s x)" for x
  proof -
    have 1: "(\<exists>b' \<in> set (b # bs). \<exists>m. region_at s b' m \<and> inside m x) \<longleftrightarrow>
        inside m x \<or> (\<exists>b \<in> set bs. \<exists>m. region_at s1 b m \<and> inside m x)"
      using m(1) region_at_fun same by auto
    have 2: "flat s1 x = (if inside m x \<and> a \<le> x \<and> x < e then None else flat s x)"
      using s1(2) by (simp add: unmapped_def)
    show ?thesis
      unfolding s'(3) 1 2 by auto
  qed
  then show ?case
    using s1(1) s'(1,2) by auto
qed

lemma overlapping_bases_eq:
  "\<forall>(b, k) \<in> set es. om_get slab k \<noteq> None \<Longrightarrow>
    overlapping_bases a slab es =
      Ret (map fst (filter (\<lambda>(b, k). a < bottom_addr (the (om_get slab k))) es))"
  by (induction a slab es rule: overlapping_bases.induct) (auto simp: om_index_def)

lemma overlapping_bases_wf:
  assumes wf: "maps_wf s"
  obtains bs where "overlapping_bases a (mem_slab s) (om_range (maps s) 0 e) = Ret bs" "distinct bs"
    "\<And>b. b \<in> set bs \<longleftrightarrow> (\<exists>m. region_at s b m \<and> meets a e m)"
proof -
  let ?es = "om_range (maps s) 0 e"
  let ?bs = "map fst (filter (\<lambda>(b, k). a < bottom_addr (the (om_get (mem_slab s) k))) ?es)"
  have mem: "(b, k) \<in> set ?es \<longleftrightarrow> om_get (maps s) b = Some k \<and> b < e" for b k
    using om_range_get [OF wf_ok(1) [OF wf], of b k 0 e] by simp
  have "\<forall>(b, k) \<in> set ?es. om_get (mem_slab s) k \<noteq> None"
    using mem wf_entry [OF wf] by fastforce
  then have r: "overlapping_bases a (mem_slab s) ?es = Ret ?bs"
    by (rule overlapping_bases_eq)
  have "distinct (map fst ?es)"
    using om.entries_distinct [OF wf_ok(1) [OF wf]]
    unfolding om_range_def by (simp add: distinct_map_filter)
  then have d: "distinct ?bs"
    by (simp add: distinct_map_filter)
  have "b \<in> set ?bs \<longleftrightarrow> (\<exists>k. om_get (maps s) b = Some k \<and> b < e \<and> a < bottom_addr (the (om_get (mem_slab s) k)))" for b
    using mem by force
  also have "\<dots> b \<longleftrightarrow> (\<exists>m. region_at s b m \<and> meets a e m)" for b
    using wf_entry [OF wf, of b] unfolding region_at_def meets_def by fastforce
  finally show ?thesis
    using that r d by blast
qed

text \<open>A region that surrounds the range is the only one that meets it.\<close>

lemma surrounds_unique:
  assumes wf: "maps_wf s" and r: "region_at s b m" "region_at s b' m'"
    and "surrounds a e m" "meets a e m'"
  shows "b' = b"
proof (rule ccontr)
  assume "b' \<noteq> b"
  then have "base_addr m < base_addr m' \<or> base_addr m' < base_addr m"
    using r region_at_base [OF wf] by auto
  moreover have "region_before m m'" if "base_addr m < base_addr m'"
    using that r wf_before [OF wf] unfolding region_at_def by blast
  moreover have "region_before m' m" if "base_addr m' < base_addr m"
    using that r wf_before [OF wf] unfolding region_at_def by blast
  moreover have "mem_wf m" "mem_wf m'"
    using r wf_region [OF wf] unfolding region_at_def by blast+
  ultimately show False
    using assms(4,5)
    by (auto simp: region_before_def surrounds_def meets_def word_less_nat_alt unat_bottom)
qed

lemma unmap_each_split:
  assumes wf: "maps_wf s" and d: "distinct bs" and r: "region_at s b m" and sur: "surrounds a e m"
    and ae: "a \<le> e" and bs: "\<And>b. b \<in> set bs \<longleftrightarrow> (\<exists>m. region_at s b m \<and> meets a e m)"
  shows "unmap_each vk a e bs s = unmap_one vk a e b s"
proof -
  have "meets a e m"
    using sur ae by (auto simp: surrounds_def meets_def)
  then have "b \<in> set bs" "\<And>b'. b' \<in> set bs \<Longrightarrow> b' = b"
    using bs r surrounds_unique [OF wf r _ sur] by blast+
  then have "set bs = {b}"
    by blast
  then have "bs = [b]"
    using d distinct_card [OF d] by (cases bs) (auto simp: subset_singleton_iff)
  then show ?thesis
    by (cases "unmap_one vk a e b s") simp_all
qed

lemma unmap_range_flat:
  assumes n: "unat a + unat n < 2 ^ 64"
  shows "(a \<le> x \<and> x < a + n) = in_range a (unat n) x"
  using n by (simp add: in_range_def word_le_nat_alt word_less_nat_alt unat_add64)

lemma unmap_each_wf:
  assumes wf: "maps_wf s" and vk: "vacant_key vk" and ae: "a \<le> e"
    and name: "\<forall>b m. region_at s b m \<and> surrounds a e m \<longrightarrow> name_map s (tail_name m e) = None"
    and d: "distinct bs" and bs: "\<And>b. b \<in> set bs \<longleftrightarrow> (\<exists>m. region_at s b m \<and> meets a e m)"
  shows "\<exists>s'. unmap_each vk a e bs s = Ret s' \<and> maps_wf s' \<and>
    (\<forall>x. flat s' x = (if a \<le> x \<and> x < e then None else flat s x))"
proof (cases "\<exists>b m. region_at s b m \<and> surrounds a e m")
  case True
  then obtain b m where r: "region_at s b m" "surrounds a e m"
    by blast
  obtain s' where s': "unmap_one vk a e b s = Ret s'" "maps_wf s'"
      "\<And>x. flat s' x = (if inside m x \<and> a \<le> x \<and> x < e then None else flat s x)"
    using unmap_one_split [OF wf r ae vk] name r by blast
  have "a \<le> x \<Longrightarrow> x < e \<Longrightarrow> inside m x" for x
    using r(2) by (auto simp: surrounds_def inside_def)
  then show ?thesis
    using s' unmap_each_split [OF wf d r ae bs, of vk] by auto
next
  case False
  have in_bs: "\<exists>b \<in> set bs. \<exists>m. region_at s b m \<and> inside m x"
    if x: "flat s x \<noteq> None" "a \<le> x" "x < e" for x
  proof -
    obtain b m where r: "region_at s b m" "inside m x"
      using x(1) region_at_inside [OF wf, of x] by blast
    then have "meets a e m"
      using x(2,3) by (auto simp: meets_def inside_def)
    then show ?thesis
      using r bs by blast
  qed
  have "\<exists>m. region_at s b m \<and> meets a e m \<and> \<not> surrounds a e m" if "b \<in> set bs" for b
    using that bs False by blast
  then obtain s' where s': "unmap_each vk a e bs s = Ret s'" "maps_wf s'"
      "\<And>x. flat s' x = (if a \<le> x \<and> x < e \<and> (\<exists>b \<in> set bs. \<exists>m. region_at s b m \<and> inside m x)
        then None else flat s x)"
    using unmap_each_trim [OF wf d, of a e vk] by blast
  have "flat s' x = (if a \<le> x \<and> x < e then None else flat s x)" for x
    using in_bs [of x] unfolding s'(3) by (cases "flat s x") auto
  then show ?thesis
    using s'(1,2) by blast
qed

text \<open>
C3: \<open>unmap_range\<close> has the semantics of \<^verbatim>\<open>munmap\<close>. On a well-formed state, when the name it would
give to the tail of a region it splits is not in use, it never panics, afterwards exactly the
addresses of the range are unmapped, every other address has the permission and byte it had, and
the state is well-formed. A range that would run past the end of the address space is ignored.
\<close>

theorem unmap_range_correct:
  assumes wf: "maps_wf s" and vk: "vacant_key vk"
    and name: "\<forall>b m. region_at s b m \<and> surrounds a (a + n) m \<longrightarrow> name_map s (tail_name m (a + n)) = None"
  shows "if unat a + unat n < 2 ^ 64
    then \<exists>s'. unmap_range vk a n s = Ret s' \<and> maps_wf s' \<and>
      (\<forall>x. flat s' x = (if in_range a (unat n) x then None else flat s x))
    else unmap_range vk a n s = Ret s"
proof (cases "unat a + unat n < 2 ^ 64")
  case True
  have ae: "a \<le> a + n"
    using True by (simp add: word_le_nat_alt unat_add64)
  obtain bs where bs: "overlapping_bases a (mem_slab s) (om_range (maps s) 0 (a + n)) = Ret bs"
      "distinct bs" "\<And>b. b \<in> set bs \<longleftrightarrow> (\<exists>m. region_at s b m \<and> meets a (a + n) m)"
    using overlapping_bases_wf [OF wf, of a "a + n"] by metis
  then show ?thesis
    using True unmap_each_wf [OF wf vk ae name bs(2,3)] unmap_range_flat [OF True]
    by (auto simp: unmap_range_def checked_add_def)
qed (simp add: unmap_range_def checked_add_def)

theorem unmap_range_correct_witness:
  "\<exists>s'. unmap_range next_key 0x1005 2 two_maps = Ret s' \<and> maps_wf s' \<and>
    (\<forall>x. flat s' x = (if in_range 0x1005 2 x then None else flat two_maps x))"
proof -
  have "name_map two_maps (tail_name m e) = None" if "region_at two_maps b m" for b m e
    using that by (auto simp: region_at_def two_maps_get two_maps_slab(2) tail_name_def)
  then have "\<forall>b m. region_at two_maps b m \<and> surrounds 0x1005 (0x1005 + 2) m \<longrightarrow>
      name_map two_maps (tail_name m (0x1005 + 2)) = None"
    by blast
  from unmap_range_correct [OF two_maps_wf vacant_next_key this] show ?thesis
    by (simp split del: if_split)
qed

text \<open>
C20: When the name for the tail is in use, the split loses the tail: \<open>unmap_range\<close> does not panic,
but every address of the region from the start of the range on is unmapped, past the end of the
range too.
\<close>

theorem unmap_range_loses_tail:
  assumes wf: "maps_wf s" and n: "unat a + unat n < 2 ^ 64"
    and r: "region_at s b m" "surrounds a (a + n) m" and name: "name_map s (tail_name m (a + n)) \<noteq> None"
  shows "\<exists>s'. unmap_range vk a n s = Ret s' \<and>
    (\<forall>x. flat s' x = (if inside m x \<and> a \<le> x then None else flat s x))"
proof -
  let ?e = "a + n"
  have ae: "a \<le> ?e"
    using n by (simp add: word_le_nat_alt unat_add64)
  obtain bs where bs: "overlapping_bases a (mem_slab s) (om_range (maps s) 0 ?e) = Ret bs"
      "distinct bs" "\<And>b. b \<in> set bs \<longleftrightarrow> (\<exists>m. region_at s b m \<and> meets a ?e m)"
    using overlapping_bases_wf [OF wf, of a ?e] by metis
  obtain s' where s': "unmap_one vk a ?e b s = Ret s'"
      "\<And>x. flat s' x = (if inside m x \<and> a \<le> x then None else flat s x)"
    using unmap_one_lost [OF wf r ae name, of vk] by metis
  then show ?thesis
    using n bs(1) unmap_each_split [OF wf bs(2) r ae bs(3), of vk]
    by (simp add: unmap_range_def checked_add_def)
qed

text \<open>The small address space with a third region, named as the tail of the second would be.\<close>

definition three_maps :: maps where
  "three_maps = snd (create_map next_key ''b_1007'' 0x2000 4 PERM_READ two_maps)"

lemma tail_name_1007: "tail_name (fresh_region ''b'' b n p) 0x1007 = ''b_1007''"
  by (simp add: tail_name_def fmt_hex_def fmt_radix.simps digit_char_def char_of_def bit_simps)

lemma three_maps_facts:
  "maps_wf three_maps" "name_map three_maps ''b_1007'' \<noteq> None"
  "region_at three_maps 0x1004 (fresh_region ''b'' 0x1004 8 PERM_READ_WRITE)"
proof -
  have f: "free_range two_maps 0x2000 (unat 4)" "name_map two_maps ''b_1007'' = None"
    by (auto simp: free_range_def two_maps_get two_maps_slab(2))
  have "om_get (maps two_maps) 0x1004 = Some 1"
    using wf_region_base [OF two_maps_wf, of 1] by (simp add: two_maps_get)
  moreover obtain t where "create_map next_key ''b_1007'' 0x2000 4 PERM_READ two_maps =
      (Inr (next_key (mem_slab two_maps)),
       (add_region (next_key (mem_slab two_maps)) (fresh_region ''b_1007'' 0x2000 4 PERM_READ) two_maps)
         \<lparr>tlb := t, code_writes := if perm_can_execute PERM_READ
            then log_write (code_writes two_maps) 0x2000 4 else code_writes two_maps\<rparr>)"
      and w: "maps_wf (add_region (next_key (mem_slab two_maps)) (fresh_region ''b_1007'' 0x2000 4 PERM_READ) two_maps)"
    by (rule create_map_free [OF two_maps_wf vacant_next_key _ f]) simp_all
  then have o: "three_maps =
       (add_region (next_key (mem_slab two_maps)) (fresh_region ''b_1007'' 0x2000 4 PERM_READ) two_maps)
         \<lparr>tlb := t, code_writes := if perm_can_execute PERM_READ
            then log_write (code_writes two_maps) 0x2000 4 else code_writes two_maps\<rparr>"
    by (simp add: three_maps_def)
  ultimately show "maps_wf three_maps" "name_map three_maps ''b_1007'' \<noteq> None"
    "region_at three_maps 0x1004 (fresh_region ''b'' 0x1004 8 PERM_READ_WRITE)"
    using w two_maps_wf unfolding o
    by (simp_all add: region_at_def two_maps_slab(1) next_key_def)
qed

theorem unmap_range_loses_tail_witness:
  "\<exists>s'. unmap_range next_key 0x1005 2 three_maps = Ret s' \<and> flat s' 0x100A = None"
proof -
  let ?m = "fresh_region ''b'' 0x1004 8 PERM_READ_WRITE"
  have "\<exists>s'. unmap_range next_key 0x1005 2 three_maps = Ret s' \<and>
      (\<forall>x. flat s' x = (if inside ?m x \<and> 0x1005 \<le> x then None else flat three_maps x))"
    by (rule unmap_range_loses_tail [OF three_maps_facts(1) _ three_maps_facts(3)])
      (use three_maps_facts(2) tail_name_1007 in \<open>simp_all add: surrounds_def\<close>)
  then obtain s' where "unmap_range next_key 0x1005 2 three_maps = Ret s'"
      "flat s' 0x100A = (if inside ?m 0x100A \<and> 0x1005 \<le> (0x100A :: u64) then None else flat three_maps 0x100A)"
    by blast
  then show ?thesis
    by (simp add: inside_def)
qed

text \<open>
C21: \<open>dealloc\<close> by base address and \<open>free\<close> by name both remove exactly the region and keep the state
well-formed. They differ in the log for the instruction cache: \<open>dealloc\<close> logs the range of an
executable region, \<open>free\<close> logs nothing.
\<close>

theorem dealloc_free_correct:
  assumes wf: "maps_wf s" and k: "om_get (mem_slab s) k = Some m"
  shows "maps_wf (dealloc (base_addr m) s) \<and> maps_wf (maps_free (mem_name m) s) \<and>
    flat (dealloc (base_addr m) s) = (\<lambda>x. if inside m x then None else flat s x) \<and>
    flat (maps_free (mem_name m) s) = (\<lambda>x. if inside m x then None else flat s x) \<and>
    code_writes (dealloc (base_addr m) s) =
      (if can_execute m then log_write (code_writes s) (base_addr m) (mem_size m) else code_writes s) \<and>
    code_writes (maps_free (mem_name m) s) = code_writes s"
proof -
  obtain t t' where
    "dealloc (base_addr m) s = (remove_region k m s)\<lparr>tlb := t, code_writes :=
      if can_execute m then log_write (code_writes s) (base_addr m) (mem_size m) else code_writes s\<rparr>"
    "maps_free (mem_name m) s = (remove_region k m s)\<lparr>tlb := t'\<rparr>"
    using dealloc_eq [OF wf k] maps_free_eq [OF wf k] by metis
  then show ?thesis
    using remove_region_wf [OF wf k] flat_remove_region [OF wf k]
    by (simp add: fun_eq_iff remove_region_def)
qed

theorem dealloc_free_correct_witness:
  "flat (dealloc 0x1004 two_maps) 0x1004 = None \<and> flat (maps_free ''b'' two_maps) 0x1004 = None"
  using dealloc_free_correct [OF two_maps_wf, of 1 "fresh_region ''b'' 0x1004 8 PERM_READ_WRITE"]
  by (simp add: two_maps_get two_maps_inside in_range_def)

end
