(* ===== verification/Maps_Memory.thy ===== *)
theory Maps_Memory
  imports Maps_Create
begin

section \<open>Memory as the emulated program sees it\<close>

text \<open>
  The properties of the address lookups, the scalar accesses and the byte-wise writes of the
  manager, stated over the abstract memory \<open>flat\<close> and over the public operations.
\<close>

text \<open>
C6: The look-aside buffer is transparent. Whatever it holds, both address lookups return the key
of the one region that contains the address, or nothing when no region does, and change nothing
but the buffer itself.
\<close>

theorem tlb_transparent:
  assumes "maps_wf s"
  shows "\<exists>t t' k. get_mem_by_addr a s = (k, s\<lparr>tlb := t\<rparr>) \<and> get_mem_by_addr_mut a s = (k, s\<lparr>tlb := t'\<rparr>) \<and>
    (\<forall>k'. k = Some k' \<longleftrightarrow> (\<exists>m. om_get (mem_slab s) k' = Some m \<and> inside m a))"
  using get_mem_by_addr_wf [OF assms, of a] get_mem_by_addr_mut_wf [OF assms, of a]
    search_maps_iff [OF assms, of a] by metis

theorem tlb_transparent_witness:
  "\<exists>t. get_mem_by_addr 0x1005 (two_maps\<lparr>tlb := \<lambda>i. tlb_entry_set_mem (LPF_OF 0x1005) 0 (tlb_new i)\<rparr>) =
     (Some 1, two_maps\<lparr>tlb := t\<rparr>)"
proof -
  let ?s = "two_maps\<lparr>tlb := \<lambda>i. tlb_entry_set_mem (LPF_OF 0x1005) 0 (tlb_new i)\<rparr>"
  obtain t k where "get_mem_by_addr 0x1005 ?s = (k, ?s\<lparr>tlb := t\<rparr>)"
      "\<forall>k'. k = Some k' \<longleftrightarrow> (\<exists>m. om_get (mem_slab ?s) k' = Some m \<and> inside m 0x1005)"
    using tlb_transparent [of ?s "0x1005"] two_maps_wf by auto
  moreover from this(2) have "k = Some 1"
    by (simp add: two_maps_slab inside_def)
  ultimately show ?thesis
    by auto
qed

text \<open>
C7: A scalar read of any width never panics. It returns the little-endian value of the bytes at
the address when they are reachable, that is when they lie in one readable region or in two
readable regions that touch, and nothing otherwise; it changes nothing but the look-aside buffer.
\<close>

theorem read_scalar_correct:
  assumes "maps_wf s" "scalar_width TYPE('a::len word)"
  shows "\<exists>t. read_scalar a s =
    Ret (if reachable perm_can_read s a (scalar_size TYPE('a word))
         then Some (from_le_bytes (flat_bytes s a (scalar_size TYPE('a word))) :: 'a word) else None,
         s\<lparr>tlb := t\<rparr>)"
  using read_scalar_wf [OF assms] by blast

lemma two_maps_reachable:
  "reachable perm_can_read two_maps 0x1002 4" "reachable perm_can_write two_maps 0x1002 4"
  "\<not> reachable perm_can_write two_maps 0x100A 4"
  by (simp_all add: reachable_def two_maps_ex two_maps_inside read_write_allowed in_range_def
      last_addr_def)

theorem read_scalar_correct_witness:
  "\<exists>t. read_scalar 0x1002 two_maps =
     Ret (Some (from_le_bytes (flat_bytes two_maps 0x1002 4) :: u32), two_maps\<lparr>tlb := t\<rparr>)"
  using read_scalar_correct [OF two_maps_wf, where 'a = 32 and a = "0x1002"] two_maps_reachable
  by (simp add: scalar_width_def)

text \<open>
C1: A scalar write of any width never panics. When the bytes are reachable for writing it
succeeds, the abstract memory is the old one with exactly the little-endian bytes of the value
replaced, permissions and regions as they were, and the state stays well-formed. Otherwise it
fails and changes nothing but the look-aside buffer: a write that would cross into a hole or a
read-only region is not done in part.
\<close>

theorem write_scalar_correct:
  fixes v :: "'a::len word"
  assumes "maps_wf s" "scalar_width TYPE('a word)"
  shows "if reachable perm_can_write s a (scalar_size TYPE('a word))
    then \<exists>s'. write_scalar a v s = Ret (True, s') \<and> maps_wf s' \<and> same_shape s s' \<and>
      flat s' = flat_update a (to_le_bytes v) (flat s)
    else \<exists>t. write_scalar a v s = Ret (False, s\<lparr>tlb := t\<rparr>)"
proof (cases "reachable perm_can_write s a (scalar_size TYPE('a word))")
  case True
  then obtain s' where "write_scalar a v s = Ret (True, s')" "wrote a (to_le_bytes v) s s'"
    using write_scalar_wf [OF assms, of a v] by auto
  then show ?thesis
    using True by (simp add: wrote_def)
next
  case False
  then show ?thesis
    using write_scalar_wf [OF assms, of a v] by simp
qed

theorem write_scalar_correct_witness:
  "(\<exists>s'. write_scalar 0x1002 (0xDEADBEEF :: u32) two_maps = Ret (True, s') \<and> maps_wf s' \<and>
      flat s' = flat_update 0x1002 [0xEF, 0xBE, 0xAD, 0xDE] (flat two_maps)) \<and>
   (\<exists>t. write_scalar 0x100A (0xDEADBEEF :: u32) two_maps = Ret (False, two_maps\<lparr>tlb := t\<rparr>))"
proof -
  have "to_le_bytes (0xDEADBEEF :: u32) = [0xEF, 0xBE, 0xAD, 0xDE]"
    by code_simp
  then show ?thesis
    using write_scalar_correct [OF two_maps_wf, of "0x1002" "0xDEADBEEF :: u32"]
      write_scalar_correct [OF two_maps_wf, of "0x100A" "0xDEADBEEF :: u32"] two_maps_reachable
    by (simp add: scalar_width_def) blast
qed

text \<open>
What is written is read back: after a scalar write to bytes that are reachable for writing
and for reading, a read of the same width at the same address returns the value written, also
when the bytes lie in two regions.
\<close>

theorem read_after_write:
  fixes v :: "'a::len word"
  assumes wf: "maps_wf s" and sw: "scalar_width TYPE('a word)"
    and w: "reachable perm_can_write s a (scalar_size TYPE('a word))"
    and r: "reachable perm_can_read s a (scalar_size TYPE('a word))"
  shows "\<exists>s' s''. write_scalar a v s = Ret (True, s') \<and> read_scalar a s' = Ret (Some v, s'')"
proof -
  let ?n = "scalar_size TYPE('a word)"
  obtain s' where s': "write_scalar a v s = Ret (True, s')" "wrote a (to_le_bytes v) s s'"
    using write_scalar_wf [OF wf sw, of a v] w by auto
  have n: "?n < 2 ^ 64" "length (to_le_bytes v) = ?n"
    using scalar_size_bounds [OF sw] by simp_all
  have "flat_bytes s' a ?n = to_le_bytes v"
    using flat_bytes_update [of a "to_le_bytes v" s s'] s'(2) n r reachable_mapped [OF wf r _ n(1)]
    by (fastforce simp: wrote_def reachable_def)
  moreover have "reachable perm_can_read s' a ?n"
    using s'(2) r same_shape_reachable unfolding wrote_def by blast
  moreover obtain t where "read_scalar a s' =
      Ret (if reachable perm_can_read s' a ?n then Some (from_le_bytes (flat_bytes s' a ?n) :: 'a word)
           else None, s'\<lparr>tlb := t\<rparr>)"
    using read_scalar_wf [OF _ sw] s'(2) unfolding wrote_def by blast
  ultimately show ?thesis
    using s'(1) sw by simp
qed

theorem read_after_write_witness:
  "\<exists>s' s''. write_scalar 0x1002 (0xDEADBEEF :: u32) two_maps = Ret (True, s') \<and>
     read_scalar 0x1002 s' = Ret (Some (0xDEADBEEF :: u32), s'')"
  using read_after_write [OF two_maps_wf, of "0x1002" "0xDEADBEEF :: u32"] two_maps_reachable
  by (simp add: scalar_width_def)

text \<open>
\<open>write_bytes\<close> never panics. A range that would run past the end of the address space is
refused and nothing changes. Otherwise it writes the longest prefix of the data whose addresses
are all writable, over as many regions as that takes, and reports success exactly when that is
all of the data; so a failure in the middle leaves the bytes before it written.
\<close>

theorem write_bytes_correct:
  assumes "maps_wf s" "length data < 2 ^ 64"
  shows "if unat a + length data \<le> 2 ^ 64
    then \<exists>s'. maps_write_bytes a data s = Ret (writable_prefix s a (length data) = length data, s') \<and>
      maps_wf s' \<and> same_shape s s' \<and>
      flat s' = flat_update a (take (writable_prefix s a (length data)) data) (flat s)
    else maps_write_bytes a data s = Ret (False, s)"
proof (cases "unat a + length data \<le> 2 ^ 64")
  case True
  then obtain s' where
    "maps_write_bytes a data s = Ret (writable_prefix s a (length data) = length data, s')"
    "wrote a (take (writable_prefix s a (length data)) data) s s'"
    using maps_write_bytes_wf [OF assms, of a] by auto
  then show ?thesis
    using True by (simp add: wrote_def)
next
  case False
  then show ?thesis
    using maps_write_bytes_wf [OF assms, of a] by simp
qed

lemma two_maps_writable:
  "writable two_maps a \<longleftrightarrow> in_range 0x1000 12 a"
proof (cases "flat two_maps a")
  case None
  then have "\<not> inside m a" if "om_get (mem_slab two_maps) k = Some m" for k m
    using that flat_None_iff [OF two_maps_wf] search_maps_None_iff [OF two_maps_wf] by blast
  from this [of 0 "fresh_region ''a'' 0x1000 4 PERM_READ_WRITE"]
    this [of 1 "fresh_region ''b'' 0x1004 8 PERM_READ_WRITE"]
  have "\<not> in_range 0x1000 4 a" "\<not> in_range 0x1004 8 a"
    by (simp_all add: two_maps_get two_maps_inside)
  then show ?thesis
    using None by (auto simp: writable_def in_range_def)
next
  case (Some pb)
  then have "flat two_maps a = Some (fst pb, snd pb)"
    by simp
  then obtain k m where "om_get (mem_slab two_maps) k = Some m" "inside m a" "fst pb = permission m"
    by (rule flat_SomeE [OF two_maps_wf])
  then have "perm_can_write (fst pb)" "in_range 0x1000 12 a"
    by (auto simp: two_maps_get two_maps_inside read_write_allowed in_range_def)
  then show ?thesis
    using Some by (simp add: writable_def case_prod_beta)
qed

theorem write_bytes_correct_witness:
  "\<exists>s'. maps_write_bytes 0x100A [1, 2, 3] two_maps = Ret (False, s') \<and> maps_wf s' \<and>
     flat s' = flat_update 0x100A [1, 2] (flat two_maps)"
proof -
  have "writable_prefix two_maps 0x100A 3 = 2"
    by (simp add: writable_prefix_def two_maps_writable in_range_def upt_rec)
  then show ?thesis
    using write_bytes_correct [OF two_maps_wf, of "[1, 2, 3]" "0x100A"]
    by (auto simp: numeral_3_eq_3)
qed

end
