(* ===== verification/Maps_Search.thy ===== *)
theory Maps_Search
  imports Maps_Unmap Maps_Memory
begin

section \<open>Checking, naming and allocating\<close>

text \<open>
  The operations that inspect the whole address space before something is changed: the check of a
  range before a write, the choice of an unused name, the consistency check \<open>mem_test\<close>, and the
  search for a free range with the two operations that map what it found.
\<close>

subsection \<open>Checking a range\<close>

lemma writable_inside:
  "maps_wf s \<Longrightarrow> om_get (mem_slab s) k = Some m \<Longrightarrow> inside m x \<Longrightarrow>
     writable s x = perm_can_write (permission m)"
  by (simp add: writable_def flat_inside)

lemma writable_search: "writable s x \<Longrightarrow> search_maps x s \<noteq> None"
  by (auto simp: writable_def flat_def split: option.splits bind_splits)

lemma validate_from_stop:
  assumes wf: "maps_wf s" and c: "c < e" and w: "\<not> writable s c"
  shows "\<not> validate_from c e s"
proof -
  have "\<not> perm_can_write (permission m) \<or> c < b \<or> bottom_addr m \<le> c"
    if "om_last_le (maps s) c = Some (b, k)" "om_get (mem_slab s) k = Some m" for b k m
  proof (rule ccontr)
    assume "\<not> ?thesis"
    moreover have "base_addr m = b"
      using that wf_entry [OF wf, of b k] om.last_le_Some [OF wf_ok(1) [OF wf], of c b k] by auto
    ultimately have "inside m c" "perm_can_write (permission m)"
      by (auto simp: inside_def)
    then show False
      using writable_inside [OF wf that(2)] w by simp
  qed
  then show ?thesis
    using c by (subst validate_from.simps) (auto simp: Let_def split: option.split)
qed

lemma validate_from_step:
  assumes wf: "maps_wf s" and c: "c < e" and w: "writable s c"
  obtains c' where "validate_from c e s = validate_from c' e s" "c < c'" "c' \<le> e"
    "\<And>x. c \<le> x \<Longrightarrow> x < c' \<Longrightarrow> writable s x"
proof -
  obtain k m where m: "om_get (mem_slab s) k = Some m" "inside m c"
    using writable_search [OF w] search_maps_iff [OF wf] by blast
  have pw: "perm_can_write (permission m)"
    using writable_inside [OF wf m] w by simp
  have in_m: "\<not> c < base_addr m" "\<not> bottom_addr m \<le> c"
    using m(2) by (auto simp: inside_def)
  let ?c = "if bottom_addr m \<le> e then bottom_addr m else e"
  have "writable s x" if "c \<le> x" "x < ?c" for x
  proof -
    have "inside m x"
      using that m(2) by (auto simp: inside_def split: if_splits)
    then show ?thesis
      using writable_inside [OF wf m(1)] pw by simp
  qed
  moreover have "validate_from c e s = validate_from ?c e s"
    using c last_le_inside [OF wf m] m(1) pw in_m by (subst validate_from.simps) (simp add: Let_def)
  moreover have "c < ?c" "?c \<le> e"
    using c m(2) by (auto simp: inside_def)
  ultimately show ?thesis
    using that [of ?c] by blast
qed

lemma validate_from_iff:
  assumes wf: "maps_wf s"
  shows "validate_from c e s \<longleftrightarrow> (\<forall>x. c \<le> x \<and> x < e \<longrightarrow> writable s x)"
proof (induction "unat e - unat c" arbitrary: c rule: less_induct)
  case less
  show ?case
  proof (cases "c < e")
    case False
    then show ?thesis
      by (subst validate_from.simps) (auto simp: linorder_not_less)
  next
    case True
    show ?thesis
    proof (cases "writable s c")
      case False
      then show ?thesis
        using validate_from_stop [OF wf True] True by blast
    next
      case w: True
      obtain c' where c': "validate_from c e s = validate_from c' e s" "c < c'" "c' \<le> e"
          "\<And>x. c \<le> x \<Longrightarrow> x < c' \<Longrightarrow> writable s x"
        using validate_from_step [OF wf True w] by metis
      have "unat e - unat c' < unat e - unat c"
        using c'(2,3) True by (simp add: word_less_nat_alt word_le_nat_alt)
      from less [OF this] show ?thesis
        using c' by (meson linorder_not_le order.strict_implies_order order.trans)
    qed
  qed
qed

text \<open>
\<open>validate_write_range\<close> terminates and decides what its contract says: an empty range is valid; a
non-empty range is valid exactly when it does not start at address zero, does not reach the end
of the address space and every one of its addresses is mapped and writable, holes and read-only
regions anywhere inside it included.
\<close>

theorem validate_write_range_iff:
  assumes "maps_wf s"
  shows "validate_write_range a n s \<longleftrightarrow>
    n = 0 \<or> a \<noteq> 0 \<and> unat a + unat n < 2 ^ 64 \<and> (\<forall>x. in_range a (unat n) x \<longrightarrow> writable s x)"
  using validate_from_iff [OF assms, of a "a + n"] unmap_range_flat [of a n]
  by (auto simp: validate_write_range_def checked_add_def)

theorem validate_write_range_iff_witness:
  "validate_write_range 0x1001 11 two_maps \<and> \<not> validate_write_range 0x1001 12 two_maps"
proof -
  have "\<exists>x. in_range 0x1001 12 x \<and> \<not> in_range 0x1000 12 x"
    by (rule exI [of _ "0x100C"]) (simp add: in_range_def)
  then show ?thesis
    using validate_write_range_iff [OF two_maps_wf, of "0x1001" 11]
      validate_write_range_iff [OF two_maps_wf, of "0x1001" 12]
    by (auto simp: two_maps_writable in_range_def)
qed

subsection \<open>Names\<close>

lemma find_name_returns:
  assumes "names (prefix @ ''_'' @ fmt_i32 (of_nat (n + j))) = None"
  shows "\<exists>i \<le> j. find_name names prefix (of_nat n) = Some (prefix @ ''_'' @ fmt_i32 (of_nat (n + i))) \<and>
    names (prefix @ ''_'' @ fmt_i32 (of_nat (n + i))) = None"
  using assms
proof (induction j arbitrary: n)
  case 0
  then show ?case
    by (subst find_name.simps) simp
next
  case (Suc j)
  show ?case
  proof (cases "names (prefix @ ''_'' @ fmt_i32 (of_nat n)) = None")
    case True
    then show ?thesis
      by (intro exI [of _ 0], subst find_name.simps) simp
  next
    case False
    then have "find_name names prefix (of_nat n) = find_name names prefix (of_nat (Suc n))"
      by (subst find_name.simps) (auto simp: Let_def add.commute)
    then show ?thesis
      using Suc.IH [of "Suc n"] Suc.prems by (metis Suc_le_mono add_Suc_shift add_Suc_right)
  qed
qed

lemma unused_number:
  assumes "finite (dom names)" "card (dom names) < 2 ^ 31 - 1"
  shows "\<exists>j < 2 ^ 31 - 1. names (prefix @ ''_'' @ fmt_i32 (of_nat (1 + j))) = None"
proof (rule ccontr)
  let ?f = "\<lambda>j. prefix @ ''_'' @ fmt_i32 (of_nat (1 + j) :: u32)" and ?J = "{..< 2 ^ 31 - 1 :: nat}"
  assume "\<not> ?thesis"
  then have "?f ` ?J \<subseteq> dom names"
    by auto
  moreover have "inj_on ?f ?J"
  proof (rule inj_onI)
    fix i j assume "i \<in> ?J" "j \<in> ?J" "?f i = ?f j"
    then show "i = j"
      using fmt_i32_nat [of "1 + i"] fmt_i32_nat [of "1 + j"] by (simp add: fmt_radix_inject)
  qed
  ultimately have "card ?J \<le> card (dom names)"
    using card_inj_on_le assms(1) by blast
  then show False
    using assms(2) by simp
qed

text \<open>
\<open>unique_map_name\<close> returns, and what it returns is not the name of a map, as long as fewer than
\<open>2\<^sup>3\<^sup>1 - 1\<close> names are in use; the prefix itself is returned when it is free.
\<close>

theorem unique_map_name_fresh:
  assumes "finite (dom (name_map s))" "card (dom (name_map s)) < 2 ^ 31 - 1"
  shows "\<exists>n. unique_map_name prefix s = Some n \<and> \<not> exists_mapname n s \<and>
    (\<not> exists_mapname prefix s \<longrightarrow> n = prefix)"
proof (cases "exists_mapname prefix s")
  case True
  obtain j where "name_map s (prefix @ ''_'' @ fmt_i32 (of_nat (1 + j))) = None"
    using unused_number [OF assms, of prefix] by blast
  from find_name_returns [of "name_map s" prefix 1, OF this] show ?thesis
    using True by (auto simp: unique_map_name_def exists_mapname_def)
qed (simp add: unique_map_name_def)

theorem unique_map_name_fresh_witness:
  "\<exists>n. unique_map_name ''a'' two_maps = Some n \<and> \<not> exists_mapname n two_maps"
  using unique_map_name_fresh [of two_maps "''a''"] by (auto simp: two_maps_slab(2))

subsection \<open>Searching for a free range\<close>

lemma and_not_mask: "(x :: 'a::len word) AND NOT (mask n) = push_bit n (drop_bit n x)"
  by (rule bit_word_eqI) (auto simp: bit_simps)

lemma unat_clear_low:
  fixes x :: "'a::len word"
  shows "unat (push_bit n (drop_bit n x)) = unat x div 2 ^ n * 2 ^ n"
proof -
  have "unat x div 2 ^ n * 2 ^ n < 2 ^ LENGTH('a)"
    using unsigned_less [of x, where 'a = nat] by (meson div_times_less_eq_dividend le_less_trans)
  moreover have t: "take_bit LENGTH('a) (unat x) = unat x"
    by (simp add: take_bit_nat_eq_self_iff)
  ultimately show ?thesis
    unfolding unsigned_push_bit_eq unsigned_drop_bit_eq t
    by (simp add: push_bit_eq_mult drop_bit_eq_div take_bit_nat_eq_self_iff)
qed

lemma align_up_page:
  assumes "unat a + 0xFFF < 2 ^ 64"
  shows "unat (align_up a DEFAULT_ALIGNMENT) = (unat a + 0xFFF) div 0x1000 * 0x1000"
proof -
  have m: "(0xFFF :: u64) = mask 12"
    by (simp add: mask_eq_exp_minus_1)
  have u: "unat (a + mask 12) = unat a + 0xFFF"
    using assms by (simp add: unat_add64 flip: m)
  have "align_up a DEFAULT_ALIGNMENT = (a + mask 12) AND NOT (mask 12)"
    by (simp add: align_up_def DEFAULT_ALIGNMENT_def flip: m)
  then show ?thesis
    unfolding and_not_mask by (simp only: unat_clear_low u) simp
qed

lemma align_up_bounds:
  assumes "unat a + 0xFFF < 2 ^ 64"
  shows "unat a \<le> unat (align_up a DEFAULT_ALIGNMENT)"
    and "unat (align_up a DEFAULT_ALIGNMENT) < unat a + 0x1000"
    and "0x1000 dvd unat (align_up a DEFAULT_ALIGNMENT)"
  unfolding align_up_page [OF assms]
  using div_mult_mod_eq [of "unat a + 0xFFF" "0x1000"] mod_less_divisor [of "0x1000" "unat a + 0xFFF"]
  by (linarith, linarith, simp)

lemma align_up_aligned: "0x1000 dvd unat (align_up a DEFAULT_ALIGNMENT)"
proof -
  have m: "(0xFFF :: u64) = mask 12"
    by (simp add: mask_eq_exp_minus_1)
  have "align_up a DEFAULT_ALIGNMENT = (a + mask 12) AND NOT (mask 12)"
    by (simp add: align_up_def DEFAULT_ALIGNMENT_def flip: m)
  then show ?thesis
    unfolding and_not_mask by (simp only: unat_clear_low) simp
qed

lemma align_up_least:
  assumes "0x1000 dvd unat b" "unat a \<le> unat b" "unat a + 0xFFF < 2 ^ 64"
  shows "unat (align_up a DEFAULT_ALIGNMENT) \<le> unat b"
proof -
  obtain q where q: "unat b = 0x1000 * q"
    using assms(1) by (rule dvdE)
  then have "(unat a + 0xFFF) div 0x1000 \<le> q"
    using assms(2) by (simp add: less_mult_imp_div_less Suc_le_eq less_Suc_eq_le[symmetric])
  then show ?thesis
    by (simp add: align_up_page[OF assms(3)] q)
qed

text \<open>The ends of all regions leave room for rounding up to a page.\<close>

definition below_last_page :: "maps \<Rightarrow> bool" where
  "below_last_page s \<longleftrightarrow> (\<forall>k m. om_get (mem_slab s) k = Some m \<longrightarrow>
     unat (base_addr m) + length (mem m) + 0xFFF < 2 ^ 64)"

text \<open>Every region ends before the range or begins after it; no region crosses an address.\<close>

definition clear_of :: "maps \<Rightarrow> nat \<Rightarrow> nat \<Rightarrow> bool" where
  "clear_of s a n \<longleftrightarrow> (\<forall>k m. om_get (mem_slab s) k = Some m \<longrightarrow>
     unat (base_addr m) + length (mem m) \<le> a \<or> a + n < unat (base_addr m))"

definition not_across :: "maps \<Rightarrow> u64 \<Rightarrow> bool" where
  "not_across s a \<longleftrightarrow> (\<forall>k m. om_get (mem_slab s) k = Some m \<longrightarrow> base_addr m < a \<longrightarrow>
     unat (base_addr m) + length (mem m) \<le> unat a)"

lemma last_greatest:
  "sorted_wrt (<) (map fst es) \<Longrightarrow> p \<in> set es \<Longrightarrow> fst p \<le> fst (last (es :: ('k::linorder \<times> 'v) list))"
  by (induction es rule: rev_induct) (auto simp: sorted_wrt_append)

lemma last_below_spec:
  assumes "om_ok (maps s)"
  shows "last_below e s = None \<longleftrightarrow> (\<forall>b k. om_get (maps s) b = Some k \<longrightarrow> e \<le> b)"
    and "last_below e s = Some (b, k) \<Longrightarrow> om_get (maps s) b = Some k \<and> b < e \<and>
      (\<forall>b' k'. om_get (maps s) b' = Some k' \<longrightarrow> b' < e \<longrightarrow> b' \<le> b)"
proof -
  let ?es = "om_range (maps s) 0 e"
  have mem: "(b, k) \<in> set ?es \<longleftrightarrow> om_get (maps s) b = Some k \<and> b < e" for b k
    using om_range_get [OF assms, of b k 0 e] by simp
  have "sorted_wrt (<) (map fst ?es)"
    using assms unfolding om_ok_def om_range_def by (simp add: sorted_wrt_filter sorted_wrt_map)
  then have sorted: "fst p \<le> fst (last ?es)" if "p \<in> set ?es" for p
    using that last_greatest by blast
  show "last_below e s = None \<longleftrightarrow> (\<forall>b k. om_get (maps s) b = Some k \<longrightarrow> e \<le> b)"
    using mem unfolding last_below_def by (cases ?es) force+
  assume "last_below e s = Some (b, k)"
  then have "?es \<noteq> []" "last ?es = (b, k)"
    by (auto simp: last_below_def split: list.splits)
  then show "om_get (maps s) b = Some k \<and> b < e \<and>
      (\<forall>b' k'. om_get (maps s) b' = Some k' \<longrightarrow> b' < e \<longrightarrow> b' \<le> b)"
    using mem sorted last_in_set [of ?es] by fastforce
qed

lemma last_entry_end_above:
  assumes wf: "maps_wf s" and page: "below_last_page s" and k: "om_get (mem_slab s) k = Some m"
    and lt: "base_addr m < e"
  shows "unat (base_addr m) + length (mem m) \<le> unat (last_entry_end b0 e s)"
proof -
  have "om_get (maps s) (base_addr m) = Some k"
    using wf_region_base [OF wf k] .
  then obtain b' k' where l: "last_below e s = Some (b', k')"
    using last_below_spec(1) [OF wf_ok(1) [OF wf], of e] lt by (metis linorder_not_le not_None_eq surj_pair)
  note sp = last_below_spec(2) [OF wf_ok(1) [OF wf] l]
  obtain m' where m': "om_get (mem_slab s) k' = Some m'" "base_addr m' = b'"
    using wf_entry [OF wf] sp by blast
  have "base_addr m \<le> b'"
    using sp \<open>om_get (maps s) (base_addr m) = Some k\<close> lt by blast
  then have "unat (base_addr m) + length (mem m) \<le> unat b' + length (mem m')"
  proof (cases "base_addr m = b'")
    case True
    then show ?thesis
      using wf_distinct(1) [OF wf k m'(1)] m' k by (metis option.inject order.refl)
  next
    case False
    then have "region_before m m'"
      using \<open>base_addr m \<le> b'\<close> m'(2) by (intro wf_before [OF wf k m'(1)]) simp
    then show ?thesis
      using m'(2) by (simp add: region_before_def)
  qed
  moreover have "unat (b' + mem_size m') = unat b' + length (mem m')"
    using wf_region [OF wf m'(1)] m'(2) unat_mem_size [OF wf_region [OF wf m'(1)]]
    by (simp add: mem_wf_def unat_add64)
  moreover from this have "unat (b' + mem_size m') \<le> unat (align_up (b' + mem_size m') DEFAULT_ALIGNMENT)"
    using page m' by (intro align_up_bounds) (fastforce simp: below_last_page_def)
  ultimately have "unat (base_addr m) + length (mem m) \<le> unat (align_up (b' + mem_size m') DEFAULT_ALIGNMENT)"
    by simp
  then show ?thesis
    using l m'(1) by (simp add: last_entry_end_def max_def word_le_nat_alt)
qed

lemma clear_of_fast:
  assumes wf: "maps_wf s" and page: "below_last_page s"
    and gap: "unat (last_entry_end b0 e s) + n < unat e"
  shows "clear_of s (unat (last_entry_end b0 e s)) n"
  unfolding clear_of_def
proof (intro allI impI)
  fix k m assume k: "om_get (mem_slab s) k = Some m"
  show "unat (base_addr m) + length (mem m) \<le> unat (last_entry_end b0 e s) \<or>
      unat (last_entry_end b0 e s) + n < unat (base_addr m)"
    using last_entry_end_above [OF wf page k, of e b0] gap
    by (cases "base_addr m < e") (simp_all add: word_less_nat_alt)
qed

text \<open>
  What the scan keeps: the regions below the limit are still to come or end before the current
  position, and the regions to come begin at or after it.
\<close>

definition scan_inv :: "maps \<Rightarrow> u64 \<Rightarrow> u64 \<Rightarrow> (u64 \<times> nat) list \<Rightarrow> bool" where
  "scan_inv s e p es \<longleftrightarrow>
     sorted_wrt (<) (map fst es) \<and>
     (\<forall>(b, k) \<in> set es. om_get (maps s) b = Some k \<and> b < e \<and> p \<le> b) \<and>
     (\<forall>k m. om_get (mem_slab s) k = Some m \<longrightarrow> base_addr m < e \<longrightarrow>
        (base_addr m, k) \<in> set es \<or> unat (base_addr m) + length (mem m) \<le> unat p)"

lemma scan_inv_clear:
  assumes inv: "scan_inv s e p ((b, k) # es)" and gap: "unat p + n < unat b"
  shows "clear_of s (unat p) n"
  unfolding clear_of_def
proof (intro allI impI)
  fix k' m assume k': "om_get (mem_slab s) k' = Some m"
  have be: "b < e"
    using inv by (simp add: scan_inv_def)
  consider "e \<le> base_addr m" | "(base_addr m, k') \<in> set ((b, k) # es)"
    | "unat (base_addr m) + length (mem m) \<le> unat p"
    using inv k' unfolding scan_inv_def by (meson linorder_not_le)
  then show "unat (base_addr m) + length (mem m) \<le> unat p \<or> unat p + n < unat (base_addr m)"
  proof cases
    case 1
    then show ?thesis using gap be by (simp add: word_less_nat_alt word_le_nat_alt)
  next
    case 2
    then have "b \<le> base_addr m"
      using inv by (fastforce simp: scan_inv_def)
    then show ?thesis using gap by (simp add: word_le_nat_alt)
  qed simp
qed

lemma scan_inv_step:
  assumes wf: "maps_wf s" and inv: "scan_inv s e p ((b, k) # es)"
    and m: "om_get (mem_slab s) k = Some m"
  shows "scan_inv s e (b + mem_size m) es" "p \<le> b + mem_size m"
proof -
  have bk: "om_get (maps s) b = Some k" "p \<le> b"
    using inv by (simp_all add: scan_inv_def)
  then have bm: "base_addr m = b"
    using wf_entry [OF wf bk(1)] m by simp
  have u: "unat (b + mem_size m) = unat b + length (mem m)"
    using wf_region [OF wf m] bm unat_mem_size [OF wf_region [OF wf m]]
    by (simp add: mem_wf_def unat_add64)
  show "p \<le> b + mem_size m"
    using u bk(2) by (simp add: word_le_nat_alt)
  have "b + mem_size m \<le> b'" if "(b', k') \<in> set es" for b' k'
  proof -
    have b': "b < b'" "om_get (maps s) b' = Some k'"
      using inv that by (auto simp: scan_inv_def)
    obtain m' where "om_get (mem_slab s) k' = Some m'" "base_addr m' = b'"
      using wf_entry [OF wf b'(2)] by blast
    then have "region_before m m'"
      using b'(1) bm by (intro wf_before [OF wf m]) simp_all
    then show ?thesis
      using bm u \<open>base_addr m' = b'\<close> by (simp add: region_before_def word_le_nat_alt)
  qed
  moreover have "(base_addr m', k') \<in> set es \<or> unat (base_addr m') + length (mem m') \<le> unat (b + mem_size m)"
    if k': "om_get (mem_slab s) k' = Some m'" "base_addr m' < e" for k' m'
  proof -
    have "(base_addr m', k') \<in> set ((b, k) # es) \<or> unat (base_addr m') + length (mem m') \<le> unat p"
      using inv k' unfolding scan_inv_def by blast
    then consider "base_addr m' = b" "k' = k" | "(base_addr m', k') \<in> set es"
      | "unat (base_addr m') + length (mem m') \<le> unat p"
      by auto
    then show ?thesis
      using k' m u bk(2) by cases (auto simp: word_le_nat_alt)
  qed
  ultimately show "scan_inv s e (b + mem_size m) es"
    using inv by (fastforce simp: scan_inv_def)
qed

lemma scan_gaps_clear:
  assumes "maps_wf s" "scan_inv s e (prev + sz) es" "scan_gaps n (mem_slab s) prev sz es = Some a"
  shows "prev + sz \<le> a \<and> unat a + unat n < unat e \<and> clear_of s (unat a) (unat n)"
  using assms(2,3)
proof (induction es arbitrary: prev sz)
  case (Cons bk es)
  obtain b k where bk: "bk = (b, k)"
    by fastforce
  have k: "om_get (maps s) b = Some k" "b < e" "prev + sz \<le> b"
    using Cons.prems(1) by (simp_all add: scan_inv_def bk)
  obtain m where m: "om_get (mem_slab s) k = Some m"
    using wf_entry [OF assms(1) k(1)] by blast
  show ?case
  proof (cases "n < b - (prev + sz)")
    case True
    then have "unat (prev + sz) + unat n < unat b"
      using k(3) by (simp add: word_less_nat_alt unat_sub64)
    moreover have "a = prev + sz"
      using Cons.prems(2) True k(3) by (simp add: bk checked_sub_def)
    ultimately show ?thesis
      using scan_inv_clear [of s e "prev + sz" b k es "unat n"] Cons.prems(1) k(2)
      by (simp add: bk word_less_nat_alt)
  next
    case False
    then have "scan_gaps n (mem_slab s) b (mem_size m) es = Some a"
      using Cons.prems(2) k(3) m by (simp add: bk checked_sub_def)
    then show ?thesis
      using Cons.IH scan_inv_step [OF assms(1) _ m] Cons.prems(1) by (fastforce simp: bk)
  qed
qed simp

lemma scan_inv_init:
  assumes wf: "maps_wf s" and na: "not_across s b0"
  shows "scan_inv s e b0 (om_range (maps s) b0 e)"
proof -
  have mem: "(b, k) \<in> set (om_range (maps s) b0 e) \<longleftrightarrow> om_get (maps s) b = Some k \<and> b0 \<le> b \<and> b < e" for b k
    using om_range_get [OF wf_ok(1) [OF wf]] by blast
  have "sorted_wrt (<) (map fst (om_range (maps s) b0 e))"
    using wf_ok(1) [OF wf] unfolding om_ok_def om_range_def by (simp add: sorted_wrt_filter sorted_wrt_map)
  moreover have "(base_addr m, k) \<in> set (om_range (maps s) b0 e) \<or>
      unat (base_addr m) + length (mem m) \<le> unat b0"
    if "om_get (mem_slab s) k = Some m" "base_addr m < e" for k m
    using that mem wf_region_base [OF wf that(1)] na unfolding not_across_def
    by (meson linorder_not_le)
  ultimately show ?thesis
    using mem unfolding scan_inv_def by auto
qed

lemma alloc_uncapped_clear:
  assumes wf: "maps_wf s" and page: "below_last_page s"
    and na: "not_across s (align_up bottom DEFAULT_ALIGNMENT)"
    and le: "align_up bottom DEFAULT_ALIGNMENT \<le> e"
  obtains r where "alloc_uncapped sz bottom e s = Ret r"
    "\<And>a. r = Some a \<Longrightarrow> align_up bottom DEFAULT_ALIGNMENT \<le> a \<and>
      unat a + unat (align_up sz DEFAULT_ALIGNMENT) < unat e \<and>
      clear_of s (unat a) (unat (align_up sz DEFAULT_ALIGNMENT))"
proof -
  let ?b = "align_up bottom DEFAULT_ALIGNMENT" and ?n = "align_up sz DEFAULT_ALIGNMENT"
  let ?l = "last_entry_end ?b e s"
  show ?thesis
  proof (cases "?l \<le> e \<and> ?n < e - ?l")
    case True
    then have "unat ?l + unat ?n < unat e"
      using unat_sub64 [of ?l e] by (simp add: word_less_nat_alt less_diff_conv add.commute)
    moreover have "?b \<le> ?l"
      by (simp add: last_entry_end_def)
    ultimately show ?thesis
      using that [of "Some ?l"] True clear_of_fast [OF wf page, of ?b e "unat ?n"]
      by (simp add: alloc_uncapped_def checked_sub_def)
  next
    case False
    let ?r = "scan_gaps ?n (mem_slab s) ?b 0 (om_range (maps s) ?b e)"
    have "scan_inv s e (?b + 0) (om_range (maps s) ?b e)"
      using scan_inv_init [OF wf na] by simp
    note clear = scan_gaps_clear [OF wf this]
    have "alloc_uncapped sz bottom e s = Ret ?r"
      using False le by (auto simp: alloc_uncapped_def checked_sub_def Let_def)
    then show ?thesis
      using that [of ?r] clear by simp
  qed
qed

subsubsection \<open>What the search finds\<close>

text \<open>
  A page-aligned address behind all regions that begin below the limit, with room up to the limit. The search takes
  the least such address; when there is none, it takes the start of a gap between regions.
\<close>

definition fits_above :: "maps \<Rightarrow> u64 \<Rightarrow> u64 \<Rightarrow> nat \<Rightarrow> u64 \<Rightarrow> bool" where
  "fits_above s lo hi n a \<longleftrightarrow>
     0x1000 dvd unat a \<and> lo \<le> a \<and> unat a + n < unat hi
     \<and> (\<forall>k m. om_get (mem_slab s) k = Some m \<longrightarrow> base_addr m < hi \<longrightarrow> unat (base_addr m) + length (mem m) \<le> unat a)"

definition at_region_end :: "maps \<Rightarrow> u64 \<Rightarrow> bool" where
  "at_region_end s a \<longleftrightarrow> (\<exists>k m. om_get (mem_slab s) k = Some m \<and> unat a = unat (base_addr m) + length (mem m))"

lemma unat_region_end:
  assumes "maps_wf s" "om_get (mem_slab s) k = Some m"
  shows "unat (base_addr m + mem_size m) = unat (base_addr m) + length (mem m)"
  using wf_region [OF assms] unat_mem_size [OF wf_region [OF assms]] by (simp add: mem_wf_def unat_add64)

lemma last_entry_end_aligned:
  assumes "0x1000 dvd unat lo"
  shows "0x1000 dvd unat (last_entry_end lo hi s)"
  using assms align_up_aligned by (auto simp: last_entry_end_def max_def Let_def split: option.split)

lemma last_entry_end_least:
  assumes wf: "maps_wf s" and page: "below_last_page s" and b: "fits_above s lo hi n b"
  shows "last_entry_end lo hi s \<le> b"
proof (cases "last_below hi s")
  case None
  then show ?thesis
    using b by (simp add: last_entry_end_def fits_above_def)
next
  case (Some bk)
  obtain base k where bk: "last_below hi s = Some (base, k)"
    using Some by (cases bk) simp
  note sp = last_below_spec(2) [OF wf_ok(1) [OF wf] bk]
  obtain m where m: "om_get (mem_slab s) k = Some m" "base_addr m = base"
    using wf_entry [OF wf] sp by blast
  have u: "unat (base + mem_size m) = unat base + length (mem m)"
    using unat_region_end [OF wf m(1)] m(2) by simp
  have "unat base + length (mem m) \<le> unat b"
    using b sp m unfolding fits_above_def by blast
  moreover have "unat base + length (mem m) + 0xFFF < 2 ^ 64"
    using page m unfolding below_last_page_def by blast
  ultimately have "unat (align_up (base + mem_size m) DEFAULT_ALIGNMENT) \<le> unat b"
    using b by (intro align_up_least) (simp_all add: fits_above_def u)
  then show ?thesis
    using b bk m(1) by (simp add: last_entry_end_def fits_above_def max_def word_le_nat_alt)
qed

lemma scan_gaps_start:
  assumes "maps_wf s" "\<forall>(b, k) \<in> set es. om_get (maps s) b = Some k" "scan_gaps n (mem_slab s) prev sz es = Some a"
  shows "a = prev + sz \<or> at_region_end s a"
  using assms(2,3)
proof (induction es arbitrary: prev sz)
  case (Cons bk es)
  obtain b k where bk: "bk = (b, k)"
    by fastforce
  obtain m where m: "om_get (mem_slab s) k = Some m" "base_addr m = b"
    using wf_entry [OF assms(1)] Cons.prems(1) by (fastforce simp: bk)
  have "at_region_end s (b + mem_size m)"
    using unat_region_end [OF assms(1) m(1)] m by (auto simp: at_region_end_def)
  then show ?case
    using Cons.IH [of b "mem_size m"] Cons.prems m(1) by (auto simp: bk split: if_splits)
qed simp

lemma scan_gaps_found:
  assumes wf: "maps_wf s" and c: "clear_of s (unat a) (unat n)"
    and es: "\<forall>(b, k) \<in> set es. om_get (maps s) b = Some k" "\<exists>b k. (b, k) \<in> set es \<and> a < b" "prev + sz \<le> a"
  shows "scan_gaps n (mem_slab s) prev sz es \<noteq> None"
  using es
proof (induction es arbitrary: prev sz)
  case (Cons bk es)
  obtain b k where bk: "bk = (b, k)"
    by fastforce
  obtain m where m: "om_get (mem_slab s) k = Some m" "base_addr m = b"
    using wf_entry [OF wf] Cons.prems(1) by (fastforce simp: bk)
  have cm: "unat b + length (mem m) \<le> unat a \<or> unat a + unat n < unat b"
    using c m unfolding clear_of_def by blast
  show ?case
  proof (cases "unat a + unat n < unat b")
    case True
    then have "prev + sz \<le> b" "n < b - (prev + sz)"
      using Cons.prems(3) by (auto simp: word_less_nat_alt word_le_nat_alt unat_sub64)
    then show ?thesis
      by (simp add: bk checked_sub_def)
  next
    case False
    then have le: "unat b + length (mem m) \<le> unat a"
      using cm by simp
    then have "b + mem_size m \<le> a"
      using unat_region_end [OF wf m(1)] m(2) by (simp add: word_le_nat_alt)
    moreover have "\<not> a < b"
      using le by (simp add: word_less_nat_alt)
    then have "\<exists>b' k'. (b', k') \<in> set es \<and> a < b'"
      using Cons.prems(2) by (auto simp: bk)
    ultimately show ?thesis
      using Cons.IH [of b "mem_size m"] Cons.prems(1) m(1) by (auto simp: bk)
  qed
qed simp

lemma clear_of_unmapped:
  assumes wf: "maps_wf s" and c: "clear_of s (unat a) n" and x: "in_range a n x"
  shows "flat s x = None"
proof -
  have "\<not> inside m x" if "om_get (mem_slab s) k = Some m" for k m
    using c that x wf_region [OF wf that] unfolding clear_of_def
    by (fastforce simp: in_range_def inside_iff)
  then show ?thesis
    unfolding flat_None_iff [OF wf] search_maps_None_iff [OF wf] by blast
qed

lemma alloc_uncapped_found:
  assumes wf: "maps_wf s" and page: "below_last_page s" and le: "align_up bottom DEFAULT_ALIGNMENT \<le> hi"
    and r: "alloc_uncapped sz bottom hi s = Ret r"
  defines "lo \<equiv> align_up bottom DEFAULT_ALIGNMENT" and "n \<equiv> align_up sz DEFAULT_ALIGNMENT"
  shows "fits_above s lo hi (unat n) b \<Longrightarrow> \<exists>a. r = Some a \<and> fits_above s lo hi (unat n) a \<and> a \<le> b"
    and "r = Some a \<Longrightarrow> 0x1000 dvd unat a \<or> at_region_end s a"
    and "0x1000 dvd unat b \<Longrightarrow> lo \<le> b \<Longrightarrow> unat b + unat n < unat hi \<Longrightarrow> clear_of s (unat b) (unat n) \<Longrightarrow> r \<noteq> None"
proof -
  let ?l = "last_entry_end lo hi s"
  define fast where "fast \<longleftrightarrow> ?l \<le> hi \<and> n < hi - ?l"
  let ?es = "om_range (maps s) lo hi"
  have run: "r = (if fast then Some ?l else scan_gaps n (mem_slab s) lo 0 ?es)"
    using r le by (auto simp: alloc_uncapped_def checked_sub_def Let_def fast_def lo_def n_def split: if_splits)
  have fast_iff: "fast \<longleftrightarrow> unat ?l + unat n < unat hi"
    unfolding fast_def by (auto simp: word_less_nat_alt word_le_nat_alt unat_sub64)
  have lo: "0x1000 dvd unat lo"
    unfolding lo_def by (rule align_up_aligned)
  note al = last_entry_end_aligned [OF lo, of hi s]
  have es: "\<forall>(b, k) \<in> set ?es. om_get (maps s) b = Some k"
    using om_range_get [OF wf_ok(1) [OF wf]] by blast
  have fits: "fits_above s lo hi (unat n) ?l" if fast
    using that al last_entry_end_above [OF wf page, of _ _ hi lo]
    by (auto simp: fits_above_def fast_iff) (simp add: last_entry_end_def)
  show one: "\<exists>a. r = Some a \<and> fits_above s lo hi (unat n) a \<and> a \<le> b" if b: "fits_above s lo hi (unat n) b" for b
  proof -
    have "?l \<le> b"
      by (rule last_entry_end_least [OF wf page b])
    moreover from this have fast
      using b unfolding fast_iff by (simp add: fits_above_def word_le_nat_alt)
    ultimately show ?thesis
      using fits by (simp add: run)
  qed
  show "0x1000 dvd unat a \<or> at_region_end s a" if "r = Some a"
    using that al lo scan_gaps_start [OF wf es, of n lo 0 a] by (auto simp: run split: if_splits)
  show "r \<noteq> None" if b: "0x1000 dvd unat b" "lo \<le> b" "unat b + unat n < unat hi" "clear_of s (unat b) (unat n)"
  proof (cases "\<exists>k m. om_get (mem_slab s) k = Some m \<and> b < base_addr m \<and> base_addr m < hi")
    case True
    then obtain k m where m: "om_get (mem_slab s) k = Some m" "b < base_addr m" "base_addr m < hi"
      by blast
    then have "(base_addr m, k) \<in> set ?es"
      using om_range_get [OF wf_ok(1) [OF wf]] wf_region_base [OF wf m(1)] b(2) by (meson less_imp_le order_trans)
    then have "scan_gaps n (mem_slab s) lo 0 ?es \<noteq> None"
      using scan_gaps_found [OF wf b(4) es, of lo 0] m(2) b(2) by auto
    then show ?thesis
      by (simp add: run)
  next
    case False
    have "unat (base_addr m) + length (mem m) \<le> unat b" if m: "om_get (mem_slab s) k = Some m" "base_addr m < hi" for k m
    proof -
      have "base_addr m \<le> b"
        using False m by (metis not_less)
      moreover have "unat (base_addr m) + length (mem m) \<le> unat b \<or> unat b + unat n < unat (base_addr m)"
        using b(4) m(1) unfolding clear_of_def by blast
      ultimately show ?thesis
        by (auto simp: word_le_nat_alt)
    qed
    then have "fits_above s lo hi (unat n) b"
      using b unfolding fits_above_def by blast
    then show ?thesis
      using one by blast
  qed
qed


lemma two_maps_alloc:
  "below_last_page two_maps" "not_across two_maps 0x1000" "align_up 0x800 DEFAULT_ALIGNMENT = 0x1000"
  by (auto simp: below_last_page_def not_across_def two_maps_get align_up_def DEFAULT_ALIGNMENT_def)


subsection \<open>Mapping what was found\<close>

definition alloc_min :: "maps \<Rightarrow> u64" where
  "alloc_min s = (if is_64bits s then ALLOC64_MIN else ALLOC32_MIN)"

definition alloc_max :: "maps \<Rightarrow> u64" where
  "alloc_max s = (if is_64bits s then ALLOC64_MAX else ALLOC32_MAX)"

definition no_empty_region :: "maps \<Rightarrow> bool" where
  "no_empty_region s \<longleftrightarrow> (\<forall>k m. om_get (mem_slab s) k = Some m \<longrightarrow> mem m \<noteq> [])"

lemma clear_of_free:
  assumes c: "clear_of s (unat a) n" and e: "no_empty_region s" and le: "n' \<le> n"
  shows "free_range s a n'"
  unfolding free_range_def
proof (intro allI impI)
  fix k m assume k: "om_get (mem_slab s) k = Some m"
  then have "0 < length (mem m)"
    using e by (auto simp: no_empty_region_def)
  moreover have "unat (base_addr m) + length (mem m) \<le> unat a \<or> unat a + n < unat (base_addr m)"
    using c k unfolding clear_of_def by blast
  ultimately show "base_addr m \<noteq> a \<and>
      (unat (base_addr m) + length (mem m) \<le> unat a \<or> unat a + n' \<le> unat (base_addr m))"
    using le by auto
qed

lemma alloc_min_aligned: "align_up (alloc_min s) DEFAULT_ALIGNMENT = alloc_min s" "alloc_min s \<le> alloc_max s" "0 < alloc_min s"
  by (simp_all add: align_up_def DEFAULT_ALIGNMENT_def alloc_min_def alloc_max_def ALLOC64_MIN_def ALLOC32_MIN_def
      ALLOC64_MAX_def ALLOC32_MAX_def)

lemma maps_alloc_eq:
  "sz \<le> max_alloc_size s \<Longrightarrow> maps_alloc sz s = alloc_uncapped sz (alloc_min s) (alloc_max s) s"
  by (simp add: maps_alloc_def alloc_capped_def min_absorb1 alloc_min_def alloc_max_def)

lemma map_at_found:
  assumes wf: "maps_wf s" and vk: "vacant_key vk" and e: "no_empty_region s" and name: "name_map s name = None"
    and c: "clear_of s (unat a) n" and sz: "unat sz \<le> n" "unat a + n < 2 ^ 64"
  shows "\<exists>s'. map_at vk name sz p (Some a) s = (a, s') \<and> maps_wf s' \<and> flat s' = flat_map a (unat sz) p (flat s)"
proof -
  have free: "free_range s a (unat sz)"
    using clear_of_free [OF c e sz(1)] .
  have "unat a + unat sz < 2 ^ 64"
    using sz by simp
  then obtain t where "create_map vk name a sz p s = (Inr (vk (mem_slab s)),
       (add_region (vk (mem_slab s)) (fresh_region name a sz p) s)
       \<lparr>tlb := t, code_writes := if perm_can_execute p then log_write (code_writes s) a sz else code_writes s\<rparr>)"
    and "maps_wf (add_region (vk (mem_slab s)) (fresh_region name a sz p) s)"
      "flat (add_region (vk (mem_slab s)) (fresh_region name a sz p) s) = flat_map a (unat sz) p (flat s)"
    by (rule create_map_free [OF wf vk _ free name])
  then show ?thesis
    by (simp add: map_at_def)
qed

text \<open>
C12: \<open>map\<close> allocates and maps. For a size within the allocation limit and an unused name, on a
well-formed state without empty regions, whose regions stay clear of the last page and of the start of the
allocation area, it returns without a panic. It returns the base of a range in the allocation area that
was free and is now mapped as zeros with the permission asked for, everything else as before; or it
returns 0, with memory unchanged. It does not return 0 when the allocation area has a page-aligned
range of the size, rounded up to pages, that is free and followed by a free address. Either way the
state is well-formed.
\<close>

theorem map_correct:
  assumes wf: "maps_wf s" and vk: "vacant_key vk" and page: "below_last_page s"
    and na: "not_across s (alloc_min s)" and e: "no_empty_region s"
    and sz: "sz \<le> max_alloc_size s" "unat sz + 0xFFF < 2 ^ 64" and name: "name_map s name = None"
  shows "\<exists>a s'. maps_map vk name sz p s = Ret (a, s') \<and> maps_wf s' \<and>
    (if a = 0 then flat s' = flat s
     else alloc_min s \<le> a \<and> unat a + unat sz < unat (alloc_max s) \<and> (\<forall>x. in_range a (unat sz) x \<longrightarrow> flat s x = None) \<and>
       flat s' = flat_map a (unat sz) p (flat s)) \<and>
    (\<forall>b. 0x1000 dvd unat b \<and> alloc_min s \<le> b \<and> unat b + unat (align_up sz DEFAULT_ALIGNMENT) < unat (alloc_max s) \<and>
       clear_of s (unat b) (unat (align_up sz DEFAULT_ALIGNMENT)) \<longrightarrow> a \<noteq> 0)"
proof -
  let ?n = "unat (align_up sz DEFAULT_ALIGNMENT)"
  note al = alloc_min_aligned [of s]
  obtain r where r: "alloc_uncapped sz (alloc_min s) (alloc_max s) s = Ret r"
    "\<And>a. r = Some a \<Longrightarrow> alloc_min s \<le> a \<and> unat a + ?n < unat (alloc_max s) \<and> clear_of s (unat a) ?n"
    using alloc_uncapped_clear [OF wf page, of "alloc_min s" "alloc_max s" sz] na al by metis
  have found: "r \<noteq> None" if "0x1000 dvd unat b \<and> alloc_min s \<le> b \<and> unat b + ?n < unat (alloc_max s) \<and> clear_of s (unat b) ?n" for b
    using alloc_uncapped_found(3) [OF wf page _ r(1), of b] al that by simp
  have run: "maps_map vk name sz p s = Ret (map_at vk name sz p r s)"
    using r(1) maps_alloc_eq [OF sz(1)] by (simp add: maps_map_def)
  show ?thesis
  proof (cases r)
    case None
    then show ?thesis
      using run wf found by (intro exI [of _ 0] exI [of _ s]) (auto simp: map_at_def)
  next
    case (Some a)
    note a = r(2) [OF Some]
    have le: "unat sz \<le> ?n" "unat a + ?n < 2 ^ 64"
      using align_up_bounds(1) [OF sz(2)] a unat_u64_less [of "alloc_max s"] by simp_all
    obtain s' where s': "map_at vk name sz p (Some a) s = (a, s')" "maps_wf s'" "flat s' = flat_map a (unat sz) p (flat s)"
      using map_at_found [OF wf vk e name _ le, of p] a by blast
    have "a \<noteq> 0"
      using a al(3) by auto
    moreover have "flat s x = None" if "in_range a (unat sz) x" for x
      using a that le(1) clear_of_unmapped [OF wf, of a] by (auto simp: in_range_def)
    ultimately show ?thesis
      using run s' Some a le(1) by (intro exI [of _ a] exI [of _ s']) auto
  qed
qed

lemma two_maps_limits:
  "is_64bits two_maps = False" "max_alloc_size two_maps = 0xffffff"
proof -
  have "is_64bits (snd (create_map vk n b z p s)) = is_64bits s \<and>
      max_alloc_size (snd (create_map vk n b z p s)) = max_alloc_size s" if wf: "maps_wf s" for vk n b z p s
  proof (cases "search_maps b s = None")
    case True
    show ?thesis
      by (rule create_map_eq [OF wf True, of vk n z p]) (simp add: add_region_def)
  next
    case False
    show ?thesis
      by (rule create_map_mapped [OF wf False, of vk n z p]) simp
  qed
  then show "is_64bits two_maps = False" "max_alloc_size two_maps = 0xffffff"
    using one_map_wf maps_default_wf by (simp_all add: two_maps_def one_map_def maps_default_def)
qed

theorem map_correct_witness:
  "\<exists>a s'. maps_map next_key ''c'' 8 PERM_READ two_maps = Ret (a, s') \<and> maps_wf s' \<and> a \<noteq> 0 \<and> flat s' a = Some (PERM_READ, 0)"
proof -
  have na: "not_across two_maps (alloc_min two_maps)" "no_empty_region two_maps" "name_map two_maps ''c'' = None"
    by (auto simp: not_across_def no_empty_region_def two_maps_get alloc_min_def two_maps_limits
        ALLOC32_MIN_def two_maps_slab(2))
  have al: "unat (align_up 8 DEFAULT_ALIGNMENT) = 0x1000"
    by (simp add: align_up_def DEFAULT_ALIGNMENT_def)
  have room: "0x1000 dvd unat (alloc_min two_maps)" "unat (alloc_min two_maps) + 0x1000 < unat (alloc_max two_maps)"
    "clear_of two_maps (unat (alloc_min two_maps)) 0x1000"
    by (auto simp: clear_of_def two_maps_get alloc_min_def alloc_max_def two_maps_limits ALLOC32_MIN_def ALLOC32_MAX_def fresh_region_def)
  obtain a s' where "maps_map next_key ''c'' 8 PERM_READ two_maps = Ret (a, s')" "maps_wf s'" "a \<noteq> 0"
    "flat s' = flat_map a 8 PERM_READ (flat two_maps)"
    using map_correct [OF two_maps_wf vacant_next_key two_maps_alloc(1) na(1,2) _ _ na(3), of 8 PERM_READ] room
    by (auto simp: two_maps_limits al split: if_splits)
  then show ?thesis
    by (simp add: flat_map_def in_range_def)
qed

subsection \<open>The consistency check\<close>

text \<open>
The consistency check the emulator runs on its own address space, \<open>mem_test\<close>, passes on every
well-formed state: no two regions overlap and every region ends where its base and size say.
\<close>

theorem mem_test_passes:
  assumes wf: "maps_wf s"
  shows "mem_test s"
proof -
  have get: "om_get (mem_slab s) k = Some m" if "(k, m) \<in> set (mem_slab s)" for k m
    using that om_get_iff [OF wf_ok(2) [OF wf]] by blast
  have d: "distinct (map fst (mem_slab s))"
    using om.entries_distinct [OF wf_ok(2) [OF wf]] .
  have "\<not> (base_addr m1 < bottom_addr m2 \<and> base_addr m2 < bottom_addr m1)"
    if ij: "i < length (mem_slab s)" "j < length (mem_slab s)" "i \<noteq> j"
      and m: "mem_slab s ! i = (k1, m1)" "mem_slab s ! j = (k2, m2)" for i j k1 m1 k2 m2
  proof -
    have g: "om_get (mem_slab s) k1 = Some m1" "om_get (mem_slab s) k2 = Some m2"
      using get ij m nth_mem by metis+
    have "k1 \<noteq> k2"
      using d ij m by (metis fst_conv length_map nth_eq_iff_index_eq nth_map)
    then have "base_addr m1 \<noteq> base_addr m2"
      using wf_distinct [OF wf g] by blast
    then have "region_before m1 m2 \<or> region_before m2 m1"
      using wf_before [OF wf g] wf_before [OF wf g(2,1)] by fastforce
    then show ?thesis
      using wf_region [OF wf g(1)] wf_region [OF wf g(2)]
      by (auto simp: region_before_def word_less_nat_alt unat_bottom)
  qed
  then have "\<forall>i \<in> set [0..<length (mem_slab s)]. \<forall>j \<in> set [0..<length (mem_slab s)]. i \<noteq> j \<longrightarrow>
      \<not> (base_addr (snd (mem_slab s ! i)) < bottom_addr (snd (mem_slab s ! j)) \<and>
         base_addr (snd (mem_slab s ! j)) < bottom_addr (snd (mem_slab s ! i)))"
    by (metis atLeastLessThan_iff prod.collapse set_upt)
  moreover have "base_addr m + mem_size m = bottom_addr m" if "(k, m) \<in> set (mem_slab s)" for k m
    using wf_region [OF wf get [OF that]] by (simp add: mem_wf_def mem_size_def)
  ultimately show ?thesis
    by (auto simp: mem_test_def Let_def case_prod_beta)
qed

theorem mem_test_passes_witness: "mem_test two_maps"
  using mem_test_passes [OF two_maps_wf] .

end
