(* ===== verification/Maps_Util.thy ===== *)
theory Maps_Util
  imports Maps_Search
begin

section \<open>Bulk memory operations and searching\<close>

text \<open>
  A model of \<^verbatim>\<open>crates/libmwemu/src/maps/utilities.rs\<close> and \<^verbatim>\<open>crates/libmwemu/src/maps/search.rs\<close>. A
  Rust string is the list of its UTF-8 bytes (\<open>u8 list\<close>), or a \<open>string\<close> where it is parsed; what the
  source decodes lossily from bytes is the bytes before decoding. Wide strings, which need the
  UTF-16 conversions, are not modelled.
\<close>

subsection \<open>Filling, copying and reading\<close>

definition memset :: "u64 \<Rightarrow> u8 \<Rightarrow> usize \<Rightarrow> maps \<Rightarrow> maps outcome" where
  "memset addr b amount s =
     (if amount = 0 then Ret s
      else
        let end_addr = addr + amount - 1;
            buf = replicate (unat amount) b;
            (k, s) = get_mem_by_addr_mut addr s
        in case Option.bind k (\<lambda>key. map_option (Pair key) (om_get (mem_slab s) key)) of
             Some (key, m) \<Rightarrow>
               if inside m end_addr \<and> can_write m then
                 obind (mem_write_bytes addr buf m) (\<lambda>m'.
                   let s = put_mem key m' s
                   in Ret (if can_execute m' then note_code_write addr amount s else s))
               else obind (write_each addr buf s) (\<lambda>(_, s). Ret s)
           | None \<Rightarrow> obind (write_each addr buf s) (\<lambda>(_, s). Ret s))"

definition try_read_bytes :: "u64 \<Rightarrow> usize \<Rightarrow> maps \<Rightarrow> u8 list option \<times> maps" where
  "try_read_bytes addr sz s =
     (if sz = 0 then (Some [], s)
      else
        let end_addr = addr + sz - 1;
            (k, s) = get_mem_by_addr addr s
        in case Option.bind k (om_get (mem_slab s)) of
             None \<Rightarrow> (None, s)
           | Some m \<Rightarrow>
               if \<not> inside m end_addr \<or> \<not> can_read m then (None, s)
               else (Some (mem_read_bytes addr sz m), s))"

definition maps_memcpy :: "u64 \<Rightarrow> u64 \<Rightarrow> usize \<Rightarrow> maps \<Rightarrow> (bool \<times> maps) outcome" where
  "maps_memcpy to from sz s =
     (let (b, s) = try_read_bytes from sz s
      in case b of
           None \<Rightarrow> Ret (False, s)
         | Some b \<Rightarrow> obind (maps_write_bytes to b s) (\<lambda>(_, s). Ret (True, s)))"

definition MAX_READ_BYTES :: nat where
  "MAX_READ_BYTES = 0x300"

definition zero_slice :: "usize \<Rightarrow> u8 list outcome" where
  "zero_slice sz =
     (if sz = 0 then Ret []
      else if MAX_READ_BYTES < unat sz then Panic AssertFailed
      else slice_index (replicate MAX_READ_BYTES 0) 0 (unat sz))"

definition maps_read_bytes :: "u64 \<Rightarrow> usize \<Rightarrow> maps \<Rightarrow> (u8 list \<times> maps) outcome" where
  "maps_read_bytes addr sz s =
     (let (b, s) = try_read_bytes addr sz s
      in case b of
           Some bs \<Rightarrow> Ret (bs, s)
         | None \<Rightarrow> obind (zero_slice sz) (\<lambda>bs. Ret (bs, s)))"

definition read_bytes_array :: "nat \<Rightarrow> u64 \<Rightarrow> maps \<Rightarrow> u8 list \<times> maps" where
  "read_bytes_array N addr s =
     (let (b, s) = try_read_bytes addr (of_nat N) s
      in case b of
           Some bs \<Rightarrow> (if length bs = N then bs else replicate N 0, s)
         | None \<Rightarrow> (replicate N 0, s))"

definition read_bytes_buff :: "u8 list \<Rightarrow> u64 \<Rightarrow> maps \<Rightarrow> (u8 list \<times> maps) outcome" where
  "read_bytes_buff buff addr s =
     obind (maps_read_bytes addr (of_nat (length buff)) s) (\<lambda>(bs, s).
     obind (copy_from_slice buff 0 (length buff) bs) (\<lambda>buff. Ret (buff, s)))"

fun sizeof_wide_from :: "nat \<Rightarrow> nat \<Rightarrow> u64 \<Rightarrow> maps \<Rightarrow> (nat \<times> maps) outcome" where
  "sizeof_wide_from 0 counter addr s = Ret (0, s)"
| "sizeof_wide_from (Suc n) counter addr s =
     obind (maps_read_word addr s) (\<lambda>(w, s).
       case w of
         None \<Rightarrow> Ret (counter, s)
       | Some b \<Rightarrow> if b = 0 then Ret (counter, s) else sizeof_wide_from n (counter + 1) (addr + 2) s)"

text \<open>\<open>(0..1_000_000).step_by(2)\<close> has 500000 elements.\<close>

definition sizeof_wide :: "u64 \<Rightarrow> maps \<Rightarrow> (nat \<times> maps) outcome" where
  "sizeof_wide unicode_str_ptr s = sizeof_wide_from 500000 0 unicode_str_ptr s"

definition maps_write_string :: "u64 \<Rightarrow> u8 list \<Rightarrow> maps \<Rightarrow> maps outcome" where
  "maps_write_string to from s =
     obind (maps_write_bytes to from s) (\<lambda>(_, s).
     obind (maps_write_byte (to + of_nat (length from)) 0 s) (\<lambda>(_, s). Ret s))"

definition maps_read_string :: "u64 \<Rightarrow> maps \<Rightarrow> (u8 list \<times> maps) outcome" where
  "maps_read_string addr s =
     (if addr = 0 then Ret ([], s)
      else
        let (k, s) = get_mem_by_addr addr s
        in case Option.bind k (om_get (mem_slab s)) of
             Some m \<Rightarrow>
               if can_read m then obind (mem_read_string addr m) (\<lambda>bs. Ret (bs, s)) else Ret ([], s)
           | None \<Rightarrow> Ret ([], s))"

text \<open>\<open>{:02x}\<close> of a byte.\<close>

definition fmt_hex2 :: "u8 \<Rightarrow> string" where
  "fmt_hex2 b = [digit_char (unat b div 16), digit_char (unat b mod 16)]"

definition read_string_of_bytes :: "u64 \<Rightarrow> usize \<Rightarrow> maps \<Rightarrow> string \<times> maps" where
  "read_string_of_bytes addr sz s =
     (let (b, s) = try_read_bytes addr sz s
      in case b of
           None \<Rightarrow> ([], s)
         | Some bytes \<Rightarrow> (concat (map (\<lambda>b. fmt_hex2 b @ '' '') bytes), s))"

subsection \<open>Printable text\<close>

text \<open>The digits, the letters and the other printable characters, in the order of the source.\<close>

definition printable :: "u8 list" where
  "printable = map of_nat ([0x30..<0x3a] @ [0x61..<0x7b] @ [0x41..<0x5b] @ [0x21..<0x30] @
     [0x3a..<0x41] @ [0x5b..<0x61] @ [0x7b..<0x7f])"

definition filter_replace_bytes :: "u8 list \<Rightarrow> u8 list" where
  "filter_replace_bytes s = map (\<lambda>si. if si \<in> set printable then si else 0x2e) s"

subsection \<open>Parsing spaced bytes\<close>

definition hex_digit :: "char \<Rightarrow> nat option" where
  "hex_digit c =
     (let n = of_char c
      in if 48 \<le> n \<and> n \<le> 57 then Some (n - 48)
         else if 97 \<le> n \<and> n \<le> 102 then Some (n - 87)
         else if 65 \<le> n \<and> n \<le> 70 then Some (n - 55)
         else None)"

fun hex_digits_u8 :: "nat \<Rightarrow> string \<Rightarrow> u8 option" where
  "hex_digits_u8 acc [] = Some (of_nat acc)"
| "hex_digits_u8 acc (c # cs) =
     (case hex_digit c of
        None \<Rightarrow> None
      | Some d \<Rightarrow> if acc * 16 + d < 256 then hex_digits_u8 (acc * 16 + d) cs else None)"

text \<open>\<open>u8::from_str_radix(_, 16)\<close>, which also takes a leading \<open>+\<close>.\<close>

definition u8_from_hex :: "string \<Rightarrow> u8 option" where
  "u8_from_hex s =
     (case s of
        [] \<Rightarrow> None
      | c # cs \<Rightarrow> if c = CHR ''+'' then (if cs = [] then None else hex_digits_u8 0 cs)
                  else hex_digits_u8 0 s)"

fun split_spaces :: "string \<Rightarrow> string list" where
  "split_spaces [] = [[]]"
| "split_spaces (c # cs) =
     (if c = CHR '' '' then [] # split_spaces cs
      else case split_spaces cs of [] \<Rightarrow> [[c]] | w # ws \<Rightarrow> (c # w) # ws)"

fun parse_spaced :: "string list \<Rightarrow> u8 list" where
  "parse_spaced [] = []"
| "parse_spaced (w # ws) =
     (case u8_from_hex w of None \<Rightarrow> [] | Some b \<Rightarrow> b # parse_spaced ws)"

definition spaced_bytes_to_bytes :: "string \<Rightarrow> u8 list" where
  "spaced_bytes_to_bytes sbs = parse_spaced (split_spaces sbs)"

fun write_spaced :: "u64 \<Rightarrow> string list \<Rightarrow> maps \<Rightarrow> (bool \<times> maps) outcome" where
  "write_spaced waddr [] s = Ret (True, s)"
| "write_spaced waddr (w # ws) s =
     (case u8_from_hex w of
        None \<Rightarrow> Ret (False, s)
      | Some b \<Rightarrow> obind (maps_write_byte waddr b s) (\<lambda>(ok, s).
          if \<not> ok then Ret (False, s) else write_spaced (waddr + 1) ws s))"

definition write_spaced_bytes :: "u64 \<Rightarrow> string \<Rightarrow> maps \<Rightarrow> (bool \<times> maps) outcome" where
  "write_spaced_bytes addr sbs s = write_spaced addr (split_spaces sbs) s"

subsection \<open>Searching\<close>

text \<open>The addresses \<open>base..bottom\<close> of a region, in order.\<close>

definition addresses :: "u64 \<Rightarrow> u64 \<Rightarrow> u64 list" where
  "addresses lo hi = map (\<lambda>i. lo + of_nat i) [0..<unat hi - unat lo]"

text \<open>
  The number of bytes of the keyword that match at an address, with the three ways the searches
  treat the end of the region: not at all, by \<open>addr >= bottom\<close>, by \<open>!inside\<close>.
\<close>

fun count_unchecked :: "u64 \<Rightarrow> u8 list \<Rightarrow> mem64 \<Rightarrow> nat outcome" where
  "count_unchecked addr [] m = Ret 0"
| "count_unchecked addr (p # ps) m =
     obind (mem_read_byte addr m) (\<lambda>b.
       if b = p then obind (count_unchecked (addr + 1) ps m) (\<lambda>c. Ret (Suc c)) else Ret 0)"

fun count_bounded :: "u64 \<Rightarrow> u8 list \<Rightarrow> mem64 \<Rightarrow> nat outcome" where
  "count_bounded addr [] m = Ret 0"
| "count_bounded addr (p # ps) m =
     (if bottom_addr m \<le> addr then Ret 0
      else obind (mem_read_byte addr m) (\<lambda>b.
        if b = p then obind (count_bounded (addr + 1) ps m) (\<lambda>c. Ret (Suc c)) else Ret 0))"

fun count_inside :: "u64 \<Rightarrow> u8 list \<Rightarrow> mem64 \<Rightarrow> nat outcome" where
  "count_inside addr [] m = Ret 0"
| "count_inside addr (p # ps) m =
     (if \<not> inside m addr then Ret 0
      else obind (mem_read_byte addr m) (\<lambda>b.
        if b = p then obind (count_inside (addr + 1) ps m) (\<lambda>c. Ret (Suc c)) else Ret 0))"

fun collect_matches :: "(u64 \<Rightarrow> nat outcome) \<Rightarrow> nat \<Rightarrow> u64 list \<Rightarrow> u64 list outcome" where
  "collect_matches count n [] = Ret []"
| "collect_matches count n (a # as) =
     obind (count a) (\<lambda>c.
     obind (collect_matches count n as) (\<lambda>found. Ret (if c = n then a # found else found)))"

definition search_string :: "u8 list \<Rightarrow> string \<Rightarrow> maps \<Rightarrow> u64 list option outcome" where
  "search_string kw map_name s =
     (case Option.bind (get_map_by_name map_name s) (om_get (mem_slab s)) of
        None \<Rightarrow> Ret None
      | Some m \<Rightarrow>
          obind (collect_matches (\<lambda>a. count_unchecked a kw m) (length kw)
                   (addresses (base_addr m) (bottom_addr m)))
            (\<lambda>found. Ret (if found \<noteq> [] then Some found else None)))"

definition search_bytes :: "u8 list \<Rightarrow> string \<Rightarrow> maps \<Rightarrow> u64 list outcome" where
  "search_bytes bkw map_name s =
     (case List.find (\<lambda>(k, m). mem_name m = map_name) (mem_slab s) of
        None \<Rightarrow> Ret []
      | Some (k, m) \<Rightarrow>
          collect_matches (\<lambda>a. count_bounded a bkw m) (length bkw)
            (addresses (base_addr m) (bottom_addr m)))"

definition search_spaced_bytes :: "string \<Rightarrow> string \<Rightarrow> maps \<Rightarrow> u64 list outcome" where
  "search_spaced_bytes sbs map_name s = search_bytes (spaced_bytes_to_bytes sbs) map_name s"

fun is_pattern_match_at :: "mem64 \<Rightarrow> u64 \<Rightarrow> u8 list \<Rightarrow> bool outcome" where
  "is_pattern_match_at m addr [] = Ret True"
| "is_pattern_match_at m addr (p # ps) =
     (if bottom_addr m \<le> addr then Ret False
      else obind (mem_read_byte addr m) (\<lambda>b.
        if b \<noteq> p then Ret False else is_pattern_match_at m (addr + 1) ps))"

fun first_match :: "mem64 \<Rightarrow> u8 list \<Rightarrow> u64 list \<Rightarrow> u64 outcome" where
  "first_match m pat [] = Ret 0"
| "first_match m pat (a # as) =
     obind (is_pattern_match_at m a pat) (\<lambda>b. if b then Ret a else first_match m pat as)"

text \<open>\<open>base..=saddr\<close> for an address inside the region.\<close>

definition search_spaced_bytes_from :: "string \<Rightarrow> u64 \<Rightarrow> maps \<Rightarrow> u64 outcome" where
  "search_spaced_bytes_from sbs saddr s =
     (let pat = spaced_bytes_to_bytes sbs
      in case List.find (\<lambda>(k, m). \<not> (saddr < base_addr m \<or> bottom_addr m \<le> saddr)) (mem_slab s) of
           None \<Rightarrow> Ret 0
         | Some (k, m) \<Rightarrow> first_match m pat (addresses (base_addr m) saddr @ [saddr]))"

definition search_spaced_bytes_from_bw :: "string \<Rightarrow> u64 \<Rightarrow> maps \<Rightarrow> u64 outcome" where
  "search_spaced_bytes_from_bw sbs saddr s =
     (let pat = spaced_bytes_to_bytes sbs
      in case List.find (\<lambda>(k, m). \<not> (saddr < base_addr m \<or> bottom_addr m \<le> saddr)) (mem_slab s) of
           None \<Rightarrow> Ret 0
         | Some (k, m) \<Rightarrow> first_match m pat (rev (addresses (base_addr m) saddr @ [saddr])))"

fun search_regions :: "u8 list \<Rightarrow> mem64 list \<Rightarrow> u64 list outcome" where
  "search_regions bytes [] = Ret []"
| "search_regions bytes (m # ms) =
     obind (collect_matches (\<lambda>a. count_inside a bytes m) (length bytes)
              (filter (\<lambda>a. a < 0x70000000) (addresses (base_addr m) (bottom_addr m)))) (\<lambda>found.
     obind (search_regions bytes ms) (\<lambda>rest. Ret (found @ rest)))"

definition search_spaced_bytes_in_all :: "string \<Rightarrow> maps \<Rightarrow> u64 list outcome" where
  "search_spaced_bytes_in_all sbs s =
     search_regions (spaced_bytes_to_bytes sbs) (map snd (mem_slab s))"

end
