(* ===== verification/Maps_Util_Proofs.thy ===== *)
theory Maps_Util_Proofs
  imports Maps_Util
begin

section \<open>Properties of the bulk operations and the searches\<close>

text \<open>
  Filling and copying against the abstract memory, the round trip of the textual form of bytes,
  and what the searches find.
\<close>

subsection \<open>Bulk reads\<close>

text \<open>The bytes lie in one readable region.\<close>

definition readable_block :: "maps \<Rightarrow> u64 \<Rightarrow> nat \<Rightarrow> bool" where
  "readable_block s a n \<longleftrightarrow> n = 0 \<or>
     (\<exists>k m. om_get (mem_slab s) k = Some m \<and> inside m a \<and> inside m (last_addr a n) \<and> can_read m)"

lemma last_addr_eq: "a + n - 1 = last_addr a (unat n)"
  by (simp add: last_addr_def)

lemma try_read_bytes_wf:
  assumes wf: "maps_wf s" and n: "unat a + unat n \<le> 2 ^ 64"
  obtains t where "try_read_bytes a n s =
    (if readable_block s a (unat n) then Some (flat_bytes s a (unat n)) else None, s\<lparr>tlb := t\<rparr>)"
proof (cases "n = 0")
  case True
  then show ?thesis
    using that [of "tlb s"] by (simp add: try_read_bytes_def readable_block_def flat_bytes_def)
next
  case False
  then have n0: "0 < unat n" "unat n < 2 ^ 64"
    using unsigned_less [of n, where 'a = nat] by (simp_all add: unat_gt_0)
  obtain t where t: "get_mem_by_addr a s = (search_maps a s, s\<lparr>tlb := t\<rparr>)"
    using get_mem_by_addr_wf [OF wf] .
  show ?thesis
  proof (cases "search_maps a s")
    case None
    then have "\<not> readable_block s a (unat n)"
      using n0 search_maps_None_iff [OF wf] by (auto simp: readable_block_def)
    then show ?thesis
      using that [of t] False t None by (simp add: try_read_bytes_def)
  next
    case (Some k)
    then obtain m where m: "om_get (mem_slab s) k = Some m" "inside m a"
      using search_maps_iff [OF wf] by blast
    have "m' = m" if "om_get (mem_slab s) k' = Some m'" "inside m' a" for k' m'
      using inside_unique [OF wf that(1) m(1) that(2) m(2)] that(1) m(1) by simp
    then have rb: "readable_block s a (unat n) \<longleftrightarrow> inside m (last_addr a (unat n)) \<and> can_read m"
      using n0(1) m unfolding readable_block_def by (metis less_irrefl_nat)
    have "mem_read_bytes a n m = flat_bytes s a (unat n)"
      if "inside m (last_addr a (unat n))" "can_read m"
    proof -
      have le: "unat a + unat n \<le> unat (base_addr m) + length (mem m)"
        using inside_last_bound [OF wf_region [OF wf m(1)] n0(1) n n0(2) that(1)] .
      show ?thesis
        using mem_read_bytes_range [OF wf_region [OF wf m(1)] that(2) m(2) le]
        unfolding flat_bytes_region [OF wf m le] by simp
    qed
    then show ?thesis
      using that [of t] False t Some m(1) rb by (simp add: try_read_bytes_def last_addr_eq)
  qed
qed

subsection \<open>Filling and copying\<close>

text \<open>
\<open>memcpy\<close> behaves like a move: when the source lies in one readable region, the longest writable
prefix of the destination receives the bytes the source had before the copy, overlap included,
and the state stays well-formed. The result is true whenever the source could be read, also when
not all of the destination was written. When the source cannot be read, nothing changes.
\<close>

theorem memcpy_correct:
  assumes wf: "maps_wf s" and n: "unat from + unat n \<le> 2 ^ 64" "unat to + unat n \<le> 2 ^ 64"
  shows "if readable_block s from (unat n)
    then \<exists>s'. maps_memcpy to from n s = Ret (True, s') \<and> maps_wf s' \<and> same_shape s s' \<and>
      flat s' = flat_update to (take (writable_prefix s to (unat n)) (flat_bytes s from (unat n))) (flat s)
    else \<exists>t. maps_memcpy to from n s = Ret (False, s\<lparr>tlb := t\<rparr>)"
proof -
  obtain t where t: "try_read_bytes from n s =
      (if readable_block s from (unat n) then Some (flat_bytes s from (unat n)) else None, s\<lparr>tlb := t\<rparr>)"
    using try_read_bytes_wf [OF wf n(1)] .
  let ?s = "s\<lparr>tlb := t\<rparr>" and ?d = "flat_bytes s from (unat n)"
  have l: "length ?d = unat n" "length ?d < 2 ^ 64"
    using unsigned_less [of n, where 'a = nat] by (simp_all add: flat_bytes_def)
  have wp: "writable_prefix ?s to k = writable_prefix s to k" for k
    by (simp add: writable_prefix_def writable_def)
  obtain s' where "maps_write_bytes to ?d ?s = Ret (writable_prefix s to (unat n) = unat n, s')"
      "wrote to (take (writable_prefix s to (unat n)) ?d) ?s s'"
    using maps_write_bytes_wf [of ?s ?d to] wf n(2) l wp by auto
  then show ?thesis
    by (auto simp: maps_memcpy_def t wrote_def)
qed

lemma memset_write:
  assumes wf: "maps_wf s" and n: "n \<noteq> 0" "unat a + unat n \<le> 2 ^ 64"
  shows "\<exists>t. memset a b n s = obind (maps_write_bytes a (replicate (unat n) b) s) (\<lambda>(_, s). Ret s) \<or>
    memset a b n s = obind (write_each a (replicate (unat n) b) (s\<lparr>tlb := t\<rparr>)) (\<lambda>(_, s). Ret s)"
proof -
  have n0: "0 < unat n" "unat n < 2 ^ 64"
    using n(1) unsigned_less [of n, where 'a = nat] by (simp_all add: unat_gt_0)
  obtain t where t: "get_mem_by_addr_mut a s = (search_maps a s, s\<lparr>tlb := t\<rparr>)"
    using get_mem_by_addr_mut_wf [OF wf] .
  have e: "checked_add a (n - 1) = Some (last_addr a (unat n))"
    using checked_end [OF n0, of a] n(2) by simp
  show ?thesis
  proof (cases "\<exists>k m. search_maps a s = Some k \<and> om_get (mem_slab s) k = Some m \<and>
      inside m (last_addr a (unat n)) \<and> can_write m")
    case True
    then have "memset a b n s = obind (maps_write_bytes a (replicate (unat n) b) s) (\<lambda>(_, s). Ret s)"
      using n0 n(1) by (auto simp: memset_def maps_write_bytes_def e t last_addr_eq Let_def cong: if_cong)
    then show ?thesis by blast
  next
    case False
    then have "memset a b n s = obind (write_each a (replicate (unat n) b) (s\<lparr>tlb := t\<rparr>)) (\<lambda>(_, s). Ret s)"
      using n(1) unfolding memset_def t last_addr_eq
      by (auto simp: Let_def split: option.splits bind_splits)
    then show ?thesis by blast
  qed
qed

text \<open>
\<open>memset\<close> fills the longest writable prefix of the range with the byte and nothing else, keeps
the state well-formed and never panics, provided the range does not wrap around the end of the
address space.
\<close>

theorem memset_correct:
  assumes wf: "maps_wf s" and n: "unat a + unat n \<le> 2 ^ 64"
  shows "\<exists>s'. memset a b n s = Ret s' \<and> maps_wf s' \<and> same_shape s s' \<and>
    flat s' = flat_update a (replicate (writable_prefix s a (unat n)) b) (flat s)"
proof (cases "n = 0")
  case True
  then show ?thesis
    using wrote_Nil [OF wf, of a "tlb s"] wf by (simp add: memset_def writable_prefix_def wrote_def)
next
  case False
  let ?bs = "replicate (unat n) b"
  have le: "writable_prefix s a (unat n) \<le> unat n"
    unfolding writable_prefix_def by (metis length_takeWhile_le length_upt minus_nat.diff_0)
  have wp: "writable_prefix (s\<lparr>tlb := t\<rparr>) a k = writable_prefix s a k" for t k
    by (simp add: writable_prefix_def writable_def)
  have "\<exists>s'. memset a b n s = Ret s' \<and> wrote a (take (writable_prefix s a (unat n)) ?bs) s s'"
    using memset_write [OF wf False n, of b] maps_write_bytes_wf [OF wf, of ?bs a] n
      unsigned_less [of n, where 'a = nat] write_each_wf [of "s\<lparr>tlb := _\<rparr>" a ?bs] wf wp
    by (fastforce simp: wrote_def)
  then show ?thesis
    using le by (auto simp: wrote_def take_replicate min_def)
qed

theorem memcpy_correct_witness:
  "\<exists>s'. maps_memcpy 0x1002 0x1004 4 two_maps = Ret (True, s') \<and> maps_wf s' \<and>
     flat s' = flat_update 0x1002 (take (writable_prefix two_maps 0x1002 4) (flat_bytes two_maps 0x1004 4))
       (flat two_maps)"
proof -
  have "readable_block two_maps 0x1004 4"
    by (simp add: readable_block_def two_maps_ex two_maps_inside in_range_def last_addr_def can_read_def
        read_write_allowed)
  then show ?thesis
    using memcpy_correct [OF two_maps_wf, of "0x1004" 4 "0x1002"] by auto
qed

theorem memset_correct_witness:
  "\<exists>s'. memset 0x1002 0xAA 4 two_maps = Ret s' \<and> maps_wf s'"
  using memset_correct [OF two_maps_wf, of "0x1002" 4 "0xAA"] by auto

subsection \<open>The textual form of bytes\<close>

lemma hex_digit_digit_char: "d < 16 \<Longrightarrow> hex_digit (digit_char d) = Some d"
  by (auto simp: hex_digit_def digit_char_def Let_def)

lemma digit_char_separate: "d < 16 \<Longrightarrow> digit_char d \<noteq> CHR '' '' \<and> digit_char d \<noteq> CHR ''+''"
proof -
  assume "d < 16"
  then have "of_char (digit_char d) \<noteq> (32 :: nat)" "of_char (digit_char d) \<noteq> (43 :: nat)"
    by (auto simp: digit_char_def)
  then show ?thesis by auto
qed

lemma byte_digits: "unat (b :: u8) div 16 < 16" "unat b mod 16 < 16"
  using unsigned_less [of b, where 'a = nat] by simp_all

lemma u8_from_hex_fmt: "u8_from_hex (fmt_hex2 b) = Some b"
proof -
  have "unat b div 16 * 16 + unat b mod 16 < 256"
    using unsigned_less [of b, where 'a = nat] by simp
  then show ?thesis
    using digit_char_separate [OF byte_digits(1), of b] byte_digits [of b]
    by (simp add: u8_from_hex_def fmt_hex2_def hex_digit_digit_char)
qed

lemma split_spaces_fmt:
  "split_spaces (concat (map (\<lambda>b. fmt_hex2 b @ '' '') bs)) = map fmt_hex2 bs @ [[]]"
proof (induction bs)
  case (Cons b bs)
  then show ?case
    using digit_char_separate [OF byte_digits(1), of b] digit_char_separate [OF byte_digits(2), of b]
    by (simp add: fmt_hex2_def)
qed simp

lemma parse_spaced_fmt: "parse_spaced (map fmt_hex2 bs @ [[]]) = bs"
  by (induction bs) (simp_all add: u8_from_hex_fmt, simp add: u8_from_hex_def)

text \<open>
The textual form of memory can be parsed back: the text that \<open>read_string_of_bytes\<close> gives for a
readable block is parsed by \<open>spaced_bytes_to_bytes\<close> to exactly the bytes of the block.
\<close>

theorem spaced_bytes_roundtrip:
  assumes wf: "maps_wf s" and n: "unat a + unat n \<le> 2 ^ 64" and r: "readable_block s a (unat n)"
  shows "spaced_bytes_to_bytes (fst (read_string_of_bytes a n s)) = flat_bytes s a (unat n)"
proof -
  obtain t where "try_read_bytes a n s =
      (if readable_block s a (unat n) then Some (flat_bytes s a (unat n)) else None, s\<lparr>tlb := t\<rparr>)"
    using try_read_bytes_wf [OF wf n] .
  then show ?thesis
    using r by (simp add: read_string_of_bytes_def spaced_bytes_to_bytes_def split_spaces_fmt parse_spaced_fmt)
qed

theorem spaced_bytes_roundtrip_witness:
  "spaced_bytes_to_bytes (fst (read_string_of_bytes 0x1004 4 two_maps)) = flat_bytes two_maps 0x1004 4"
proof -
  have "readable_block two_maps 0x1004 4"
    by (simp add: readable_block_def two_maps_ex two_maps_inside in_range_def last_addr_def can_read_def
        read_write_allowed)
  then show ?thesis
    using spaced_bytes_roundtrip [OF two_maps_wf, of "0x1004" 4] by simp
qed

subsection \<open>What a search finds\<close>

lemma addresses_iff:
  assumes "mem_wf m"
  shows "a \<in> set (addresses (base_addr m) (bottom_addr m)) \<longleftrightarrow> inside m a"
proof -
  have b: "unat (bottom_addr m) - unat (base_addr m) = length (mem m)" "unat (base_addr m) + length (mem m) < 2 ^ 64"
    using assms unat_bottom [OF assms] by (simp_all add: mem_wf_def)
  show ?thesis
  proof
    assume "a \<in> set (addresses (base_addr m) (bottom_addr m))"
    then obtain i where i: "i < length (mem m)" "a = base_addr m + of_nat i"
      by (auto simp: addresses_def b(1))
    then have "unat a = unat (base_addr m) + i"
      using b(2) unat_add_of_nat [of "base_addr m" i] by simp
    then show "inside m a"
      using i(1) by (simp add: inside_iff [OF assms])
  next
    assume "inside m a"
    then have "unat (a - base_addr m) < length (mem m)"
      using inside_index [OF assms] by blast
    moreover have "a = base_addr m + of_nat (unat (a - base_addr m))"
      by simp
    ultimately show "a \<in> set (addresses (base_addr m) (bottom_addr m))"
      unfolding addresses_def b(1) by (metis (no_types, lifting) atLeastLessThan_iff image_eqI le0 list.set_map set_upt)
  qed
qed

text \<open>The keyword lies in the region at the address.\<close>

definition occurs_at :: "mem64 \<Rightarrow> u8 list \<Rightarrow> u64 \<Rightarrow> bool" where
  "occurs_at m kw a \<longleftrightarrow> unat a + length kw \<le> unat (base_addr m) + length (mem m) \<and>
     take (length kw) (drop (unat a - unat (base_addr m)) (mem m)) = kw"

lemma count_bounded_iff:
  assumes wf: "mem_wf m" and r: "can_read m"
    and a: "unat (base_addr m) \<le> unat a" "unat a \<le> unat (base_addr m) + length (mem m)"
  shows "\<exists>c. count_bounded a kw m = Ret c \<and> (c = length kw \<longleftrightarrow> occurs_at m kw a)"
  using a
proof (induction kw arbitrary: a)
  case Nil
  then show ?case by (simp add: occurs_at_def)
next
  case (Cons p kw)
  show ?case
  proof (cases "bottom_addr m \<le> a")
    case True
    then show ?thesis
      using Cons.prems unat_bottom [OF wf] by (simp add: occurs_at_def word_le_nat_alt)
  next
    case False
    let ?i = "unat a - unat (base_addr m)"
    have i: "?i < length (mem m)" "unat (a - base_addr m) = ?i" "unat (a + 1) = unat a + 1"
      using False Cons.prems unat_bottom [OF wf] wf unat_add64 [of a 1]
      by (simp_all add: word_le_nat_alt unat_sub64 mem_wf_def)
    then have rd: "mem_read_byte a m = Ret (mem m ! ?i)"
      using r by (simp add: mem_read_byte_def)
    have "unat (base_addr m) \<le> unat (a + 1)" "unat (a + 1) \<le> unat (base_addr m) + length (mem m)"
      using i Cons.prems by linarith+
    from Cons.IH [OF this] obtain c
      where c: "count_bounded (a + 1) kw m = Ret c" "c = length kw \<longleftrightarrow> occurs_at m kw (a + 1)"
      by blast
    have "drop ?i (mem m) = mem m ! ?i # drop (unat (a + 1) - unat (base_addr m)) (mem m)"
      using i Cons.prems(1) by (simp add: Cons_nth_drop_Suc Suc_diff_le)
    then have "occurs_at m (p # kw) a \<longleftrightarrow> mem m ! ?i = p \<and> occurs_at m kw (a + 1)"
      using i by (auto simp: occurs_at_def)
    then show ?thesis
      using False rd c by simp
  qed
qed

lemma collect_matches_eq:
  "(\<And>a. a \<in> set as \<Longrightarrow> \<exists>c. count a = Ret c \<and> (c = n \<longleftrightarrow> P a)) \<Longrightarrow>
     collect_matches count n as = Ret (filter P as)"
proof (induction as)
  case (Cons a as)
  then obtain c where "count a = Ret c" "c = n \<longleftrightarrow> P a"
    by (meson list.set_intros(1))
  then show ?case
    using Cons by simp
qed simp

lemma find_unique:
  "x \<in> set xs \<Longrightarrow> P x \<Longrightarrow> (\<And>y. y \<in> set xs \<Longrightarrow> P y \<Longrightarrow> y = x) \<Longrightarrow> List.find P xs = Some x"
proof (induction xs)
  case (Cons y ys)
  show ?case
  proof (cases "P y")
    case True
    then show ?thesis using Cons.prems(3) [of y] by simp
  next
    case False
    then show ?thesis using Cons.IH Cons.prems by (metis find.simps(2) list.set_intros(2) set_ConsD)
  qed
qed simp

lemma find_region_by_name:
  assumes wf: "maps_wf s" and k: "om_get (mem_slab s) k = Some m"
  shows "List.find (\<lambda>(k, m'). mem_name m' = mem_name m) (mem_slab s) = Some (k, m)"
proof (rule find_unique)
  show "(k, m) \<in> set (mem_slab s)"
    using om_get_iff [OF wf_ok(2) [OF wf]] k by blast
  fix y assume y: "y \<in> set (mem_slab s)" "case y of (k, m') \<Rightarrow> mem_name m' = mem_name m"
  then have "om_get (mem_slab s) (fst y) = Some (snd y)"
    using om_get_iff [OF wf_ok(2) [OF wf]] by simp
  then show "y = (k, m)"
  proof (cases "fst y = k")
    case True
    then show ?thesis
      using k \<open>om_get (mem_slab s) (fst y) = Some (snd y)\<close> by (simp add: prod_eq_iff)
  next
    case False
    then show ?thesis
      using wf_distinct(2) [OF wf k \<open>om_get (mem_slab s) (fst y) = Some (snd y)\<close>] y(2)
      by (simp add: case_prod_beta)
  qed
qed simp

text \<open>
\<open>search_bytes\<close> in a readable map returns, in ascending order, exactly the addresses of the map
at which the bytes lie completely inside the map, and never panics.
\<close>

theorem search_bytes_correct:
  assumes wf: "maps_wf s" and k: "om_get (mem_slab s) k = Some m" and r: "can_read m"
  shows "search_bytes kw (mem_name m) s =
    Ret (filter (occurs_at m kw) (addresses (base_addr m) (bottom_addr m)))"
proof -
  note m = wf_region [OF wf k]
  have "collect_matches (\<lambda>a. count_bounded a kw m) (length kw) (addresses (base_addr m) (bottom_addr m)) =
      Ret (filter (occurs_at m kw) (addresses (base_addr m) (bottom_addr m)))"
  proof (rule collect_matches_eq)
    fix a assume "a \<in> set (addresses (base_addr m) (bottom_addr m))"
    then have "unat (base_addr m) \<le> unat a" "unat a \<le> unat (base_addr m) + length (mem m)"
      using addresses_iff [OF m] inside_iff [OF m] by auto
    then show "\<exists>c. count_bounded a kw m = Ret c \<and> (c = length kw) = occurs_at m kw a"
      using count_bounded_iff [OF m r] by blast
  qed
  then show ?thesis
    using find_region_by_name [OF wf k] by (simp add: search_bytes_def)
qed

theorem search_bytes_correct_witness:
  "search_bytes [0, 0] ''a'' two_maps =
    Ret (filter (occurs_at (fresh_region ''a'' 0x1000 4 PERM_READ_WRITE) [0, 0]) (addresses 0x1000 0x1004))"
  using search_bytes_correct [OF two_maps_wf, of 0 "fresh_region ''a'' 0x1000 4 PERM_READ_WRITE" "[0, 0]"]
  by (simp add: two_maps_get can_read_def read_write_allowed)

text \<open>
  \<open>search_string\<close> has no check for the end of the map. A byte past the end is an index out of
  bounds.
\<close>

lemma count_unchecked_cases:
  "(\<exists>c. count_unchecked a kw m = Ret c) \<or> count_unchecked a kw m = Panic IndexOutOfBounds"
proof (induction kw arbitrary: a)
  case (Cons p kw)
  show ?case
    using Cons [of "a + 1"] by (auto simp: mem_read_byte_def vec_index_def)
qed simp

lemma collect_matches_panic:
  assumes "\<And>a. (\<exists>c. count a = Ret c) \<or> count a = Panic p" and "a \<in> set as" "count a = Panic p"
  shows "collect_matches count n as = Panic p"
  using assms(2)
proof (induction as)
  case (Cons b as)
  show ?case
  proof (cases "count b")
    case (Panic q)
    then show ?thesis using assms(1) [of b] by auto
  next
    case (Ret c)
    then have "a \<in> set as"
      using Cons.prems assms(3) by auto
    then show ?thesis
      using Cons.IH Ret by simp
  qed
qed simp

lemma count_unchecked_end:
  assumes wf: "mem_wf m" and r: "can_read m"
    and "inside m a" "drop (unat (a - base_addr m)) (mem m) = kw" "tl' \<noteq> []"
  shows "count_unchecked a (kw @ tl') m = Panic IndexOutOfBounds"
  using assms(3,4)
proof (induction kw arbitrary: a)
  case Nil
  then show ?case using inside_index [OF wf] by fastforce
next
  case (Cons p kw)
  let ?i = "unat (a - base_addr m)"
  have i: "?i < length (mem m)" "?i = unat a - unat (base_addr m)"
    using inside_index [OF wf Cons.prems(1)] by simp_all
  have p: "mem m ! ?i = p" "drop (Suc ?i) (mem m) = kw"
    using Cons.prems(2) i(1) by (metis Cons_nth_drop_Suc list.inject)+
  have rd: "mem_read_byte a m = Ret p"
    using r i p by (simp add: mem_read_byte_def)
  have un: "unat (a + 1) = unat a + 1" "unat (a + 1 - base_addr m) = Suc ?i"
    using Cons.prems(1) i wf unat_add64 [of a 1] unat_sub64 [of "base_addr m" "a + 1"]
    by (simp_all add: inside_iff mem_wf_def word_le_nat_alt Suc_diff_le)
  show ?case
  proof (cases kw)
    case Nil
    then have "length (mem m) \<le> Suc ?i"
      using p(2) by simp
    moreover obtain q qs where "tl' = q # qs"
      using assms(5) by (cases tl') auto
    ultimately show ?thesis
      using rd Nil r un(2) by (simp add: mem_read_byte_def vec_index_def)
  next
    case (Cons q qs)
    then have "Suc ?i < length (mem m)"
      using p(2) by (metis drop_eq_Nil linorder_not_le list.distinct(1))
    then have "inside m (a + 1)"
      using un(1) i Cons.prems(1) \<open>inside m a\<close> by (simp add: inside_iff [OF wf])
    then show ?thesis
      using Cons.IH [of "a + 1"] un(2) p(2) rd by simp
  qed
qed

text \<open>
\<open>search_string\<close> panics on a map that ends in a proper, non-empty prefix of the keyword: it reads
past the end of the map. Nothing else is required of the map but that it is readable.
\<close>

theorem search_string_panics:
  assumes wf: "maps_wf s" and k: "om_get (mem_slab s) k = Some m" and r: "can_read m"
    and kw: "mem m = front @ pre" "pre \<noteq> []" "rest \<noteq> []"
  shows "search_string (pre @ rest) (mem_name m) s = Panic IndexOutOfBounds"
proof -
  note m = wf_region [OF wf k]
  let ?a = "base_addr m + of_nat (length front)"
  have f: "length front < length (mem m)" "length (mem m) < 2 ^ 64" "unat (base_addr m) + length (mem m) < 2 ^ 64"
    using kw m by (simp_all add: mem_wf_def)
  then have u: "unat ?a = unat (base_addr m) + length front"
    using unat_add_of_nat [of "base_addr m" "length front"] by simp
  then have i: "inside m ?a"
    using f by (simp add: inside_iff [OF m])
  have "unat (?a - base_addr m) = length front"
    using inside_index [OF m i] u by simp
  then have "count_unchecked ?a (pre @ rest) m = Panic IndexOutOfBounds"
    using kw by (intro count_unchecked_end [OF m r i]) simp_all
  moreover have "?a \<in> set (addresses (base_addr m) (bottom_addr m))"
    using addresses_iff [OF m] i by blast
  ultimately have "collect_matches (\<lambda>a. count_unchecked a (pre @ rest) m) (length (pre @ rest))
      (addresses (base_addr m) (bottom_addr m)) = Panic IndexOutOfBounds"
    using count_unchecked_cases by (intro collect_matches_panic) auto
  then show ?thesis
    using wf_region_name [OF wf k] k by (simp add: search_string_def get_map_by_name_def)
qed

theorem search_string_panics_witness:
  "search_string [0, 1] ''a'' two_maps = Panic IndexOutOfBounds"
proof -
  have "mem (fresh_region ''a'' 0x1000 4 PERM_READ_WRITE) = [0, 0, 0] @ [0]"
  proof -
    have "replicate 4 (0 :: u8) = [0, 0, 0] @ [0]"
      by (simp add: numeral_eq_Suc)
    then show ?thesis by simp
  qed
  then show ?thesis
    using search_string_panics [OF two_maps_wf, of 0 "fresh_region ''a'' 0x1000 4 PERM_READ_WRITE"
        "[0, 0, 0]" "[0]" "[1]"]
    by (simp add: two_maps_get can_read_def read_write_allowed)
qed

lemma first_match_in: "first_match m pat as = Ret x \<Longrightarrow> x = 0 \<or> x \<in> set as"
proof (induction as)
  case (Cons a as)
  show ?case
  proof (cases "is_pattern_match_at m a pat")
    case (Panic p)
    then show ?thesis using Cons.prems by simp
  next
    case (Ret b)
    then show ?thesis using Cons by (cases b) auto
  qed
qed simp

lemma addresses_bounds:
  assumes "x \<in> set (addresses lo hi @ [hi])" "lo \<le> hi"
  shows "lo \<le> x \<and> x \<le> hi"
proof (cases "x = hi")
  case False
  then obtain i where i: "i < unat hi - unat lo" "x = lo + of_nat i"
    using assms(1) by (auto simp: addresses_def)
  then have "unat x = unat lo + i"
    using unat_add_of_nat [of lo i] unsigned_less [of hi, where 'a = nat] by simp
  then show ?thesis
    using i(1) by (simp add: word_le_nat_alt)
qed (use assms(2) in simp)

lemma find_region_by_addr:
  assumes wf: "maps_wf s" and k: "om_get (mem_slab s) k = Some m" and i: "inside m a"
  shows "List.find (\<lambda>(k, m). \<not> (a < base_addr m \<or> bottom_addr m \<le> a)) (mem_slab s) = Some (k, m)"
proof (rule find_unique)
  show "(k, m) \<in> set (mem_slab s)"
    using om_get_iff [OF wf_ok(2) [OF wf]] k by blast
  show "case (k, m) of (k, m) \<Rightarrow> \<not> (a < base_addr m \<or> bottom_addr m \<le> a)"
    using i by (auto simp: inside_def)
  fix y assume y: "y \<in> set (mem_slab s)" "case y of (k, m) \<Rightarrow> \<not> (a < base_addr m \<or> bottom_addr m \<le> a)"
  then have "om_get (mem_slab s) (fst y) = Some (snd y)" "inside (snd y) a"
    using om_get_iff [OF wf_ok(2) [OF wf]] by (auto simp: inside_def)
  then show "y = (k, m)"
    using inside_unique [OF wf k _ i, of "fst y" "snd y"] k by (simp add: prod_eq_iff)
qed

text \<open>
\<open>search_spaced_bytes_from\<close>, described as a search from an address, searches the part of the map
before it: what it returns is 0 or an address between the base of the map and the given one.
\<close>

theorem search_from_looks_back:
  assumes wf: "maps_wf s" and k: "om_get (mem_slab s) k = Some m" and i: "inside m a"
    and r: "search_spaced_bytes_from sbs a s = Ret x"
  shows "x = 0 \<or> base_addr m \<le> x \<and> x \<le> a"
proof -
  have "first_match m (spaced_bytes_to_bytes sbs) (addresses (base_addr m) a @ [a]) = Ret x"
    using r find_region_by_addr [OF wf k i] by (simp add: search_spaced_bytes_from_def)
  then show ?thesis
    using first_match_in addresses_bounds inside_base_le [OF i] by blast
qed

theorem search_from_looks_back_witness:
  "search_spaced_bytes_from ''00'' 0x1002 two_maps = Ret 0x1000 \<and>
   (0x1000 = (0 :: u64) \<or> 0x1000 \<le> (0x1000 :: u64) \<and> 0x1000 \<le> (0x1002 :: u64))"
proof -
  let ?m = "fresh_region ''a'' 0x1000 4 PERM_READ_WRITE"
  have k: "om_get (mem_slab two_maps) 0 = Some ?m" "inside ?m 0x1002"
    by (simp_all add: two_maps_get two_maps_inside in_range_def)
  have "spaced_bytes_to_bytes ''00'' = [0]"
    by (simp add: spaced_bytes_to_bytes_def u8_from_hex_def hex_digit_def)
  then have r: "search_spaced_bytes_from ''00'' 0x1002 two_maps = Ret 0x1000"
    using find_region_by_addr [OF two_maps_wf k]
    by (simp add: search_spaced_bytes_from_def addresses_def upt_rec mem_read_byte_def can_read_def
        read_write_allowed vec_index_def)
  show ?thesis
    using search_from_looks_back [OF two_maps_wf k r] r by simp
qed

end
