(* ===== verification/Heap.thy ===== *)
theory Heap
  imports Word_Casts
begin

section \<open>The heap allocator of the guest\<close>

text \<open>
  A model of \<^verbatim>\<open>crates/libmwemu/src/maps/heap_allocation.rs\<close>, the allocator behind the guest's heap
  functions. The allocator owns an arena of fragments. The fragments form a doubly linked list in
  address order, and the free ones also a doubly linked list per bin, a bin for each power of two.

  \<^item> An \<open>Rc<RefCell<Fragment>>\<close> is an address in the explicit store \<open>frag\<close>; \<open>Rc::new\<close> takes the next
    fresh address. A clone of an \<open>Rc\<close> is the same address. Following a \<open>Weak\<close> gives the fragment it
    was made from: a fragment in the address order is owned by its left neighbour, by the hash
    index or by a bin, and every fragment the code follows a \<open>Weak\<close> to is in that order.
  \<^item> The vector \<open>bins\<close> is a function; every index the code uses is checked against \<open>NUM_BINS_MAX\<close>
    first.
  \<^item> \<open>MIN_ARENA_SIZE\<close> depends on the size the compiler gives to the struct, so it is a parameter of
    \<open>heap_new\<close>.
\<close>

subsection \<open>Counting zeros\<close>

definition leading_zeros :: "'a::len word \<Rightarrow> nat" where
  "leading_zeros x = length (takeWhile (\<lambda>i. \<not> bit x i) (rev [0..<LENGTH('a)]))"

definition trailing_zeros :: "'a::len word \<Rightarrow> nat" where
  "trailing_zeros x = length (takeWhile (\<lambda>i. \<not> bit x i) [0..<LENGTH('a)])"

definition is_power_of_two :: "'a::len word \<Rightarrow> bool" where
  "is_power_of_two x \<longleftrightarrow> x \<noteq> 0 \<and> x AND (x - 1) = 0"

subsection \<open>State\<close>

type_synonym node = nat

definition NUM_BINS_MAX :: nat where
  "NUM_BINS_MAX = 64 * 8"

definition FRAGMENT_SIZE_MIN :: usize where
  "FRAGMENT_SIZE_MIN = 256"

record o1heap_diagnostics =
  capacity :: usize
  allocated :: usize
  peak_allocated :: usize
  peak_request_size :: usize
  oom_count :: usize

record fragment =
  f_offset :: u32
  f_size :: u32
  f_used :: bool
  f_next :: "node option"
  f_prev :: "node option"
  f_next_free :: "node option"
  f_prev_free :: "node option"

record o1heap =
  heap_base :: u64
  bins :: "nat \<Rightarrow> node option"
  hashes :: "u32 \<Rightarrow> node option"
  nonempty_bin_mask :: usize
  diagnostics :: o1heap_diagnostics
  frag :: "node \<Rightarrow> fragment"
  fresh :: node

definition fragment_new :: "u32 \<Rightarrow> u32 \<Rightarrow> fragment" where
  "fragment_new offset sz = \<lparr>f_offset = offset, f_size = sz, f_used = False, f_next = None,
     f_prev = None, f_next_free = None, f_prev_free = None\<rparr>"

definition upd :: "node \<Rightarrow> (fragment \<Rightarrow> fragment) \<Rightarrow> o1heap \<Rightarrow> o1heap" where
  "upd n f h = h\<lparr>frag := (frag h)(n := f (frag h n))\<rparr>"

definition upd_opt :: "node option \<Rightarrow> (fragment \<Rightarrow> fragment) \<Rightarrow> o1heap \<Rightarrow> o1heap" where
  "upd_opt n f h = (case n of None \<Rightarrow> h | Some n \<Rightarrow> upd n f h)"

definition rc_new :: "fragment \<Rightarrow> o1heap \<Rightarrow> node \<times> o1heap" where
  "rc_new f h = (fresh h, h\<lparr>frag := (frag h)(fresh h := f), fresh := Suc (fresh h)\<rparr>)"

definition diag :: "(o1heap_diagnostics \<Rightarrow> o1heap_diagnostics) \<Rightarrow> o1heap \<Rightarrow> o1heap" where
  "diag f h = h\<lparr>diagnostics := f (diagnostics h)\<rparr>"

definition hash_insert :: "u32 \<Rightarrow> node \<Rightarrow> o1heap \<Rightarrow> o1heap" where
  "hash_insert k n h = h\<lparr>hashes := (hashes h)(k \<mapsto> n)\<rparr>"

definition hash_remove :: "u32 \<Rightarrow> o1heap \<Rightarrow> o1heap" where
  "hash_remove k h = h\<lparr>hashes := (hashes h)(k := None)\<rparr>"

subsection \<open>Rounding\<close>

definition log2_floor :: "usize \<Rightarrow> nat" where
  "log2_floor x = (if x = 0 then 0 else 64 - 1 - leading_zeros x)"

definition round_up_to_power_of_2 :: "usize \<Rightarrow> usize" where
  "round_up_to_power_of_2 x =
     (if x \<le> 1 then 1
      else
        let highest = shl 1 (64 - 1)
        in if highest < x then 0
           else if is_power_of_two x then x
           else shl 1 (64 - leading_zeros x))"

definition log2_ceil :: "usize \<Rightarrow> nat" where
  "log2_ceil x = (if x \<le> 1 then 0 else log2_floor (x - 1) + 1)"

subsection \<open>Bins\<close>

definition rebin :: "node \<Rightarrow> o1heap \<Rightarrow> o1heap" where
  "rebin n h =
     (let sz = f_size (frag h n)
      in if sz < ucast FRAGMENT_SIZE_MIN then h
         else
           let idx = log2_floor (ucast sz div FRAGMENT_SIZE_MIN)
           in if NUM_BINS_MAX \<le> idx then h
              else
                let h = upd n (f_next_free_update (\<lambda>_. bins h idx)) h;
                    h = h\<lparr>bins := (bins h)(idx := None)\<rparr>;
                    h = upd n (f_prev_free_update (\<lambda>_. None)) h;
                    h = upd_opt (f_next_free (frag h n)) (f_prev_free_update (\<lambda>_. Some n)) h;
                    h = h\<lparr>bins := (bins h)(idx \<mapsto> n)\<rparr>
                in h\<lparr>nonempty_bin_mask := nonempty_bin_mask h OR shl 1 idx\<rparr>)"

definition unbin :: "node \<Rightarrow> o1heap \<Rightarrow> o1heap" where
  "unbin n h =
     (let sz = f_size (frag h n)
      in if sz < ucast FRAGMENT_SIZE_MIN then h
         else
           let idx = log2_floor (ucast sz div FRAGMENT_SIZE_MIN)
           in if NUM_BINS_MAX \<le> idx then h
              else
                let pf = f_prev_free (frag h n);
                    h = upd_opt (f_next_free (frag h n)) (f_prev_free_update (\<lambda>_. pf)) h
                in case f_prev_free (frag h n) of
                     Some p \<Rightarrow>
                       let nf = f_next_free (frag h n)
                       in upd p (f_next_free_update (\<lambda>_. nf)) h
                   | None \<Rightarrow>
                       let h = h\<lparr>bins := (bins h)(idx := f_next_free (frag h n))\<rparr>
                       in if bins h idx = None
                          then h\<lparr>nonempty_bin_mask := nonempty_bin_mask h AND NOT (shl 1 idx)\<rparr>
                          else h)"

subsection \<open>Creating a heap\<close>

definition heap_new :: "u32 \<Rightarrow> u64 \<Rightarrow> u32 \<Rightarrow> o1heap option" where
  "heap_new min_arena_size base sz =
     (if sz < min_arena_size then None
      else
        let h = \<lparr>heap_base = base, bins = (\<lambda>_. None), hashes = Map.empty, nonempty_bin_mask = 0,
              diagnostics = \<lparr>capacity = ucast sz, allocated = 0, peak_allocated = 0,
                peak_request_size = 0, oom_count = 0\<rparr>,
              frag = (\<lambda>_. fragment_new 0 0), fresh = 0\<rparr>;
            (n, h) = rc_new (fragment_new 0 sz) h;
            h = hash_insert 0 n h
        in Some (rebin n h))"

subsection \<open>Allocating\<close>

definition clamp_fragment :: "usize \<Rightarrow> usize" where
  "clamp_fragment raw = (if raw = 0 then 0 else max raw FRAGMENT_SIZE_MIN)"

definition note_peak :: "o1heap \<Rightarrow> o1heap" where
  "note_peak = diag (\<lambda>d. d\<lparr>peak_allocated := max (peak_allocated d) (allocated d)\<rparr>)"

text \<open>A new fragment, linked in between \<open>n\<close> and \<open>nn\<close> in the address order.\<close>

definition link_tail :: "node \<Rightarrow> node option \<Rightarrow> u32 \<Rightarrow> u32 \<Rightarrow> o1heap \<Rightarrow> node \<times> o1heap" where
  "link_tail n nn offset leftover h =
     (let (m, h) = rc_new (fragment_new offset leftover) h;
          h = upd m (f_next_update (\<lambda>_. nn)) h;
          h = upd m (f_prev_update (\<lambda>_. Some n)) h;
          h = upd_opt nn (f_prev_update (\<lambda>_. Some m)) h;
          h = upd n (f_next_update (\<lambda>_. Some m)) h
      in (m, h))"

definition take_fragment :: "node \<Rightarrow> usize \<Rightarrow> o1heap \<Rightarrow> u64 \<times> o1heap" where
  "take_fragment n fragment_size h =
     (let h = unbin n h;
          frag_size = f_size (frag h n);
          frag_offset = f_offset (frag h n);
          h = upd n (f_size_update (\<lambda>_. ucast fragment_size)) h;
          leftover = frag_size - ucast fragment_size;
          h = (if ucast FRAGMENT_SIZE_MIN \<le> leftover
               then
                 let offset = frag_offset + ucast fragment_size;
                     (m, h) = link_tail n (f_next (frag h n)) offset leftover h
                 in rebin m (hash_insert offset m h)
               else h);
          h = upd n (f_used_update (\<lambda>_. True)) h;
          h = upd n (f_size_update (\<lambda>_. ucast fragment_size)) h;
          h = hash_insert frag_offset n h;
          h = diag (\<lambda>d. d\<lparr>allocated := allocated d + fragment_size\<rparr>) h;
          h = note_peak h
      in (ucast frag_offset + heap_base h, h))"

definition allocate :: "usize \<Rightarrow> o1heap \<Rightarrow> (u64 option \<times> o1heap) outcome" where
  "allocate amount h =
     (if amount = 0 then Ret (None, h)
      else
        let fragment_size = clamp_fragment (round_up_to_power_of_2 amount)
        in if fragment_size = 0 \<or> capacity (diagnostics h) < fragment_size
           then Ret (None, diag (\<lambda>d. d\<lparr>oom_count := oom_count d + 1\<rparr>) h)
           else
             let optimal_bin_index = log2_ceil (fragment_size div FRAGMENT_SIZE_MIN);
                 candidate_bin_mask = NOT (shl 1 optimal_bin_index - 1);
                 suitable_bins = nonempty_bin_mask h AND candidate_bin_mask
             in if suitable_bins = 0 then Ret (None, h)
                else
                  let smallest_bin_index = trailing_zeros suitable_bins
                  in if NUM_BINS_MAX \<le> smallest_bin_index then Ret (None, h)
                     else
                       obind (expect (bins h smallest_bin_index)) (\<lambda>n.
                         let h = h\<lparr>bins := (bins h)(smallest_bin_index := None)\<rparr>;
                             (a, h) = take_fragment n fragment_size h
                         in Ret (Some a, h)))"

subsection \<open>Looking up an allocation\<close>

definition find_fragment_by_offset :: "u32 \<Rightarrow> o1heap \<Rightarrow> node option" where
  "find_fragment_by_offset offset h = hashes h offset"

definition check_fragment_exists :: "u64 \<Rightarrow> o1heap \<Rightarrow> bool" where
  "check_fragment_exists addr h =
     (if addr < heap_base h then False
      else
        let offset = ucast (addr - heap_base h)
        in case hashes h offset of Some n \<Rightarrow> f_used (frag h n) | None \<Rightarrow> False)"

definition allocation_size :: "u64 \<Rightarrow> o1heap \<Rightarrow> usize option" where
  "allocation_size addr h =
     (if addr < heap_base h then None
      else
        let offset = ucast (addr - heap_base h)
        in case hashes h offset of
             None \<Rightarrow> None
           | Some n \<Rightarrow> if \<not> f_used (frag h n) then None else Some (ucast (f_size (frag h n))))"

subsection \<open>Freeing\<close>

definition free_at :: "node option \<Rightarrow> o1heap \<Rightarrow> bool" where
  "free_at n h = (case n of None \<Rightarrow> False | Some n \<Rightarrow> \<not> f_used (frag h n))"

text \<open>The address order, continued behind \<open>n\<close> with \<open>nn\<close>.\<close>

definition link_past :: "node \<Rightarrow> node option \<Rightarrow> o1heap \<Rightarrow> o1heap" where
  "link_past n nn h = upd_opt nn (f_prev_update (\<lambda>_. Some n)) (upd n (f_next_update (\<lambda>_. nn)) h)"

definition merge_free :: "node \<Rightarrow> o1heap \<Rightarrow> o1heap outcome" where
  "merge_free n h =
     (let prev_rc = f_prev (frag h n);
          next_rc = f_next (frag h n);
          join_left = free_at prev_rc h;
          join_right = free_at next_rc h
      in if join_left \<and> join_right then
           obind (expect prev_rc) (\<lambda>p.
           obind (expect next_rc) (\<lambda>q.
             let h = unbin p h;
                 h = unbin q h;
                 sz = f_size (frag h n) + f_size (frag h q);
                 h = upd p (\<lambda>f. f\<lparr>f_size := f_size f + sz\<rparr>) h;
                 h = upd n (f_size_update (\<lambda>_. 0)) h;
                 h = upd q (f_size_update (\<lambda>_. 0)) h
             in Ret (rebin p (link_past p (f_next (frag h q)) h))))
         else if join_left then
           obind (expect prev_rc) (\<lambda>p.
             let h = unbin p h;
                 sz = f_size (frag h n);
                 h = upd p (\<lambda>f. f\<lparr>f_size := f_size f + sz\<rparr>) h;
                 h = upd n (f_size_update (\<lambda>_. 0)) h
             in Ret (rebin p (link_past p (f_next (frag h n)) h)))
         else if join_right then
           obind (expect next_rc) (\<lambda>q.
             let h = unbin q h;
                 sz = f_size (frag h q);
                 h = upd n (\<lambda>f. f\<lparr>f_size := f_size f + sz\<rparr>) h;
                 h = upd q (f_size_update (\<lambda>_. 0)) h
             in Ret (rebin n (link_past n (f_next (frag h q)) h)))
         else Ret (rebin n h))"

definition heap_free :: "u64 \<Rightarrow> o1heap \<Rightarrow> o1heap outcome" where
  "heap_free address h =
     (let offset = ucast (address - heap_base h)
      in case find_fragment_by_offset offset h of
           None \<Rightarrow> Ret h
         | Some n \<Rightarrow>
             if \<not> f_used (frag h n) then Ret h
             else
               let frag_size = f_size (frag h n)
               in if frag_size < ucast FRAGMENT_SIZE_MIN
                     \<or> ucast (capacity (diagnostics h)) < frag_size
                     \<or> frag_size mod ucast FRAGMENT_SIZE_MIN \<noteq> 0
                  then Ret h
                  else if allocated (diagnostics h) < ucast frag_size then Ret h
                  else
                    let h = diag (\<lambda>d. d\<lparr>allocated := allocated d - ucast frag_size\<rparr>) h;
                        h = upd n (f_used_update (\<lambda>_. False)) h;
                        h = hash_remove (f_offset (frag h n)) h
                    in merge_free n h)"

subsection \<open>Resizing\<close>

record realloc_result =
  new_addr :: u64
  copy_size :: usize

definition size_at :: "node option \<Rightarrow> o1heap \<Rightarrow> usize" where
  "size_at n h = (case n of None \<Rightarrow> 0 | Some n \<Rightarrow> ucast (f_size (frag h n)))"

text \<open>The free right neighbour leaves its bin, the index and the address order.\<close>

definition absorb :: "node \<Rightarrow> o1heap \<Rightarrow> node option \<times> o1heap" where
  "absorb q h =
     (let h = unbin q h;
          next_offset = f_offset (frag h q);
          next_next = f_next (frag h q);
          h = upd q (f_size_update (\<lambda>_. 0)) h
      in (next_next, hash_remove next_offset h))"

text \<open>The fragment \<open>n\<close> cut to \<open>sz\<close> bytes, with a free fragment of \<open>leftover\<close> bytes behind it.\<close>

definition cut_fragment ::
  "node \<Rightarrow> node option \<Rightarrow> u32 \<Rightarrow> usize \<Rightarrow> usize \<Rightarrow> o1heap \<Rightarrow> o1heap" where
  "cut_fragment n nn offset sz leftover h =
     (let (m, h) = link_tail n nn (offset + ucast sz) (ucast leftover) h;
          h = upd n (f_size_update (\<lambda>_. ucast sz)) h
      in rebin m (hash_insert (offset + ucast sz) m h))"

definition shrink_fragment ::
  "node \<Rightarrow> u32 \<Rightarrow> u64 \<Rightarrow> usize \<Rightarrow> usize \<Rightarrow> o1heap \<Rightarrow> (realloc_result option \<times> o1heap) outcome" where
  "shrink_fragment n offset address frag_size new_frag_size h =
     (let next_rc = f_next (frag h n);
          next_free = free_at next_rc h;
          next_size = size_at next_rc h;
          leftover = frag_size - new_frag_size;
          stay = Some \<lparr>new_addr = address, copy_size = 0\<rparr>
      in if FRAGMENT_SIZE_MIN \<le> leftover
         then if allocated (diagnostics h) < leftover then Ret (None, h)
              else
                let h = diag (\<lambda>d. d\<lparr>allocated := allocated d - leftover\<rparr>) h
                in obind (if next_free then obind (expect next_rc) (\<lambda>q. Ret (absorb q h))
                          else Ret (f_next (frag h n), h)) (\<lambda>(next_next, h).
                     let rest = (if next_free then leftover + next_size else leftover)
                     in Ret (stay, cut_fragment n next_next offset new_frag_size rest h))
         else Ret (stay, h))"

definition grow_forward ::
  "node \<Rightarrow> node \<Rightarrow> u32 \<Rightarrow> u64 \<Rightarrow> usize \<Rightarrow> usize \<Rightarrow> o1heap \<Rightarrow> realloc_result option \<times> o1heap" where
  "grow_forward n q offset address frag_size new_frag_size h =
     (let next_size = ucast (f_size (frag h q));
          (next_next, h) = absorb q h;
          leftover = frag_size + next_size - new_frag_size;
          h = (if FRAGMENT_SIZE_MIN \<le> leftover
               then diag (\<lambda>d. d\<lparr>allocated := allocated d + (new_frag_size - frag_size)\<rparr>)
                      (cut_fragment n next_next offset new_frag_size leftover h)
               else diag (\<lambda>d. d\<lparr>allocated := allocated d + next_size\<rparr>)
                      (upd n (f_size_update (\<lambda>_. ucast (frag_size + next_size)))
                        (link_past n next_next h)))
      in (Some \<lparr>new_addr = address, copy_size = 0\<rparr>, note_peak h))"

definition grow_backward ::
  "node \<Rightarrow> node \<Rightarrow> u32 \<Rightarrow> usize \<Rightarrow> usize \<Rightarrow> o1heap \<Rightarrow> (realloc_result option \<times> o1heap) outcome" where
  "grow_backward n p offset frag_size new_frag_size h =
     (let next_rc = f_next (frag h n);
          next_free = free_at next_rc h;
          next_size = size_at next_rc h;
          prev_size = ucast (f_size (frag h p));
          h = unbin p h;
          prev_offset = f_offset (frag h p);
          h = (if next_free then (case next_rc of Some q \<Rightarrow> unbin q h | None \<Rightarrow> h) else h);
          after = (if next_free then (case next_rc of Some q \<Rightarrow> f_next (frag h q) | None \<Rightarrow> None)
                   else f_next (frag h n));
          leftover = prev_size + frag_size + next_size - new_frag_size;
          h = upd p (f_used_update (\<lambda>_. True)) h;
          h = (if FRAGMENT_SIZE_MIN \<le> leftover
               then diag (\<lambda>d. d\<lparr>allocated := allocated d + (new_frag_size - frag_size)\<rparr>)
                      (cut_fragment p after prev_offset new_frag_size leftover h)
               else diag (\<lambda>d. d\<lparr>allocated := allocated d + (prev_size + next_size)\<rparr>)
                      (upd p (f_size_update (\<lambda>_. ucast (prev_size + frag_size + next_size)))
                        (link_past p after h)));
          h = upd n (f_used_update (\<lambda>_. False)) h;
          h = upd n (f_size_update (\<lambda>_. 0)) h;
          h = hash_remove offset h;
          h = (if next_free
               then (case next_rc of
                       Some q \<Rightarrow>
                         let next_offset = f_offset (frag h q)
                         in hash_remove next_offset (upd q (f_size_update (\<lambda>_. 0)) h)
                     | None \<Rightarrow> h)
               else h);
          h = hash_insert prev_offset p h
      in Ret (Some \<lparr>new_addr = heap_base h + ucast prev_offset, copy_size = frag_size\<rparr>,
              note_peak h))"

definition resize_fragment ::
  "node \<Rightarrow> u32 \<Rightarrow> u64 \<Rightarrow> usize \<Rightarrow> usize \<Rightarrow> usize \<Rightarrow> o1heap \<Rightarrow> (realloc_result option \<times> o1heap) outcome" where
  "resize_fragment n offset address new_amount frag_size new_frag_size h =
     (let prev_rc = f_prev (frag h n);
          prev_free = free_at prev_rc h;
          next_rc = f_next (frag h n);
          next_free = free_at next_rc h;
          prev_size = size_at prev_rc h;
          next_size = size_at next_rc h
      in if new_frag_size \<le> frag_size
         then shrink_fragment n offset address frag_size new_frag_size h
         else if next_free \<and> new_frag_size \<le> frag_size + next_size
         then obind (expect next_rc) (\<lambda>q.
                Ret (grow_forward n q offset address frag_size new_frag_size h))
         else if prev_free \<and> new_frag_size \<le> prev_size + frag_size + next_size
         then obind (expect prev_rc) (\<lambda>p. grow_backward n p offset frag_size new_frag_size h)
         else obind (allocate new_amount h) (\<lambda>(a, h).
                case a of
                  None \<Rightarrow> Ret (None, h)
                | Some b \<Rightarrow>
                    obind (heap_free address h) (\<lambda>h.
                      Ret (Some \<lparr>new_addr = b, copy_size = frag_size\<rparr>, h))))"

definition reallocate ::
  "u64 \<Rightarrow> usize \<Rightarrow> o1heap \<Rightarrow> (realloc_result option \<times> o1heap) outcome" where
  "reallocate address new_amount h =
     (if new_amount = 0 then obind (heap_free address h) (\<lambda>h. Ret (None, h))
      else
        let h = diag (\<lambda>d. d\<lparr>peak_request_size := max (peak_request_size d) new_amount\<rparr>) h
        in if address < heap_base h \<or> 0xFFFFFFFF < address - heap_base h then Ret (None, h)
           else
             let offset = ucast (address - heap_base h)
             in case find_fragment_by_offset offset h of
                  None \<Rightarrow> Ret (None, h)
                | Some n \<Rightarrow>
                    if \<not> f_used (frag h n) then Ret (None, h)
                    else
                      let frag_size = ucast (f_size (frag h n))
                      in if frag_size < FRAGMENT_SIZE_MIN
                            \<or> capacity (diagnostics h) < frag_size
                            \<or> frag_size mod FRAGMENT_SIZE_MIN \<noteq> 0
                         then Ret (None, h)
                         else
                           let new_frag_size = clamp_fragment (round_up_to_power_of_2 new_amount)
                           in if new_frag_size = 0
                                 \<or> capacity (diagnostics h) < new_amount
                                 \<or> capacity (diagnostics h) < new_frag_size
                              then Ret (None, diag (\<lambda>d. d\<lparr>oom_count := oom_count d + 1\<rparr>) h)
                              else resize_fragment n offset address new_amount frag_size
                                     new_frag_size h)"

subsection \<open>Snapshots\<close>

text \<open>
  \<open>snapshot\<close> starts from any entry of the index, so it may start from a fragment that has left the
  address order, and the \<open>Weak\<close> to its left neighbour may be dead. A node is alive when the index or
  a bin owns it, or when a node that is alive owns it.
\<close>

inductive alive :: "o1heap \<Rightarrow> node \<Rightarrow> bool" for h where
  in_index: "hashes h k = Some n \<Longrightarrow> alive h n"
| in_bin: "i < NUM_BINS_MAX \<Longrightarrow> bins h i = Some n \<Longrightarrow> alive h n"
| by_next: "alive h m \<Longrightarrow> f_next (frag h m) = Some n \<Longrightarrow> alive h n"
| by_next_free: "alive h m \<Longrightarrow> f_next_free (frag h m) = Some n \<Longrightarrow> alive h n"

definition upgrade :: "o1heap \<Rightarrow> node option \<Rightarrow> node option" where
  "upgrade h w = (case w of None \<Rightarrow> None | Some n \<Rightarrow> if alive h n then Some n else None)"

record o1heap_snapshot =
  s_base :: u64
  s_diagnostics :: o1heap_diagnostics
  s_fragments :: "(u32 \<times> u32 \<times> bool) list"
  s_hash_keys :: "u32 list"

text \<open>The entry that the iteration over the hash map meets first is \<open>pick\<close>, its order is not
  specified.\<close>

type_synonym pick = "(u32 \<rightharpoonup> node) \<Rightarrow> node option"

definition any_fragment :: "pick \<Rightarrow> o1heap \<Rightarrow> node option" where
  "any_fragment pick h =
     (case pick (hashes h) of
        Some n \<Rightarrow> Some n
      | None \<Rightarrow>
          (case filter (\<lambda>b. b \<noteq> None) (map (bins h) [0..<NUM_BINS_MAX]) of
             [] \<Rightarrow> None
           | b # _ \<Rightarrow> b))"

partial_function (option) walk_back :: "o1heap \<Rightarrow> node \<Rightarrow> node option" where
  "walk_back h cur =
     (case upgrade h (f_prev (frag h cur)) of
        Some p \<Rightarrow> walk_back h p
      | None \<Rightarrow> Some cur)"

partial_function (option) walk_fragments ::
  "o1heap \<Rightarrow> node option \<Rightarrow> (u32 \<times> u32 \<times> bool) list \<Rightarrow> (u32 \<times> u32 \<times> bool) list option" where
  "walk_fragments h cur fragments =
     (case cur of
        None \<Rightarrow> Some fragments
      | Some n \<Rightarrow>
          walk_fragments h (f_next (frag h n))
            (fragments @ [(f_offset (frag h n), f_size (frag h n), f_used (frag h n))]))"

text \<open>The outcome \<open>None\<close> of \<open>first_fragment\<close>, of \<open>walk_back\<close> and of \<open>snapshot\<close> is a walk that does not
  end; a heap without fragments gives \<open>Some None\<close>.\<close>

definition first_fragment :: "pick \<Rightarrow> o1heap \<Rightarrow> node option option" where
  "first_fragment pick h =
     (case any_fragment pick h of
        None \<Rightarrow> Some None
      | Some cur \<Rightarrow> map_option Some (walk_back h cur))"

definition snapshot :: "pick \<Rightarrow> o1heap \<Rightarrow> o1heap_snapshot option" where
  "snapshot pick h =
     Option.bind (first_fragment pick h) (\<lambda>cur.
     Option.bind (walk_fragments h cur []) (\<lambda>fragments.
       Some \<lparr>s_base = heap_base h, s_diagnostics = diagnostics h, s_fragments = fragments,
         s_hash_keys = sorted_list_of_set (dom (hashes h))\<rparr>))"

fun rebuild ::
  "(u32 \<times> u32 \<times> bool) list \<Rightarrow> node option \<Rightarrow> (u32 \<rightharpoonup> node) \<Rightarrow> o1heap \<Rightarrow> (u32 \<rightharpoonup> node) \<times> o1heap" where
  "rebuild [] _ by_offset h = (by_offset, h)"
| "rebuild ((offset, sz, used) # fs) prev by_offset h =
     (let (n, h) = rc_new (fragment_new offset sz) h;
          h = upd n (f_used_update (\<lambda>_. used)) h;
          h = (case prev of
                 None \<Rightarrow> h
               | Some p \<Rightarrow>
                   upd n (f_prev_update (\<lambda>_. Some p)) (upd p (f_next_update (\<lambda>_. Some n)) h));
          h = (if used then h else rebin n h)
      in rebuild fs (Some n) (by_offset(offset \<mapsto> n)) h)"

fun reindex :: "u32 list \<Rightarrow> (u32 \<rightharpoonup> node) \<Rightarrow> o1heap \<Rightarrow> o1heap" where
  "reindex [] _ h = h"
| "reindex (k # ks) by_offset h =
     reindex ks by_offset (case by_offset k of Some n \<Rightarrow> hash_insert k n h | None \<Rightarrow> h)"

definition from_snapshot :: "o1heap_snapshot \<Rightarrow> o1heap" where
  "from_snapshot snap =
     (let h = \<lparr>heap_base = s_base snap, bins = (\<lambda>_. None), hashes = Map.empty, nonempty_bin_mask = 0,
            diagnostics = s_diagnostics snap, frag = (\<lambda>_. fragment_new 0 0), fresh = 0\<rparr>;
          (by_offset, h) = rebuild (s_fragments snap) None Map.empty h
      in reindex (s_hash_keys snap) by_offset h)"

definition heap_clone :: "pick \<Rightarrow> o1heap \<Rightarrow> o1heap option" where
  "heap_clone pick h = map_option from_snapshot (snapshot pick h)"

end
