(* ===== verification/Heap_Bits.thy ===== *)
theory Heap_Bits
  imports Heap
begin

section \<open>The rounding functions of the heap\<close>

text \<open>
  What the zero counts, \<open>log2_floor\<close>, \<open>log2_ceil\<close> and \<open>round_up_to_power_of_2\<close> compute, as facts about
  natural numbers.
\<close>

subsection \<open>Zero counts\<close>

lemma first_stop:
  assumes "\<exists>i < length xs. \<not> P (xs ! i)"
  shows "length (takeWhile P xs) < length xs" "\<not> P (xs ! length (takeWhile P xs))"
    "i < length (takeWhile P xs) \<Longrightarrow> P (xs ! i)"
proof -
  show lt: "length (takeWhile P xs) < length xs"
  proof (rule ccontr)
    assume "\<not> ?thesis"
    then have "takeWhile P xs = xs"
      by (metis length_takeWhile_le le_neq_implies_less takeWhile_eq_take take_all_iff order_refl)
    then show False
      using assms by (metis nth_mem set_takeWhileD)
  qed
  then show "\<not> P (xs ! length (takeWhile P xs))"
    by (rule nth_length_takeWhile)
  show "i < length (takeWhile P xs) \<Longrightarrow> P (xs ! i)"
    by (metis nth_mem set_takeWhileD takeWhile_nth)
qed

lemma trailing_zeros_first:
  fixes x :: "'a::len word"
  assumes "x \<noteq> 0"
  shows "trailing_zeros x < LENGTH('a)" "bit x (trailing_zeros x)"
    "i < trailing_zeros x \<Longrightarrow> \<not> bit x i"
proof -
  obtain k where "bit x k"
    using assms by (metis bit_eq_iff bit_0_eq bot_apply bot_bool_def)
  moreover from this have "k < LENGTH('a)"
    by (rule bit_imp_le_length)
  ultimately have ex: "\<exists>i < length [0..<LENGTH('a)]. \<not> \<not> bit x ([0..<LENGTH('a)] ! i)"
    by auto
  note stop = first_stop[of "[0..<LENGTH('a)]" "\<lambda>i. \<not> bit x i", OF ex]
  show lt: "trailing_zeros x < LENGTH('a)"
    using stop(1) by (simp add: trailing_zeros_def)
  show "bit x (trailing_zeros x)"
    using stop(2) lt by (simp add: trailing_zeros_def)
  show "i < trailing_zeros x \<Longrightarrow> \<not> bit x i"
    using stop(3)[of i] lt by (simp add: trailing_zeros_def)
qed

lemma leading_zeros_last:
  fixes x :: "'a::len word"
  assumes "x \<noteq> 0"
  obtains k where "k < LENGTH('a)" "leading_zeros x = LENGTH('a) - 1 - k" "bit x k"
    "\<And>j. k < j \<Longrightarrow> \<not> bit x j"
proof -
  let ?n = "leading_zeros x" and ?L = "LENGTH('a)"
  obtain k where "bit x k"
    using assms by (metis bit_eq_iff bit_0_eq bot_apply bot_bool_def)
  moreover from this have "k < ?L"
    by (rule bit_imp_le_length)
  moreover have "rev [0..<?L] ! (?L - 1 - k) = k"
    using \<open>k < ?L\<close> by (simp add: rev_nth)
  ultimately have ex: "\<exists>i < length (rev [0..<?L]). \<not> \<not> bit x (rev [0..<?L] ! i)"
    by (intro exI[of _ "?L - 1 - k"]) simp
  note stop = first_stop[of "rev [0..<?L]" "\<lambda>i. \<not> bit x i", OF ex]
  have lt: "?n < ?L"
    using stop(1) by (simp add: leading_zeros_def)
  show thesis
  proof (rule that[of "?L - 1 - ?n"])
    show "bit x (?L - 1 - ?n)"
      using stop(2) lt by (simp add: leading_zeros_def rev_nth)
    show "\<not> bit x j" if "?L - 1 - ?n < j" for j
    proof
      assume "bit x j"
      then have "j < ?L"
        by (rule bit_imp_le_length)
      moreover from this have "?L - 1 - j < ?n"
        using that lt by linarith
      ultimately show False
        using stop(3)[of "?L - 1 - j"] \<open>bit x j\<close>
        by (simp add: leading_zeros_def[symmetric] rev_nth)
    qed
  qed (use lt in simp_all)
qed

subsection \<open>Logarithms and powers\<close>

lemma unat_less_power:
  fixes x :: "'a::len word"
  assumes "\<And>j. k \<le> j \<Longrightarrow> \<not> bit x j"
  shows "unat x < 2 ^ k"
proof -
  have "take_bit k x = x"
    using assms by (intro bit_eqI) (meson bit_take_bit_iff not_le)
  then have "unat x = take_bit k (unat x)"
    by (metis unsigned_take_bit_eq)
  then show ?thesis
    by (metis take_bit_nat_less_exp)
qed

lemma power_le_unat:
  fixes x :: "'a::len word"
  assumes "bit x k"
  shows "2 ^ k \<le> unat x"
proof (rule ccontr)
  assume "\<not> ?thesis"
  then have "unat x div 2 ^ k = 0"
    by simp
  moreover have "bit (unat x) k"
    using assms by (simp add: bit_unsigned_iff bit_imp_le_length)
  ultimately show False
    by (simp add: bit_iff_odd)
qed

lemma log2_floor_unique:
  assumes "2 ^ k \<le> unat x" "unat x < 2 ^ Suc k"
  shows "log2_floor x = k"
proof -
  have "x \<noteq> 0"
    using assms(1) by auto
  then obtain m where m: "m < 64" "leading_zeros x = 64 - 1 - m" "bit x m" "\<And>j. m < j \<Longrightarrow> \<not> bit x j"
    by (rule leading_zeros_last) simp
  have "2 ^ m \<le> unat x" "unat x < 2 ^ Suc m"
    using power_le_unat[OF m(3)] unat_less_power[of "Suc m" x] m(4) by auto
  then have "(2::nat) ^ m < 2 ^ Suc k" "(2::nat) ^ k < 2 ^ Suc m"
    using assms by linarith+
  then have "m = k"
    by (simp add: power_strict_increasing_iff del: power_Suc)
  then show ?thesis
    using \<open>x \<noteq> 0\<close> m by (simp add: log2_floor_def)
qed

lemma log2_floor_bounds:
  assumes "x \<noteq> 0"
  shows "2 ^ log2_floor x \<le> unat x" "unat x < 2 ^ Suc (log2_floor x)" "log2_floor x < 64"
proof -
  obtain m where m: "m < 64" "leading_zeros x = 64 - 1 - m" "bit x m" "\<And>j. m < j \<Longrightarrow> \<not> bit x j"
    using assms by (rule leading_zeros_last) simp
  have "2 ^ m \<le> unat x" "unat x < 2 ^ Suc m"
    using power_le_unat[OF m(3)] unat_less_power[of "Suc m" x] m(4) by auto
  moreover from this have "log2_floor x = m"
    by (rule log2_floor_unique)
  ultimately show "2 ^ log2_floor x \<le> unat x" "unat x < 2 ^ Suc (log2_floor x)" "log2_floor x < 64"
    using m(1) by simp_all
qed

lemma log2_floor_le_iff:
  assumes "x \<noteq> 0"
  shows "k \<le> log2_floor x \<longleftrightarrow> 2 ^ k \<le> unat x"
proof
  assume "k \<le> log2_floor x"
  then have "(2::nat) ^ k \<le> 2 ^ log2_floor x"
    by simp
  then show "2 ^ k \<le> unat x"
    using log2_floor_bounds(1)[OF assms] by linarith
next
  assume "2 ^ k \<le> unat x"
  then have "(2::nat) ^ k < 2 ^ Suc (log2_floor x)"
    using log2_floor_bounds(2)[OF assms] by linarith
  then show "k \<le> log2_floor x"
    by (simp add: power_strict_increasing_iff del: power_Suc)
qed

lemma unat_power_of_two [simp]:
  assumes "k < 64"
  shows "unat ((2::u64) ^ k) = 2 ^ k"
proof -
  have "(2::nat) ^ k < 2 ^ 64"
    using assms by (intro power_strict_increasing) auto
  then have "unat (of_nat (2 ^ k) :: u64) = 2 ^ k"
    by (simp only: unat_of_nat) simp
  then show ?thesis
    by simp
qed

lemma shl1: "k < 64 \<Longrightarrow> shl (1::u64) k = 2 ^ k"
  by (simp add: shl_def push_bit_eq_mult)

lemma is_power_of_two_iff:
  fixes x :: u64
  shows "is_power_of_two x \<longleftrightarrow> (\<exists>k<64. x = 2 ^ k)"
proof
  assume p: "is_power_of_two x"
  then have "x \<noteq> 0"
    by (simp add: is_power_of_two_def)
  define k where "k = log2_floor x"
  have k: "2 ^ k \<le> unat x" "unat x < 2 ^ Suc k" "k < 64"
    using log2_floor_bounds[OF \<open>x \<noteq> 0\<close>] by (simp_all add: k_def)
  have "unat x = 2 ^ k"
  proof (rule ccontr)
    assume "unat x \<noteq> 2 ^ k"
    moreover have "unat (x - 1) = unat x - 1"
      using \<open>x \<noteq> 0\<close> by (metis unat_minus_one)
    ultimately have "unat (x - 1) div 2 ^ k = 1" "unat x div 2 ^ k = 1"
      using k by (auto simp: div_nat_eqI)
    then have "bit (unat (x - 1)) k" "bit (unat x) k"
      by (simp_all add: bit_iff_odd)
    then have "bit (x AND (x - 1)) k"
      by (simp add: bit_unsigned_iff bit_and_iff)
    then show False
      using p by (simp add: is_power_of_two_def)
  qed
  then have "x = 2 ^ k"
    using k(3) by (intro word_unat_eq_iff[THEN iffD2]) simp
  then show "\<exists>k<64. x = 2 ^ k"
    using k(3) by blast
next
  assume "\<exists>k<64. x = 2 ^ k"
  then obtain k where k: "k < 64" "x = 2 ^ k"
    by blast
  have "x AND (x - 1) = 0"
    by (rule bit_eqI) (simp add: k bit_and_iff bit_exp_iff flip: mask_eq_exp_minus_1, simp add: bit_mask_iff)
  moreover have "unat x \<noteq> 0"
    using k by simp
  ultimately show "is_power_of_two x"
    by (auto simp: is_power_of_two_def)
qed

text \<open>The least power of two that is not below a number, and zero when it does not fit.\<close>

lemma round_up_fits:
  assumes "0 < x" "unat x \<le> 2 ^ 63"
  obtains k where "k < 64" "round_up_to_power_of_2 x = 2 ^ k" "unat x \<le> 2 ^ k" "2 ^ k < 2 * unat x"
proof (cases "is_power_of_two x \<or> x = 1")
  case True
  then obtain k where "k < 64" "x = 2 ^ k"
    by (metis is_power_of_two_iff power_0 zero_less_numeral)
  moreover have "round_up_to_power_of_2 x = x"
  proof (cases "x \<le> 1")
    case True
    then have "x = 1"
      using assms(1) by (metis order_antisym_conv word_le_less_eq word_less_1 less_irrefl)
    then show ?thesis
      by (simp add: round_up_to_power_of_2_def)
  next
    case False
    then show ?thesis
      using assms(2) True by (auto simp: round_up_to_power_of_2_def shl1 word_less_nat_alt)
  qed
  ultimately show ?thesis
    using that[of k] assms(1) by (simp add: word_less_nat_alt)
next
  case False
  then have "1 < x"
    using assms(1) by (auto simp: word_less_nat_alt word_unat_eq_iff)
  then have "x \<noteq> 0"
    by auto
  then obtain m where m: "m < 64" "leading_zeros x = 64 - 1 - m" "bit x m" "\<And>j. m < j \<Longrightarrow> \<not> bit x j"
    by (rule leading_zeros_last) simp
  have b: "2 ^ m \<le> unat x" "unat x < 2 ^ Suc m"
    using power_le_unat[OF m(3)] unat_less_power[of "Suc m" x] m(4) by auto
  have "unat x \<noteq> 2 ^ m"
  proof
    assume "unat x = 2 ^ m"
    then have "x = 2 ^ m"
      using m(1) by (intro word_unat_eq_iff[THEN iffD2]) simp
    then show False
      using False m(1) by (auto simp: is_power_of_two_iff)
  qed
  have "(2::nat) ^ m < 2 ^ 63"
    using b(1) \<open>unat x \<noteq> 2 ^ m\<close> assms(2) by linarith
  then have "Suc m < 64"
    by (simp add: power_strict_increasing_iff del: power_numeral)
  moreover have "round_up_to_power_of_2 x = 2 ^ Suc m"
  proof -
    have "\<not> shl 1 (64 - 1) < x"
      using assms(2) by (simp add: shl1 word_less_nat_alt)
    then show ?thesis
      using \<open>1 < x\<close> False m(1,2) \<open>Suc m < 64\<close>
      by (simp add: round_up_to_power_of_2_def shl1 Suc_diff_Suc not_le[symmetric] del: power_Suc)
  qed
  ultimately show ?thesis
    using that[of "Suc m"] b \<open>unat x \<noteq> 2 ^ m\<close> by simp
qed

lemma round_up_too_large: "2 ^ 63 < unat x \<Longrightarrow> round_up_to_power_of_2 x = 0"
  by (auto simp: round_up_to_power_of_2_def shl1 word_less_nat_alt word_le_nat_alt)

lemma log2_ceil_power:
  assumes "k < 64"
  shows "log2_ceil (2 ^ k) = k"
proof (cases k)
  case (Suc j)
  have "\<not> (2::u64) ^ k \<le> 1"
    using assms Suc one_less_power[of "2::nat" k] by (simp add: word_le_nat_alt del: power_Suc)
  moreover have "unat ((2::u64) ^ k - 1) = 2 ^ k - 1"
    using assms by (subst unat_minus_one) (auto simp: word_unat_eq_iff)
  then have "log2_floor (2 ^ k - 1) = j"
    using Suc by (intro log2_floor_unique) (simp_all add: Suc_leI)
  ultimately show ?thesis
    by (simp add: log2_ceil_def Suc)
qed (simp add: log2_ceil_def)

end
