(* ===== verification/Linked_List.thy ===== *)
theory Linked_List
  imports Mwemu_Prelude
begin

section \<open>Doubly linked lists in a store\<close>

text \<open>
  Two pointer fields of a store, given as functions from addresses, link the addresses of a list:
  \<open>dll nx pv p xs q\<close> says that \<open>xs\<close> is such a list, that its first element points back to \<open>p\<close> and its
  last one forward to \<open>q\<close>. The lemmas say what the pointer updates of insertion and removal do.
\<close>

fun head_or :: "'a option \<Rightarrow> 'a list \<Rightarrow> 'a option" where
  "head_or q [] = q"
| "head_or q (x # xs) = Some x"

fun last_or :: "'a option \<Rightarrow> 'a list \<Rightarrow> 'a option" where
  "last_or p [] = p"
| "last_or p (x # xs) = last_or (Some x) xs"

fun dll :: "('a \<Rightarrow> 'a option) \<Rightarrow> ('a \<Rightarrow> 'a option) \<Rightarrow> 'a option \<Rightarrow> 'a list \<Rightarrow> 'a option \<Rightarrow> bool" where
  "dll nx pv p [] q \<longleftrightarrow> True"
| "dll nx pv p (x # xs) q \<longleftrightarrow> pv x = p \<and> nx x = head_or q xs \<and> dll nx pv (Some x) xs q"

definition upd_at :: "'a option \<Rightarrow> 'b \<Rightarrow> ('a \<Rightarrow> 'b) \<Rightarrow> 'a \<Rightarrow> 'b" where
  "upd_at a v f = (case a of None \<Rightarrow> f | Some n \<Rightarrow> f(n := v))"

lemma upd_at_simps [simp]:
  "upd_at None v f = f"
  "upd_at (Some n) v f = f(n := v)"
  by (simp_all add: upd_at_def)

lemma head_or_append [simp]: "head_or q (xs @ ys) = head_or (head_or q ys) xs"
  by (cases xs) simp_all

lemma last_or_append [simp]: "last_or p (xs @ ys) = last_or (last_or p xs) ys"
  by (induction xs arbitrary: p) simp_all

lemma last_or_in: "last_or p xs = Some n \<Longrightarrow> p = Some n \<and> xs = [] \<or> n \<in> set xs"
  by (induction xs arbitrary: p) auto

lemma head_or_in: "head_or q xs = Some n \<Longrightarrow> q = Some n \<and> xs = [] \<or> n \<in> set xs"
  by (cases xs) auto

lemma head_or_None [simp]: "head_or q xs = None \<longleftrightarrow> q = None \<and> xs = []"
  by (cases xs) auto

lemma last_or_Cons: "\<exists>y. last_or p (x # xs) = Some y \<and> y \<in> set (x # xs)"
  by (induction xs arbitrary: x p) fastforce+

lemma dll_append [simp]:
  "dll nx pv p (xs @ ys) q \<longleftrightarrow> dll nx pv p xs (head_or q ys) \<and> dll nx pv (last_or p xs) ys q"
  by (induction xs arbitrary: p) auto

lemma dll_cong:
  assumes "\<And>x. x \<in> set xs \<Longrightarrow> nx x = nx' x \<and> pv x = pv' x"
  shows "dll nx pv p xs q \<longleftrightarrow> dll nx' pv' p xs q"
  using assms by (induction xs arbitrary: p) simp_all

text \<open>Updates outside the list.\<close>

lemma dll_frame [simp]:
  "x \<notin> set xs \<Longrightarrow> dll (nx(x := v)) pv p xs q \<longleftrightarrow> dll nx pv p xs q"
  "x \<notin> set xs \<Longrightarrow> dll nx (pv(x := v)) p xs q \<longleftrightarrow> dll nx pv p xs q"
proof -
  show "x \<notin> set xs \<Longrightarrow> dll (nx(x := v)) pv p xs q \<longleftrightarrow> dll nx pv p xs q"
    by (rule dll_cong) auto
  show "x \<notin> set xs \<Longrightarrow> dll nx (pv(x := v)) p xs q \<longleftrightarrow> dll nx pv p xs q"
    by (rule dll_cong) auto
qed

lemma dll_frame_at [simp]:
  assumes "\<And>n. a = Some n \<Longrightarrow> n \<notin> set xs"
  shows "dll (upd_at a v nx) pv p xs q \<longleftrightarrow> dll nx pv p xs q"
    "dll nx (upd_at a v pv) p xs q \<longleftrightarrow> dll nx pv p xs q"
  using assms by (cases a; simp)+

text \<open>The pointers at the two ends of a list.\<close>

lemma dll_set_prev:
  assumes "dll nx pv p xs q" "distinct xs" "head_or None xs = a"
  shows "dll nx (upd_at a p' pv) p' xs q"
  using assms by (cases xs) auto

lemma dll_set_next:
  assumes "dll nx pv p xs q" "distinct xs" "last_or None xs = a"
  shows "dll (upd_at a q' nx) pv p xs q'"
proof (cases xs rule: rev_cases)
  case (snoc ys y)
  then have "a = Some y"
    using assms(3) by simp
  then show ?thesis
    using snoc assms by simp
qed simp

text \<open>Insertion in front and behind an element, removal of an element and of a segment.\<close>

lemma dll_insert_front:
  assumes "dll nx pv None xs None" "distinct xs" "y \<notin> set xs"
  shows "dll (nx(y := head_or None xs)) (upd_at (head_or None xs) (Some y) (pv(y := None))) None (y # xs) None"
  using assms by (cases xs) auto

lemma dll_remove:
  assumes "dll nx pv None (as @ x # bs) None" "distinct (as @ x # bs)"
  shows "dll (upd_at (pv x) (nx x) nx) (upd_at (nx x) (pv x) pv) None (as @ bs) None"
proof -
  have x: "pv x = last_or None as" "nx x = head_or None bs"
    using assms(1) by simp_all
  have as: "dll (upd_at (pv x) (nx x) nx) pv None as (nx x)"
    using assms dll_set_next[of nx pv None as "Some x" "pv x"] by (simp add: x)
  have bs: "dll nx (upd_at (nx x) (pv x) pv) (pv x) bs None"
    using assms dll_set_prev[of nx pv "Some x" bs None "nx x"] by (simp add: x)
  have "dll (upd_at (pv x) (nx x) nx) (upd_at (nx x) (pv x) pv) None as (nx x)"
    using as assms(2) by (cases bs) (simp_all add: x)
  moreover have "dll (upd_at (pv x) (nx x) nx) (upd_at (nx x) (pv x) pv) (pv x) bs None"
    using bs assms(2) by (cases as rule: rev_cases) (simp_all add: x)
  ultimately show ?thesis
    by (simp add: x)
qed

lemma dll_insert_behind:
  assumes "dll nx pv p (as @ x # bs) None" "distinct (as @ x # bs)" "y \<notin> set (as @ x # bs)"
  shows "dll ((nx(y := nx x))(x := Some y)) (upd_at (nx x) (Some y) (pv(y := Some x))) p (as @ x # y # bs) None"
  using assms by (cases bs) auto

lemma dll_skip:
  assumes "dll nx pv p (as @ x # ms @ bs) None" "distinct (as @ x # ms @ bs)"
  shows "dll (nx(x := head_or None bs)) (upd_at (head_or None bs) (Some x) pv) p (as @ x # bs) None"
  using assms by (cases bs) auto

lemma dll_replace:
  assumes "dll nx pv p (as @ x # ms @ bs) None" "distinct (as @ x # ms @ bs)" "y \<notin> set (as @ x # ms @ bs)"
  shows "dll ((nx(y := head_or None bs))(x := Some y)) (upd_at (head_or None bs) (Some y) (pv(y := Some x))) p
    (as @ x # y # bs) None"
  using assms by (cases bs) auto

lemma dll_snoc:
  assumes "dll nx pv None xs None" "distinct xs" "y \<notin> set xs"
  shows "dll (upd_at (last_or None xs) (Some y) (nx(y := None))) (pv(y := last_or None xs)) None (xs @ [y]) None"
proof -
  have "dll (nx(y := None)) (pv(y := last_or None xs)) None xs None"
    using assms by simp
  from dll_set_next[OF this assms(2) refl, of "Some y"] show ?thesis
    using assms(3) last_or_in[of None xs y] by (cases "last_or None xs") auto
qed

lemma dll_next: "dll nx pv p (as @ x # bs) None \<Longrightarrow> nx x = head_or None bs"
  by simp

lemma dll_prev: "dll nx pv None (as @ x # bs) q \<Longrightarrow> pv x = last_or None as"
  by simp

end
