(* ===== verification/Heap_Inv.thy ===== *)
theory Heap_Inv
  imports Heap_Bits Linked_List
begin

section \<open>The invariant of the heap\<close>

text \<open>
  The invariant names two ghost structures: the list \<open>ns\<close> of the fragments in address order and, for
  each bin, the list \<open>bl i\<close> of the free fragments in it. The abstract state of a heap is the list of
  the triples of offset, size and use of the fragments. The lemmas say how each pointer update changes
  the fields, and that \<open>rebin\<close> and \<open>unbin\<close> add a fragment to the bins and remove it.
\<close>

subsection \<open>Fields\<close>

definition nx :: "o1heap \<Rightarrow> node \<Rightarrow> node option" where "nx h n = f_next (frag h n)"
definition pv :: "o1heap \<Rightarrow> node \<Rightarrow> node option" where "pv h n = f_prev (frag h n)"
definition nf :: "o1heap \<Rightarrow> node \<Rightarrow> node option" where "nf h n = f_next_free (frag h n)"
definition pf :: "o1heap \<Rightarrow> node \<Rightarrow> node option" where "pf h n = f_prev_free (frag h n)"
definition off :: "o1heap \<Rightarrow> node \<Rightarrow> u32" where "off h n = f_offset (frag h n)"
definition sz :: "o1heap \<Rightarrow> node \<Rightarrow> u32" where "sz h n = f_size (frag h n)"
definition us :: "o1heap \<Rightarrow> node \<Rightarrow> bool" where "us h n = f_used (frag h n)"

lemmas field_defs = nx_def pv_def nf_def pf_def off_def sz_def us_def
lemmas fold_fields = field_defs[symmetric]

named_theorems heap_fields \<open>effects of updates on the fields of the fragments\<close>

lemma upd_fields [heap_fields]:
  "nx (upd n f h) = (nx h)(n := f_next (f (frag h n)))"
  "pv (upd n f h) = (pv h)(n := f_prev (f (frag h n)))"
  "nf (upd n f h) = (nf h)(n := f_next_free (f (frag h n)))"
  "pf (upd n f h) = (pf h)(n := f_prev_free (f (frag h n)))"
  "off (upd n f h) = (off h)(n := f_offset (f (frag h n)))"
  "sz (upd n f h) = (sz h)(n := f_size (f (frag h n)))"
  "us (upd n f h) = (us h)(n := f_used (f (frag h n)))"
  by (auto simp: upd_def field_defs fun_eq_iff)

lemma upd_rest [simp]:
  "heap_base (upd n f h) = heap_base h"
  "bins (upd n f h) = bins h"
  "hashes (upd n f h) = hashes h"
  "nonempty_bin_mask (upd n f h) = nonempty_bin_mask h"
  "diagnostics (upd n f h) = diagnostics h"
  "fresh (upd n f h) = fresh h"
  by (simp_all add: upd_def)

lemma upd_opt_fields [heap_fields]:
  "nx (upd_opt a (f_prev_update (\<lambda>_. v)) h) = nx h"
  "pv (upd_opt a (f_prev_update (\<lambda>_. v)) h) = upd_at a v (pv h)"
  "nf (upd_opt a (f_prev_update (\<lambda>_. v)) h) = nf h"
  "pf (upd_opt a (f_prev_update (\<lambda>_. v)) h) = pf h"
  "off (upd_opt a (f_prev_update (\<lambda>_. v)) h) = off h"
  "sz (upd_opt a (f_prev_update (\<lambda>_. v)) h) = sz h"
  "us (upd_opt a (f_prev_update (\<lambda>_. v)) h) = us h"
  "nx (upd_opt a (f_prev_free_update (\<lambda>_. v)) h) = nx h"
  "pv (upd_opt a (f_prev_free_update (\<lambda>_. v)) h) = pv h"
  "nf (upd_opt a (f_prev_free_update (\<lambda>_. v)) h) = nf h"
  "pf (upd_opt a (f_prev_free_update (\<lambda>_. v)) h) = upd_at a v (pf h)"
  "off (upd_opt a (f_prev_free_update (\<lambda>_. v)) h) = off h"
  "sz (upd_opt a (f_prev_free_update (\<lambda>_. v)) h) = sz h"
  "us (upd_opt a (f_prev_free_update (\<lambda>_. v)) h) = us h"
  by (cases a; simp add: upd_opt_def heap_fields; simp add: fold_fields)+

lemma upd_opt_rest [simp]:
  "heap_base (upd_opt n f h) = heap_base h"
  "bins (upd_opt n f h) = bins h"
  "hashes (upd_opt n f h) = hashes h"
  "nonempty_bin_mask (upd_opt n f h) = nonempty_bin_mask h"
  "diagnostics (upd_opt n f h) = diagnostics h"
  "fresh (upd_opt n f h) = fresh h"
  by (cases n; simp add: upd_opt_def)+

lemma other_fields [heap_fields]:
  "nx (h\<lparr>bins := b\<rparr>) = nx h" "nx (h\<lparr>nonempty_bin_mask := k\<rparr>) = nx h" "nx (h\<lparr>hashes := t\<rparr>) = nx h"
  "nx (h\<lparr>diagnostics := d\<rparr>) = nx h"
  "pv (h\<lparr>bins := b\<rparr>) = pv h" "pv (h\<lparr>nonempty_bin_mask := k\<rparr>) = pv h" "pv (h\<lparr>hashes := t\<rparr>) = pv h"
  "pv (h\<lparr>diagnostics := d\<rparr>) = pv h"
  "nf (h\<lparr>bins := b\<rparr>) = nf h" "nf (h\<lparr>nonempty_bin_mask := k\<rparr>) = nf h" "nf (h\<lparr>hashes := t\<rparr>) = nf h"
  "nf (h\<lparr>diagnostics := d\<rparr>) = nf h"
  "pf (h\<lparr>bins := b\<rparr>) = pf h" "pf (h\<lparr>nonempty_bin_mask := k\<rparr>) = pf h" "pf (h\<lparr>hashes := t\<rparr>) = pf h"
  "pf (h\<lparr>diagnostics := d\<rparr>) = pf h"
  "off (h\<lparr>bins := b\<rparr>) = off h" "off (h\<lparr>nonempty_bin_mask := k\<rparr>) = off h" "off (h\<lparr>hashes := t\<rparr>) = off h"
  "off (h\<lparr>diagnostics := d\<rparr>) = off h"
  "sz (h\<lparr>bins := b\<rparr>) = sz h" "sz (h\<lparr>nonempty_bin_mask := k\<rparr>) = sz h" "sz (h\<lparr>hashes := t\<rparr>) = sz h"
  "sz (h\<lparr>diagnostics := d\<rparr>) = sz h"
  "us (h\<lparr>bins := b\<rparr>) = us h" "us (h\<lparr>nonempty_bin_mask := k\<rparr>) = us h" "us (h\<lparr>hashes := t\<rparr>) = us h"
  "us (h\<lparr>diagnostics := d\<rparr>) = us h"
  by (simp_all add: field_defs fun_eq_iff)

text \<open>Updates of the size alone.\<close>

lemma size_fields:
  "nx (upd n (f_size_update (\<lambda>_. v)) h) = nx h" "nx (upd n (\<lambda>f. f\<lparr>f_size := f_size f + v\<rparr>) h) = nx h"
  "pv (upd n (f_size_update (\<lambda>_. v)) h) = pv h" "pv (upd n (\<lambda>f. f\<lparr>f_size := f_size f + v\<rparr>) h) = pv h"
  "nf (upd n (f_size_update (\<lambda>_. v)) h) = nf h" "nf (upd n (\<lambda>f. f\<lparr>f_size := f_size f + v\<rparr>) h) = nf h"
  "pf (upd n (f_size_update (\<lambda>_. v)) h) = pf h" "pf (upd n (\<lambda>f. f\<lparr>f_size := f_size f + v\<rparr>) h) = pf h"
  "off (upd n (f_size_update (\<lambda>_. v)) h) = off h" "off (upd n (\<lambda>f. f\<lparr>f_size := f_size f + v\<rparr>) h) = off h"
  "us (upd n (f_size_update (\<lambda>_. v)) h) = us h" "us (upd n (\<lambda>f. f\<lparr>f_size := f_size f + v\<rparr>) h) = us h"
  "sz (upd n (f_size_update (\<lambda>_. v)) h) = (sz h)(n := v)"
  "sz (upd n (\<lambda>f. f\<lparr>f_size := f_size f + v\<rparr>) h) = (sz h)(n := sz h n + v)"
  by (auto simp: upd_def field_defs fun_eq_iff)

lemma used_fields:
  "nx (upd n (f_used_update (\<lambda>_. v)) h) = nx h" "pv (upd n (f_used_update (\<lambda>_. v)) h) = pv h"
  "nf (upd n (f_used_update (\<lambda>_. v)) h) = nf h" "pf (upd n (f_used_update (\<lambda>_. v)) h) = pf h"
  "off (upd n (f_used_update (\<lambda>_. v)) h) = off h" "sz (upd n (f_used_update (\<lambda>_. v)) h) = sz h"
  "us (upd n (f_used_update (\<lambda>_. v)) h) = (us h)(n := v)"
  by (auto simp: upd_def field_defs fun_eq_iff)

subsection \<open>The invariant\<close>

definition bin_of :: "u32 \<Rightarrow> nat" where
  "bin_of s = log2_floor (ucast s div FRAGMENT_SIZE_MIN)"

definition chain :: "o1heap \<Rightarrow> node list \<Rightarrow> bool" where
  "chain h ns \<longleftrightarrow> distinct ns \<and> (\<forall>n\<in>set ns. n < fresh h) \<and> dll (nx h) (pv h) None ns None"

definition binned :: "o1heap \<Rightarrow> node set \<Rightarrow> (nat \<Rightarrow> node list) \<Rightarrow> bool" where
  "binned h F bl \<longleftrightarrow>
     (\<forall>n\<in>F. 256 \<le> unat (sz h n)) \<and>
     (\<forall>i. distinct (bl i) \<and> dll (nf h) (pf h) None (bl i) None \<and> bins h i = head_or None (bl i)
        \<and> set (bl i) = {n \<in> F. bin_of (sz h n) = i}) \<and>
     (\<forall>i<64. bit (nonempty_bin_mask h) i \<longleftrightarrow> bl i \<noteq> [])"

definition indexed :: "o1heap \<Rightarrow> node list \<Rightarrow> bool" where
  "indexed h ns \<longleftrightarrow>
     (\<forall>n\<in>set ns. us h n \<longrightarrow> hashes h (off h n) = Some n) \<and>
     (\<forall>k n. hashes h k = Some n \<longrightarrow> n < fresh h \<and> off h n = k \<and> (us h n \<longrightarrow> n \<in> set ns))"

text \<open>The abstract state and its layout: fragments of at least 256 bytes, apart from each other, within
  the arena; the used ones have sizes that \<open>free\<close> accepts.\<close>

type_synonym blocks = "(nat \<times> nat \<times> bool) list"

fun laid_out :: "nat \<Rightarrow> blocks \<Rightarrow> nat \<Rightarrow> bool" where
  "laid_out lo [] cap \<longleftrightarrow> lo \<le> cap"
| "laid_out lo ((a, s, u) # bs) cap \<longleftrightarrow>
     lo \<le> a \<and> 256 \<le> s \<and> (u \<longrightarrow> 256 dvd s) \<and> laid_out (a + s) bs cap"

fun used_bytes :: "blocks \<Rightarrow> nat" where
  "used_bytes [] = 0"
| "used_bytes ((a, s, u) # bs) = (if u then s else 0) + used_bytes bs"

definition block_of :: "o1heap \<Rightarrow> node \<Rightarrow> nat \<times> nat \<times> bool" where
  "block_of h n = (unat (off h n), unat (sz h n), us h n)"

definition heap_inv :: "o1heap \<Rightarrow> node list \<Rightarrow> (nat \<Rightarrow> node list) \<Rightarrow> bool" where
  "heap_inv h ns bl \<longleftrightarrow>
     chain h ns \<and> binned h {n \<in> set ns. \<not> us h n} bl \<and> indexed h ns
     \<and> laid_out 0 (map (block_of h) ns) (unat (capacity (diagnostics h)))
     \<and> unat (capacity (diagnostics h)) < 2 ^ 32
     \<and> unat (allocated (diagnostics h)) = used_bytes (map (block_of h) ns)"

subsection \<open>Bins\<close>

lemma FRAGMENT_SIZE_MIN_u32 [simp]: "(ucast FRAGMENT_SIZE_MIN :: u32) = 256"
  by (simp add: FRAGMENT_SIZE_MIN_def)

lemma min_le_u32: "(256::u32) \<le> s \<longleftrightarrow> 256 \<le> unat s"
  by (simp add: word_le_nat_alt)

lemma unat_div_min:
  "unat (ucast (s::u32) div FRAGMENT_SIZE_MIN) = unat s div 256"
  by (simp add: FRAGMENT_SIZE_MIN_def unat_div unsigned_ucast_eq take_bit_nat_eq_self
      order_less_trans[OF unsigned_less])

lemma div_min_nonzero:
  fixes s :: u32
  assumes "256 \<le> unat s"
  shows "ucast s div FRAGMENT_SIZE_MIN \<noteq> 0"
proof
  assume "ucast s div FRAGMENT_SIZE_MIN = 0"
  then have "unat s div 256 = 0"
    using unat_div_min[of s] by simp
  then show False
    using assms by simp
qed

lemma bin_of_le_iff:
  assumes "256 \<le> unat s"
  shows "k \<le> bin_of s \<longleftrightarrow> 256 * 2 ^ k \<le> unat s"
  using log2_floor_le_iff[OF div_min_nonzero[OF assms], of k]
  by (simp add: bin_of_def unat_div_min less_eq_div_iff_mult_less_eq mult.commute)

lemma bin_of_less [simp]:
  assumes "256 \<le> unat s"
  shows "bin_of s < 64" "\<not> NUM_BINS_MAX \<le> bin_of s"
  using log2_floor_bounds(3)[OF div_min_nonzero[OF assms]] by (simp_all add: bin_of_def NUM_BINS_MAX_def)

lemma not_below_min: "256 \<le> unat s \<Longrightarrow> \<not> s < (256::u32)"
  by (simp add: word_less_nat_alt)

lemma rebin_effect:
  assumes "256 \<le> unat (sz h n)"
  defines "i \<equiv> bin_of (sz h n)"
  shows "nx (rebin n h) = nx h" "pv (rebin n h) = pv h" "off (rebin n h) = off h"
    "sz (rebin n h) = sz h" "us (rebin n h) = us h"
    "nf (rebin n h) = (nf h)(n := bins h i)"
    "pf (rebin n h) = upd_at (bins h i) (Some n) ((pf h)(n := None))"
    "bins (rebin n h) = (bins h)(i \<mapsto> n)"
    "nonempty_bin_mask (rebin n h) = nonempty_bin_mask h OR shl 1 i"
    "hashes (rebin n h) = hashes h" "diagnostics (rebin n h) = diagnostics h"
    "heap_base (rebin n h) = heap_base h" "fresh (rebin n h) = fresh h"
  using not_below_min[OF assms(1)] bin_of_less(2)[OF assms(1)]
  by (simp_all add: rebin_def i_def bin_of_def[symmetric] Let_def heap_fields fold_fields)

lemma unbin_effect:
  assumes "256 \<le> unat (sz h n)" "nf h n \<noteq> Some n"
  defines "i \<equiv> bin_of (sz h n)"
  shows "nx (unbin n h) = nx h" "pv (unbin n h) = pv h" "off (unbin n h) = off h"
    "sz (unbin n h) = sz h" "us (unbin n h) = us h"
    "nf (unbin n h) = upd_at (pf h n) (nf h n) (nf h)"
    "pf (unbin n h) = upd_at (nf h n) (pf h n) (pf h)"
    "bins (unbin n h) = (if pf h n = None then (bins h)(i := nf h n) else bins h)"
    "nonempty_bin_mask (unbin n h) =
       (if pf h n = None \<and> nf h n = None then nonempty_bin_mask h AND NOT (shl 1 i) else nonempty_bin_mask h)"
    "hashes (unbin n h) = hashes h" "diagnostics (unbin n h) = diagnostics h"
    "heap_base (unbin n h) = heap_base h" "fresh (unbin n h) = fresh h"
proof -
  have self: "upd_at (nf h n) (pf h n) (pf h) n = pf h n"
    using assms(2) by (cases "nf h n") simp_all
  let ?h = "upd_opt (nf h n) (f_prev_free_update (\<lambda>_. pf h n)) h"
  have eq: "unbin n h =
    (case pf h n of
       Some p \<Rightarrow> upd p (f_next_free_update (\<lambda>_. nf h n)) ?h
     | None \<Rightarrow>
         if nf h n = None then ?h\<lparr>bins := (bins h)(i := nf h n),
           nonempty_bin_mask := nonempty_bin_mask h AND NOT (shl 1 i)\<rparr>
         else ?h\<lparr>bins := (bins h)(i := nf h n)\<rparr>)"
    using not_below_min[OF assms(1)] bin_of_less(2)[OF assms(1)] self
    by (cases "pf h n") (simp_all add: unbin_def i_def bin_of_def[symmetric] Let_def heap_fields fold_fields)
  show "nx (unbin n h) = nx h" "pv (unbin n h) = pv h" "off (unbin n h) = off h"
    "sz (unbin n h) = sz h" "us (unbin n h) = us h"
    "nf (unbin n h) = upd_at (pf h n) (nf h n) (nf h)"
    "pf (unbin n h) = upd_at (nf h n) (pf h n) (pf h)"
    "bins (unbin n h) = (if pf h n = None then (bins h)(i := nf h n) else bins h)"
    "nonempty_bin_mask (unbin n h) =
       (if pf h n = None \<and> nf h n = None then nonempty_bin_mask h AND NOT (shl 1 i) else nonempty_bin_mask h)"
    "hashes (unbin n h) = hashes h" "diagnostics (unbin n h) = diagnostics h"
    "heap_base (unbin n h) = heap_base h" "fresh (unbin n h) = fresh h"
    unfolding eq by (cases "pf h n"; simp add: heap_fields; simp add: fold_fields heap_fields)+
qed

lemma bit_mask_set: "i < 64 \<Longrightarrow> bit (m OR shl (1::u64) i) j \<longleftrightarrow> bit m j \<or> j = i"
  by (auto simp: shl1 bit_or_iff bit_exp_iff)

lemma bit_mask_clear: "i < 64 \<Longrightarrow> bit (m AND NOT (shl (1::u64) i)) j \<longleftrightarrow> bit m j \<and> j \<noteq> i"
  by (auto simp: shl1 bit_and_iff bit_not_iff bit_exp_iff dest: bit_imp_le_length)

lemma binnedD:
  assumes "binned h F bl"
  shows "n \<in> F \<Longrightarrow> 256 \<le> unat (sz h n)" "distinct (bl i)" "dll (nf h) (pf h) None (bl i) None"
    "bins h i = head_or None (bl i)" "set (bl i) = {n \<in> F. bin_of (sz h n) = i}"
    "i < 64 \<Longrightarrow> bit (nonempty_bin_mask h) i \<longleftrightarrow> bl i \<noteq> []"
  using assms by (simp_all add: binned_def)

lemma rebin_binned:
  assumes b: "binned h F bl" and n: "n \<notin> F" "256 \<le> unat (sz h n)"
  defines "i \<equiv> bin_of (sz h n)"
  shows "binned (rebin n h) (insert n F) (bl(i := n # bl i))"
proof -
  note eff = rebin_effect[OF n(2), folded i_def]
  note bD = binnedD[OF b]
  have ni: "n \<notin> set (bl j)" for j
    using bD(5)[of j] n(1) by blast
  have i: "i < 64"
    using n(2) by (simp add: i_def)
  have "dll (nf (rebin n h)) (pf (rebin n h)) None ((bl(i := n # bl i)) j) None" for j
  proof (cases "j = i")
    case True
    then show ?thesis
      using dll_insert_front[OF bD(3)[of i] bD(2)[of i] ni] by (simp add: eff bD(4) del: dll.simps)
  next
    case False
    have "m \<notin> set (bl j)" if "bins h i = Some m" for m
      using that False bD(4)[of i] bD(5)[of i] bD(5)[of j] head_or_in[of None "bl i" m] by auto
    then show ?thesis
      using bD(3)[of j] False ni[of j] by (simp add: eff)
  qed
  moreover have "set ((bl(i := n # bl i)) j) = {m \<in> insert n F. bin_of (sz (rebin n h) m) = j}" for j
    using bD(5) by (auto simp: eff i_def)
  ultimately show ?thesis
    using bD(1,2,4,6) n(2) ni i by (auto simp: binned_def eff bit_mask_set)
qed

lemma unbin_binned:
  assumes b: "binned h F bl" and n: "n \<in> F"
  defines "i \<equiv> bin_of (sz h n)"
  obtains as bs where "bl i = as @ n # bs" "binned (unbin n h) (F - {n}) (bl(i := as @ bs))"
    "nf h n = head_or None bs" "pf h n = last_or None as"
proof -
  note bD = binnedD[OF b]
  have big: "256 \<le> unat (sz h n)"
    using bD(1) n by blast
  have "n \<in> set (bl i)"
    using bD(5)[of i] n by (simp add: i_def)
  then obtain as bs where ab: "bl i = as @ n # bs"
    by (meson split_list)
  have d: "distinct (as @ n # bs)" "dll (nf h) (pf h) None (as @ n # bs) None"
    using bD(2,3)[of i] by (simp_all add: ab)
  have ends: "nf h n = head_or None bs" "pf h n = last_or None as"
    using d(2) by simp_all
  have "nf h n \<noteq> Some n"
    using d(1) head_or_in[of None bs n] by (auto simp: ends)
  note eff = unbin_effect[OF big this, folded i_def]
  have i: "i < 64"
    using big by (simp add: i_def)
  have "dll (nf (unbin n h)) (pf (unbin n h)) None ((bl(i := as @ bs)) j) None" for j
  proof (cases "j = i")
    case True
    then show ?thesis
      using dll_remove[OF d(2,1)] by (simp add: eff del: dll_append)
  next
    case False
    have "m \<notin> set (bl j)" if "m \<in> set (bl i)" for m
      using that False bD(5)[of i] bD(5)[of j] by auto
    then have "m \<notin> set (bl j)" if "nf h n = Some m \<or> pf h n = Some m" for m
      using that head_or_in[of None bs m] last_or_in[of None as m] by (auto simp: ends ab)
    then show ?thesis
      using bD(3)[of j] False by (simp add: eff)
  qed
  moreover have "set ((bl(i := as @ bs)) j) = {m \<in> F - {n}. bin_of (sz (unbin n h) m) = j}" for j
  proof (cases "j = i")
    case True
    have "set (as @ bs) = set (bl i) - {n}"
      using d(1) by (auto simp: ab)
    then show ?thesis
      using True bD(5)[of i] by (auto simp: eff)
  next
    case False
    then show ?thesis
      using bD(5)[of j] by (auto simp: eff i_def)
  qed
  moreover have "bins (unbin n h) j = head_or None ((bl(i := as @ bs)) j)" for j
    using bD(4)[of j] bD(4)[of i] last_or_Cons[of None "hd as" "tl as"]
    by (cases as) (auto simp: eff ends ab)
  moreover have "bit (nonempty_bin_mask (unbin n h)) j \<longleftrightarrow> (bl(i := as @ bs)) j \<noteq> []" if "j < 64" for j
    using bD(6)[OF that] last_or_Cons[of None "hd as" "tl as"]
    by (cases as; cases "j = i") (auto simp: eff ends ab bit_mask_clear i)
  ultimately have "binned (unbin n h) (F - {n}) (bl(i := as @ bs))"
    using bD(1,2) d(1) by (auto simp: binned_def eff)
  then show thesis
    using that ab ends by blast
qed

text \<open>What the callers of \<open>unbin\<close> use.\<close>

lemma unbin_frame:
  assumes b: "binned h F bl" and n: "n \<in> F"
  obtains bl' where "binned (unbin n h) (F - {n}) bl'" "nx (unbin n h) = nx h" "pv (unbin n h) = pv h"
    "off (unbin n h) = off h" "sz (unbin n h) = sz h" "us (unbin n h) = us h"
    "hashes (unbin n h) = hashes h" "diagnostics (unbin n h) = diagnostics h"
    "heap_base (unbin n h) = heap_base h" "fresh (unbin n h) = fresh h"
proof -
  obtain as bs where ab: "bl (bin_of (sz h n)) = as @ n # bs"
    "binned (unbin n h) (F - {n}) (bl(bin_of (sz h n) := as @ bs))" "nf h n = head_or None bs"
    using unbin_binned[OF b n] by metis
  have big: "256 \<le> unat (sz h n)"
    using binnedD(1)[OF b n] .
  have "nf h n \<noteq> Some n"
    using ab(1,3) binnedD(2)[OF b, of "bin_of (sz h n)"] head_or_in[of None bs n] by auto
  note u = unbin_effect[OF big this]
  show thesis
    by (rule that[OF ab(2) u(1-5,10-)])
qed

lemma binned_cong:
  assumes "binned h F bl" "bins h' = bins h" "nonempty_bin_mask h' = nonempty_bin_mask h"
    and same: "\<And>n. n \<in> F \<Longrightarrow> sz h' n = sz h n \<and> nf h' n = nf h n \<and> pf h' n = pf h n"
  shows "binned h' F bl"
proof -
  note bD = binnedD[OF assms(1)]
  have "dll (nf h') (pf h') None (bl i) None" for i
    using bD(3)[of i] bD(5)[of i] same dll_cong[of "bl i" "nf h'" "nf h" "pf h'" "pf h"] by blast
  moreover have "set (bl i) = {n \<in> F. bin_of (sz h' n) = i}" for i
    using bD(5)[of i] same by auto
  ultimately show ?thesis
    using bD(1,2,4,6) same assms(2,3) by (simp add: binned_def)
qed

subsection \<open>Layouts\<close>

lemma laid_out_lower: "laid_out lo bs cap \<Longrightarrow> lo' \<le> lo \<Longrightarrow> laid_out lo' bs cap"
  by (cases "(lo, bs, cap)" rule: laid_out.cases) auto

lemma laid_out_upper: "laid_out lo bs cap \<Longrightarrow> cap \<le> cap' \<Longrightarrow> laid_out lo bs cap'"
  by (induction lo bs cap rule: laid_out.induct) auto

lemma laid_out_append:
  "laid_out lo (as @ bs) cap \<longleftrightarrow> (\<exists>mid. laid_out lo as mid \<and> laid_out mid bs cap)"
proof (induction lo as cap rule: laid_out.induct)
  case (1 lo cap)
  then show ?case
    using laid_out_lower by auto
next
  case (2 lo a s u as cap)
  then show ?case
    by auto
qed

lemma laid_out_bounds: "laid_out lo bs cap \<Longrightarrow> lo + used_bytes bs \<le> cap"
  by (induction lo bs cap rule: laid_out.induct) auto

lemma laid_out_replace:
  assumes "laid_out lo (as @ xs @ bs) cap" "\<And>l c. laid_out l xs c \<Longrightarrow> laid_out l ys c"
  shows "laid_out lo (as @ ys @ bs) cap"
  using assms by (meson laid_out_append)

lemma laid_out_member:
  "laid_out lo bs cap \<Longrightarrow> (a, s, u) \<in> set bs \<Longrightarrow> lo \<le> a \<and> 256 \<le> s \<and> a + s \<le> cap \<and> (u \<longrightarrow> 256 dvd s)"
proof (induction lo bs cap rule: laid_out.induct)
  case (2 lo b t v bs cap)
  have "b + t \<le> cap"
    using laid_out_bounds 2(2) by fastforce
  then show ?case
    using 2 by auto
qed simp

lemma laid_out_apart:
  assumes "laid_out lo (as @ (a, s, u) # bs) cap"
  shows "(b, t, v) \<in> set as \<Longrightarrow> b + t \<le> a" "(b, t, v) \<in> set bs \<Longrightarrow> a + s \<le> b"
  using assms laid_out_member by (auto simp: laid_out_append) fastforce+

lemma used_bytes_append [simp]: "used_bytes (as @ bs) = used_bytes as + used_bytes bs"
  by (induction as rule: used_bytes.induct) auto

end
