(* ===== verification/Heap_Alloc.thy ===== *)
theory Heap_Alloc
  imports Heap_Inv
begin

section \<open>Creation of a heap and allocation\<close>

text \<open>
  \<open>heap_new\<close> establishes the invariant, and \<open>allocate\<close> refines an abstract allocator on lists of
  blocks: it turns a free block that is large enough into a used one and a free rest, and it fails
  only when there is no such block.
\<close>

subsection \<open>Consequences of the invariant\<close>

lemma heap_invD:
  assumes "heap_inv h ns bl"
  shows "distinct ns" "n \<in> set ns \<Longrightarrow> n < fresh h" "dll (nx h) (pv h) None ns None"
    "binned h {n \<in> set ns. \<not> us h n} bl"
    "n \<in> set ns \<Longrightarrow> us h n \<Longrightarrow> hashes h (off h n) = Some n"
    "hashes h k = Some m \<Longrightarrow> m < fresh h \<and> off h m = k \<and> (us h m \<longrightarrow> m \<in> set ns)"
    "laid_out 0 (map (block_of h) ns) (unat (capacity (diagnostics h)))"
    "unat (capacity (diagnostics h)) < 2 ^ 32"
    "unat (allocated (diagnostics h)) = used_bytes (map (block_of h) ns)"
  using assms by (simp_all add: heap_inv_def chain_def indexed_def)

lemma heap_inv_block:
  assumes "heap_inv h ns bl" "n \<in> set ns"
  shows "256 \<le> unat (sz h n)" "unat (off h n) + unat (sz h n) \<le> unat (capacity (diagnostics h))"
    "us h n \<Longrightarrow> 256 dvd unat (sz h n)"
  using laid_out_member[OF heap_invD(7)[OF assms(1)], of "unat (off h n)" "unat (sz h n)" "us h n"] assms(2)
  by (simp_all add: block_of_def image_iff) metis+

lemma heap_inv_apart:
  assumes "heap_inv h (as @ n # bs) bl"
  shows "m \<in> set as \<Longrightarrow> unat (off h m) + unat (sz h m) \<le> unat (off h n)"
    "m \<in> set bs \<Longrightarrow> unat (off h n) + unat (sz h n) \<le> unat (off h m)"
  using heap_invD(7)[OF assms] laid_out_apart[of 0 "map (block_of h) as" "unat (off h n)" "unat (sz h n)"
      "us h n" "map (block_of h) bs" _ "unat (off h m)" "unat (sz h m)" "us h m"]
  by (simp_all add: block_of_def image_iff) metis+

lemma block_of_cong:
  assumes "\<And>n. n \<in> set ns \<Longrightarrow> off h' n = off h n \<and> sz h' n = sz h n \<and> us h' n = us h n"
  shows "map (block_of h') ns = map (block_of h) ns"
  using assms by (simp add: block_of_def)

subsection \<open>Effects\<close>

lemma rc_new_effect:
  assumes "rc_new f h = (m, h')"
  shows "m = fresh h" "fresh h' = Suc (fresh h)" "nx h' = (nx h)(m := f_next f)"
    "pv h' = (pv h)(m := f_prev f)" "nf h' = (nf h)(m := f_next_free f)"
    "pf h' = (pf h)(m := f_prev_free f)" "off h' = (off h)(m := f_offset f)"
    "sz h' = (sz h)(m := f_size f)" "us h' = (us h)(m := f_used f)" "bins h' = bins h"
    "hashes h' = hashes h" "nonempty_bin_mask h' = nonempty_bin_mask h"
    "diagnostics h' = diagnostics h" "heap_base h' = heap_base h"
  using assms by (auto simp: rc_new_def field_defs fun_eq_iff)

lemma link_tail_effect:
  assumes "link_tail n nn a s h = (m, h')" "n < fresh h"
  shows "m = fresh h" "fresh h' = Suc (fresh h)" "nx h' = ((nx h)(m := nn))(n := Some m)"
    "pv h' = upd_at nn (Some m) ((pv h)(m := Some n))" "nf h' = (nf h)(m := None)"
    "pf h' = (pf h)(m := None)" "off h' = (off h)(m := a)"
    "sz h' = (sz h)(m := s)" "us h' = (us h)(m := False)" "bins h' = bins h"
    "hashes h' = hashes h" "nonempty_bin_mask h' = nonempty_bin_mask h"
    "diagnostics h' = diagnostics h" "heap_base h' = heap_base h"
proof -
  obtain h1 where h1: "rc_new (fragment_new a s) h = (fresh h, h1)"
    by (simp add: rc_new_def)
  note e = rc_new_effect[OF h1]
  have m: "m = fresh h" and h': "h' = upd n (f_next_update (\<lambda>_. Some m)) (upd_opt nn (f_prev_update (\<lambda>_. Some m))
      (upd m (f_prev_update (\<lambda>_. Some n)) (upd m (f_next_update (\<lambda>_. nn)) h1)))"
    using assms by (auto simp: link_tail_def h1)
  show "m = fresh h"
    by (fact m)
  show "fresh h' = Suc (fresh h)" "nx h' = ((nx h)(m := nn))(n := Some m)"
    "pv h' = upd_at nn (Some m) ((pv h)(m := Some n))" "nf h' = (nf h)(m := None)"
    "pf h' = (pf h)(m := None)" "off h' = (off h)(m := a)"
    "sz h' = (sz h)(m := s)" "us h' = (us h)(m := False)" "bins h' = bins h"
    "hashes h' = hashes h" "nonempty_bin_mask h' = nonempty_bin_mask h"
    "diagnostics h' = diagnostics h" "heap_base h' = heap_base h"
    unfolding h' by (simp_all add: heap_fields) (simp_all add: fold_fields heap_fields e(2-) m fragment_new_def fun_eq_iff)
qed

lemma hash_insert_effect [heap_fields, simp]:
  "nx (hash_insert k n h) = nx h" "pv (hash_insert k n h) = pv h" "nf (hash_insert k n h) = nf h"
  "pf (hash_insert k n h) = pf h" "off (hash_insert k n h) = off h" "sz (hash_insert k n h) = sz h"
  "us (hash_insert k n h) = us h" "bins (hash_insert k n h) = bins h"
  "hashes (hash_insert k n h) = (hashes h)(k \<mapsto> n)"
  "nonempty_bin_mask (hash_insert k n h) = nonempty_bin_mask h"
  "diagnostics (hash_insert k n h) = diagnostics h" "heap_base (hash_insert k n h) = heap_base h"
  "fresh (hash_insert k n h) = fresh h"
  by (simp_all add: hash_insert_def heap_fields)

lemma hash_remove_effect [heap_fields, simp]:
  "nx (hash_remove k h) = nx h" "pv (hash_remove k h) = pv h" "nf (hash_remove k h) = nf h"
  "pf (hash_remove k h) = pf h" "off (hash_remove k h) = off h" "sz (hash_remove k h) = sz h"
  "us (hash_remove k h) = us h" "bins (hash_remove k h) = bins h"
  "hashes (hash_remove k h) = (hashes h)(k := None)"
  "nonempty_bin_mask (hash_remove k h) = nonempty_bin_mask h"
  "diagnostics (hash_remove k h) = diagnostics h" "heap_base (hash_remove k h) = heap_base h"
  "fresh (hash_remove k h) = fresh h"
  by (simp_all add: hash_remove_def heap_fields)

lemma diag_effect [heap_fields, simp]:
  "nx (diag f h) = nx h" "pv (diag f h) = pv h" "nf (diag f h) = nf h"
  "pf (diag f h) = pf h" "off (diag f h) = off h" "sz (diag f h) = sz h"
  "us (diag f h) = us h" "bins (diag f h) = bins h" "hashes (diag f h) = hashes h"
  "nonempty_bin_mask (diag f h) = nonempty_bin_mask h"
  "diagnostics (diag f h) = f (diagnostics h)" "heap_base (diag f h) = heap_base h"
  "fresh (diag f h) = fresh h"
  by (simp_all add: diag_def heap_fields)

subsection \<open>Creation\<close>

lemma unat_ucast_u32_u64 [simp]: "unat (ucast (s::u32) :: u64) = unat s"
  by (simp add: unsigned_ucast_eq take_bit_nat_eq_self order_less_trans[OF unsigned_less])

text \<open>A heap with one fragment that is not in a bin yet.\<close>

lemma single_fragment_inv:
  assumes "nx h 0 = None" "pv h 0 = None" "off h 0 = 0" "\<not> us h 0" "256 \<le> unat (sz h 0)"
    "bins h = (\<lambda>_. None)" "hashes h = [0 \<mapsto> 0]" "nonempty_bin_mask h = 0" "fresh h = 1"
    "capacity (diagnostics h) = ucast (sz h 0)" "allocated (diagnostics h) = 0"
  shows "heap_inv (rebin 0 h) [0] ((\<lambda>_. [])(bin_of (sz h 0) := [0]))"
proof -
  note r = rebin_effect[OF assms(5)]
  have "binned h {} (\<lambda>_. [])"
    using assms by (simp add: binned_def)
  from rebin_binned[OF this _ assms(5)]
  have "binned (rebin 0 h) {0} ((\<lambda>_. [])(bin_of (sz h 0) := [0]))"
    by simp
  moreover have "{n \<in> set [0]. \<not> us (rebin 0 h) n} = {0}"
    using assms(4) by (auto simp: r)
  moreover have "chain (rebin 0 h) [0]"
    using assms by (simp add: chain_def r)
  moreover have "indexed (rebin 0 h) [0]"
    using assms by (simp add: indexed_def r)
  moreover have "laid_out 0 (map (block_of (rebin 0 h)) [0]) (unat (capacity (diagnostics (rebin 0 h))))"
    using assms by (simp add: block_of_def r)
  moreover have "unat (capacity (diagnostics (rebin 0 h))) < 2 ^ 32"
    using assms(10) unsigned_less[of "sz h 0"] by (simp add: r)
  ultimately show ?thesis
    using assms by (simp add: heap_inv_def block_of_def r)
qed

lemma heap_new_inv:
  assumes "256 \<le> unat min_arena_size" "min_arena_size \<le> s"
  obtains h where "heap_new min_arena_size base s = Some h"
    "heap_inv h [0] ((\<lambda>_. [])(bin_of s := [0]))" "map (block_of h) [0] = [(0, unat s, False)]"
    "heap_base h = base" "capacity (diagnostics h) = ucast s" "hashes h = [0 \<mapsto> 0]" "fresh h = 1"
proof -
  define h0 where "h0 = \<lparr>heap_base = base, bins = (\<lambda>_. None), hashes = Map.empty, nonempty_bin_mask = 0,
              diagnostics = \<lparr>capacity = ucast s, allocated = 0, peak_allocated = 0,
                peak_request_size = 0, oom_count = 0\<rparr>,
              frag = (\<lambda>_. fragment_new 0 0), fresh = 0\<rparr>"
  have h0: "fresh h0 = 0" "bins h0 = (\<lambda>_. None)" "hashes h0 = Map.empty" "nonempty_bin_mask h0 = 0"
    "capacity (diagnostics h0) = ucast s" "allocated (diagnostics h0) = 0" "heap_base h0 = base"
    by (simp_all add: h0_def)
  obtain h1 where h1: "rc_new (fragment_new 0 s) h0 = (0, h1)"
    using h0(1) by (simp add: rc_new_def)
  note e = rc_new_effect(2-)[OF h1]
  define h2 where "h2 = hash_insert 0 0 h1"
  have f: "nx h2 0 = None" "pv h2 0 = None" "off h2 0 = 0" "\<not> us h2 0" "sz h2 0 = s"
    "bins h2 = (\<lambda>_. None)" "hashes h2 = [0 \<mapsto> 0]" "nonempty_bin_mask h2 = 0" "fresh h2 = 1"
    "capacity (diagnostics h2) = ucast s" "allocated (diagnostics h2) = 0" "heap_base h2 = base"
    unfolding h2_def by (simp_all add: e h0 fragment_new_def)
  have big: "256 \<le> unat (sz h2 0)"
    using assms by (simp add: f word_le_nat_alt)
  have "heap_new min_arena_size base s = Some (rebin 0 h2)"
    using assms(2) unfolding heap_new_def h0_def[symmetric] h2_def by (simp add: h1 not_less)
  moreover have "heap_inv (rebin 0 h2) [0] ((\<lambda>_. [])(bin_of s := [0]))"
    using single_fragment_inv[of h2] f big by simp
  moreover have "map (block_of (rebin 0 h2)) [0] = [(0, unat s, False)]" "heap_base (rebin 0 h2) = base"
    "capacity (diagnostics (rebin 0 h2)) = ucast s" "hashes (rebin 0 h2) = [0 \<mapsto> 0]" "fresh (rebin 0 h2) = 1"
    using rebin_effect[OF big] f by (simp_all add: block_of_def)
  ultimately show thesis
    by (rule that)
qed

subsection \<open>Taking a fragment\<close>

lemma take_whole:
  assumes inv: "binned h F bl" "n \<in> F"
    and fit: "\<not> 256 \<le> sz h n - ucast fs" and eq: "take_fragment n fs h = (a, h')"
  obtains bl' where "binned h' (F - {n}) bl'" "nx h' = nx h" "pv h' = pv h" "off h' = off h"
    "sz h' = (sz h)(n := ucast fs)" "us h' = (us h)(n := True)"
    "hashes h' = (hashes h)(off h n \<mapsto> n)" "fresh h' = fresh h"
    "capacity (diagnostics h') = capacity (diagnostics h)"
    "allocated (diagnostics h') = allocated (diagnostics h) + fs"
    "heap_base h' = heap_base h" "a = ucast (off h n) + heap_base h"
proof -
  define h1 where "h1 = unbin n h"
  obtain bl1 where b: "binned h1 (F - {n}) bl1" and u: "nx h1 = nx h" "pv h1 = pv h"
    "off h1 = off h" "sz h1 = sz h" "us h1 = us h" "hashes h1 = hashes h"
    "diagnostics h1 = diagnostics h" "heap_base h1 = heap_base h" "fresh h1 = fresh h"
    unfolding h1_def by (rule unbin_frame[OF inv])
  define h2 where "h2 = upd n (f_size_update (\<lambda>_. ucast fs)) h1"
  have h': "h' = note_peak (diag (\<lambda>d. d\<lparr>allocated := allocated d + fs\<rparr>) (hash_insert (off h n) n
      (upd n (f_size_update (\<lambda>_. ucast fs)) (upd n (f_used_update (\<lambda>_. True)) h2))))"
    and a: "a = ucast (off h n) + heap_base h"
    using eq fit unfolding take_fragment_def h1_def[symmetric]
    by (auto simp: Let_def fold_fields u heap_fields h2_def note_peak_def)
  have f: "nx h' = nx h" "pv h' = pv h" "off h' = off h" "nf h' = nf h1" "pf h' = pf h1"
    "sz h' = (sz h)(n := ucast fs)" "us h' = (us h)(n := True)"
    "hashes h' = (hashes h)(off h n \<mapsto> n)" "fresh h' = fresh h"
    "capacity (diagnostics h') = capacity (diagnostics h)"
    "allocated (diagnostics h') = allocated (diagnostics h) + fs"
    "heap_base h' = heap_base h" "bins h' = bins h1" "nonempty_bin_mask h' = nonempty_bin_mask h1"
    unfolding h' h2_def note_peak_def by (simp_all add: heap_fields) (simp_all add: fold_fields u heap_fields)
  have "binned h' (F - {n}) bl1"
    by (rule binned_cong[OF b]) (simp_all add: f u(4))
  then show thesis
    using that f a by blast
qed

lemma take_split:
  assumes inv: "binned h F bl" "n \<in> F" "n < fresh h" "fresh h \<notin> F"
    and split: "256 \<le> sz h n - ucast fs" and eq: "take_fragment n fs h = (a, h')"
  defines "m \<equiv> fresh h"
  obtains bl' where "binned h' (insert m (F - {n})) bl'"
    "nx h' = ((nx h)(m := nx h n))(n := Some m)"
    "pv h' = upd_at (nx h n) (Some m) ((pv h)(m := Some n))"
    "off h' = (off h)(m := off h n + ucast fs)"
    "sz h' = ((sz h)(m := sz h n - ucast fs))(n := ucast fs)" "us h' = ((us h)(m := False))(n := True)"
    "hashes h' = (hashes h)(off h n + ucast fs \<mapsto> m, off h n \<mapsto> n)" "fresh h' = Suc (fresh h)"
    "capacity (diagnostics h') = capacity (diagnostics h)"
    "allocated (diagnostics h') = allocated (diagnostics h) + fs"
    "heap_base h' = heap_base h" "a = ucast (off h n) + heap_base h"
proof -
  define h1 where "h1 = unbin n h"
  obtain bl1 where b: "binned h1 (F - {n}) bl1" and u: "nx h1 = nx h" "pv h1 = pv h"
    "off h1 = off h" "sz h1 = sz h" "us h1 = us h" "hashes h1 = hashes h"
    "diagnostics h1 = diagnostics h" "heap_base h1 = heap_base h" "fresh h1 = fresh h"
    unfolding h1_def by (rule unbin_frame[OF inv(1,2)])
  define h2 where "h2 = upd n (f_size_update (\<lambda>_. ucast fs)) h1"
  have e2: "nx h2 = nx h" "pv h2 = pv h" "off h2 = off h" "us h2 = us h" "sz h2 = (sz h)(n := ucast fs)"
    "nf h2 = nf h1" "pf h2 = pf h1"
    unfolding h2_def by (simp_all add: heap_fields) (simp_all add: fold_fields u(1-5))
  have r2: "bins h2 = bins h1" "hashes h2 = hashes h" "diagnostics h2 = diagnostics h"
    "heap_base h2 = heap_base h" "fresh h2 = fresh h" "nonempty_bin_mask h2 = nonempty_bin_mask h1"
    unfolding h2_def by (simp_all add: u)
  obtain h3 where h3: "link_tail n (nx h n) (off h n + ucast fs) (sz h n - ucast fs) h2 = (m, h3)"
    using link_tail_effect(1)[of n "nx h n" "off h n + ucast fs" "sz h n - ucast fs" h2] inv(3)
    by (metis m_def prod.exhaust r2(5))
  note l = link_tail_effect(2-)[OF h3]
  define h4 where "h4 = hash_insert (off h n + ucast fs) m h3"
  have e4: "nx h4 = ((nx h)(m := nx h n))(n := Some m)"
    "pv h4 = upd_at (nx h n) (Some m) ((pv h)(m := Some n))"
    "off h4 = (off h)(m := off h n + ucast fs)"
    "sz h4 = (sz h)(n := ucast fs, m := sz h n - ucast fs)" "us h4 = (us h)(m := False)"
    "nf h4 = (nf h1)(m := None)" "pf h4 = (pf h1)(m := None)" "bins h4 = bins h1"
    "nonempty_bin_mask h4 = nonempty_bin_mask h1" "hashes h4 = (hashes h)(off h n + ucast fs \<mapsto> m)"
    "diagnostics h4 = diagnostics h" "heap_base h4 = heap_base h" "fresh h4 = Suc (fresh h)"
    using inv(3) unfolding h4_def by (simp_all add: l e2 r2)
  have mn: "m \<noteq> n" "m \<notin> F"
    using inv(3,4) by (simp_all add: m_def)
  have "binned h4 (F - {n}) bl1"
    by (rule binned_cong[OF b]) (use mn in \<open>auto simp: e4 u(4)\<close>)
  moreover have big4: "256 \<le> unat (sz h4 m)"
    using split by (simp add: e4 min_le_u32)
  ultimately obtain bl' where b5: "binned (rebin m h4) (insert m (F - {n})) bl'"
    using rebin_binned mn(2) by blast
  note e5 = rebin_effect[OF big4]
  have h': "h' = note_peak (diag (\<lambda>d. d\<lparr>allocated := allocated d + fs\<rparr>) (hash_insert (off h n) n
      (upd n (f_size_update (\<lambda>_. ucast fs)) (upd n (f_used_update (\<lambda>_. True)) (rebin m h4)))))"
    and a: "a = ucast (off h n) + heap_base h"
    using eq split unfolding take_fragment_def h1_def[symmetric]
    by (auto simp: Let_def fold_fields u(1-5) h2_def[symmetric] e2 h3 h4_def[symmetric] note_peak_def e4 e5)
  have f: "nx h' = nx h4" "pv h' = pv h4" "off h' = off h4" "nf h' = nf (rebin m h4)" "pf h' = pf (rebin m h4)"
    "sz h' = (sz h4)(n := ucast fs)" "us h' = (us h4)(n := True)"
    "hashes h' = (hashes h4)(off h n \<mapsto> n)" "fresh h' = fresh h4"
    "capacity (diagnostics h') = capacity (diagnostics h4)"
    "allocated (diagnostics h') = allocated (diagnostics h4) + fs"
    "heap_base h' = heap_base h4" "bins h' = bins (rebin m h4)"
    "nonempty_bin_mask h' = nonempty_bin_mask (rebin m h4)"
    unfolding h' note_peak_def by (simp_all add: heap_fields) (simp_all add: fold_fields e5(1-5,10-) heap_fields)
  have "binned h' (insert m (F - {n})) bl'"
    by (rule binned_cong[OF b5]) (use mn in \<open>auto simp: f e5(4)\<close>)
  then show thesis
    by (rule that) (use mn in \<open>auto simp: f e4 a fun_eq_iff\<close>)
qed

subsection \<open>The abstract allocator\<close>

definition cut_block :: "nat \<Rightarrow> nat \<times> nat \<times> bool \<Rightarrow> blocks" where
  "cut_block fs b =
     (case b of (a, s, u) \<Rightarrow> (a, fs, True) # (if 256 \<le> s - fs then [(a + fs, s - fs, False)] else []))"

lemma cut_block_laid_out:
  assumes "laid_out l [(a, s, u)] c" "fs \<le> s" "256 \<le> fs" "256 dvd fs"
  shows "laid_out l (cut_block fs (a, s, u)) c"
  using assms by (auto simp: cut_block_def)

lemma unat_u32_less: "unat (s::u32) < 2 ^ 32"
  by (rule order_less_le_trans[OF unsigned_less]) simp

lemma unat_ucast_fit:
  assumes "unat (fs::u64) < 2 ^ 32"
  shows "unat (ucast fs :: u32) = unat fs"
  using assms by (simp add: unsigned_ucast_eq take_bit_nat_eq_self)

lemma allocated_after:
  assumes inv: "heap_inv h (as @ n # bs) bl" "\<not> us h n"
    and bl': "map (block_of h') ns' = map (block_of h) as @ cut_block (unat fs) (block_of h n) @ map (block_of h) bs"
    and diag: "capacity (diagnostics h') = capacity (diagnostics h)"
      "allocated (diagnostics h') = allocated (diagnostics h) + fs"
    and fs: "unat fs \<le> unat (sz h n)" "256 \<le> unat fs" "256 dvd unat fs"
  shows "laid_out 0 (map (block_of h') ns') (unat (capacity (diagnostics h')))"
    "unat (allocated (diagnostics h')) = used_bytes (map (block_of h') ns')"
proof -
  let ?b = "(unat (off h n), unat (sz h n), us h n)"
  have b: "block_of h n = ?b"
    by (simp add: block_of_def)
  have "laid_out 0 (map (block_of h) as @ [?b] @ map (block_of h) bs) (unat (capacity (diagnostics h)))"
    using heap_invD(7)[OF inv(1)] by (simp add: b)
  then show lo: "laid_out 0 (map (block_of h') ns') (unat (capacity (diagnostics h')))"
    unfolding bl' diag(1) b by (rule laid_out_replace) (rule cut_block_laid_out[OF _ fs])
  have "used_bytes (map (block_of h') ns') = used_bytes (map (block_of h) (as @ n # bs)) + unat fs"
    using inv(2) unfolding bl' b by (simp add: cut_block_def b)
  moreover from this have "unat (allocated (diagnostics h)) + unat fs < 2 ^ 64"
    using laid_out_bounds[OF lo] heap_invD(8,9)[OF inv(1)] diag(1) by simp
  ultimately show "unat (allocated (diagnostics h')) = used_bytes (map (block_of h') ns')"
    using heap_invD(9)[OF inv(1)] diag(2) by (simp add: unat_word_ariths)
qed

text \<open>No other fragment starts inside a fragment.\<close>

lemma no_start_inside:
  assumes inv: "heap_inv h (as @ n # bs) bl" and x: "x \<in> set (as @ bs)"
    and k: "unat (off h n) \<le> k" "k < unat (off h n) + unat (sz h n)"
  shows "unat (off h x) \<noteq> k"
proof -
  have "256 \<le> unat (sz h x)"
    using heap_inv_block(1)[OF inv, of x] x by auto
  then show ?thesis
    using heap_inv_apart[OF inv, of x] x k by auto
qed

lemma take_whole_correct:
  assumes inv: "heap_inv h (as @ n # bs) bl" "\<not> us h n"
    and fs: "unat fs \<le> unat (sz h n)" "256 \<le> unat fs" "256 dvd unat fs"
    and eq: "take_fragment n fs h = (a, h')" and fit: "\<not> 256 \<le> sz h n - ucast fs"
  obtains bl' where "heap_inv h' (as @ n # bs) bl'" "heap_base h' = heap_base h"
    "map (block_of h') (as @ n # bs) = map (block_of h) as @ cut_block (unat fs) (block_of h n) @ map (block_of h) bs"
    "a = ucast (off h n) + heap_base h" "capacity (diagnostics h') = capacity (diagnostics h)"
proof -
  let ?ns = "as @ n # bs"
  note D = heap_invD[OF inv(1)]
  have nF: "n \<in> {x \<in> set ?ns. \<not> us h x}"
    using inv(2) by simp
  obtain bl' where b: "binned h' ({x \<in> set ?ns. \<not> us h x} - {n}) bl'" and
    f: "nx h' = nx h" "pv h' = pv h" "off h' = off h"
    "sz h' = (sz h)(n := ucast fs)" "us h' = (us h)(n := True)"
    "hashes h' = (hashes h)(off h n \<mapsto> n)" "fresh h' = fresh h"
    "capacity (diagnostics h') = capacity (diagnostics h)"
    "allocated (diagnostics h') = allocated (diagnostics h) + fs"
    "heap_base h' = heap_base h" "a = ucast (off h n) + heap_base h"
    by (rule take_whole[OF D(4) nF fit eq])
  have n: "n \<notin> set (as @ bs)"
    using D(1) by simp
  have u: "unat (ucast fs :: u32) = unat fs"
    using fs(1) unat_u32_less[of "sz h n"] by (intro unat_ucast_fit) simp
  have "unat (sz h n - ucast fs) = unat (sz h n) - unat fs"
    using fs(1) by (simp add: unat_sub word_le_nat_alt u)
  then have rest: "\<not> 256 \<le> unat (sz h n) - unat fs"
    using fit by (simp add: word_le_nat_alt)
  have bk: "map (block_of h') ?ns = map (block_of h) as @ cut_block (unat fs) (block_of h n) @ map (block_of h) bs"
    using n rest block_of_cong[of "as @ bs" h' h] by (simp add: f) (simp add: block_of_def f u cut_block_def)
  have "{x \<in> set ?ns. \<not> us h' x} = {x \<in> set ?ns. \<not> us h x} - {n}"
    by (auto simp: f)
  moreover have "chain h' ?ns"
    using D(1,2,3) by (auto simp: chain_def f)
  moreover have "indexed h' ?ns"
    unfolding indexed_def f
  proof (intro conjI ballI allI impI)
    fix x assume x: "x \<in> set ?ns" "((us h)(n := True)) x"
    show "((hashes h)(off h n \<mapsto> n)) (off h x) = Some x"
    proof (cases "x = n")
      case False
      then have "x \<in> set (as @ bs)"
        using x(1) by simp
      then have "off h x \<noteq> off h n"
        using no_start_inside[OF inv(1), of x "unat (off h n)"] fs by auto
      then show ?thesis
        using D(5)[of x] x False by simp
    qed simp
  next
    fix k x assume x: "((hashes h)(off h n \<mapsto> n)) k = Some x"
    show "x < fresh h" "off h x = k"
      using x D(2)[of n] D(6)[of k x] by (auto split: if_splits)
    show "x \<in> set ?ns" if "((us h)(n := True)) x"
      using x that D(6)[of k x] by (auto split: if_splits)
  qed
  ultimately have "heap_inv h' ?ns bl'"
    using b D(8) allocated_after[OF inv bk f(8,9) fs] f(8) by (simp add: heap_inv_def)
  then show thesis
    using that bk f by blast
qed

lemma take_split_correct:
  assumes inv: "heap_inv h (as @ n # bs) bl" "\<not> us h n"
    and fs: "unat fs \<le> unat (sz h n)" "256 \<le> unat fs" "256 dvd unat fs"
    and eq: "take_fragment n fs h = (a, h')" and split: "256 \<le> sz h n - ucast fs"
  defines "m \<equiv> fresh h"
  obtains bl' where "heap_inv h' (as @ n # m # bs) bl'" "heap_base h' = heap_base h"
    "map (block_of h') (as @ n # m # bs) = map (block_of h) as @ cut_block (unat fs) (block_of h n) @ map (block_of h) bs"
    "a = ucast (off h n) + heap_base h" "capacity (diagnostics h') = capacity (diagnostics h)"
proof -
  let ?ns = "as @ n # bs" and ?ns' = "as @ n # m # bs" and ?k = "off h n + ucast fs"
  note D = heap_invD[OF inv(1)]
  have nF: "n \<in> {x \<in> set ?ns. \<not> us h x}"
    using inv(2) by simp
  have nfr: "n < fresh h"
    using D(2)[of n] by simp
  have mns: "m \<notin> set ?ns"
    using D(2)[of m] unfolding m_def by blast
  then have mF: "fresh h \<notin> {x \<in> set ?ns. \<not> us h x}"
    unfolding m_def by blast
  obtain bl' where b: "binned h' (insert m ({x \<in> set ?ns. \<not> us h x} - {n})) bl'" and
    f: "nx h' = ((nx h)(m := nx h n))(n := Some m)"
    "pv h' = upd_at (nx h n) (Some m) ((pv h)(m := Some n))"
    "off h' = (off h)(m := ?k)"
    "sz h' = ((sz h)(m := sz h n - ucast fs))(n := ucast fs)" "us h' = ((us h)(m := False))(n := True)"
    "hashes h' = (hashes h)(?k \<mapsto> m, off h n \<mapsto> n)" "fresh h' = Suc (fresh h)"
    "capacity (diagnostics h') = capacity (diagnostics h)"
    "allocated (diagnostics h') = allocated (diagnostics h) + fs"
    "heap_base h' = heap_base h" "a = ucast (off h n) + heap_base h"
    unfolding m_def by (rule take_split[OF D(4) nF nfr mF split eq])
  have n: "n \<notin> set (as @ bs)"
    using D(1) by simp
  have u: "unat (ucast fs :: u32) = unat fs"
    using fs(1) unat_u32_less[of "sz h n"] by (intro unat_ucast_fit) simp
  have rest: "unat (sz h n - ucast fs) = unat (sz h n) - unat fs"
    using fs(1) by (simp add: unat_sub word_le_nat_alt u)
  then have big: "256 \<le> unat (sz h n) - unat fs"
    using split by (simp add: word_le_nat_alt)
  have k: "unat ?k = unat (off h n) + unat fs"
    using heap_inv_block(2)[OF inv(1), of n] D(8) fs(1) by (simp add: unat_word_ariths u)
  have kn: "?k \<noteq> off h n"
    using k fs(2) by auto
  have bk: "map (block_of h') ?ns' = map (block_of h) as @ cut_block (unat fs) (block_of h n) @ map (block_of h) bs"
  proof -
    have "x \<noteq> n" "x \<noteq> m" if "x \<in> set (as @ bs)" for x
      using that n mns by auto
    then have "map (block_of h') (as @ bs) = map (block_of h) (as @ bs)"
      by (intro block_of_cong) (simp add: f)
    then show ?thesis
      using mns k big by (simp add: block_of_def f u cut_block_def rest)
  qed
  have "{x \<in> set ?ns'. \<not> us h' x} = insert m ({x \<in> set ?ns. \<not> us h x} - {n})"
    using mns by (auto simp: f)
  moreover have "dll (nx h') (pv h') None ?ns' None"
    unfolding f by (rule dll_insert_behind[OF D(3,1) mns])
  then have "chain h' ?ns'"
    using D(1) mns less_SucI[OF D(2)] by (simp add: chain_def f(7)) (auto simp: m_def)
  moreover have "indexed h' ?ns'"
    unfolding indexed_def f
  proof (intro conjI ballI allI impI)
    fix x assume x: "x \<in> set ?ns'" "((us h)(m := False, n := True)) x"
    show "((hashes h)(?k \<mapsto> m, off h n \<mapsto> n)) (((off h)(m := ?k)) x) = Some x"
    proof (cases "x = n")
      case True
      then show ?thesis
        using mns by auto
    next
      case False
      then have "x \<in> set (as @ bs)" "us h x" "x \<noteq> m"
        using x by (auto split: if_splits)
      moreover have "unat (off h n) + unat fs < unat (off h n) + unat (sz h n)"
        using big by linarith
      then have "off h x \<noteq> off h n" "off h x \<noteq> ?k"
        using no_start_inside[OF inv(1) \<open>x \<in> set (as @ bs)\<close>, of "unat (off h n)"]
          no_start_inside[OF inv(1) \<open>x \<in> set (as @ bs)\<close>, of "unat ?k"] fs k by auto
      ultimately show ?thesis
        using D(5)[of x] by simp
    qed
  next
    fix k x assume x: "((hashes h)(?k \<mapsto> m, off h n \<mapsto> n)) k = Some x"
    then consider "x = m" "k = ?k" | "x = n" "k = off h n" | "hashes h k = Some x" "k \<noteq> off h n"
      unfolding map_upd_Some_unfold by blast
    note cs = this
    show "x < Suc (fresh h)"
      using cs D(2)[of n] D(6)[of k x] by cases (auto simp: m_def)
    show "((off h)(m := ?k)) x = k"
      using cs D(6)[of k x] mns by cases (auto simp: m_def)
    show "x \<in> set ?ns'" if "((us h)(m := False, n := True)) x"
      using cs that D(6)[of k x] by cases (auto split: if_splits)
  qed
  ultimately have "heap_inv h' ?ns' bl'"
    using b D(8) allocated_after[OF inv bk f(8,9) fs] f(8) by (simp add: heap_inv_def)
  then show thesis
    using that bk f by blast
qed

lemma take_fragment_correct:
  assumes inv: "heap_inv h (as @ n # bs) bl" "\<not> us h n"
    and fs: "unat fs \<le> unat (sz h n)" "256 \<le> unat fs" "256 dvd unat fs"
    and eq: "take_fragment n fs h = (a, h')"
  obtains ns' bl' where "heap_inv h' ns' bl'" "heap_base h' = heap_base h"
    "map (block_of h') ns' = map (block_of h) as @ cut_block (unat fs) (block_of h n) @ map (block_of h) bs"
    "a = ucast (off h n) + heap_base h" "capacity (diagnostics h') = capacity (diagnostics h)"
proof (cases "256 \<le> sz h n - ucast fs")
  case True
  then show thesis
    using take_split_correct[OF inv fs eq] that by blast
next
  case False
  then show thesis
    using take_whole_correct[OF inv fs eq] that by blast
qed

subsection \<open>Choosing a fragment\<close>

text \<open>A heap, and the base, the capacity and the list of blocks that it stands for; \<open>heap_at\<close> also names the
  fragments.\<close>

definition heap_rep :: "u64 \<Rightarrow> nat \<Rightarrow> o1heap \<Rightarrow> blocks \<Rightarrow> bool" where
  "heap_rep base cap h bs \<longleftrightarrow>
     heap_base h = base \<and> unat (capacity (diagnostics h)) = cap \<and> (\<exists>ns bl. heap_inv h ns bl \<and> map (block_of h) ns = bs)"

definition heap_at :: "u64 \<Rightarrow> nat \<Rightarrow> o1heap \<Rightarrow> node list \<Rightarrow> blocks \<Rightarrow> bool" where
  "heap_at base cap h ns bs \<longleftrightarrow>
     heap_base h = base \<and> unat (capacity (diagnostics h)) = cap \<and> (\<exists>bl. heap_inv h ns bl) \<and> map (block_of h) ns = bs"

lemma heap_at_rep: "heap_at base cap h ns bs \<Longrightarrow> heap_rep base cap h bs"
  by (auto simp: heap_at_def heap_rep_def)

lemma heap_repI:
  "heap_inv h ns bl \<Longrightarrow> heap_base h = base \<Longrightarrow> unat (capacity (diagnostics h)) = cap \<Longrightarrow>
    heap_rep base cap h (map (block_of h) ns)"
  by (auto simp: heap_rep_def)

lemma heap_repE:
  assumes "heap_rep base cap h bs"
  obtains ns bl where "heap_inv h ns bl" "bs = map (block_of h) ns" "heap_base h = base"
    "unat (capacity (diagnostics h)) = cap"
  using assms by (auto simp: heap_rep_def)

lemma upd_opt_bins: "upd_opt a f (h\<lparr>bins := b\<rparr>) = (upd_opt a f h)\<lparr>bins := b\<rparr>"
  by (cases a) (simp_all add: upd_opt_def upd_def)

lemma take_from_bin:
  assumes "256 \<le> unat (sz h n)" "pf h n = None" "nf h n \<noteq> Some n"
  shows "take_fragment n fs (h\<lparr>bins := (bins h)(bin_of (sz h n) := None)\<rparr>) = take_fragment n fs h"
proof -
  have self: "upd_at (nf h n) None (pf h) n = None"
    using assms by (cases "nf h n") simp_all
  have "unbin n (h\<lparr>bins := (bins h)(bin_of (sz h n) := None)\<rparr>) = unbin n h"
    using not_below_min[OF assms(1)] bin_of_less(2)[OF assms(1)] assms(2) self
    by (simp add: unbin_def bin_of_def[symmetric] Let_def heap_fields fold_fields upd_opt_bins)
  then show ?thesis
    by (simp only: take_fragment_def)
qed

lemma fragment_size_cases:
  assumes "amount \<noteq> 0" and fs: "fs = clamp_fragment (round_up_to_power_of_2 amount)"
  obtains "2 ^ 63 < unat amount" "fs = 0"
    | j where "j < 56" "unat fs = 256 * 2 ^ j" "unat amount \<le> unat fs"
      "log2_ceil (fs div FRAGMENT_SIZE_MIN) = j"
proof (cases "2 ^ 63 < unat amount")
  case True
  then show thesis
    using that(1) round_up_too_large fs by (simp add: clamp_fragment_def)
next
  case False
  then obtain k where k: "k < 64" "round_up_to_power_of_2 amount = 2 ^ k" "unat amount \<le> 2 ^ k"
    using assms(1) round_up_fits[of amount] by (metis linorder_not_le word_gt_0)
  have "(2::u64) ^ k \<noteq> 0"
    using unat_power_of_two[OF k(1)] by (metis power_not_zero unat_0 zero_neq_numeral)
  then have "fs = max (2 ^ k) 256"
    unfolding fs clamp_fragment_def k(2) FRAGMENT_SIZE_MIN_def by (rule if_not_P)
  then have u: "unat fs = max (2 ^ k) 256"
    using k(1) by (simp add: max_def word_le_nat_alt)
  also have "\<dots> = 2 ^ max k 8"
    using power_increasing_iff[of "2::nat" k 8] by (simp add: max_def)
  also have "\<dots> = 256 * 2 ^ (max k 8 - 8)"
    using power_add[of "2::nat" 8 "max k 8 - 8"] by simp
  finally have fs256: "unat fs = 256 * 2 ^ (max k 8 - 8)" .
  have j: "max k 8 - 8 < 56"
    using k(1) by simp
  have "unat (fs div FRAGMENT_SIZE_MIN) = 2 ^ (max k 8 - 8)"
    by (simp add: unat_div fs256 FRAGMENT_SIZE_MIN_def)
  then have "fs div FRAGMENT_SIZE_MIN = 2 ^ (max k 8 - 8)"
    using j by (intro word_unat_eq_iff[THEN iffD2]) simp
  then have "log2_ceil (fs div FRAGMENT_SIZE_MIN) = max k 8 - 8"
    using j by (simp add: log2_ceil_power)
  then show thesis
    using that(2)[OF j fs256] k(3) u by simp
qed

lemma bit_candidates:
  assumes "j < 64"
  shows "bit (m AND NOT (shl (1::u64) j - 1)) i \<longleftrightarrow> bit m i \<and> j \<le> i"
  using assms bit_imp_le_length[of m i]
  by (auto simp: shl1 mask_eq_exp_minus_1[symmetric] bit_and_iff bit_not_iff bit_mask_iff)

text \<open>The smallest bin that may be used has a fragment that is large enough, and no free fragment is
  large enough when there is no such bin.\<close>

lemma suitable_bin:
  assumes inv: "heap_inv h ns bl" and j: "j < 56"
  defines "suitable \<equiv> nonempty_bin_mask h AND NOT (shl 1 j - 1)"
  shows "suitable = 0 \<Longrightarrow> n \<in> set ns \<Longrightarrow> \<not> us h n \<Longrightarrow> unat (sz h n) < 256 * 2 ^ j"
    and "suitable \<noteq> 0 \<Longrightarrow> \<exists>n. trailing_zeros suitable < 64 \<and> bins h (trailing_zeros suitable) = Some n
      \<and> n \<in> set ns \<and> \<not> us h n \<and> bin_of (sz h n) = trailing_zeros suitable
      \<and> 256 * 2 ^ j \<le> unat (sz h n) \<and> pf h n = None \<and> nf h n \<noteq> Some n"
proof -
  note bD = binnedD[OF heap_invD(4)[OF inv]]
  show "unat (sz h n) < 256 * 2 ^ j" if "suitable = 0" and n: "n \<in> set ns" "\<not> us h n"
  proof -
    have big: "256 \<le> unat (sz h n)"
      using heap_inv_block(1)[OF inv] n by blast
    let ?i = "bin_of (sz h n)"
    have "bl ?i \<noteq> []"
      using bD(5)[of ?i] n by auto
    then have "bit (nonempty_bin_mask h) ?i"
      using bD(6)[of ?i] big by simp
    moreover have "\<not> bit suitable ?i"
      using that(1) by simp
    ultimately have "\<not> j \<le> ?i"
      using j by (simp add: suitable_def bit_candidates)
    then show ?thesis
      using bin_of_le_iff[OF big, of j] by simp
  qed
  assume "suitable \<noteq> 0"
  let ?i = "trailing_zeros suitable"
  have i: "?i < 64" "bit suitable ?i"
    using trailing_zeros_first[OF \<open>suitable \<noteq> 0\<close>] by simp_all
  then have "bit (nonempty_bin_mask h) ?i" "j \<le> ?i"
    using j by (simp_all add: suitable_def bit_candidates)
  then obtain n xs where bl: "bl ?i = n # xs"
    using bD(6)[OF i(1)] by (cases "bl ?i") auto
  then have n: "n \<in> set ns" "\<not> us h n" "bin_of (sz h n) = ?i"
    using bD(5)[of ?i] by auto
  moreover have "256 * 2 ^ j \<le> unat (sz h n)"
    using bin_of_le_iff[OF heap_inv_block(1)[OF inv n(1)], of j] n(3) \<open>j \<le> ?i\<close> by simp
  moreover have "pf h n = None" "nf h n \<noteq> Some n"
    using bD(3)[of ?i] bD(2)[of ?i] head_or_in[of None xs n] by (auto simp: bl)
  ultimately show "\<exists>n. ?i < 64 \<and> bins h ?i = Some n
      \<and> n \<in> set ns \<and> \<not> us h n \<and> bin_of (sz h n) = ?i
      \<and> 256 * 2 ^ j \<le> unat (sz h n) \<and> pf h n = None \<and> nf h n \<noteq> Some n"
    using i(1) bD(4)[of ?i] bl by (intro exI[of _ n]) simp
qed

subsection \<open>Allocation\<close>

definition fragment_bytes :: "usize \<Rightarrow> nat" where
  "fragment_bytes amount = unat (clamp_fragment (round_up_to_power_of_2 amount))"

definition can_allocate :: "usize \<Rightarrow> nat \<Rightarrow> blocks \<Rightarrow> bool" where
  "can_allocate amount cap bs \<longleftrightarrow>
     amount \<noteq> 0 \<and> fragment_bytes amount \<noteq> 0 \<and> fragment_bytes amount \<le> cap
     \<and> (\<exists>(a, s, u)\<in>set bs. \<not> u \<and> fragment_bytes amount \<le> s)"

lemma heap_inv_diag:
  assumes "heap_inv h ns bl" "capacity (f (diagnostics h)) = capacity (diagnostics h)"
    "allocated (f (diagnostics h)) = allocated (diagnostics h)"
  shows "heap_inv (diag f h) ns bl" "map (block_of (diag f h)) ns = map (block_of h) ns"
  using assms by (simp_all add: heap_inv_def chain_def indexed_def binned_def block_of_def cong: map_cong)

lemma allocate_none:
  assumes inv: "heap_inv h ns bl" and no: "\<not> can_allocate amount (unat (capacity (diagnostics h))) (map (block_of h) ns)"
  obtains h' where "allocate amount h = Ret (None, h')" "h' = h \<or> h' = diag (\<lambda>d. d\<lparr>oom_count := oom_count d + 1\<rparr>) h"
proof (cases "amount = 0")
  case True
  then show thesis
    using that by (simp add: allocate_def)
next
  case False
  define fs where "fs = clamp_fragment (round_up_to_power_of_2 amount)"
  show thesis
  proof (cases "fs = 0 \<or> capacity (diagnostics h) < fs")
    case True
    then show thesis
      using that False unfolding allocate_def fs_def[symmetric] by simp
  next
    case fits: False
    then obtain j where j: "j < 56" "unat fs = 256 * 2 ^ j" "log2_ceil (fs div FRAGMENT_SIZE_MIN) = j"
      using fragment_size_cases[OF False fs_def] by metis
    have "nonempty_bin_mask h AND NOT (shl 1 j - 1) = 0"
    proof (rule ccontr)
      assume "nonempty_bin_mask h AND NOT (shl 1 j - 1) \<noteq> 0"
      then obtain n where "n \<in> set ns" "\<not> us h n" "unat fs \<le> unat (sz h n)"
        using suitable_bin(2)[OF inv j(1)] j(2) by auto
      then have "\<exists>(a, s, u)\<in>set (map (block_of h) ns). \<not> u \<and> unat fs \<le> s"
        by (force simp: block_of_def)
      then show False
        using no False fits
        by (simp add: can_allocate_def fragment_bytes_def fs_def[symmetric] unat_eq_zero word_less_nat_alt)
    qed
    then show thesis
      using that[of h] False fits j(3) unfolding allocate_def fs_def[symmetric] by simp
  qed
qed

lemma allocate_some:
  assumes inv: "heap_inv h ns bl" and yes: "can_allocate amount (unat (capacity (diagnostics h))) (map (block_of h) ns)"
  defines "fs \<equiv> clamp_fragment (round_up_to_power_of_2 amount)"
  obtains n a h' where "allocate amount h = Ret (Some a, h')" "take_fragment n fs h = (a, h')"
    "n \<in> set ns" "\<not> us h n" "unat fs \<le> unat (sz h n)" "256 \<le> unat fs" "256 dvd unat fs"
    "unat amount \<le> unat fs"
proof -
  have am: "amount \<noteq> 0" and fs: "fs \<noteq> 0" "\<not> capacity (diagnostics h) < fs"
    using yes by (auto simp: can_allocate_def fragment_bytes_def fs_def word_less_nat_alt)
  then obtain j where j: "j < 56" "unat fs = 256 * 2 ^ j" "unat amount \<le> unat fs"
    "log2_ceil (fs div FRAGMENT_SIZE_MIN) = j"
    using fragment_size_cases[OF am, of fs] fs_def by metis
  let ?m = "nonempty_bin_mask h AND NOT (shl 1 j - 1)"
  have "?m \<noteq> 0"
  proof
    assume "?m = 0"
    from suitable_bin(1)[OF inv j(1) this]
    have "\<not> (\<exists>(a, s, u)\<in>set (map (block_of h) ns). \<not> u \<and> unat fs \<le> s)"
      by (force simp: block_of_def j(2))
    then show False
      using yes by (simp add: can_allocate_def fragment_bytes_def fs_def)
  qed
  then obtain n where n: "trailing_zeros ?m < 64" "bins h (trailing_zeros ?m) = Some n" "n \<in> set ns" "\<not> us h n"
    "bin_of (sz h n) = trailing_zeros ?m" "256 * 2 ^ j \<le> unat (sz h n)" "pf h n = None" "nf h n \<noteq> Some n"
    using suitable_bin(2)[OF inv j(1)] by blast
  obtain a h' where t: "take_fragment n fs h = (a, h')"
    by fastforce
  have "take_fragment n fs (h\<lparr>bins := (bins h)(trailing_zeros ?m := None)\<rparr>) = (a, h')"
    using take_from_bin[OF heap_inv_block(1)[OF inv n(3)] n(7,8), of fs] n(5) t by simp
  then have "allocate amount h = Ret (Some a, h')"
    using am fs \<open>?m \<noteq> 0\<close> n(1,2) unfolding allocate_def fs_def[symmetric]
    by (simp add: j(4) NUM_BINS_MAX_def Let_def)
  then show thesis
    using that t n(3,4,6) j by simp
qed

lemma allocate_refines:
  fixes amount :: usize
  assumes rep: "heap_rep base cap h bs"
  defines "fs \<equiv> fragment_bytes amount"
  shows "if can_allocate amount cap bs
    then \<exists>as a s cs h'. bs = as @ (a, s, False) # cs \<and> fs \<le> s \<and> unat amount \<le> fs
      \<and> allocate amount h = Ret (Some (of_nat a + base), h')
      \<and> heap_rep base cap h' (as @ cut_block fs (a, s, False) @ cs)
    else \<exists>h'. allocate amount h = Ret (None, h') \<and> heap_rep base cap h' bs"
proof -
  obtain ns bl where inv: "heap_inv h ns bl" and bs: "bs = map (block_of h) ns" and
    b: "heap_base h = base" "unat (capacity (diagnostics h)) = cap"
    using rep by (rule heap_repE)
  show ?thesis
  proof (cases "can_allocate amount cap bs")
    case True
    then obtain n a h' where al: "allocate amount h = Ret (Some a, h')"
      "take_fragment n (clamp_fragment (round_up_to_power_of_2 amount)) h = (a, h')"
      and n: "n \<in> set ns" "\<not> us h n" and
      sz: "fs \<le> unat (sz h n)" "256 \<le> fs" "256 dvd fs" "unat amount \<le> fs"
      using allocate_some[OF inv, of amount] unfolding fs_def fragment_bytes_def bs b(2) by metis
    obtain as cs where ns: "ns = as @ n # cs"
      using n(1) by (meson split_list)
    obtain ns' bl' where r: "heap_inv h' ns' bl'" "heap_base h' = heap_base h"
      "map (block_of h') ns' = map (block_of h) as @ cut_block fs (block_of h n) @ map (block_of h) cs"
      "a = ucast (off h n) + heap_base h" "capacity (diagnostics h') = capacity (diagnostics h)"
      unfolding fs_def fragment_bytes_def
      by (rule take_fragment_correct[OF inv[unfolded ns] n(2) sz(1-3)[unfolded fs_def fragment_bytes_def] al(2)])
    have bn: "block_of h n = (unat (off h n), unat (sz h n), False)"
      using n(2) by (simp add: block_of_def)
    have "a = of_nat (unat (off h n)) + base"
      using r(4) b(1) by (simp add: unsigned_def)
    moreover have "bs = map (block_of h) as @ (unat (off h n), unat (sz h n), False) # map (block_of h) cs"
      by (simp add: bs ns bn)
    moreover have "heap_rep base cap h' (map (block_of h) as @ cut_block fs (unat (off h n), unat (sz h n), False)
        @ map (block_of h) cs)"
      using heap_repI[OF r(1), of base cap] r(2,3,5) b by (simp add: bn)
    ultimately have "bs = map (block_of h) as @ (unat (off h n), unat (sz h n), False) # map (block_of h) cs
      \<and> fs \<le> unat (sz h n) \<and> unat amount \<le> fs
      \<and> allocate amount h = Ret (Some (of_nat (unat (off h n)) + base), h')
      \<and> heap_rep base cap h' (map (block_of h) as @ cut_block fs (unat (off h n), unat (sz h n), False) @ map (block_of h) cs)"
      using al(1) sz(1,4) by simp
    then show ?thesis
      unfolding if_P[OF True] by blast
  next
    case False
    obtain h' where h': "allocate amount h = Ret (None, h')"
      "h' = h \<or> h' = diag (\<lambda>d. d\<lparr>oom_count := oom_count d + 1\<rparr>) h"
      by (rule allocate_none[OF inv False[folded b(2), unfolded bs]])
    then have "heap_inv h' ns bl" "map (block_of h') ns = bs" "heap_base h' = base"
      "unat (capacity (diagnostics h')) = cap"
      using inv heap_inv_diag[OF inv, of "\<lambda>d. d\<lparr>oom_count := oom_count d + 1\<rparr>"] b by (auto simp: bs)
    then show ?thesis
      using False h'(1) heap_repI[of h' ns bl base cap] by simp
  qed
qed

text \<open>A new heap, for the witnesses.\<close>

lemma new_heap_rep:
  obtains h where "heap_new 1024 0x1000 0x10000 = Some h" "heap_rep 0x1000 0x10000 h [(0, 0x10000, False)]"
proof -
  have "256 \<le> unat (1024::u32)" "(1024::u32) \<le> 0x10000"
    by simp_all
  then obtain h where h: "heap_new 1024 0x1000 0x10000 = Some h"
    "heap_inv h [0] ((\<lambda>_. [])(bin_of 0x10000 := [0]))" "map (block_of h) [0] = [(0, unat (0x10000::u32), False)]"
    "heap_base h = 0x1000" "capacity (diagnostics h) = ucast (0x10000::u32)"
    by (rule heap_new_inv)
  show thesis
    using that[OF h(1)] heap_repI[OF h(2,4)] h(3,5) by simp
qed

lemma fragment_bytes_300: "fragment_bytes 300 = 512"
  by code_simp

lemma allocate_only_block:
  assumes "heap_rep base cap h [(a, s, False)]" "can_allocate amount cap [(a, s, False)]"
  obtains h' where "allocate amount h = Ret (Some (of_nat a + base), h')"
    "heap_rep base cap h' (cut_block (fragment_bytes amount) (a, s, False))"
proof -
  obtain as b t cs h' where "[(a, s, False)] = as @ (b, t, False) # cs"
    "allocate amount h = Ret (Some (of_nat b + base), h')"
    "heap_rep base cap h' (as @ cut_block (fragment_bytes amount) (b, t, False) @ cs)"
    using allocate_refines[OF assms(1), of amount] assms(2) by auto
  then show thesis
    using that by (auto simp: Cons_eq_append_conv)
qed

lemma new_heap_300:
  obtains h h' where "heap_new 1024 0x1000 0x10000 = Some h" "allocate 300 h = Ret (Some 0x1000, h')"
    "heap_rep 0x1000 0x10000 h' [(0, 512, True), (512, 65024, False)]"
proof -
  obtain h where h: "heap_new 1024 0x1000 0x10000 = Some h" "heap_rep 0x1000 0x10000 h [(0, 0x10000, False)]"
    by (rule new_heap_rep)
  have "can_allocate 300 0x10000 [(0, 0x10000, False)]"
    by (simp add: can_allocate_def fragment_bytes_300)
  from allocate_only_block[OF h(2) this] show thesis
    using that[OF h(1)] by (auto simp: cut_block_def fragment_bytes_300)
qed

text \<open>
C2: \<open>allocate\<close> refines an abstract allocator. On a heap that represents the list of blocks \<open>bs\<close> it does not
panic. It returns an address exactly when the request is not zero, its size rounded up to a power of
two of at least 256 is representable and within the capacity, and some free block is that large.
Then the block at the address becomes a used block of that size, which is at least the request,
followed by a free block with the rest; the other blocks are unchanged. Otherwise the blocks are
unchanged.
\<close>

theorem allocate_correct:
  fixes amount :: usize
  assumes rep: "heap_rep base cap h bs"
  defines "fs \<equiv> fragment_bytes amount"
  shows "if can_allocate amount cap bs
    then \<exists>as a s cs h'. bs = as @ (a, s, False) # cs \<and> fs \<le> s \<and> unat amount \<le> fs
      \<and> allocate amount h = Ret (Some (of_nat a + base), h')
      \<and> heap_rep base cap h' (as @ cut_block fs (a, s, False) @ cs)
    else \<exists>h'. allocate amount h = Ret (None, h') \<and> heap_rep base cap h' bs"
  using allocate_refines[OF rep, of amount] by (simp only: fs_def)

theorem allocate_correct_witness:
  "\<exists>h h'. heap_new 1024 0x1000 0x10000 = Some h \<and> heap_rep 0x1000 0x10000 h [(0, 0x10000, False)]
     \<and> allocate 300 h = Ret (Some 0x1000, h')
     \<and> heap_rep 0x1000 0x10000 h' [(0, 512, True), (512, 65024, False)]"
proof -
  obtain h where h: "heap_new 1024 0x1000 0x10000 = Some h" "heap_rep 0x1000 0x10000 h [(0, 0x10000, False)]"
    by (rule new_heap_rep)
  have "can_allocate 300 0x10000 [(0, 0x10000, False)]"
    by (simp add: can_allocate_def fragment_bytes_300)
  then obtain as a s cs h' where "[(0, 0x10000, False)] = as @ (a, s, False) # cs"
    "allocate 300 h = Ret (Some (of_nat a + 0x1000), h')"
    "heap_rep 0x1000 0x10000 h' (as @ cut_block 512 (a, s, False) @ cs)"
    using allocate_correct[OF h(2), of 300] unfolding fragment_bytes_300 by auto
  then show ?thesis
    using h by (auto simp: Cons_eq_append_conv cut_block_def)
qed

end
