(* ===== verification/Heap_Free.thy ===== *)
theory Heap_Free
  imports Heap_Alloc
begin

section \<open>Freeing\<close>

text \<open>
  \<open>heap_free\<close> refines an abstract release: the used block becomes free and joins the free blocks next
  to it. The four cases of the code share one lemma, \<open>merge_rebin\<close>, about a fragment that absorbs its
  right neighbours and enters a bin.
\<close>

subsection \<open>The abstract release\<close>

fun absorb_right :: "nat \<Rightarrow> nat \<Rightarrow> blocks \<Rightarrow> blocks" where
  "absorb_right a s ((b, t, False) # cs) = (a, s + t, False) # cs"
| "absorb_right a s cs = (a, s, False) # cs"

definition release_block :: "blocks \<Rightarrow> nat \<Rightarrow> nat \<Rightarrow> blocks \<Rightarrow> blocks" where
  "release_block as a s cs =
     (case rev as of
        (b, t, False) # _ \<Rightarrow> butlast as @ absorb_right b (t + s) cs
      | _ \<Rightarrow> as @ absorb_right a s cs)"

definition block_bytes :: "blocks \<Rightarrow> nat" where
  "block_bytes bs = sum_list (map (\<lambda>(a, s, u). s) bs)"

lemma block_bytes_simps [simp]:
  "block_bytes [] = 0"
  "block_bytes ((a, s, u) # bs) = s + block_bytes bs"
  by (simp_all add: block_bytes_def)

lemma laid_out_end: "laid_out lo bs cap \<Longrightarrow> lo + block_bytes bs \<le> cap"
  by (induction lo bs cap rule: laid_out.induct) auto

lemma laid_out_merge:
  "laid_out lo ((a, s, u) # bs) cap \<Longrightarrow> laid_out lo [(a, s + block_bytes bs, False)] cap"
  using laid_out_end[of "a + s" bs cap] by simp

subsection \<open>A fragment that absorbs its right neighbours\<close>

lemma link_past_effect [heap_fields]:
  "nx (link_past n nn h) = (nx h)(n := nn)" "pv (link_past n nn h) = upd_at nn (Some n) (pv h)"
  "nf (link_past n nn h) = nf h" "pf (link_past n nn h) = pf h" "off (link_past n nn h) = off h"
  "sz (link_past n nn h) = sz h" "us (link_past n nn h) = us h" "bins (link_past n nn h) = bins h"
  "hashes (link_past n nn h) = hashes h" "nonempty_bin_mask (link_past n nn h) = nonempty_bin_mask h"
  "diagnostics (link_past n nn h) = diagnostics h" "heap_base (link_past n nn h) = heap_base h"
  "fresh (link_past n nn h) = fresh h"
  unfolding link_past_def by (simp_all add: heap_fields) (simp_all add: fold_fields)

lemma heap_off_inj:
  assumes inv: "heap_inv h ns bl" and x: "x \<in> set ns" and y: "y \<in> set ns" "off h x = off h y"
  shows "x = y"
proof (rule ccontr)
  assume "x \<noteq> y"
  obtain as bs where ns: "ns = as @ x # bs"
    using x by (meson split_list)
  then have "y \<in> set (as @ bs)"
    using y(1) \<open>x \<noteq> y\<close> by simp
  moreover have "256 \<le> unat (sz h x)"
    using heap_inv_block(1)[OF inv x] .
  ultimately show False
    using no_start_inside[OF inv[unfolded ns], of y "unat (off h x)"] y(2) by simp
qed

text \<open>The heap at the start of the merge.\<close>

definition freed :: "node \<Rightarrow> o1heap \<Rightarrow> o1heap" where
  "freed n h = hash_remove (off h n) (upd n (f_used_update (\<lambda>_. False))
     (diag (\<lambda>d. d\<lparr>allocated := allocated d - ucast (sz h n)\<rparr>) h))"

lemma freed_fields [simp]:
  "nx (freed n h) = nx h" "pv (freed n h) = pv h" "nf (freed n h) = nf h" "pf (freed n h) = pf h"
  "off (freed n h) = off h" "sz (freed n h) = sz h" "us (freed n h) = (us h)(n := False)"
  "bins (freed n h) = bins h" "hashes (freed n h) = (hashes h)(off h n := None)"
  "nonempty_bin_mask (freed n h) = nonempty_bin_mask h" "heap_base (freed n h) = heap_base h"
  "capacity (diagnostics (freed n h)) = capacity (diagnostics h)"
  "allocated (diagnostics (freed n h)) = allocated (diagnostics h) - ucast (sz h n)"
  "fresh (freed n h) = fresh h"
  unfolding freed_def by (simp_all add: heap_fields) (simp_all add: fold_fields)

lemma freed_binned:
  assumes "binned h F bl"
  shows "binned (freed n h) F bl"
  using assms by (rule binned_cong) simp_all

lemma freed_allocated:
  assumes inv: "heap_inv h ns bl" and n: "n \<in> set ns" "us h n"
  shows "unat (allocated (diagnostics h) - ucast (sz h n)) + unat (sz h n) = unat (allocated (diagnostics h))"
    "\<not> allocated (diagnostics h) < ucast (sz h n)"
proof -
  obtain as bs where ns: "ns = as @ n # bs"
    using n(1) by (meson split_list)
  have "unat (sz h n) \<le> used_bytes (map (block_of h) ns)"
    using n(2) unfolding ns by (simp add: block_of_def[of h n])
  then have le: "ucast (sz h n) \<le> allocated (diagnostics h)"
    using heap_invD(9)[OF inv] by (simp add: word_le_nat_alt)
  then show "unat (allocated (diagnostics h) - ucast (sz h n)) + unat (sz h n) = unat (allocated (diagnostics h))"
    by (simp add: unat_sub word_le_nat_alt)
  show "\<not> allocated (diagnostics h) < ucast (sz h n)"
    using le by simp
qed

lemma link_past_same:
  assumes "nx h n = nn" "\<And>q. nn = Some q \<Longrightarrow> pv h q = Some n"
  shows "link_past n nn h = h"
proof -
  have "upd n (f_next_update (\<lambda>_. nn)) h = h"
    using assms(1) by (auto simp: upd_def nx_def intro!: o1heap.equality ext)
  moreover have "upd_opt nn (f_prev_update (\<lambda>_. Some n)) h = h"
    using assms(2) by (cases nn) (auto simp: upd_opt_def upd_def pv_def intro!: o1heap.equality ext)
  ultimately show ?thesis
    by (simp add: link_past_def)
qed

text \<open>The sizes of adjacent fragments add up without wrapping.\<close>

lemma adjacent_sizes:
  assumes inv: "heap_inv h (as @ xs @ bs) bl"
  shows "block_bytes (map (block_of h) xs) < 2 ^ 32"
proof -
  have "laid_out 0 (map (block_of h) as @ map (block_of h) xs @ map (block_of h) bs) (unat (capacity (diagnostics h)))"
    using heap_invD(7)[OF inv] by simp
  then obtain l c where "laid_out l (map (block_of h) xs) c"
    "laid_out c (map (block_of h) bs) (unat (capacity (diagnostics h)))"
    unfolding laid_out_append by blast
  from laid_out_end[OF this(1)] laid_out_end[OF this(2)] show ?thesis
    using heap_invD(8)[OF inv] by linarith
qed

lemma used_bytes_none: "(\<And>y. y \<in> set ys \<Longrightarrow> \<not> us h y) \<Longrightarrow> used_bytes (map (block_of h) ys) = 0"
  by (induction ys) (auto simp: block_of_def)

lemma used_bytes_one:
  assumes "distinct xs" "n \<in> set xs" "\<And>y. y \<in> set xs \<Longrightarrow> us h y \<longleftrightarrow> y = n"
  shows "used_bytes (map (block_of h) xs) = unat (sz h n)"
proof -
  obtain ys zs where xs: "xs = ys @ n # zs"
    using assms(2) by (meson split_list)
  have "\<not> us h y" if "y \<in> set (ys @ zs)" for y
    using that assms(1,3) by (auto simp: xs)
  then show ?thesis
    using assms(3)[of n] used_bytes_none[of ys h] used_bytes_none[of zs h] by (simp add: xs block_of_def[of h n])
qed

lemma joined_layout:
  assumes inv: "heap_inv h (as @ x # ms @ bs) bl"
  shows "laid_out 0 (map (block_of h) as @
    (unat (off h x), block_bytes (map (block_of h) (x # ms)), False) # map (block_of h) bs)
    (unat (capacity (diagnostics h)))"
proof -
  have "laid_out 0 (map (block_of h) as @ map (block_of h) (x # ms) @ map (block_of h) bs) (unat (capacity (diagnostics h)))"
    using heap_invD(7)[OF inv] by simp
  then have "laid_out 0 (map (block_of h) as @ [(unat (off h x), block_bytes (map (block_of h) (x # ms)), False)]
      @ map (block_of h) bs) (unat (capacity (diagnostics h)))"
    by (rule laid_out_replace) (use laid_out_merge in \<open>simp add: block_of_def[of h x]\<close>)
  then show ?thesis
    by simp
qed

lemma merge_layout:
  assumes inv: "heap_inv h (as @ x # ms @ bs) bl"
    and n: "n \<in> set (x # ms)" "\<And>y. y \<in> set (x # ms) \<Longrightarrow> us h y \<longleftrightarrow> y = n"
  defines "fs \<equiv> map (block_of h) as @ (unat (off h x), block_bytes (map (block_of h) (x # ms)), False) # map (block_of h) bs"
  shows "laid_out 0 fs (unat (capacity (diagnostics h)))"
    "unat (allocated (diagnostics (freed n h))) = used_bytes fs"
proof -
  note D = heap_invD[OF inv]
  show "laid_out 0 fs (unat (capacity (diagnostics h)))"
    unfolding fs_def by (rule joined_layout[OF inv])
  have "used_bytes (map (block_of h) (x # ms)) = unat (sz h n)"
    using D(1) n by (intro used_bytes_one) auto
  moreover have "n \<in> set (as @ x # ms @ bs)" "us h n"
    using n by auto
  ultimately show "unat (allocated (diagnostics (freed n h))) = used_bytes fs"
    using freed_allocated(1)[OF inv, of n] D(9) used_bytes_append[of "map (block_of h) (x # ms)" "map (block_of h) bs"]
    by (simp add: fs_def)
qed

lemma merge_indexed:
  assumes inv: "heap_inv h (as @ x # ms @ bs) bl"
    and n: "n \<in> set (x # ms)" "\<And>y. y \<in> set (x # ms) \<Longrightarrow> us h y \<longleftrightarrow> y = n"
    and h': "off h' = off h" "us h' = (us h)(n := False)" "hashes h' = (hashes h)(off h n := None)" "fresh h' = fresh h"
  shows "indexed h' (as @ x # bs)"
  unfolding indexed_def h'
proof (intro conjI ballI allI impI)
  note D = heap_invD[OF inv]
  fix y assume y: "y \<in> set (as @ x # bs)" "((us h)(n := False)) y"
  then have "y \<in> set (as @ x # ms @ bs)" "us h y" "y \<noteq> n"
    by (auto split: if_splits)
  moreover from this have "off h n \<noteq> off h y"
    using heap_off_inj[OF inv, of n y] n(1) by auto
  ultimately show "((hashes h)(off h n := None)) (off h y) = Some y"
    using D(5)[of y] by simp
next
  note D = heap_invD[OF inv]
  fix k y assume "((hashes h)(off h n := None)) k = Some y"
  then have y: "hashes h k = Some y"
    by (simp split: if_splits)
  then show "y < fresh h" "off h y = k"
    using D(6)[of k y] by simp_all
  assume "((us h)(n := False)) y"
  then have "us h y" "y \<noteq> n"
    by (auto split: if_splits)
  then show "y \<in> set (as @ x # bs)"
    using D(6)[OF y] n(2)[of y] by auto
qed

lemma merge_rebin:
  assumes inv: "heap_inv h (as @ x # ms @ bs) bl"
    and n: "n \<in> set (x # ms)" "\<And>y. y \<in> set (x # ms) \<Longrightarrow> us h y \<longleftrightarrow> y = n"
    and b2: "binned h2 {y \<in> set (as @ bs). \<not> us h y} bl2"
    and f2: "nx h2 = nx h" "pv h2 = pv h" "off h2 = off h" "us h2 = (us h)(n := False)"
      "hashes h2 = (hashes h)(off h n := None)" "fresh h2 = fresh h"
      "diagnostics h2 = diagnostics (freed n h)" "heap_base h2 = heap_base h"
      "\<And>y. y \<in> set (as @ bs) \<Longrightarrow> sz h2 y = sz h y"
    and s: "unat (sz h2 x) = block_bytes (map (block_of h) (x # ms))"
  defines "h3 \<equiv> rebin x (link_past x (head_or None bs) h2)"
  shows "heap_at (heap_base h) (unat (capacity (diagnostics h))) h3 (as @ x # bs) (map (block_of h) as @
    (unat (off h x), block_bytes (map (block_of h) (x # ms)), False) # map (block_of h) bs)"
proof -
  let ?ns' = "as @ x # bs" and ?l = "link_past x (head_or None bs) h2"
  note D = heap_invD[OF inv]
  have dist: "x \<notin> set (as @ bs)" "n \<notin> set (as @ bs)"
    using D(1) n(1) by auto
  have "256 \<le> unat (sz h x)"
    using heap_inv_block(1)[OF inv, of x] by simp
  then have big: "256 \<le> unat (sz ?l x)"
    using s by (simp add: heap_fields block_of_def)
  have bl: "binned ?l {y \<in> set (as @ bs). \<not> us h y} bl2"
    by (rule binned_cong[OF b2]) (simp_all add: heap_fields)
  note e = rebin_effect[OF big, folded h3_def]
  have f3: "nx h3 = (nx h)(x := head_or None bs)" "pv h3 = upd_at (head_or None bs) (Some x) (pv h)"
    "off h3 = off h" "sz h3 = sz h2" "us h3 = (us h)(n := False)" "hashes h3 = (hashes h)(off h n := None)"
    "fresh h3 = fresh h" "diagnostics h3 = diagnostics (freed n h)"
    "heap_base h3 = heap_base h"
    by (simp_all add: e heap_fields f2(1-8))
  have ux: "\<not> us h3 x"
    using n(2)[of x] by (simp add: f3)
  obtain bl3 where "binned h3 (insert x {y \<in> set (as @ bs). \<not> us h y}) bl3"
    using rebin_binned[OF bl _ big] dist(1) unfolding h3_def by auto
  moreover have "{y \<in> set ?ns'. \<not> us h3 y} = insert x {y \<in> set (as @ bs). \<not> us h y}"
    using dist ux by (auto simp: f3)
  moreover have "dll (nx h3) (pv h3) None ?ns' None"
    unfolding f3 by (rule dll_skip[OF D(3,1)])
  then have "chain h3 ?ns'"
    using D(1) D(2) by (auto simp: chain_def f3(7))
  moreover have "indexed h3 ?ns'"
    by (rule merge_indexed[OF inv n f3(3,5,6,7)])
  moreover have bk: "map (block_of h3) ?ns' =
       map (block_of h) as @ (unat (off h x), block_bytes (map (block_of h) (x # ms)), False) # map (block_of h) bs"
  proof -
    have "map (block_of h3) (as @ bs) = map (block_of h) (as @ bs)"
      using dist by (intro block_of_cong) (auto simp: f3 f2(9))
    then show ?thesis
      using s ux by (simp add: block_of_def[of h3 x] f3(3,4))
  qed
  ultimately have "heap_inv h3 ?ns' bl3"
    unfolding heap_inv_def f3(8) using D(8) merge_layout[OF inv n, folded bk] by (simp del: map_append list.map)
  then show ?thesis
    unfolding heap_at_def bk by (auto simp: f3(8,9))
qed

subsection \<open>The four cases\<close>

lemma merge_none:
  assumes inv: "heap_inv h (as @ n # bs) bl" "us h n"
  shows "heap_at (heap_base h) (unat (capacity (diagnostics h))) (rebin n (freed n h)) (as @ n # bs)
    (map (block_of h) as @ (unat (off h n), unat (sz h n), False) # map (block_of h) bs)"
proof -
  note D = heap_invD[OF inv(1)]
  have F: "{y \<in> set (as @ n # bs). \<not> us h y} = {y \<in> set (as @ bs). \<not> us h y}"
    using inv(2) by auto
  have "pv h q = Some n" if "head_or None bs = Some q" for q
    using D(3) that by (cases bs) simp_all
  then have l: "link_past n (head_or None bs) (freed n h) = freed n h"
    using D(3) by (intro link_past_same) simp_all
  have "heap_at (heap_base h) (unat (capacity (diagnostics h))) (rebin n (link_past n (head_or None bs) (freed n h))) (as @ n # bs) (map (block_of h) as @
    (unat (off h n), block_bytes (map (block_of h) [n]), False) # map (block_of h) bs)"
  proof (rule merge_rebin[where ms = "[]" and n = n])
    show "heap_inv h (as @ n # [] @ bs) bl"
      using inv(1) by simp
    show "binned (freed n h) {y \<in> set (as @ bs). \<not> us h y} bl"
      using freed_binned[OF D(4)] unfolding F .
  qed (use inv(2) in \<open>simp_all add: l block_of_def[of h n]\<close>)
  then show ?thesis
    by (simp add: l block_of_def[of h n])
qed

lemma merge_right:
  assumes inv: "heap_inv h (as @ n # q # bs) bl" "us h n" "\<not> us h q"
  defines "h1 \<equiv> unbin q (freed n h)"
  defines "h2 \<equiv> upd q (f_size_update (\<lambda>_. 0)) (upd n (\<lambda>f. f\<lparr>f_size := f_size f + sz h q\<rparr>) h1)"
  shows "heap_at (heap_base h) (unat (capacity (diagnostics h))) (rebin n (link_past n (head_or None bs) h2)) (as @ n # bs)
    (map (block_of h) as @ (unat (off h n), unat (sz h n) + unat (sz h q), False) # map (block_of h) bs)"
proof -
  have dist: "n \<noteq> q" "n \<notin> set (as @ bs)" "q \<notin> set (as @ bs)"
    using heap_invD(1)[OF inv(1)] by auto
  let ?F = "{y \<in> set (as @ n # q # bs). \<not> us h y}"
  have F: "?F - {q} = {y \<in> set (as @ bs). \<not> us h y}" "q \<in> ?F"
    using inv(2,3) dist by auto
  obtain bl1 where b: "binned h1 (?F - {q}) bl1"
    and u: "nx h1 = nx h" "pv h1 = pv h" "off h1 = off h" "sz h1 = sz h"
    "us h1 = (us h)(n := False)" "hashes h1 = (hashes h)(off h n := None)"
    "diagnostics h1 = diagnostics (freed n h)" "fresh h1 = fresh h" "heap_base h1 = heap_base h"
    unfolding h1_def by (rule unbin_frame[OF freed_binned[OF heap_invD(4)[OF inv(1)]] F(2)]) simp_all
  have "block_bytes (map (block_of h) [n, q]) < 2 ^ 32"
    using adjacent_sizes[of h as "[n, q]" bs bl] inv(1) by simp
  then have s: "unat (sz h n + sz h q) = unat (sz h n) + unat (sz h q)"
    by (simp add: block_of_def unat_word_ariths)
  have "heap_at (heap_base h) (unat (capacity (diagnostics h))) (rebin n (link_past n (head_or None bs) h2)) (as @ n # bs) (map (block_of h) as @
    (unat (off h n), block_bytes (map (block_of h) [n, q]), False) # map (block_of h) bs)"
  proof (rule merge_rebin[where ms = "[q]" and n = n])
    show "heap_inv h (as @ n # [q] @ bs) bl"
      using inv(1) by simp
    show "binned h2 {y \<in> set (as @ bs). \<not> us h y} bl1"
      using b unfolding F h2_def by (rule binned_cong) (use dist in \<open>auto simp: size_fields u\<close>)
    show "sz h2 y = sz h y" if "y \<in> set (as @ bs)" for y
      using that dist by (auto simp: h2_def size_fields u)
  qed (use inv(2,3) dist in \<open>auto simp: h2_def size_fields u s block_of_def[of h n] block_of_def[of h q]\<close>)
  then show ?thesis
    by (simp add: block_of_def[of h n] block_of_def[of h q])
qed

lemma merge_left:
  assumes inv: "heap_inv h (as @ p # n # bs) bl" "us h n" "\<not> us h p"
  defines "h1 \<equiv> unbin p (freed n h)"
  defines "h2 \<equiv> upd n (f_size_update (\<lambda>_. 0)) (upd p (\<lambda>f. f\<lparr>f_size := f_size f + sz h n\<rparr>) h1)"
  shows "heap_at (heap_base h) (unat (capacity (diagnostics h))) (rebin p (link_past p (head_or None bs) h2)) (as @ p # bs)
    (map (block_of h) as @ (unat (off h p), unat (sz h p) + unat (sz h n), False) # map (block_of h) bs)"
proof -
  have dist: "n \<noteq> p" "n \<notin> set (as @ bs)" "p \<notin> set (as @ bs)"
    using heap_invD(1)[OF inv(1)] by auto
  let ?F = "{y \<in> set (as @ p # n # bs). \<not> us h y}"
  have F: "?F - {p} = {y \<in> set (as @ bs). \<not> us h y}" "p \<in> ?F"
    using inv(2,3) dist by auto
  obtain bl1 where b: "binned h1 (?F - {p}) bl1"
    and u: "nx h1 = nx h" "pv h1 = pv h" "off h1 = off h" "sz h1 = sz h"
    "us h1 = (us h)(n := False)" "hashes h1 = (hashes h)(off h n := None)"
    "diagnostics h1 = diagnostics (freed n h)" "fresh h1 = fresh h" "heap_base h1 = heap_base h"
    unfolding h1_def by (rule unbin_frame[OF freed_binned[OF heap_invD(4)[OF inv(1)]] F(2)]) simp_all
  have "block_bytes (map (block_of h) [p, n]) < 2 ^ 32"
    using adjacent_sizes[of h as "[p, n]" bs bl] inv(1) by simp
  then have s: "unat (sz h p + sz h n) = unat (sz h p) + unat (sz h n)"
    by (simp add: block_of_def unat_word_ariths)
  have "heap_at (heap_base h) (unat (capacity (diagnostics h))) (rebin p (link_past p (head_or None bs) h2)) (as @ p # bs) (map (block_of h) as @
    (unat (off h p), block_bytes (map (block_of h) [p, n]), False) # map (block_of h) bs)"
  proof (rule merge_rebin[where ms = "[n]" and n = n])
    show "heap_inv h (as @ p # [n] @ bs) bl"
      using inv(1) by simp
    show "binned h2 {y \<in> set (as @ bs). \<not> us h y} bl1"
      using b unfolding F h2_def by (rule binned_cong) (use dist in \<open>auto simp: size_fields u\<close>)
    show "sz h2 y = sz h y" if "y \<in> set (as @ bs)" for y
      using that dist by (auto simp: h2_def size_fields u)
  qed (use inv(2,3) dist in \<open>auto simp: h2_def size_fields u s block_of_def[of h n] block_of_def[of h p]\<close>)
  then show ?thesis
    by (simp add: block_of_def[of h n] block_of_def[of h p])
qed

lemma merge_both:
  assumes inv: "heap_inv h (as @ p # n # q # bs) bl" "us h n" "\<not> us h p" "\<not> us h q"
  defines "h1 \<equiv> unbin q (unbin p (freed n h))"
  defines "h2 \<equiv> upd q (f_size_update (\<lambda>_. 0)) (upd n (f_size_update (\<lambda>_. 0))
    (upd p (\<lambda>f. f\<lparr>f_size := f_size f + (sz h n + sz h q)\<rparr>) h1))"
  shows "heap_at (heap_base h) (unat (capacity (diagnostics h))) (rebin p (link_past p (head_or None bs) h2)) (as @ p # bs)
    (map (block_of h) as @ (unat (off h p), unat (sz h p) + unat (sz h n) + unat (sz h q), False) # map (block_of h) bs)"
proof -
  have dist: "n \<noteq> p" "n \<noteq> q" "p \<noteq> q" "n \<notin> set (as @ bs)" "p \<notin> set (as @ bs)" "q \<notin> set (as @ bs)"
    using heap_invD(1)[OF inv(1)] by auto
  let ?F = "{y \<in> set (as @ p # n # q # bs). \<not> us h y}"
  have F: "?F - {p} - {q} = {y \<in> set (as @ bs). \<not> us h y}" "p \<in> ?F" "q \<in> ?F - {p}"
    using inv(2,3,4) dist by auto
  define h0 where "h0 = unbin p (freed n h)"
  obtain bl0 where b0: "binned h0 (?F - {p}) bl0"
    and u0: "nx h0 = nx h" "pv h0 = pv h" "off h0 = off h" "sz h0 = sz h"
    "us h0 = (us h)(n := False)" "hashes h0 = (hashes h)(off h n := None)"
    "diagnostics h0 = diagnostics (freed n h)" "fresh h0 = fresh h" "heap_base h0 = heap_base h"
    unfolding h0_def by (rule unbin_frame[OF freed_binned[OF heap_invD(4)[OF inv(1)]] F(2)]) simp_all
  obtain bl1 where b: "binned h1 (?F - {p} - {q}) bl1"
    and u: "nx h1 = nx h" "pv h1 = pv h" "off h1 = off h" "sz h1 = sz h"
    "us h1 = (us h)(n := False)" "hashes h1 = (hashes h)(off h n := None)"
    "diagnostics h1 = diagnostics (freed n h)" "fresh h1 = fresh h" "heap_base h1 = heap_base h"
    unfolding h1_def h0_def[symmetric] by (rule unbin_frame[OF b0 F(3)]) (simp_all add: u0)
  have "block_bytes (map (block_of h) [p, n, q]) < 2 ^ 32"
    using adjacent_sizes[of h as "[p, n, q]" bs bl] inv(1) by simp
  then have s: "unat (sz h p + (sz h n + sz h q)) = unat (sz h p) + (unat (sz h n) + unat (sz h q))"
    by (simp add: block_of_def unat_word_ariths)
  have "heap_at (heap_base h) (unat (capacity (diagnostics h))) (rebin p (link_past p (head_or None bs) h2)) (as @ p # bs) (map (block_of h) as @
    (unat (off h p), block_bytes (map (block_of h) [p, n, q]), False) # map (block_of h) bs)"
  proof (rule merge_rebin[where ms = "[n, q]" and n = n])
    show "heap_inv h (as @ p # [n, q] @ bs) bl"
      using inv(1) by simp
    show "binned h2 {y \<in> set (as @ bs). \<not> us h y} bl1"
      using b unfolding F h2_def by (rule binned_cong) (use dist in \<open>auto simp: size_fields u\<close>)
    show "sz h2 y = sz h y" if "y \<in> set (as @ bs)" for y
      using that dist by (auto simp: h2_def size_fields u)
  qed (use inv(2,3,4) dist in \<open>auto simp: h2_def size_fields u s block_of_def[of h n] block_of_def[of h p]
      block_of_def[of h q] add.assoc\<close>)
  then show ?thesis
    by (simp add: block_of_def[of h n] block_of_def[of h p] block_of_def[of h q] add.assoc)
qed

subsection \<open>The merge\<close>

lemma unbin_keeps:
  assumes "binned h F bl" "n \<in> F"
  shows "sz (unbin n h) = sz h" "nx (unbin n h) = nx h"
  using unbin_frame[OF assms] by metis+

lemma merge_free_unfold:
  assumes "pv h n = prev_rc" "nx h n = next_rc"
  shows "merge_free n h =
    (if free_at prev_rc h \<and> free_at next_rc h then
       obind (expect prev_rc) (\<lambda>p. obind (expect next_rc) (\<lambda>q.
         let h1 = unbin q (unbin p h);
             h2 = upd q (f_size_update (\<lambda>_. 0)) (upd n (f_size_update (\<lambda>_. 0))
                    (upd p (\<lambda>f. f\<lparr>f_size := f_size f + (sz h1 n + sz h1 q)\<rparr>) h1))
         in Ret (rebin p (link_past p (nx h2 q) h2))))
     else if free_at prev_rc h then
       obind (expect prev_rc) (\<lambda>p.
         let h1 = unbin p h;
             h2 = upd n (f_size_update (\<lambda>_. 0)) (upd p (\<lambda>f. f\<lparr>f_size := f_size f + sz h1 n\<rparr>) h1)
         in Ret (rebin p (link_past p (nx h2 n) h2)))
     else if free_at next_rc h then
       obind (expect next_rc) (\<lambda>q.
         let h1 = unbin q h;
             h2 = upd q (f_size_update (\<lambda>_. 0)) (upd n (\<lambda>f. f\<lparr>f_size := f_size f + sz h1 q\<rparr>) h1)
         in Ret (rebin n (link_past n (nx h2 q) h2)))
     else Ret (rebin n h))"
  using assms by (simp add: merge_free_def Let_def fold_fields)

lemma release_block_simps:
  "release_block (as @ [(b, t, False)]) a s cs = as @ absorb_right b (t + s) cs"
  "release_block (as @ [(b, t, True)]) a s cs = as @ (b, t, True) # absorb_right a s cs"
  "release_block [] a s cs = absorb_right a s cs"
  by (simp_all add: release_block_def)

definition free_head :: "o1heap \<Rightarrow> node list \<Rightarrow> bool" where
  "free_head h bs = (case bs of [] \<Rightarrow> False | q # _ \<Rightarrow> \<not> us h q)"

lemma free_at_head: "n \<notin> set bs \<Longrightarrow> free_at (head_or None bs) (freed n h) = free_head h bs"
  by (cases bs) (auto simp: free_at_def free_head_def fold_fields)

lemma free_at_last: "n \<notin> set as \<Longrightarrow> free_at (last_or None as) (freed n h) = free_head h (rev as)"
  by (cases as rule: rev_cases) (auto simp: free_at_def free_head_def fold_fields)

lemma absorb_right_kept: "\<not> free_head h bs \<Longrightarrow> absorb_right a s (map (block_of h) bs) = (a, s, False) # map (block_of h) bs"
  by (cases bs) (auto simp: free_head_def block_of_def)

lemma release_kept: "\<not> free_head h (rev as) \<Longrightarrow>
    release_block (map (block_of h) as) a s cs = map (block_of h) as @ absorb_right a s cs"
  by (cases as rule: rev_cases) (auto simp: free_head_def block_of_def release_block_def)

lemma free_headE:
  assumes "free_head h bs"
  obtains q cs where "bs = q # cs" "\<not> us h q"
  using assms by (cases bs) (auto simp: free_head_def)

lemma merge_free_left:
  assumes inv: "heap_inv h (as @ n # bs) bl" "us h n"
    and left: "free_head h (rev as)"
  shows "\<exists>h'. merge_free n (freed n h) = Ret h' \<and> heap_rep (heap_base h) (unat (capacity (diagnostics h))) h'
    (release_block (map (block_of h) as) (unat (off h n)) (unat (sz h n)) (map (block_of h) bs))"
proof -
  note D = heap_invD[OF inv(1)]
  have dist: "n \<notin> set as" "n \<notin> set bs"
    using D(1) by auto
  note bin = freed_binned[OF D(4), of n]
  have links: "pv (freed n h) n = last_or None as" "nx (freed n h) n = head_or None bs"
    using D(3) by simp_all
  note eq = merge_free_unfold[OF links, unfolded free_at_head[OF dist(2)] free_at_last[OF dist(1)]]
  obtain p ds where as: "as = ds @ [p]" "\<not> us h p"
    using left by (metis free_headE rev_eq_Cons_iff)
  have pF: "p \<in> {y \<in> set (as @ n # bs). \<not> us h y}"
    using as by simp
  note k = unbin_keeps[OF bin pF]
  have bp: "block_of h p = (unat (off h p), unat (sz h p), False)"
    using as(2) by (simp add: block_of_def)
  show ?thesis
  proof (cases "free_head h bs")
    case True
    then obtain q cs where bs: "bs = q # cs" "\<not> us h q"
      by (rule free_headE)
    have qF: "q \<in> {y \<in> set (as @ n # bs). \<not> us h y} - {p}"
      using bs D(1) as(1) by auto
    obtain bl1 where "binned (unbin p (freed n h)) ({y \<in> set (as @ n # bs). \<not> us h y} - {p}) bl1"
      using unbin_frame[OF bin pF] by metis
    note k2 = unbin_keeps[OF this qF]
    have "nx h q = head_or None cs"
      using D(3) by (simp add: bs(1))
    then have "merge_free n (freed n h) = Ret (rebin p (link_past p (head_or None cs) (upd q (f_size_update (\<lambda>_. 0))
        (upd n (f_size_update (\<lambda>_. 0)) (upd p (\<lambda>f. f\<lparr>f_size := f_size f + (sz h n + sz h q)\<rparr>)
          (unbin q (unbin p (freed n h))))))))"
      unfolding eq using left True by (simp add: as bs k k2 size_fields)
    moreover note merge_both[of h ds p n q cs bl, THEN heap_at_rep]
    ultimately show ?thesis
      using inv as bs by (simp add: release_block_simps bp block_of_def[of h q] add.assoc)
  next
    case False
    have "merge_free n (freed n h) = Ret (rebin p (link_past p (head_or None bs) (upd n (f_size_update (\<lambda>_. 0))
        (upd p (\<lambda>f. f\<lparr>f_size := f_size f + sz h n\<rparr>) (unbin p (freed n h))))))"
      unfolding eq using left False links(2) by (simp add: as k size_fields)
    moreover note merge_left[of h ds p n bs bl, THEN heap_at_rep]
    ultimately show ?thesis
      using inv as absorb_right_kept[OF False] by (simp add: release_block_simps bp)
  qed
qed

lemma merge_free_right:
  assumes inv: "heap_inv h (as @ n # bs) bl" "us h n"
    and left: "\<not> free_head h (rev as)"
  shows "\<exists>h'. merge_free n (freed n h) = Ret h' \<and> heap_rep (heap_base h) (unat (capacity (diagnostics h))) h'
    (release_block (map (block_of h) as) (unat (off h n)) (unat (sz h n)) (map (block_of h) bs))"
proof -
  note D = heap_invD[OF inv(1)]
  have dist: "n \<notin> set as" "n \<notin> set bs"
    using D(1) by auto
  note bin = freed_binned[OF D(4), of n]
  have links: "pv (freed n h) n = last_or None as" "nx (freed n h) n = head_or None bs"
    using D(3) by simp_all
  note eq = merge_free_unfold[OF links, unfolded free_at_head[OF dist(2)] free_at_last[OF dist(1)]]
  show ?thesis
  proof (cases "free_head h bs")
    case True
    then obtain q cs where bs: "bs = q # cs" "\<not> us h q"
      by (rule free_headE)
    have qF: "q \<in> {y \<in> set (as @ n # bs). \<not> us h y}"
      using bs by simp
    note k = unbin_keeps[OF bin qF]
    have "nx h q = head_or None cs"
      using D(3) by (simp add: bs(1))
    then have "merge_free n (freed n h) = Ret (rebin n (link_past n (head_or None cs) (upd q (f_size_update (\<lambda>_. 0))
        (upd n (\<lambda>f. f\<lparr>f_size := f_size f + sz h q\<rparr>) (unbin q (freed n h))))))"
      unfolding eq using left True by (simp add: bs k size_fields)
    moreover note merge_right[of h as n q cs bl, THEN heap_at_rep]
    ultimately show ?thesis
      using inv bs release_kept[OF left] by (simp add: block_of_def[of h q])
  next
    case False
    have "merge_free n (freed n h) = Ret (rebin n (freed n h))"
      unfolding eq using left False by simp
    then show ?thesis
      using merge_none[OF inv, THEN heap_at_rep] release_kept[OF left] absorb_right_kept[OF False] by simp
  qed
qed

lemma merge_free_correct:
  assumes inv: "heap_inv h (as @ n # bs) bl" "us h n"
  shows "\<exists>h'. merge_free n (freed n h) = Ret h' \<and> heap_rep (heap_base h) (unat (capacity (diagnostics h))) h'
    (release_block (map (block_of h) as) (unat (off h n)) (unat (sz h n)) (map (block_of h) bs))"
  using merge_free_left[OF inv] merge_free_right[OF inv] by blast

subsection \<open>The index\<close>

lemma used_at_offset:
  assumes inv: "heap_inv h ns bl"
  shows "(unat k, s, True) \<in> block_of h ` set ns \<longleftrightarrow> (\<exists>n. hashes h k = Some n \<and> us h n \<and> s = unat (sz h n))"
proof
  assume "(unat k, s, True) \<in> block_of h ` set ns"
  then obtain n where n: "n \<in> set ns" "(unat k, s, True) = block_of h n"
    by (rule imageE)
  then have "off h n = k" "us h n" "s = unat (sz h n)"
    by (simp_all add: block_of_def word_unat_eq_iff)
  then show "\<exists>n. hashes h k = Some n \<and> us h n \<and> s = unat (sz h n)"
    using heap_invD(5)[OF inv n(1)] by blast
next
  assume "\<exists>n. hashes h k = Some n \<and> us h n \<and> s = unat (sz h n)"
  then obtain n where n: "hashes h k = Some n" "us h n" "s = unat (sz h n)"
    by blast
  then have "n \<in> set ns" "off h n = k"
    using heap_invD(6)[OF inv n(1)] by simp_all
  then show "(unat k, s, True) \<in> block_of h ` set ns"
    using n(2,3) by (intro image_eqI[of _ _ n]) (simp_all add: block_of_def)
qed

lemma heap_free_at:
  assumes inv: "heap_inv h ns bl" and n: "hashes h (ucast (address - heap_base h)) = Some n" "us h n"
  shows "heap_free address h = merge_free n (freed n h)"
proof -
  have m: "n \<in> set ns" "off h n = ucast (address - heap_base h)"
    using heap_invD(6)[OF inv n(1)] n(2) by simp_all
  note b = heap_inv_block[OF inv m(1)]
  have "unat (ucast (capacity (diagnostics h)) :: u32) = unat (capacity (diagnostics h))"
    using heap_invD(8)[OF inv] by (intro unat_ucast_fit)
  then have "\<not> ucast (capacity (diagnostics h)) < sz h n"
    using b(2) by (simp add: word_less_nat_alt)
  moreover have "sz h n mod 256 = 0"
  proof -
    have "unat (sz h n mod 256) = 0"
      using b(3)[OF n(2)] by (simp add: unat_mod)
    then show ?thesis
      by (simp only: unat_eq_zero)
  qed
  ultimately show ?thesis
    using n not_below_min[OF b(1)] freed_allocated(2)[OF inv m(1) n(2)] m(2)
    by (simp add: heap_free_def find_fragment_by_offset_def Let_def fold_fields freed_def heap_fields)
qed

lemma heap_free_other:
  assumes "\<And>n. hashes h (ucast (address - heap_base h)) = Some n \<Longrightarrow> \<not> us h n"
  shows "heap_free address h = Ret h"
  using assms by (auto simp: heap_free_def find_fragment_by_offset_def fold_fields Let_def split: option.split)

lemma blocks_split:
  assumes "map f ns = as @ b # cs"
  obtains xs n ys where "ns = xs @ n # ys" "map f xs = as" "f n = b" "map f ys = cs"
proof -
  have "take (length as) (map f ns) = as" "drop (length as) (map f ns) = b # cs"
    by (simp_all add: assms)
  then have xs: "map f (take (length as) ns) = as" "map f (drop (length as) ns) = b # cs"
    by (simp_all add: take_map drop_map)
  then obtain n ys where ys: "drop (length as) ns = n # ys"
    by (cases "drop (length as) ns") simp_all
  show thesis
    by (rule that[of "take (length as) ns" n ys]) (use xs ys append_take_drop_id[of "length as" ns] in simp_all)
qed

lemma heap_free_refines:
  fixes address :: u64
  assumes rep: "heap_rep base cap h bs"
  defines "a \<equiv> unat (ucast (address - base) :: u32)"
  shows "(\<forall>as s cs. bs = as @ (a, s, True) # cs \<longrightarrow>
      (\<exists>h'. heap_free address h = Ret h' \<and> heap_rep base cap h' (release_block as a s cs)))
    \<and> ((\<forall>s. (a, s, True) \<notin> set bs) \<longrightarrow> heap_free address h = Ret h)"
proof -
  obtain ns bl where inv: "heap_inv h ns bl" and bs: "bs = map (block_of h) ns" and
    b: "heap_base h = base" "unat (capacity (diagnostics h)) = cap"
    using rep by (rule heap_repE)
  let ?k = "ucast (address - base) :: u32"
  have "\<forall>as s cs. bs = as @ (a, s, True) # cs \<longrightarrow>
      (\<exists>h'. heap_free address h = Ret h' \<and> heap_rep base cap h' (release_block as a s cs))"
  proof (intro allI impI)
    fix as s cs assume split: "bs = as @ (a, s, True) # cs"
    then obtain xs n ys where ns: "ns = xs @ n # ys" "map (block_of h) xs = as"
      "block_of h n = (a, s, True)" "map (block_of h) ys = cs"
      unfolding bs by (rule blocks_split)
    have n: "off h n = ?k" "unat (off h n) = a" "unat (sz h n) = s" "us h n"
      using ns(3) by (simp_all add: block_of_def a_def word_unat_eq_iff)
    then have "heap_free address h = merge_free n (freed n h)"
      using heap_invD(5)[OF inv, of n] by (intro heap_free_at[OF inv]) (simp_all add: ns(1) b)
    then show "\<exists>h'. heap_free address h = Ret h' \<and> heap_rep base cap h' (release_block as a s cs)"
      using merge_free_correct[OF inv[unfolded ns(1)] n(4)] n ns b by simp
  qed
  moreover have "(\<forall>s. (a, s, True) \<notin> set bs) \<longrightarrow> heap_free address h = Ret h"
  proof
    assume "\<forall>s. (a, s, True) \<notin> set bs"
    then have "\<not> us h n" if "hashes h ?k = Some n" for n
      using used_at_offset[OF inv, of ?k "unat (sz h n)"] that by (auto simp: bs a_def)
    then show "heap_free address h = Ret h"
      by (intro heap_free_other) (simp add: b)
  qed
  ultimately show ?thesis
    by blast
qed

text \<open>
C4: \<open>free\<close> refines the abstract release and never panics. When a used block starts at the offset of the
address, cut to 32 bits, the block becomes free and is joined with the free blocks next to it. When
no used block starts there (a stale address, a second \<open>free\<close>, an address inside a block) nothing
changes.
\<close>

theorem heap_free_correct:
  fixes address :: u64
  assumes rep: "heap_rep base cap h bs"
  defines "a \<equiv> unat (ucast (address - base) :: u32)"
  shows "(\<forall>as s cs. bs = as @ (a, s, True) # cs \<longrightarrow>
      (\<exists>h'. heap_free address h = Ret h' \<and> heap_rep base cap h' (release_block as a s cs)))
    \<and> ((\<forall>s. (a, s, True) \<notin> set bs) \<longrightarrow> heap_free address h = Ret h)"
  using heap_free_refines[OF rep, of address] by (simp only: a_def)

theorem heap_free_correct_witness:
  "\<exists>h h' h''. heap_new 1024 0x1000 0x10000 = Some h \<and> allocate 300 h = Ret (Some 0x1000, h')
     \<and> heap_free 0x1000 h' = Ret h'' \<and> heap_rep 0x1000 0x10000 h'' [(0, 0x10000, False)]
     \<and> heap_free 0x1000 h'' = Ret h''"
proof -
  obtain h h' where h: "heap_new 1024 0x1000 0x10000 = Some h" "allocate 300 h = Ret (Some 0x1000, h')"
    "heap_rep 0x1000 0x10000 h' [(0, 512, True), (512, 65024, False)]"
    by (rule new_heap_300)
  have "\<exists>h''. heap_free 0x1000 h' = Ret h''
      \<and> heap_rep 0x1000 0x10000 h'' (release_block [] 0 512 [(512, 65024, False)])"
    using heap_free_correct[OF h(3), of "0x1000", THEN conjunct1, rule_format, of "[]" 512 "[(512, 65024, False)]"]
    by simp
  then obtain h'' where f: "heap_free 0x1000 h' = Ret h''" "heap_rep 0x1000 0x10000 h'' [(0, 0x10000, False)]"
    by (auto simp: release_block_simps)
  with heap_free_correct[OF f(2), of "0x1000", THEN conjunct2] show ?thesis
    using h by auto
qed

end
