(* ===== verification/Heap_Runs.thy ===== *)
theory Heap_Runs
  imports Heap_Free
begin

section \<open>Sequences of heap operations\<close>

text \<open>
  The states that a client can reach from a new heap with \<open>allocate\<close> and \<open>free\<close> are the reachable
  states of a step relation. They represent lists of blocks, so what the index reports are disjoint
  ranges of the arena. A step outside that relation, the backward growth of \<open>reallocate\<close>, breaks this.
\<close>

subsection \<open>Lookups\<close>

lemma allocation_size_iff:
  assumes rep: "heap_rep base cap h bs"
  shows "allocation_size addr h = Some s \<longleftrightarrow>
    base \<le> addr \<and> (unat (ucast (addr - base) :: u32), unat s, True) \<in> set bs"
proof -
  obtain ns bl where inv: "heap_inv h ns bl" and bs: "bs = map (block_of h) ns" and b: "heap_base h = base"
    using rep by (rule heap_repE)
  let ?k = "ucast (addr - base) :: u32"
  have "ucast (sz h n) = s \<longleftrightarrow> unat s = unat (sz h n)" for n
    by (auto simp: word_unat_eq_iff)
  then have "allocation_size addr h = Some s \<longleftrightarrow>
      base \<le> addr \<and> (\<exists>n. hashes h ?k = Some n \<and> us h n \<and> unat s = unat (sz h n))"
    by (auto simp: allocation_size_def Let_def fold_fields b not_less split: option.split)
  then show ?thesis
    using used_at_offset[OF inv, of ?k "unat s"] by (simp add: bs)
qed

lemma check_fragment_exists_iff:
  "check_fragment_exists addr h \<longleftrightarrow> (\<exists>s. allocation_size addr h = Some s)"
  by (auto simp: check_fragment_exists_def allocation_size_def Let_def split: option.split)

subsection \<open>Reachable heaps\<close>

inductive heap_step :: "o1heap \<Rightarrow> o1heap \<Rightarrow> bool" where
  step_allocate: "allocate amount h = Ret (r, h') \<Longrightarrow> heap_step h h'"
| step_free: "heap_free address h = Ret h' \<Longrightarrow> heap_step h h'"

inductive heap_reachable :: "u32 \<Rightarrow> u64 \<Rightarrow> u32 \<Rightarrow> o1heap \<Rightarrow> bool" for m base s where
  reach_new: "heap_new m base s = Some h \<Longrightarrow> heap_reachable m base s h"
| reach_step: "heap_reachable m base s h \<Longrightarrow> heap_step h h' \<Longrightarrow> heap_reachable m base s h'"

lemma heap_step_rep:
  assumes "heap_step h h'" "heap_rep base cap h bs"
  shows "\<exists>bs'. heap_rep base cap h' bs'"
  using assms(1)
proof cases
  case (step_allocate amount r)
  then show ?thesis
    using allocate_refines[OF assms(2), of amount] by (auto split: if_splits)
next
  case (step_free address)
  let ?a = "unat (ucast (address - base) :: u32)"
  show ?thesis
  proof (cases "\<exists>s. (?a, s, True) \<in> set bs")
    case True
    then obtain as s cs where "bs = as @ (?a, s, True) # cs"
      by (meson split_list)
    then obtain h'' where "heap_free address h = Ret h''" "heap_rep base cap h'' (release_block as ?a s cs)"
      using heap_free_refines[OF assms(2), of address] by blast
    then show ?thesis
      using step_free by auto
  next
    case False
    then have "heap_free address h = Ret h"
      using heap_free_refines[OF assms(2), of address] by blast
    then show ?thesis
      using step_free assms(2) by auto
  qed
qed

lemma heap_reachable_rep:
  assumes "heap_reachable m base s h" "256 \<le> unat m"
  shows "\<exists>bs. heap_rep base (unat s) h bs"
  using assms(1)
proof induction
  case (reach_new h)
  then have "m \<le> s"
    by (simp add: heap_new_def not_less split: if_splits)
  from heap_new_inv[OF assms(2) this] obtain h' where "heap_new m base s = Some h'"
    "heap_inv h' [0] ((\<lambda>_. [])(bin_of s := [0]))" "heap_base h' = base" "capacity (diagnostics h') = ucast s"
    by metis
  then show ?case
    using reach_new heap_repI[of h' "[0]" _ base "unat s"] by auto
next
  case (reach_step h h')
  then show ?case
    using heap_step_rep by blast
qed

lemma blocks_disjoint:
  assumes "laid_out lo bs cap" "(a, s, u) \<in> set bs" "(b, t, v) \<in> set bs" "a \<noteq> b"
  shows "a + s \<le> b \<or> b + t \<le> a"
proof -
  obtain xs ys where bs: "bs = xs @ (a, s, u) # ys"
    using assms(2) by (meson split_list)
  then have "(b, t, v) \<in> set xs \<or> (b, t, v) \<in> set ys"
    using assms(3,4) by auto
  then show ?thesis
    using laid_out_apart[OF assms(1)[unfolded bs]] by blast
qed

text \<open>
C5: Live allocations never overlap. In every heap that is reachable from a new one by any sequence of
calls of \<open>allocate\<close> and \<open>free\<close> with any arguments, two different addresses for which \<open>allocation_size\<close>
reports a size stand for disjoint ranges of bytes, and the ranges lie within the arena.
\<close>

theorem allocations_disjoint:
  assumes reach: "heap_reachable m base s h" and m: "256 \<le> unat m"
    and a: "allocation_size a h = Some x" "unat (a - base) < 2 ^ 32"
    and b: "allocation_size b h = Some y" "unat (b - base) < 2 ^ 32"
    and ne: "a \<noteq> b"
  shows "(unat (a - base) + unat x \<le> unat (b - base) \<or> unat (b - base) + unat y \<le> unat (a - base))
    \<and> unat (a - base) + unat x \<le> unat s"
proof -
  obtain bs where rep: "heap_rep base (unat s) h bs"
    using heap_reachable_rep[OF reach m] by blast
  then obtain ns bl where inv: "heap_inv h ns bl" "bs = map (block_of h) ns"
    "unat (capacity (diagnostics h)) = unat s"
    by (rule heap_repE)
  have lo: "laid_out 0 bs (unat s)"
    using heap_invD(7)[OF inv(1)] inv(2,3) by simp
  have in_a: "(unat (a - base), unat x, True) \<in> set bs" and in_b: "(unat (b - base), unat y, True) \<in> set bs"
    using a b by (simp_all add: allocation_size_iff[OF rep] unat_ucast_fit)
  have "unat (a - base) \<noteq> unat (b - base)"
    using ne by (simp add: word_unat_eq_iff[symmetric])
  then show ?thesis
    using blocks_disjoint[OF lo in_a in_b] laid_out_member[OF lo in_a] by simp
qed

text \<open>A reachable heap with two allocations, for the witnesses.\<close>

lemma two_allocations:
  obtains h where "heap_reachable 1024 0x1000 0x10000 h"
    "heap_rep 0x1000 0x10000 h [(0, 512, True), (512, 512, True), (1024, 64512, False)]"
proof -
  obtain h h' where h: "heap_new 1024 0x1000 0x10000 = Some h" "allocate 300 h = Ret (Some 0x1000, h')"
    "heap_rep 0x1000 0x10000 h' [(0, 512, True), (512, 65024, False)]"
    by (rule new_heap_300)
  have "can_allocate 300 0x10000 [(0, 512, True), (512, 65024, False)]"
    by (simp add: can_allocate_def fragment_bytes_300)
  then obtain as a s cs h'' where
    "[(0, 512, True), (512, 65024, False)] = as @ (a, s, False) # cs"
    "allocate 300 h' = Ret (Some (of_nat a + 0x1000), h'')"
    "heap_rep 0x1000 0x10000 h'' (as @ cut_block 512 (a, s, False) @ cs)"
    using allocate_refines[OF h(3), of 300] unfolding fragment_bytes_300 by auto
  then have "allocate 300 h' = Ret (Some 0x1200, h'')"
    "heap_rep 0x1000 0x10000 h'' [(0, 512, True), (512, 512, True), (1024, 64512, False)]"
    by (auto simp: Cons_eq_append_conv cut_block_def)
  then show thesis
    using that h(1,2) by (meson heap_step.intros heap_reachable.intros)
qed

theorem allocations_disjoint_witness:
  "\<exists>h. heap_reachable 1024 0x1000 0x10000 h \<and> allocation_size 0x1000 h = Some 512 \<and> allocation_size 0x1200 h = Some 512
     \<and> (unat (0x1000 - 0x1000 :: u64) + unat (512::u64) \<le> unat (0x1200 - 0x1000 :: u64)
        \<or> unat (0x1200 - 0x1000 :: u64) + unat (512::u64) \<le> unat (0x1000 - 0x1000 :: u64))"
proof -
  obtain h where h: "heap_reachable 1024 0x1000 0x10000 h"
    "heap_rep 0x1000 0x10000 h [(0, 512, True), (512, 512, True), (1024, 64512, False)]"
    by (rule two_allocations)
  have s: "allocation_size 0x1000 h = Some 512" "allocation_size 0x1200 h = Some 512"
    by (simp_all add: allocation_size_iff[OF h(2)])
  show ?thesis
    using allocations_disjoint[OF h(1) _ s(1) _ s(2)] h(1) s by auto
qed

subsection \<open>Reuse\<close>

lemma absorb_right_free: "\<exists>t\<ge>s. (a, t, False) \<in> set (absorb_right a s cs)"
proof (induction a s cs rule: absorb_right.induct)
  case (1 a s b t cs)
  then show ?case
    by (intro exI[of _ "s + t"]) simp
qed auto

lemma release_block_free: "\<exists>b t. s \<le> t \<and> (b, t, False) \<in> set (release_block as a s cs)"
proof (cases as rule: rev_cases)
  case (snoc ds d)
  obtain b t u where d: "d = (b, t, u)"
    by (metis prod.exhaust)
  show ?thesis
  proof (cases u)
    case True
    then show ?thesis
      using absorb_right_free[of s a cs] by (auto simp: snoc d release_block_simps)
  next
    case False
    then show ?thesis
      using absorb_right_free[of "t + s" b cs] by (auto simp: snoc d release_block_simps) (meson add_leD2)
  qed
qed (use absorb_right_free[of s a cs] in \<open>auto simp: release_block_simps\<close>)

text \<open>
C11: Memory that is freed can be allocated again. In a reachable heap, when an allocation is freed and
then an amount is requested that is not zero and whose rounded size is at most the size of the freed
allocation, the request succeeds.
\<close>

theorem freed_memory_is_reused:
  assumes reach: "heap_reachable m base s h" and m: "256 \<le> unat m"
    and a: "allocation_size address h = Some x"
    and am: "amount \<noteq> 0" "fragment_bytes amount \<noteq> 0" "fragment_bytes amount \<le> unat x"
  shows "\<exists>h' b h''. heap_free address h = Ret h' \<and> allocate amount h' = Ret (Some b, h'')"
proof -
  obtain bs where rep: "heap_rep base (unat s) h bs"
    using heap_reachable_rep[OF reach m] by blast
  then obtain ns bl where inv: "heap_inv h ns bl" "bs = map (block_of h) ns"
    "unat (capacity (diagnostics h)) = unat s"
    by (rule heap_repE)
  let ?a = "unat (ucast (address - base) :: u32)"
  have mem: "(?a, unat x, True) \<in> set bs"
    using a by (simp add: allocation_size_iff[OF rep])
  then obtain as cs where bs: "bs = as @ (?a, unat x, True) # cs"
    by (meson split_list)
  then obtain h' where f: "heap_free address h = Ret h'"
    "heap_rep base (unat s) h' (release_block as ?a (unat x) cs)"
    using heap_free_refines[OF rep, of address] by blast
  have "laid_out 0 bs (unat s)"
    using heap_invD(7)[OF inv(1)] inv(2,3) by simp
  then have "unat x \<le> unat s"
    using laid_out_member mem by fastforce
  moreover obtain b t where "unat x \<le> t" "(b, t, False) \<in> set (release_block as ?a (unat x) cs)"
    using release_block_free by blast
  ultimately have "can_allocate amount (unat s) (release_block as ?a (unat x) cs)"
    using am unfolding can_allocate_def by (auto intro: order_trans)
  then show ?thesis
    using allocate_refines[OF f(2), of amount] f(1) by auto
qed

theorem freed_memory_is_reused_witness:
  "\<exists>h h' b h''. heap_reachable 1024 0x1000 0x10000 h \<and> allocation_size 0x1200 h = Some 512
     \<and> heap_free 0x1200 h = Ret h' \<and> allocate 300 h' = Ret (Some b, h'')"
proof -
  obtain h where h: "heap_reachable 1024 0x1000 0x10000 h"
    "heap_rep 0x1000 0x10000 h [(0, 512, True), (512, 512, True), (1024, 64512, False)]"
    by (rule two_allocations)
  have "allocation_size 0x1200 h = Some 512"
    by (simp add: allocation_size_iff[OF h(2)])
  with freed_memory_is_reused[OF h(1) _ this, of 300] show ?thesis
    using h(1) by (auto simp: fragment_bytes_300)
qed

end
