(* ===== verification/Heap_Resize.thy ===== *)
theory Heap_Resize
  imports Heap_Runs
begin

section \<open>Resizing\<close>

text \<open>
  \<open>reallocate\<close>: the effect of cutting a fragment, and the case in which it grows backward over a right
  neighbour that is in use.
\<close>

subsection \<open>Effects\<close>

lemma cut_fragment_effect:
  fixes nn :: "node option" and a :: u32 and s :: usize
  assumes "n < fresh h" "256 \<le> unat (ucast leftover :: u32)"
  defines "m \<equiv> fresh h" and "h' \<equiv> cut_fragment n nn a s leftover h"
  shows "nx h' = ((nx h)(m := nn))(n := Some m)" "pv h' = upd_at nn (Some m) ((pv h)(m := Some n))"
    "off h' = (off h)(m := a + ucast s)" "sz h' = ((sz h)(m := ucast leftover))(n := ucast s)"
    "us h' = (us h)(m := False)" "hashes h' = (hashes h)(a + ucast s \<mapsto> m)"
    "diagnostics h' = diagnostics h" "heap_base h' = heap_base h" "fresh h' = Suc (fresh h)"
    "binned h F bl \<Longrightarrow> m \<notin> F \<Longrightarrow> n \<notin> F \<Longrightarrow> \<exists>bl'. binned h' (insert m F) bl'"
proof -
  obtain h1 where h1: "link_tail n nn (a + ucast s) (ucast leftover) h = (m, h1)"
    using link_tail_effect(1)[of n nn "a + ucast s" "ucast leftover" h] assms(1) by (metis m_def prod.exhaust)
  note l = link_tail_effect[OF h1 assms(1)]
  define h2 where "h2 = hash_insert (a + ucast s) m (upd n (f_size_update (\<lambda>_. ucast s)) h1)"
  have h': "h' = rebin m h2"
    by (simp add: h'_def cut_fragment_def h1 h2_def)
  have mn: "m \<noteq> n"
    using assms(1) by (simp add: m_def)
  have f: "nx h2 = ((nx h)(m := nn))(n := Some m)" "pv h2 = upd_at nn (Some m) ((pv h)(m := Some n))"
    "off h2 = (off h)(m := a + ucast s)" "sz h2 = ((sz h)(m := ucast leftover))(n := ucast s)"
    "us h2 = (us h)(m := False)" "nf h2 = (nf h)(m := None)" "pf h2 = (pf h)(m := None)"
    "hashes h2 = (hashes h)(a + ucast s \<mapsto> m)" "diagnostics h2 = diagnostics h"
    "heap_base h2 = heap_base h" "fresh h2 = Suc (fresh h)" "bins h2 = bins h"
    "nonempty_bin_mask h2 = nonempty_bin_mask h"
    unfolding h2_def by (simp_all add: size_fields l(2-))
  have big: "256 \<le> unat (sz h2 m)"
    using assms(2) mn by (simp add: f)
  note e = rebin_effect[OF big]
  show "nx h' = ((nx h)(m := nn))(n := Some m)" "pv h' = upd_at nn (Some m) ((pv h)(m := Some n))"
    "off h' = (off h)(m := a + ucast s)" "sz h' = ((sz h)(m := ucast leftover))(n := ucast s)"
    "us h' = (us h)(m := False)" "hashes h' = (hashes h)(a + ucast s \<mapsto> m)"
    "diagnostics h' = diagnostics h" "heap_base h' = heap_base h" "fresh h' = Suc (fresh h)"
    unfolding h' by (simp_all add: e f)
  show "\<exists>bl'. binned h' (insert m F) bl'" if "binned h F bl" "m \<notin> F" "n \<notin> F"
  proof -
    have "binned h2 F bl"
      using that(1) by (rule binned_cong) (use that in \<open>auto simp: f\<close>)
    then show ?thesis
      unfolding h' using rebin_binned[OF _ that(2) big] by blast
  qed
qed

lemma heap_rep_diag:
  assumes "chain h ns" "binned h {y \<in> set ns. \<not> us h y} bl" "indexed h ns"
    and bs: "map (block_of h) ns = bs" and lo: "laid_out 0 bs cap" "cap < 2 ^ 32"
    and d: "unat (capacity (f (diagnostics h))) = cap" "unat (allocated (f (diagnostics h))) = used_bytes bs"
  shows "heap_rep (heap_base h) cap (diag f h) bs"
proof -
  have "block_of (diag f h) = block_of h"
    by (simp add: fun_eq_iff block_of_def)
  then have "heap_inv (diag f h) ns bl"
    using assms by (simp add: heap_inv_def chain_def binned_def indexed_def)
  then show ?thesis
    using heap_repI[of "diag f h" ns bl] d(1) bs \<open>block_of (diag f h) = block_of h\<close> by simp
qed

subsection \<open>A used fragment with a new free tail\<close>

text \<open>The offset of the tail is no offset of another fragment that stays.\<close>

lemma tail_offset:
  fixes fs left :: usize
  assumes inv: "heap_inv h (as @ n # ms @ bs) bl"
    and s: "unat fs + unat left = block_bytes (map (block_of h) (n # ms))" "256 \<le> unat fs" "256 \<le> unat left"
  shows "unat (ucast fs :: u32) = unat fs" "unat (ucast left :: u32) = unat left"
    "unat (off h n + ucast fs) = unat (off h n) + unat fs"
    "y \<in> set (as @ n # bs) \<Longrightarrow> off h y \<noteq> off h n + ucast fs"
proof -
  note lo = joined_layout[OF inv]
  have cap: "unat (off h n) + (unat fs + unat left) < 2 ^ 32"
    using laid_out_member[OF lo, of "unat (off h n)" "unat fs + unat left" False] heap_invD(8)[OF inv] s(1) by auto
  show u: "unat (ucast fs :: u32) = unat fs"
    using cap by (intro unat_ucast_fit) linarith
  show "unat (ucast left :: u32) = unat left"
    using cap by (intro unat_ucast_fit) linarith
  show k: "unat (off h n + ucast fs) = unat (off h n) + unat fs"
    using cap by (simp add: unat_word_ariths u)
  show "off h y \<noteq> off h n + ucast fs" if y: "y \<in> set (as @ n # bs)"
  proof -
    have big: "256 \<le> unat (sz h y)"
      using heap_inv_block(1)[OF inv, of y] y by auto
    consider "y \<in> set as" | "y = n" | "y \<in> set bs"
      using y by auto
    then have "unat (off h y) \<noteq> unat (off h n) + unat fs"
    proof cases
      case 1
      then have "unat (off h y) + unat (sz h y) \<le> unat (off h n)"
        using heap_inv_apart(1)[of h as n "ms @ bs" bl y] inv by simp
      then show ?thesis
        using big by simp
    next
      case 2
      then show ?thesis
        using s(2) by simp
    next
      case 3
      then have "(unat (off h y), unat (sz h y), us h y) \<in> set (map (block_of h) bs)"
        by (auto simp: block_of_def)
      from laid_out_apart(2)[OF lo this] show ?thesis
        using s by simp
    qed
    then show ?thesis
      using k by auto
  qed
qed

lemma cut_indexed:
  fixes fs left :: usize
  assumes inv: "heap_inv h (as @ n # ms @ bs) bl" and us: "us h n" "\<forall>y\<in>set ms. \<not> us h y"
    and s: "unat fs + unat left = block_bytes (map (block_of h) (n # ms))" "256 \<le> unat fs" "256 \<le> unat left"
    and h1: "\<And>k y. H k = Some y \<Longrightarrow> hashes h k = Some y"
      "\<And>y. y \<in> set (as @ n # bs) \<Longrightarrow> us h y \<Longrightarrow> H (off h y) = Some y"
    and h': "off h' = (off h)(fresh h := off h n + ucast fs)" "us h' = (us h)(fresh h := False)"
      "hashes h' = H(off h n + ucast fs \<mapsto> fresh h)" "fresh h' = Suc (fresh h)"
  shows "indexed h' (as @ n # fresh h # bs)"
  unfolding indexed_def h'
proof (intro conjI ballI allI impI)
  let ?m = "fresh h" and ?k = "off h n + ucast fs"
  note D = heap_invD[OF inv]
  have m: "?m \<notin> set (as @ n # ms @ bs)"
    using D(2)[of ?m] by blast
  {
    fix y assume y: "y \<in> set (as @ n # ?m # bs)" "((us h)(?m := False)) y"
    then have "y \<noteq> ?m" "y \<in> set (as @ n # bs)" "us h y"
      by (auto split: if_splits)
    then show "(H(?k \<mapsto> ?m)) (((off h)(?m := ?k)) y) = Some y"
      using tail_offset(4)[OF inv s, of y] h1(2)[of y] by simp
  }
  fix k y assume "(H(?k \<mapsto> ?m)) k = Some y"
  then consider "k = ?k" "y = ?m" | "hashes h k = Some y"
    using h1(1)[of k y] unfolding map_upd_Some_unfold by blast
  note cs = this
  show "y < Suc ?m"
    using cs D(6)[of k y] by cases auto
  show "((off h)(?m := ?k)) y = k"
    using cs D(6)[of k y] by cases auto
  show "y \<in> set (as @ n # ?m # bs)" if "((us h)(?m := False)) y"
    using cs
  proof cases
    case 2
    then show ?thesis
      using D(6)[of k y] us(2) that by (auto split: if_splits)
  qed (use that in simp)
qed

lemma cut_layout:
  assumes inv: "heap_inv h (as @ n # ms @ bs) bl" and us: "us h n" "\<forall>y\<in>set ms. \<not> us h y"
    and s: "f + l = block_bytes (map (block_of h) (n # ms))" "256 \<le> f" "256 dvd f" "256 \<le> l"
  defines "fs \<equiv> map (block_of h) as @ (unat (off h n), f, True) # (unat (off h n) + f, l, False) # map (block_of h) bs"
  shows "laid_out 0 fs (unat (capacity (diagnostics h)))"
    "used_bytes fs + unat (sz h n) = unat (allocated (diagnostics h)) + f"
proof -
  have "laid_out 0 (map (block_of h) as @ [(unat (off h n), f + l, False)] @ map (block_of h) bs)
      (unat (capacity (diagnostics h)))"
    using joined_layout[OF inv] s(1) by simp
  then have "laid_out 0 (map (block_of h) as @ [(unat (off h n), f, True), (unat (off h n) + f, l, False)]
      @ map (block_of h) bs) (unat (capacity (diagnostics h)))"
    by (rule laid_out_replace) (use s in simp)
  then show "laid_out 0 fs (unat (capacity (diagnostics h)))"
    by (simp add: fs_def)
  show "used_bytes fs + unat (sz h n) = unat (allocated (diagnostics h)) + f"
    using heap_invD(9)[OF inv] us(1) used_bytes_none[of ms h] us(2) by (simp add: fs_def block_of_def[of h n])
qed

lemma cut_correct:
  assumes inv: "heap_inv h (as @ n # ms @ bs) bl" and us: "us h n" "\<forall>y\<in>set ms. \<not> us h y"
    and b1: "binned h1 {y \<in> set (as @ bs). \<not> us h y} bl1"
    and f1: "nx h1 = nx h" "pv h1 = pv h" "off h1 = off h" "us h1 = us h" "fresh h1 = fresh h"
      "heap_base h1 = heap_base h" "\<And>y. y \<in> set (as @ bs) \<Longrightarrow> sz h1 y = sz h y"
    and hs: "\<And>k y. hashes h1 k = Some y \<Longrightarrow> hashes h k = Some y"
      "\<And>y. y \<in> set (as @ n # bs) \<Longrightarrow> us h y \<Longrightarrow> hashes h1 (off h y) = Some y"
    and s: "unat fs + unat left = block_bytes (map (block_of h) (n # ms))" "256 \<le> unat fs" "256 \<le> unat left"
      "256 dvd unat fs"
    and d: "capacity (f (diagnostics h1)) = capacity (diagnostics h)"
      "unat (allocated (f (diagnostics h1))) + unat (sz h n) = unat (allocated (diagnostics h)) + unat fs"
  shows "heap_rep (heap_base h) (unat (capacity (diagnostics h)))
    (diag f (cut_fragment n (head_or None bs) (off h n) fs left h1))
    (map (block_of h) as @ (unat (off h n), unat fs, True) # (unat (off h n) + unat fs, unat left, False) # map (block_of h) bs)"
proof -
  let ?m = "fresh h" and ?k = "off h n + ucast fs" and ?h' = "cut_fragment n (head_or None bs) (off h n) fs left h1"
  let ?ns = "as @ n # fresh h # bs"
  note D = heap_invD[OF inv]
  note t = tail_offset[OF inv s(1-3)]
  have m: "?m \<notin> set (as @ n # ms @ bs)"
    using D(2)[of ?m] by blast
  have nf: "n < fresh h1"
    using D(2)[of n] f1(5) by simp
  have big: "256 \<le> unat (ucast left :: u32)"
    using s(3) t(2) by simp
  note e = cut_fragment_effect[OF nf big, where nn = "head_or None bs" and a = "off h n" and s = fs]
  note e = e(1-9)[unfolded f1(1-6)] e(10)[OF b1, unfolded f1(5)]
  obtain bl' where b: "binned ?h' (insert ?m {y \<in> set (as @ bs). \<not> us h y}) bl'"
    using e(10) m us(1) by auto
  have F: "{y \<in> set ?ns. \<not> us ?h' y} = insert ?m {y \<in> set (as @ bs). \<not> us h y}"
    using us(1) m by (auto simp: e(5))
  have "dll (nx ?h') (pv ?h') None ?ns None"
    unfolding e(1,2) by (rule dll_replace[OF D(3,1) m])
  then have ch: "chain ?h' ?ns"
    using D(1) m less_SucI[OF D(2)] by (auto simp: chain_def e(9))
  have ix: "indexed ?h' ?ns"
    by (rule cut_indexed[OF inv us s(1-3) hs e(3,5,6,9)])
  have bk: "map (block_of ?h') ?ns =
      map (block_of h) as @ (unat (off h n), unat fs, True) # (unat (off h n) + unat fs, unat left, False) # map (block_of h) bs"
  proof -
    have "y \<noteq> ?m" "y \<noteq> n" if "y \<in> set (as @ bs)" for y
      using that m D(1) by auto
    then have "map (block_of ?h') (as @ bs) = map (block_of h) (as @ bs)"
      using f1(7) by (intro block_of_cong) (simp add: e(3-5))
    then show ?thesis
      using us(1) t m by (simp add: block_of_def[of ?h' n] block_of_def[of ?h' ?m] e(3-5))
  qed
  note lay = cut_layout[OF inv us s(1,2,4,3)]
  show ?thesis
    using heap_rep_diag[OF ch b[folded F] ix bk lay(1) D(8), of f] lay(2) d by (simp add: e(7,8))
qed

lemma absorb_effect:
  assumes b: "binned h F bl" and q: "q \<in> F"
  obtains h1 bl1 where "absorb q h = (nx h q, h1)" "binned h1 (F - {q}) bl1" "nx h1 = nx h" "pv h1 = pv h"
    "off h1 = off h" "us h1 = us h" "sz h1 = (sz h)(q := 0)" "hashes h1 = (hashes h)(off h q := None)"
    "diagnostics h1 = diagnostics h" "heap_base h1 = heap_base h" "fresh h1 = fresh h"
proof -
  define h0 where "h0 = unbin q h"
  obtain bl0 where b0: "binned h0 (F - {q}) bl0" and u: "nx h0 = nx h" "pv h0 = pv h" "off h0 = off h"
    "sz h0 = sz h" "us h0 = us h" "hashes h0 = hashes h" "diagnostics h0 = diagnostics h"
    "heap_base h0 = heap_base h" "fresh h0 = fresh h"
    unfolding h0_def by (rule unbin_frame[OF b q])
  define h1 where "h1 = hash_remove (off h q) (upd q (f_size_update (\<lambda>_. 0)) h0)"
  have "absorb q h = (nx h q, h1)"
    by (simp add: absorb_def Let_def h0_def[symmetric] fold_fields u h1_def)
  moreover have "binned h1 (F - {q}) bl0"
    using b0 by (rule binned_cong) (simp_all add: h1_def size_fields)
  ultimately show thesis
    by (rule that) (simp_all add: h1_def size_fields u)
qed

lemma take_over_layout:
  assumes inv: "heap_inv h (as @ n # q # bs) bl" and us: "us h n" "\<not> us h q" "256 dvd unat (sz h q)"
  defines "fs \<equiv> map (block_of h) as @ (unat (off h n), unat (sz h n) + unat (sz h q), True) # map (block_of h) bs"
  shows "laid_out 0 fs (unat (capacity (diagnostics h)))"
    "used_bytes fs = unat (allocated (diagnostics h)) + unat (sz h q)"
proof -
  have dvd: "256 dvd unat (sz h n) + unat (sz h q)"
    using heap_inv_block(3)[OF inv, of n] us by simp
  have "laid_out 0 (map (block_of h) as @ [(unat (off h n), unat (sz h n) + unat (sz h q), False)] @ map (block_of h) bs)
      (unat (capacity (diagnostics h)))"
    using joined_layout[of h as n "[q]" bs bl] inv by (simp add: block_of_def[of h n] block_of_def[of h q])
  then have "laid_out 0 (map (block_of h) as @ [(unat (off h n), unat (sz h n) + unat (sz h q), True)] @ map (block_of h) bs)
      (unat (capacity (diagnostics h)))"
    by (rule laid_out_replace) (use dvd in simp)
  then show "laid_out 0 fs (unat (capacity (diagnostics h)))"
    by (simp add: fs_def)
  show "used_bytes fs = unat (allocated (diagnostics h)) + unat (sz h q)"
    using heap_invD(9)[OF inv] us by (simp add: fs_def block_of_def[of h n] block_of_def[of h q])
qed

text \<open>A used fragment that takes over the free fragment behind it.\<close>

lemma take_over_correct:
  assumes inv: "heap_inv h (as @ n # q # bs) bl" and us: "us h n" "\<not> us h q"
    and ab: "absorb q h0 = (nx h q, h1)" "binned h1 {y \<in> set (as @ bs). \<not> us h y} bl1"
    and f1: "nx h1 = nx h" "pv h1 = pv h" "off h1 = off h" "us h1 = us h" "sz h1 = (sz h)(q := 0)"
      "hashes h1 = (hashes h)(off h q := None)" "heap_base h1 = heap_base h" "fresh h1 = fresh h"
    and s: "unat (ucast v :: u32) = unat (sz h n) + unat (sz h q)" "256 dvd unat (sz h q)"
    and d: "capacity (f (diagnostics h1)) = capacity (diagnostics h)"
      "unat (allocated (f (diagnostics h1))) = unat (allocated (diagnostics h)) + unat (sz h q)"
  shows "heap_rep (heap_base h) (unat (capacity (diagnostics h)))
    (diag f (upd n (f_size_update (\<lambda>_. ucast v)) (link_past n (head_or None bs) h1)))
    (map (block_of h) as @ (unat (off h n), unat (sz h n) + unat (sz h q), True) # map (block_of h) bs)"
proof -
  let ?ns = "as @ n # bs"
  define h' where "h' = upd n (f_size_update (\<lambda>_. ucast v)) (link_past n (head_or None bs) h1)"
  note D = heap_invD[OF inv]
  have dist: "n \<noteq> q" "n \<notin> set (as @ bs)" "q \<notin> set (as @ bs)"
    using D(1) by auto
  have e: "nx h' = (nx h)(n := head_or None bs)" "pv h' = upd_at (head_or None bs) (Some n) (pv h)"
    "nf h' = nf h1" "pf h' = pf h1"
    "off h' = off h" "us h' = us h" "sz h' = (sz h)(q := 0, n := ucast v)"
    "hashes h' = (hashes h)(off h q := None)" "diagnostics h' = diagnostics h1"
    "heap_base h' = heap_base h" "fresh h' = fresh h" "bins h' = bins h1"
    "nonempty_bin_mask h' = nonempty_bin_mask h1"
    unfolding h'_def by (simp_all add: size_fields link_past_effect f1)
  have F: "{y \<in> set ?ns. \<not> us h' y} = {y \<in> set (as @ bs). \<not> us h y}"
    using us(1) by (auto simp: e)
  have b: "binned h' {y \<in> set (as @ bs). \<not> us h y} bl1"
    using ab(2) by (rule binned_cong) (use dist in \<open>auto simp: e f1\<close>)
  have "dll (nx h') (pv h') None ?ns None"
    unfolding e using dll_skip[of "nx h" "pv h" None as n "[q]" bs] D(1,3) by simp
  then have ch: "chain h' ?ns"
    using D(1,2) by (auto simp: chain_def e(11))
  have ix: "indexed h' ?ns"
    unfolding indexed_def e
  proof (intro conjI ballI allI impI)
    fix y assume y: "y \<in> set ?ns" "us h y"
    then have "off h y \<noteq> off h q"
      using heap_off_inj[OF inv, of y q] us(2) by auto
    then show "((hashes h)(off h q := None)) (off h y) = Some y"
      using D(5)[of y] y by auto
  next
    fix k y assume "((hashes h)(off h q := None)) k = Some y"
    then have "hashes h k = Some y"
      by (simp split: if_splits)
    from D(6)[OF this] show "y < fresh h" "off h y = k" "us h y \<Longrightarrow> y \<in> set ?ns"
      using us(2) by auto
  qed
  have bk: "map (block_of h') ?ns =
      map (block_of h) as @ (unat (off h n), unat (sz h n) + unat (sz h q), True) # map (block_of h) bs"
  proof -
    have "map (block_of h') (as @ bs) = map (block_of h) (as @ bs)"
      using dist by (intro block_of_cong) (auto simp: e)
    then show ?thesis
      using us(1) s(1) by (simp add: block_of_def[of h' n] e)
  qed
  note lay = take_over_layout[OF inv us s(2)]
  show ?thesis
    using heap_rep_diag[OF ch b[folded F] ix bk lay(1) D(8), of f] lay(2) d by (simp add: e h'_def[symmetric])
qed

subsection \<open>Resizing in place\<close>

definition free_behind :: "blocks \<Rightarrow> nat" where
  "free_behind cs = (case cs of (b, t, False) # _ \<Rightarrow> t | _ \<Rightarrow> 0)"

definition past_free :: "blocks \<Rightarrow> blocks" where
  "past_free cs = (case cs of (b, t, False) # ds \<Rightarrow> ds | _ \<Rightarrow> cs)"

definition resize_block :: "nat \<Rightarrow> nat \<Rightarrow> nat \<Rightarrow> blocks \<Rightarrow> blocks" where
  "resize_block f a s cs =
     (if f \<le> s \<and> s - f < 256 then (a, s, True) # cs
      else
        let left = s + free_behind cs - f
        in if 256 \<le> left then (a, f, True) # (a + f, left, False) # past_free cs
           else (a, s + free_behind cs, True) # past_free cs)"

lemma resize_block_shrink:
  "f + 256 \<le> s \<Longrightarrow>
    resize_block f a s cs = (a, f, True) # (a + f, s - f + free_behind cs, False) # past_free cs"
  by (auto simp: resize_block_def Let_def)

lemma diag_id [simp]: "diag (\<lambda>d. d) h = h"
  by (simp add: diag_def)

lemma next_free_iff: "nx h n = head_or None bs \<Longrightarrow> free_at (nx h n) h \<longleftrightarrow> free_head h bs"
  by (cases bs) (simp_all add: free_at_def free_head_def fold_fields)

lemma behind_head:
  "free_head h bs \<Longrightarrow> free_behind (map (block_of h) bs) = unat (sz h (hd bs)) \<and> past_free (map (block_of h) bs) = map (block_of h) (tl bs)"
  "\<not> free_head h bs \<Longrightarrow> free_behind (map (block_of h) bs) = 0 \<and> past_free (map (block_of h) bs) = map (block_of h) bs"
  by (cases bs; auto simp: free_head_def free_behind_def past_free_def block_of_def)+

lemma size_at_next:
  "nx h n = head_or None (q # cs) \<Longrightarrow> size_at (nx h n) h = ucast (sz h q)"
  by (simp add: size_at_def fold_fields)

lemma hash_removed:
  assumes inv: "heap_inv h (as @ n # q # cs) bl" and us: "\<not> us h q"
  shows "((hashes h)(off h q := None)) k = Some y \<Longrightarrow> hashes h k = Some y"
    "y \<in> set (as @ n # cs) \<Longrightarrow> us h y \<Longrightarrow> ((hashes h)(off h q := None)) (off h y) = Some y"
proof -
  show "((hashes h)(off h q := None)) k = Some y \<Longrightarrow> hashes h k = Some y"
    by (simp split: if_splits)
  assume y: "y \<in> set (as @ n # cs)" "us h y"
  then have "off h y \<noteq> off h q"
    using heap_off_inj[OF inv, of y q] us by auto
  then show "((hashes h)(off h q := None)) (off h y) = Some y"
    using heap_invD(5)[OF inv, of y] y by auto
qed

text \<open>Shrinking.\<close>

definition give_back :: "usize \<Rightarrow> o1heap \<Rightarrow> o1heap" where
  "give_back left = diag (\<lambda>d. d\<lparr>allocated := allocated d - left\<rparr>)"

lemma give_back_effect [simp]:
  "nx (give_back v h) = nx h" "pv (give_back v h) = pv h" "nf (give_back v h) = nf h"
  "pf (give_back v h) = pf h" "off (give_back v h) = off h" "sz (give_back v h) = sz h"
  "us (give_back v h) = us h" "bins (give_back v h) = bins h" "hashes (give_back v h) = hashes h"
  "nonempty_bin_mask (give_back v h) = nonempty_bin_mask h"
  "capacity (diagnostics (give_back v h)) = capacity (diagnostics h)"
  "allocated (diagnostics (give_back v h)) = allocated (diagnostics h) - v"
  "heap_base (give_back v h) = heap_base h" "fresh (give_back v h) = fresh h"
  by (simp_all add: give_back_def)

lemma give_back_binned: "binned h F bl \<Longrightarrow> binned (give_back v h) F bl"
  by (rule binned_cong) simp_all

lemma shrink_sizes:
  assumes inv: "heap_inv h (as @ n # bs) bl" "us h n" and fs: "unat fs + 256 \<le> unat (sz h n)"
  defines "left \<equiv> ucast (sz h n) - fs"
  shows "unat left = unat (sz h n) - unat fs" "FRAGMENT_SIZE_MIN \<le> left" "\<not> allocated (diagnostics h) < left"
    "unat (allocated (diagnostics h) - left) + unat (sz h n) = unat (allocated (diagnostics h)) + unat fs"
proof -
  show left: "unat left = unat (sz h n) - unat fs"
    using fs by (simp add: left_def unat_sub word_le_nat_alt)
  have al: "unat left \<le> unat (allocated (diagnostics h))"
    using freed_allocated(1)[OF inv(1) _ inv(2)] left by simp
  then show "FRAGMENT_SIZE_MIN \<le> left" "\<not> allocated (diagnostics h) < left"
    using left fs by (simp_all add: word_le_nat_alt word_less_nat_alt FRAGMENT_SIZE_MIN_def)
  show "unat (allocated (diagnostics h) - left) + unat (sz h n) = unat (allocated (diagnostics h)) + unat fs"
    using al left fs by (simp add: unat_sub word_le_nat_alt)
qed

lemma shrink_keeps_next:
  assumes inv: "heap_inv h (as @ n # bs) bl" "us h n" "\<not> free_head h bs"
    and fs: "unat fs + 256 \<le> unat (sz h n)" "256 \<le> unat fs" "256 dvd unat fs"
  shows "\<exists>h'. shrink_fragment n (off h n) address (ucast (sz h n)) fs h
      = Ret (Some \<lparr>new_addr = address, copy_size = 0\<rparr>, h')
    \<and> heap_rep (heap_base h) (unat (capacity (diagnostics h))) h' (map (block_of h) as @
      (unat (off h n), unat fs, True) # (unat (off h n) + unat fs, unat (sz h n) - unat fs, False) # map (block_of h) bs)"
proof -
  note D = heap_invD[OF inv(1)]
  note s = shrink_sizes[OF inv(1,2) fs(1)]
  let ?left = "ucast (sz h n) - fs"
  have nxt: "nx h n = head_or None bs"
    using D(3) by simp
  have F: "{y \<in> set (as @ n # bs). \<not> us h y} = {y \<in> set (as @ bs). \<not> us h y}"
    using inv(2) by auto
  have "shrink_fragment n (off h n) address (ucast (sz h n)) fs h = Ret (Some \<lparr>new_addr = address, copy_size = 0\<rparr>,
      cut_fragment n (head_or None bs) (off h n) fs ?left (give_back ?left h))"
    using s(2,3) inv(3) nxt next_free_iff[OF nxt]
    by (simp add: shrink_fragment_def Let_def fold_fields give_back_def)
  moreover have "heap_rep (heap_base h) (unat (capacity (diagnostics h)))
    (diag (\<lambda>d. d) (cut_fragment n (head_or None bs) (off h n) fs ?left (give_back ?left h)))
    (map (block_of h) as @ (unat (off h n), unat fs, True) # (unat (off h n) + unat fs, unat ?left, False) # map (block_of h) bs)"
  proof (rule cut_correct[where ms = "[]"])
    show "binned (give_back ?left h) {y \<in> set (as @ bs). \<not> us h y} bl"
      using give_back_binned[OF D(4)] unfolding F .
    show "hashes (give_back ?left h) (off h y) = Some y" if "y \<in> set (as @ n # bs)" "us h y" for y
      using D(5)[OF that] by simp
  qed (use inv fs s in \<open>simp_all add: block_of_def[of h n]\<close>)
  ultimately show ?thesis
    using s(1) by simp
qed

lemma shrink_joins_next:
  assumes inv: "heap_inv h (as @ n # q # cs) bl" "us h n" "\<not> us h q"
    and fs: "unat fs + 256 \<le> unat (sz h n)" "256 \<le> unat fs" "256 dvd unat fs"
  shows "\<exists>h'. shrink_fragment n (off h n) address (ucast (sz h n)) fs h
      = Ret (Some \<lparr>new_addr = address, copy_size = 0\<rparr>, h')
    \<and> heap_rep (heap_base h) (unat (capacity (diagnostics h))) h' (map (block_of h) as @ (unat (off h n), unat fs, True)
      # (unat (off h n) + unat fs, unat (sz h n) - unat fs + unat (sz h q), False) # map (block_of h) cs)"
proof -
  note D = heap_invD[OF inv(1)]
  note s = shrink_sizes[OF inv(1,2) fs(1)]
  let ?left = "ucast (sz h n) - fs" and ?F = "{y \<in> set (as @ n # q # cs). \<not> us h y}"
  have links: "nx h n = Some q" "nx h q = head_or None cs"
    using D(3) by simp_all
  have F: "?F - {q} = {y \<in> set (as @ cs). \<not> us h y}" "q \<in> ?F"
    using D(1) inv by auto
  obtain h1 bl1 where ab: "absorb q (give_back ?left h) = (head_or None cs, h1)" "binned h1 (?F - {q}) bl1"
    "nx h1 = nx h" "pv h1 = pv h" "off h1 = off h" "us h1 = us h" "sz h1 = (sz h)(q := 0)"
    "hashes h1 = (hashes h)(off h q := None)" "diagnostics h1 = diagnostics (give_back ?left h)"
    "heap_base h1 = heap_base h" "fresh h1 = fresh h"
    by (rule absorb_effect[OF give_back_binned[OF D(4)] F(2)]) (simp add: links)
  define rest where "rest = ?left + ucast (sz h q)"
  have "block_bytes (map (block_of h) [n, q]) < 2 ^ 32"
    using adjacent_sizes[of h as "[n, q]" cs bl] inv(1) by simp
  then have rest: "unat rest = unat (sz h n) - unat fs + unat (sz h q)"
    using s(1) by (simp add: rest_def unat_word_ariths block_of_def)
  have "shrink_fragment n (off h n) address (ucast (sz h n)) fs h = Ret (Some \<lparr>new_addr = address, copy_size = 0\<rparr>,
      cut_fragment n (head_or None cs) (off h n) fs rest h1)"
    using s(2,3) inv(3) ab(1)
    by (simp add: shrink_fragment_def Let_def fold_fields links free_at_def size_at_def rest_def give_back_def)
  moreover have "heap_rep (heap_base h) (unat (capacity (diagnostics h)))
    (diag (\<lambda>d. d) (cut_fragment n (head_or None cs) (off h n) fs rest h1))
    (map (block_of h) as @ (unat (off h n), unat fs, True) # (unat (off h n) + unat fs, unat rest, False) # map (block_of h) cs)"
  proof (rule cut_correct[where ms = "[q]"])
    show "binned h1 {y \<in> set (as @ cs). \<not> us h y} bl1"
      using ab(2) unfolding F .
    show "sz h1 y = sz h y" if "y \<in> set (as @ cs)" for y
      using that D(1) by (auto simp: ab)
  qed (use inv fs s rest hash_removed[OF inv(1,3)] in \<open>simp_all add: ab block_of_def[of h n] block_of_def[of h q]\<close>)
  ultimately show ?thesis
    using rest by simp
qed

text \<open>Growing forward.\<close>

definition grown :: "usize \<Rightarrow> o1heap_diagnostics \<Rightarrow> o1heap_diagnostics" where
  "grown v d = d\<lparr>allocated := allocated d + v, peak_allocated := max (peak_allocated d) (allocated d + v)\<rparr>"

lemma note_peak_grown: "note_peak (diag (\<lambda>d. d\<lparr>allocated := allocated d + v\<rparr>) h) = diag (grown v) h"
  by (simp add: note_peak_def diag_def grown_def)

lemma grown_fields [simp]:
  "capacity (grown v d) = capacity d" "allocated (grown v d) = allocated d + v"
  by (simp_all add: grown_def)

lemma grow_sizes:
  assumes inv: "heap_inv h (as @ n # q # cs) bl" "us h n" "\<not> us h q"
    and fs: "unat (sz h n) < unat fs" "unat fs \<le> unat (sz h n) + unat (sz h q)"
  defines "whole \<equiv> ucast (sz h n) + ucast (sz h q) :: usize"
  shows "unat whole = unat (sz h n) + unat (sz h q)" "unat (ucast whole :: u32) = unat (sz h n) + unat (sz h q)"
    "unat (whole - fs) = unat (sz h n) + unat (sz h q) - unat fs"
    "unat (allocated (diagnostics h) + (fs - ucast (sz h n))) + unat (sz h n) = unat (allocated (diagnostics h)) + unat fs"
    "unat (allocated (diagnostics h) + ucast (sz h q)) = unat (allocated (diagnostics h)) + unat (sz h q)"
proof -
  have small: "unat (sz h n) + unat (sz h q) < 2 ^ 32"
    using adjacent_sizes[of h as "[n, q]" cs bl] inv(1) by (simp add: block_of_def)
  then show whole: "unat whole = unat (sz h n) + unat (sz h q)"
    by (simp add: whole_def unat_word_ariths)
  with small show "unat (ucast whole :: u32) = unat (sz h n) + unat (sz h q)"
    by (simp add: unat_ucast_fit)
  show "unat (whole - fs) = unat (sz h n) + unat (sz h q) - unat fs"
    using whole fs(2) by (simp add: unat_sub word_le_nat_alt)
  have al: "unat (allocated (diagnostics h)) < 2 ^ 32"
    using heap_invD(7,8,9)[OF inv(1)] laid_out_bounds by fastforce
  have "unat (fs - ucast (sz h n)) = unat fs - unat (sz h n)"
    using fs(1) by (simp add: unat_sub word_le_nat_alt)
  with al small fs show "unat (allocated (diagnostics h) + (fs - ucast (sz h n))) + unat (sz h n)
      = unat (allocated (diagnostics h)) + unat fs"
    by (simp add: unat_word_ariths)
  show "unat (allocated (diagnostics h) + ucast (sz h q)) = unat (allocated (diagnostics h)) + unat (sz h q)"
    using al unat_u32_less[of "sz h q"] by (simp add: unat_word_ariths)
qed

lemma grow_forward_correct:
  assumes inv: "heap_inv h (as @ n # q # cs) bl" "us h n" "\<not> us h q"
    and fs: "unat (sz h n) < unat fs" "unat fs \<le> unat (sz h n) + unat (sz h q)" "256 \<le> unat fs" "256 dvd unat fs"
    and whole: "256 dvd unat (sz h q)"
  defines "left \<equiv> unat (sz h n) + unat (sz h q) - unat fs"
  shows "\<exists>h'. grow_forward n q (off h n) address (ucast (sz h n)) fs h
      = (Some \<lparr>new_addr = address, copy_size = 0\<rparr>, h')
    \<and> heap_rep (heap_base h) (unat (capacity (diagnostics h))) h' (map (block_of h) as @
      (if 256 \<le> left then [(unat (off h n), unat fs, True), (unat (off h n) + unat fs, left, False)]
       else [(unat (off h n), unat (sz h n) + unat (sz h q), True)]) @ map (block_of h) cs)"
proof -
  note D = heap_invD[OF inv(1)]
  note s = grow_sizes[OF inv fs(1,2)]
  let ?total = "ucast (sz h n) + ucast (sz h q) :: usize" and ?F = "{y \<in> set (as @ n # q # cs). \<not> us h y}"
  have links: "nx h n = Some q" "nx h q = head_or None cs"
    using D(3) by simp_all
  have F: "?F - {q} = {y \<in> set (as @ cs). \<not> us h y}" "q \<in> ?F"
    using D(1) inv by auto
  obtain h1 bl1 where ab: "absorb q h = (nx h q, h1)" "binned h1 (?F - {q}) bl1"
    "nx h1 = nx h" "pv h1 = pv h" "off h1 = off h" "us h1 = us h" "sz h1 = (sz h)(q := 0)"
    "hashes h1 = (hashes h)(off h q := None)" "diagnostics h1 = diagnostics h"
    "heap_base h1 = heap_base h" "fresh h1 = fresh h"
    by (rule absorb_effect[OF D(4) F(2)])
  have b1: "binned h1 {y \<in> set (as @ cs). \<not> us h y} bl1"
    using ab(2) unfolding F .
  show ?thesis
  proof (cases "256 \<le> left")
    case True
    then have "FRAGMENT_SIZE_MIN \<le> ?total - fs"
      using s(3) by (simp add: word_le_nat_alt FRAGMENT_SIZE_MIN_def left_def)
    then have "grow_forward n q (off h n) address (ucast (sz h n)) fs h = (Some \<lparr>new_addr = address, copy_size = 0\<rparr>,
        diag (grown (fs - ucast (sz h n))) (cut_fragment n (head_or None cs) (off h n) fs (?total - fs) h1))"
      by (simp add: grow_forward_def Let_def fold_fields ab(1) links note_peak_grown)
    moreover have "heap_rep (heap_base h) (unat (capacity (diagnostics h)))
      (diag (grown (fs - ucast (sz h n))) (cut_fragment n (head_or None cs) (off h n) fs (?total - fs) h1))
      (map (block_of h) as @ (unat (off h n), unat fs, True) # (unat (off h n) + unat fs, unat (?total - fs), False) # map (block_of h) cs)"
    proof (rule cut_correct[where ms = "[q]"])
      show "sz h1 y = sz h y" if "y \<in> set (as @ cs)" for y
        using that D(1) by (auto simp: ab)
    qed (use inv fs s True hash_removed[OF inv(1,3)] b1 in
        \<open>simp_all add: ab left_def block_of_def[of h n] block_of_def[of h q]\<close>)
    ultimately show ?thesis
      using True s(3) by (simp add: left_def)
  next
    case False
    then have "\<not> FRAGMENT_SIZE_MIN \<le> ?total - fs"
      using s(3) by (simp add: word_le_nat_alt FRAGMENT_SIZE_MIN_def left_def)
    then have "grow_forward n q (off h n) address (ucast (sz h n)) fs h = (Some \<lparr>new_addr = address, copy_size = 0\<rparr>,
        diag (grown (ucast (sz h q))) (upd n (f_size_update (\<lambda>_. ucast ?total)) (link_past n (head_or None cs) h1)))"
      by (simp add: grow_forward_def Let_def fold_fields ab(1) links note_peak_grown)
    moreover note take_over_correct[OF inv ab(1) b1 ab(3-8,10,11) s(2) whole, of "grown (ucast (sz h q))"]
    ultimately show ?thesis
      using False s(5) by (simp add: ab(9))
  qed
qed

subsection \<open>The guards of \<open>reallocate\<close>\<close>

lemma fragment_bytes_dvd:
  assumes "amount \<noteq> 0" "fragment_bytes amount \<noteq> 0"
  shows "256 \<le> fragment_bytes amount" "256 dvd fragment_bytes amount" "unat amount \<le> fragment_bytes amount"
proof -
  have "256 \<le> fragment_bytes amount \<and> 256 dvd fragment_bytes amount \<and> unat amount \<le> fragment_bytes amount"
  proof (rule fragment_size_cases[OF assms(1) refl])
    assume "clamp_fragment (round_up_to_power_of_2 amount) = 0"
    then show ?thesis
      using assms(2) by (simp add: fragment_bytes_def)
  qed (simp add: fragment_bytes_def)
  then show "256 \<le> fragment_bytes amount" "256 dvd fragment_bytes amount" "unat amount \<le> fragment_bytes amount"
    by simp_all
qed

definition requested :: "usize \<Rightarrow> o1heap \<Rightarrow> o1heap" where
  "requested amount = diag (\<lambda>d. d\<lparr>peak_request_size := max (peak_request_size d) amount\<rparr>)"

lemma reallocate_resizes:
  assumes inv: "heap_inv h (as @ n # bs) bl" "us h n"
    and addr: "heap_base h \<le> address" "unat (address - heap_base h) = unat (off h n)"
    and am: "amount \<noteq> 0" "fragment_bytes amount \<noteq> 0" "fragment_bytes amount \<le> unat (capacity (diagnostics h))"
  shows "reallocate address amount h =
    resize_fragment n (off h n) address amount (ucast (sz h n)) (clamp_fragment (round_up_to_power_of_2 amount))
      (requested amount h)"
proof -
  have o: "ucast (address - heap_base h) = off h n"
    using addr(2) unat_u32_less[of "off h n"] by (intro word_unat_eq_iff[THEN iffD2]) (simp add: unat_ucast_fit)
  have "hashes h (off h n) = Some n"
    using heap_invD(5)[OF inv(1) _ inv(2)] by simp
  moreover note b = heap_inv_block[OF inv(1), of n]
  have "\<not> ucast (sz h n) < FRAGMENT_SIZE_MIN" "\<not> capacity (diagnostics h) < ucast (sz h n)"
    using b(1,2) by (simp_all add: word_less_nat_alt FRAGMENT_SIZE_MIN_def)
  moreover have "ucast (sz h n) mod FRAGMENT_SIZE_MIN = 0"
  proof -
    have "unat (ucast (sz h n) mod FRAGMENT_SIZE_MIN) = 0"
      using b(3) inv(2) by (simp add: unat_mod FRAGMENT_SIZE_MIN_def)
    then show ?thesis
      by (simp only: unat_eq_zero)
  qed
  moreover have "\<not> 0xFFFFFFFF < address - heap_base h"
    using addr(2) unat_u32_less[of "off h n"] by (simp add: word_less_nat_alt)
  moreover have "\<not> capacity (diagnostics h) < amount"
    using fragment_bytes_dvd(3)[OF am(1,2)] am(3) by (simp add: word_less_nat_alt)
  moreover have "clamp_fragment (round_up_to_power_of_2 amount) \<noteq> 0"
    "\<not> capacity (diagnostics h) < clamp_fragment (round_up_to_power_of_2 amount)"
    using am(2,3) by (auto simp: fragment_bytes_def word_less_nat_alt)
  ultimately show ?thesis
    using am(1) inv(2) leD[OF addr(1)]
    by (simp add: reallocate_def requested_def Let_def find_fragment_by_offset_def fold_fields o)
qed

lemma requested_inv:
  assumes "heap_inv h ns bl"
  shows "heap_inv (requested amount h) ns bl" "map (block_of (requested amount h)) ns = map (block_of h) ns"
    "sz (requested amount h) = sz h" "off (requested amount h) = off h" "us (requested amount h) = us h"
    "nx (requested amount h) = nx h" "pv (requested amount h) = pv h" "hashes (requested amount h) = hashes h"
    "heap_base (requested amount h) = heap_base h" "fresh (requested amount h) = fresh h"
    "capacity (diagnostics (requested amount h)) = capacity (diagnostics h)"
  using heap_inv_diag[OF assms, of "\<lambda>d. d\<lparr>peak_request_size := max (peak_request_size d) amount\<rparr>"]
  by (simp_all add: requested_def)

lemma resize_in_place:
  assumes inv: "heap_inv h (as @ n # bs) bl" "us h n"
    and fs: "256 \<le> unat fs" "256 dvd unat fs"
    and fit: "unat fs \<le> unat (sz h n) + free_behind (map (block_of h) bs)" "256 dvd free_behind (map (block_of h) bs)"
  shows "\<exists>h'. resize_fragment n (off h n) address amount (ucast (sz h n)) fs h
      = Ret (Some \<lparr>new_addr = address, copy_size = 0\<rparr>, h')
    \<and> heap_rep (heap_base h) (unat (capacity (diagnostics h))) h' (map (block_of h) as @
        resize_block (unat fs) (unat (off h n)) (unat (sz h n)) (map (block_of h) bs))"
proof (cases "fs \<le> ucast (sz h n)")
  case le: True
  then have le': "unat fs \<le> unat (sz h n)"
    by (simp add: word_le_nat_alt)
  have r: "resize_fragment n (off h n) address amount (ucast (sz h n)) fs h
      = shrink_fragment n (off h n) address (ucast (sz h n)) fs h"
    using le by (simp add: resize_fragment_def)
  show ?thesis
  proof (cases "unat fs + 256 \<le> unat (sz h n)")
    case True
    show ?thesis
    proof (cases "free_head h bs")
      case free: True
      then obtain q cs where bs: "bs = q # cs" "\<not> us h q"
        by (rule free_headE)
      show ?thesis
        using shrink_joins_next[OF inv(1)[unfolded bs] inv(2) bs(2) True fs, of address] behind_head(1)[OF free]
        unfolding r resize_block_shrink[OF True] by (simp add: bs)
    next
      case free: False
      show ?thesis
        using shrink_keeps_next[OF inv free True fs, of address] behind_head(2)[OF free]
        unfolding r resize_block_shrink[OF True] by simp
    qed
  next
    case False
    then have small: "unat (sz h n) - unat fs < 256"
      by linarith
    then have "\<not> FRAGMENT_SIZE_MIN \<le> ucast (sz h n) - fs"
      using le' by (simp add: word_le_nat_alt FRAGMENT_SIZE_MIN_def unat_sub le)
    then show ?thesis
      using heap_repI[OF inv(1) refl refl] le' small inv(2)
      by (simp add: r shrink_fragment_def Let_def resize_block_def block_of_def[of h n])
  qed
next
  case False
  then have lt: "unat (sz h n) < unat fs"
    by (simp add: word_le_nat_alt)
  have "free_head h bs"
    using lt fit(1) behind_head(2) by fastforce
  then obtain q cs where bs: "bs = q # cs" "\<not> us h q"
    by (rule free_headE)
  have q: "free_behind (map (block_of h) bs) = unat (sz h q)" "past_free (map (block_of h) bs) = map (block_of h) cs"
    using behind_head(1)[OF \<open>free_head h bs\<close>] by (simp_all add: bs)
  have nxt: "nx h n = Some q"
    using heap_invD(3)[OF inv(1)] by (simp add: bs)
  note s = grow_sizes[OF inv(1)[unfolded bs] inv(2) bs(2) lt fit(1)[unfolded q]]
  have "fs \<le> ucast (sz h n) + ucast (sz h q)"
    using s(1) fit(1) by (simp add: word_le_nat_alt q)
  then have "resize_fragment n (off h n) address amount (ucast (sz h n)) fs h
      = Ret (grow_forward n q (off h n) address (ucast (sz h n)) fs h)"
    using False bs(2) by (simp add: resize_fragment_def Let_def fold_fields nxt free_at_def size_at_def)
  then show ?thesis
    using grow_forward_correct[OF inv(1)[unfolded bs] inv(2) bs(2) lt fit(1)[unfolded q] fs fit(2)[unfolded q], of address] lt
    by (auto simp: resize_block_def q Let_def)
qed

text \<open>
C14: \<open>reallocate\<close> resizes in place when it can. For a used block at an address and a request whose rounded
size fits into the block and the free block behind it, it returns the same address, asks for no copy,
and leaves a used block of the rounded size followed by a free block with the rest; a free block
behind the old one joins that rest. The size of that free block is taken to be a multiple of 256, as
it is in an arena whose size is.
\<close>

theorem reallocate_in_place:
  fixes amount :: usize
  assumes rep: "heap_rep base cap h (as @ (a, s, True) # cs)"
    and addr: "base \<le> address" "unat (address - base) = a"
    and am: "amount \<noteq> 0" "fragment_bytes amount \<noteq> 0" "fragment_bytes amount \<le> cap"
    and fit: "fragment_bytes amount \<le> s + free_behind cs" "256 dvd free_behind cs"
  shows "\<exists>h'. reallocate address amount h = Ret (Some \<lparr>new_addr = address, copy_size = 0\<rparr>, h')
    \<and> heap_rep base cap h' (as @ resize_block (fragment_bytes amount) a s cs)"
proof -
  obtain ns bl where inv: "heap_inv h ns bl" and bs: "as @ (a, s, True) # cs = map (block_of h) ns" and
    b: "heap_base h = base" "unat (capacity (diagnostics h)) = cap"
    using rep by (rule heap_repE)
  from bs[symmetric] obtain xs n ys where ns: "ns = xs @ n # ys" "map (block_of h) xs = as"
    "block_of h n = (a, s, True)" "map (block_of h) ys = cs"
    by (rule blocks_split)
  have n: "unat (off h n) = a" "unat (sz h n) = s" "us h n"
    using ns(3) by (simp_all add: block_of_def)
  note inv = inv[unfolded ns(1)]
  note r = requested_inv[OF inv, of amount]
  have blocks: "map (block_of (requested amount h)) xs = as" "map (block_of (requested amount h)) ys = cs"
    using r(2) ns(2,4) by auto
  note fs = fragment_bytes_dvd(1,2)[OF am(1,2), unfolded fragment_bytes_def]
  have "reallocate address amount h = resize_fragment n (off h n) address amount (ucast (sz h n))
      (clamp_fragment (round_up_to_power_of_2 amount)) (requested amount h)"
    using addr am n b by (intro reallocate_resizes[OF inv]) simp_all
  then show ?thesis
    using resize_in_place[OF r(1) _ fs, of address amount] fit n b
    by (simp add: r blocks fragment_bytes_def)
qed

lemma fragment_bytes_1000: "fragment_bytes 1000 = 1024"
  by code_simp

theorem reallocate_in_place_witness:
  "\<exists>h h'. heap_rep 0x1000 0x10000 h [(0, 512, True), (512, 512, True), (1024, 64512, False)]
     \<and> reallocate 0x1200 1000 h = Ret (Some \<lparr>new_addr = 0x1200, copy_size = 0\<rparr>, h')
     \<and> heap_rep 0x1000 0x10000 h' [(0, 512, True), (512, 1024, True), (1536, 64000, False)]"
proof -
  obtain h where h: "heap_rep 0x1000 0x10000 h ([(0, 512, True)] @ (512, 512, True) # [(1024, 64512, False)])"
    by (rule two_allocations) simp
  show ?thesis
    using reallocate_in_place[OF h, of "0x1200" 1000] h
    by (auto simp: fragment_bytes_1000 free_behind_def past_free_def resize_block_def)
qed

subsection \<open>Growing backward\<close>

text \<open>What the growth leaves at the left neighbour \<open>p\<close> and at a used right neighbour \<open>q\<close>.\<close>

lemma grow_backward_effect:
  assumes inv: "heap_inv h (as @ p # n # q # bs) bl" and us: "\<not> us h p" "us h n" "us h q"
    and fs: "unat (sz h p) + unat (sz h n) < unat fs" "unat fs \<le> unat (sz h p) + unat (sz h n) + unat (sz h q)"
    and adj: "unat (off h q) = unat (off h p) + unat (sz h p) + unat (sz h n)"
  shows "\<exists>h'. grow_backward n p (off h n) (ucast (sz h n)) fs h
      = Ret (Some \<lparr>new_addr = heap_base h + ucast (off h p), copy_size = ucast (sz h n)\<rparr>, h')
    \<and> heap_base h' = heap_base h \<and> hashes h' (off h p) = Some p \<and> hashes h' (off h q) = Some q
    \<and> us h' p \<and> us h' q \<and> unat fs \<le> unat (sz h' p) \<and> sz h' q = sz h q"
proof -
  note D = heap_invD[OF inv]
  have dist: "n \<noteq> p" "q \<noteq> p" "n \<noteq> q"
    using D(1) by auto
  have fr: "p < fresh h" "q < fresh h" "n < fresh h"
    using D(2)[of p] D(2)[of q] D(2)[of n] by auto
  have links: "nx h n = Some q"
    using D(3) by simp
  have offs: "off h p \<noteq> off h q" "off h n \<noteq> off h q"
    using heap_off_inj[OF inv, of p q] heap_off_inj[OF inv, of n q] dist by auto
  have hq: "hashes h (off h q) = Some q"
    using D(5)[of q] us(3) by simp
  have small: "unat (sz h p) + (unat (sz h n) + unat (sz h q)) < 2 ^ 32"
    using adjacent_sizes[of h as "[p, n, q]" bs bl] inv by (simp add: block_of_def)
  define v where "v = ucast (sz h p) + ucast (sz h n) + (ucast (sz h q) :: usize)"
  have v: "unat v = unat (sz h p) + unat (sz h n) + unat (sz h q)"
    using small by (simp add: v_def unat_word_ariths)
  have left: "unat (v - fs) = unat v - unat fs"
    using v fs(2) by (simp add: unat_sub word_le_nat_alt)
  define h1 where "h1 = unbin p h"
  have pF: "p \<in> {y \<in> set (as @ p # n # q # bs). \<not> us h y}"
    using us(1) by simp
  obtain bl1 where u: "nx h1 = nx h" "pv h1 = pv h" "off h1 = off h" "sz h1 = sz h" "us h1 = us h"
    "hashes h1 = hashes h" "diagnostics h1 = diagnostics h" "heap_base h1 = heap_base h" "fresh h1 = fresh h"
    unfolding h1_def by (rule unbin_frame[OF D(4) pF])
  define h2 where "h2 = upd p (f_used_update (\<lambda>_. True)) h1"
  have e2: "sz h2 = sz h" "us h2 = (us h)(p := True)" "hashes h2 = hashes h" "heap_base h2 = heap_base h" "fresh h2 = fresh h"
    "off h2 = off h"
    by (simp_all add: h2_def used_fields u)
  define h3 where "h3 = (if FRAGMENT_SIZE_MIN \<le> v - fs
      then diag (\<lambda>d. d\<lparr>allocated := allocated d + (fs - ucast (sz h n))\<rparr>)
        (cut_fragment p (Some q) (off h p) fs (v - fs) h2)
      else diag (\<lambda>d. d\<lparr>allocated := allocated d + (ucast (sz h p) + ucast (sz h q))\<rparr>)
        (upd p (f_size_update (\<lambda>_. ucast v)) (link_past p (Some q) h2)))"
  have "heap_base h3 = heap_base h \<and> hashes h3 (off h q) = Some q \<and> us h3 p \<and> us h3 q
      \<and> unat fs \<le> unat (sz h3 p) \<and> sz h3 q = sz h q"
  proof (cases "FRAGMENT_SIZE_MIN \<le> v - fs")
    case True
    have "256 \<le> unat (v - fs)" "unat (v - fs) < 2 ^ 32"
      using True small v left by (simp_all add: word_le_nat_alt FRAGMENT_SIZE_MIN_def)
    then have big: "256 \<le> unat (ucast (v - fs) :: u32)"
      by (simp add: unat_ucast_fit)
    have "p < fresh h2"
      using fr(1) e2(5) by simp
    note c = cut_fragment_effect[OF this big, where nn = "Some q" and a = "off h p" and s = fs]
    have fs32: "unat (ucast fs :: u32) = unat fs"
      using fs(2) small by (intro unat_ucast_fit) linarith
    have "unat (off h p + ucast fs) = unat (off h p) + unat fs"
      using heap_inv_block(2)[OF inv, of q] D(8) adj fs(2) by (simp add: unat_word_ariths fs32)
    then have "off h q \<noteq> off h p + ucast fs"
      using adj fs(1) by auto
    then show ?thesis
      using True us dist fr hq by (simp add: h3_def c e2 fs32)
  next
    case False
    have "unat (ucast v :: u32) = unat v"
      using v small by (intro unat_ucast_fit) linarith
    then show ?thesis
      using False us dist hq v fs(2) by (simp add: h3_def size_fields link_past_effect e2)
  qed
  moreover have "grow_backward n p (off h n) (ucast (sz h n)) fs h
      = Ret (Some \<lparr>new_addr = heap_base h3 + ucast (off h p), copy_size = ucast (sz h n)\<rparr>,
        note_peak (hash_insert (off h p) p (hash_remove (off h n) (upd n (f_size_update (\<lambda>_. 0))
          (upd n (f_used_update (\<lambda>_. False)) h3)))))"
    using us by (simp add: grow_backward_def Let_def fold_fields links free_at_def size_at_def h1_def[symmetric] u
        h2_def[symmetric] v_def[symmetric] h3_def)
  ultimately show ?thesis
    using dist offs by (simp add: note_peak_def size_fields used_fields)
qed

lemma allocation_size_at:
  assumes "heap_base h = base" "hashes h k = Some n" "us h n" "unat base + unat k < 2 ^ 64"
  shows "allocation_size (base + ucast k) h = Some (ucast (sz h n))"
proof -
  have "\<not> base + ucast k < base"
    using assms(4) by (simp add: word_less_nat_alt unat_word_ariths)
  moreover have "ucast (ucast k :: u64) = k"
    by (simp add: word_unat_eq_iff unat_ucast_fit unat_u32_less[simplified])
  ultimately show ?thesis
    using assms by (simp add: allocation_size_def Let_def fold_fields)
qed

text \<open>
C17: Growing backward runs over a neighbour that is in use. When the block in front of a used block is
free, the block behind it is used, and the rounded size of the request is more than the two blocks in
front but at most the three blocks together, \<open>reallocate\<close> succeeds and its new allocation contains
the start of the block behind, which stays allocated. The size of the right neighbour is counted
without a test whether it is free.
\<close>

theorem reallocate_overlaps:
  fixes amount :: usize
  assumes rep: "heap_rep base cap h (as @ (a, s, False) # (b, t, True) # (c, u, True) # cs)"
    and adj: "c = a + s + t" and room: "unat base + cap < 2 ^ 64"
    and addr: "base \<le> address" "unat (address - base) = b"
    and am: "amount \<noteq> 0" "fragment_bytes amount \<le> cap"
    and grow: "s + t < fragment_bytes amount" "fragment_bytes amount \<le> s + t + u"
  shows "\<exists>h' x y. reallocate address amount h
      = Ret (Some \<lparr>new_addr = base + of_nat a, copy_size = of_nat t\<rparr>, h')
    \<and> allocation_size (base + of_nat a) h' = Some x \<and> fragment_bytes amount \<le> unat x
    \<and> allocation_size (base + of_nat c) h' = Some y \<and> unat y = u
    \<and> a < c \<and> c < a + fragment_bytes amount"
proof -
  obtain ns bl where inv: "heap_inv h ns bl" and
    bs: "as @ (a, s, False) # (b, t, True) # (c, u, True) # cs = map (block_of h) ns" and
    base: "heap_base h = base" "unat (capacity (diagnostics h)) = cap"
    using rep by (rule heap_repE)
  obtain xs p ps where p: "ns = xs @ p # ps" "block_of h p = (a, s, False)"
    "map (block_of h) ps = (b, t, True) # (c, u, True) # cs"
    using bs[symmetric] by (rule blocks_split)
  then obtain n q qs where ps: "ps = n # q # qs" "block_of h n = (b, t, True)" "block_of h q = (c, u, True)"
    by (auto simp: map_eq_Cons_conv)
  have f: "unat (off h p) = a" "unat (sz h p) = s" "\<not> us h p" "unat (off h n) = b" "unat (sz h n) = t" "us h n"
    "unat (off h q) = c" "unat (sz h q) = u" "us h q"
    using p(2) ps(2,3) by (simp_all add: block_of_def)
  note inv' = inv[unfolded p(1) ps(1)]
  note r = requested_inv[OF inv', of amount]
  let ?fs = "clamp_fragment (round_up_to_power_of_2 amount)" and ?h = "requested amount h"
  have fs: "unat ?fs = fragment_bytes amount"
    by (simp add: fragment_bytes_def)
  have links: "pv h n = Some p" "nx h n = Some q"
    using heap_invD(3)[OF inv'] by simp_all
  have "reallocate address amount h = resize_fragment n (off h n) address amount (ucast (sz h n)) ?fs ?h"
    using reallocate_resizes[of h "xs @ [p]" n "q # qs" bl address amount] inv' addr am grow f base by simp
  also have "\<dots> = grow_backward n p (off h n) (ucast (sz h n)) ?fs ?h"
  proof -
    have "\<not> ?fs \<le> ucast (sz h n)" "?fs \<le> ucast (sz h p) + ucast (sz h n) + ucast (sz h q)"
      using grow f fs adjacent_sizes[of h xs "[p, n, q]" qs bl] inv'
      by (simp_all add: word_le_nat_alt unat_word_ariths block_of_def)
    then show ?thesis
      using f by (simp add: resize_fragment_def Let_def fold_fields r links free_at_def size_at_def)
  qed
  finally have eq: "reallocate address amount h = grow_backward n p (off h n) (ucast (sz h n)) ?fs ?h" .
  obtain h' where h': "reallocate address amount h
      = Ret (Some \<lparr>new_addr = base + ucast (off h p), copy_size = ucast (sz h n)\<rparr>, h')"
    "heap_base h' = base" "hashes h' (off h p) = Some p" "hashes h' (off h q) = Some q"
    "us h' p" "us h' q" "fragment_bytes amount \<le> unat (sz h' p)" "sz h' q = sz h q"
    using grow_backward_effect[OF r(1), of ?fs] f grow adj base unfolding eq by (auto simp: r fs)
  have "allocation_size (base + ucast (off h p)) h' = Some (ucast (sz h' p))"
    "allocation_size (base + ucast (off h q)) h' = Some (ucast (sz h' q))"
    using heap_inv_block(2)[OF inv', of p] heap_inv_block(2)[OF inv', of q] room base
    by (intro allocation_size_at[OF h'(2)]; simp add: h')+
  moreover have "a < c" "c < a + fragment_bytes amount"
    using adj grow heap_inv_block(1)[OF inv', of p] f by simp_all
  moreover have "of_nat a = (ucast (off h p) :: u64)" "of_nat c = (ucast (off h q) :: u64)" "of_nat t = (ucast (sz h n) :: u64)"
    by (simp_all add: unsigned_def flip: f(1,5,7))
  ultimately show ?thesis
    using h' f by simp
qed

text \<open>A reachable heap in which the second of three allocations has a free block in front.\<close>

lemma hole_in_front:
  obtains h where "heap_reachable 1024 0x1000 0x10000 h"
    "heap_rep 0x1000 0x10000 h [(0, 512, False), (512, 512, True), (1024, 1024, True), (2048, 63488, False)]"
proof -
  obtain h0 where h0: "heap_reachable 1024 0x1000 0x10000 h0"
    "heap_rep 0x1000 0x10000 h0 [(0, 512, True), (512, 512, True), (1024, 64512, False)]"
    by (rule two_allocations)
  have "can_allocate 1000 0x10000 [(0, 512, True), (512, 512, True), (1024, 64512, False)]"
    by (simp add: can_allocate_def fragment_bytes_1000)
  then obtain as a s cs h1 where
    "[(0, 512, True), (512, 512, True), (1024, 64512, False)] = as @ (a, s, False) # cs"
    "allocate 1000 h0 = Ret (Some (of_nat a + 0x1000), h1)"
    "heap_rep 0x1000 0x10000 h1 (as @ cut_block 1024 (a, s, False) @ cs)"
    using allocate_refines[OF h0(2), of 1000] unfolding fragment_bytes_1000 by auto
  then have h1: "allocate 1000 h0 = Ret (Some 0x1400, h1)"
    "heap_rep 0x1000 0x10000 h1 [(0, 512, True), (512, 512, True), (1024, 1024, True), (2048, 63488, False)]"
    by (auto simp: Cons_eq_append_conv cut_block_def)
  have "\<exists>h2. heap_free 0x1000 h1 = Ret h2 \<and> heap_rep 0x1000 0x10000 h2
      (release_block [] 0 512 [(512, 512, True), (1024, 1024, True), (2048, 63488, False)])"
    using heap_free_refines[OF h1(2), of "0x1000", THEN conjunct1, rule_format, of "[]"] by simp
  then show thesis
    using that h0(1) h1(1) by (auto simp: release_block_simps) (meson heap_step.intros heap_reachable.intros)
qed

lemma fragment_bytes_2000: "fragment_bytes 2000 = 2048"
  by code_simp

theorem reallocate_overlaps_witness:
  "\<exists>h h' x y. heap_reachable 1024 0x1000 0x10000 h
     \<and> reallocate 0x1200 2000 h = Ret (Some \<lparr>new_addr = 0x1000, copy_size = 512\<rparr>, h')
     \<and> allocation_size 0x1000 h' = Some x \<and> 2048 \<le> unat x
     \<and> allocation_size 0x1400 h' = Some y \<and> unat y = 1024"
proof -
  obtain h where h: "heap_reachable 1024 0x1000 0x10000 h"
    "heap_rep 0x1000 0x10000 h ([] @ (0, 512, False) # (512, 512, True) # (1024, 1024, True) # [(2048, 63488, False)])"
    by (rule hole_in_front) simp
  show ?thesis
    using reallocate_overlaps[OF h(2), of "0x1200" 2000] h(1) by (auto simp: fragment_bytes_2000)
qed

end
