(* ===== verification/Regs_X86.thy ===== *)
theory Regs_X86
  imports Mwemu_Prelude
begin

section \<open>The x86 register file\<close>

text \<open>
  A model of \<^verbatim>\<open>crates/libmwemu/src/arch/x86/regs.rs\<close>: the registers, access by decoded register and by
  name. The accessors that the macro \<open>define_reg_accessors\<close> generates, such as \<open>get_eax\<close> and \<open>set_eax\<close>, are
  one function per width, applied to the register: \<open>get32 EAX\<close> and \<open>set32 EAX\<close>; those of the parts that no
  register of the decoder names (the second bytes and the upper halves of \<open>r8\<close> to \<open>r15\<close>) are left out.

  The general-purpose registers are fields of their own, as in the source. The numbered registers of
  one kind (\<open>dr0\<close> to \<open>dr7\<close>, \<open>cr0\<close> to \<open>cr15\<close>, \<open>tr3\<close> to \<open>tr7\<close>, \<open>xmm0\<close> to \<open>xmm15\<close>, \<open>ymm0\<close> to \<open>ymm15\<close>, \<open>mm0\<close> to
  \<open>mm7\<close>) are one field each, a function of the number. \<open>U256\<close> is its array of four limbs.

  \<open>Register\<close> is the enumeration of the decoder, grouped by kind; \<open>NoReg\<close> stands for the registers that
  no operation here names. The functions that only print, the textual difference of two register
  files and the random initialisation are not modelled.
\<close>

unbundle bit_operations_syntax

datatype u256 = U256 u64 u64 u64 u64

record regs64 =
  dr :: "nat \<Rightarrow> u64"
  rax :: u64
  rbx :: u64
  rcx :: u64
  rdx :: u64
  rsi :: u64
  rdi :: u64
  rbp :: u64
  rsp :: u64
  rip :: u64
  prev_rip :: u64
  r8 :: u64
  r9 :: u64
  r10 :: u64
  r11 :: u64
  r12 :: u64
  r13 :: u64
  r14 :: u64
  r15 :: u64
  cr :: "nat \<Rightarrow> u64"
  msr :: u64
  tr :: "nat \<Rightarrow> u64"
  xmm :: "nat \<Rightarrow> u128"
  ymm :: "nat \<Rightarrow> u256"
  mm :: "nat \<Rightarrow> u128"
  gs :: u64
  fs :: u64

definition regs64_new :: regs64 where
  "regs64_new =
     \<lparr>dr = (\<lambda>_. 0),
      rax = 0, rbx = 0, rcx = 0, rdx = 0, rsi = 0, rdi = 0, rbp = 0, rsp = 0, rip = 0, prev_rip = 0, r8 = 0, r9 = 0, r10 = 0, r11 = 0, r12 = 0, r13 = 0, r14 = 0, r15 = 0,
      cr = (\<lambda>_. 0), msr = 0, tr = (\<lambda>_. 0),
      xmm = (\<lambda>_. 0), ymm = (\<lambda>_. U256 0 0 0 0), mm = (\<lambda>_. 0), gs = 0, fs = 0\<rparr>"

subsection \<open>Parts of a register\<close>

definition set_reg32 :: "u64 \<Rightarrow> u64 \<Rightarrow> u64" where
  "set_reg32 reg val = val AND 0x00000000ffffffff"

definition set_reg16 :: "u64 \<Rightarrow> u64 \<Rightarrow> u64" where
  "set_reg16 reg val = (reg AND 0xffffffffffff0000) + (val AND 0x000000000000ffff)"

definition set_reg8l :: "u64 \<Rightarrow> u64 \<Rightarrow> u64" where
  "set_reg8l reg val = (reg AND 0xffffffffffffff00) + (val AND 0x00000000000000ff)"

definition set_reg8h :: "u64 \<Rightarrow> u64 \<Rightarrow> u64" where
  "set_reg8h reg val = (reg AND 0xffffffffffff00ff) + push_bit 8 (val AND 0x00000000000000ff)"

definition get_reg32l :: "u64 \<Rightarrow> u64" where
  "get_reg32l reg = reg AND 0x00000000ffffffff"

definition get_reg32h :: "u64 \<Rightarrow> u64" where
  "get_reg32h reg = drop_bit 32 reg"

definition get_reg16 :: "u64 \<Rightarrow> u64" where
  "get_reg16 reg = reg AND 0x000000000000ffff"

definition get_reg8l :: "u64 \<Rightarrow> u64" where
  "get_reg8l reg = reg AND 0x00000000000000ff"

definition get_reg8h :: "u64 \<Rightarrow> u64" where
  "get_reg8h reg = drop_bit 8 (reg AND 0x000000000000ff00)"

subsection \<open>Registers of the decoder\<close>

definition set_ip :: "u64 \<Rightarrow> regs64 \<Rightarrow> regs64" where
  "set_ip val r = r\<lparr>rip := set_reg16 (rip r) val\<rparr>"

datatype reg64 =
  RAX | RBX | RCX | RDX | RSI | RDI | RSP | RBP | RIP | R8 | R9 | R10 | R11 | R12 | R13 | R14 | R15

datatype reg32 =
  EAX | EBX | ECX | EDX | ESI | EDI | ESP | EBP | EIP | R8D | R9D | R10D | R11D | R12D | R13D | R14D
  | R15D

datatype reg16 =
  AX | BX | CX | DX | SI | DI | BP | SP | R8W | R9W | R10W | R11W | R12W | R13W | R14W | R15W

datatype reg8 =
  AH | AL | BH | BL | CH | CL | DH | DL | R8L | R9L | R10L | R11L | R12L | R13L | R14L | R15L | SIL | DIL
  | BPL | SPL

datatype sreg = ES | CS | SS | DS | FS | GS

datatype register = Gpr64 reg64 | Gpr32 reg32 | Gpr16 reg16 | Gpr8 reg8
  | XMM nat | YMM nat | MM nat | ST nat | SREG sreg | DR nat | CR nat | NoReg

primrec get64 :: "reg64 \<Rightarrow> regs64 \<Rightarrow> u64" where
  "get64 RAX r = rax r"
| "get64 RBX r = rbx r"
| "get64 RCX r = rcx r"
| "get64 RDX r = rdx r"
| "get64 RSI r = rsi r"
| "get64 RDI r = rdi r"
| "get64 RSP r = rsp r"
| "get64 RBP r = rbp r"
| "get64 RIP r = rip r"
| "get64 R8 r = r8 r"
| "get64 R9 r = r9 r"
| "get64 R10 r = r10 r"
| "get64 R11 r = r11 r"
| "get64 R12 r = r12 r"
| "get64 R13 r = r13 r"
| "get64 R14 r = r14 r"
| "get64 R15 r = r15 r"

primrec get32 :: "reg32 \<Rightarrow> regs64 \<Rightarrow> u64" where
  "get32 EAX r = get_reg32l (rax r)"
| "get32 EBX r = get_reg32l (rbx r)"
| "get32 ECX r = get_reg32l (rcx r)"
| "get32 EDX r = get_reg32l (rdx r)"
| "get32 ESI r = get_reg32l (rsi r)"
| "get32 EDI r = get_reg32l (rdi r)"
| "get32 ESP r = get_reg32l (rsp r)"
| "get32 EBP r = get_reg32l (rbp r)"
| "get32 EIP r = get_reg32l (rip r)"
| "get32 R8D r = get_reg32l (r8 r)"
| "get32 R9D r = get_reg32l (r9 r)"
| "get32 R10D r = get_reg32l (r10 r)"
| "get32 R11D r = get_reg32l (r11 r)"
| "get32 R12D r = get_reg32l (r12 r)"
| "get32 R13D r = get_reg32l (r13 r)"
| "get32 R14D r = get_reg32l (r14 r)"
| "get32 R15D r = get_reg32l (r15 r)"

primrec get16 :: "reg16 \<Rightarrow> regs64 \<Rightarrow> u64" where
  "get16 AX r = get_reg16 (rax r)"
| "get16 BX r = get_reg16 (rbx r)"
| "get16 CX r = get_reg16 (rcx r)"
| "get16 DX r = get_reg16 (rdx r)"
| "get16 SI r = get_reg16 (rsi r)"
| "get16 DI r = get_reg16 (rdi r)"
| "get16 BP r = get_reg16 (rbp r)"
| "get16 SP r = get_reg16 (rsp r)"
| "get16 R8W r = get_reg16 (r8 r)"
| "get16 R9W r = get_reg16 (r9 r)"
| "get16 R10W r = get_reg16 (r10 r)"
| "get16 R11W r = get_reg16 (r11 r)"
| "get16 R12W r = get_reg16 (r12 r)"
| "get16 R13W r = get_reg16 (r13 r)"
| "get16 R14W r = get_reg16 (r14 r)"
| "get16 R15W r = get_reg16 (r15 r)"

primrec get8 :: "reg8 \<Rightarrow> regs64 \<Rightarrow> u64" where
  "get8 AH r = get_reg8h (rax r)"
| "get8 AL r = get_reg8l (rax r)"
| "get8 BH r = get_reg8h (rbx r)"
| "get8 BL r = get_reg8l (rbx r)"
| "get8 CH r = get_reg8h (rcx r)"
| "get8 CL r = get_reg8l (rcx r)"
| "get8 DH r = get_reg8h (rdx r)"
| "get8 DL r = get_reg8l (rdx r)"
| "get8 R8L r = get_reg8l (r8 r)"
| "get8 R9L r = get_reg8l (r9 r)"
| "get8 R10L r = get_reg8l (r10 r)"
| "get8 R11L r = get_reg8l (r11 r)"
| "get8 R12L r = get_reg8l (r12 r)"
| "get8 R13L r = get_reg8l (r13 r)"
| "get8 R14L r = get_reg8l (r14 r)"
| "get8 R15L r = get_reg8l (r15 r)"
| "get8 SIL r = get_reg8l (rsi r)"
| "get8 DIL r = get_reg8l (rdi r)"
| "get8 BPL r = get_reg8l (rbp r)"
| "get8 SPL r = get_reg8l (rsp r)"

definition get_reg :: "register \<Rightarrow> regs64 \<Rightarrow> u64" where
  "get_reg reg r =
     (case reg of
        Gpr64 x \<Rightarrow> get64 x r
      | Gpr32 x \<Rightarrow> get32 x r
      | Gpr16 x \<Rightarrow> get16 x r
      | Gpr8 x \<Rightarrow> get8 x r
      | ST n \<Rightarrow> if n < 8 then of_nat n else 0
      | _ \<Rightarrow> 0)"

primrec set64 :: "reg64 \<Rightarrow> u64 \<Rightarrow> regs64 \<Rightarrow> regs64" where
  "set64 RAX v r = r\<lparr>rax := v\<rparr>"
| "set64 RBX v r = r\<lparr>rbx := v\<rparr>"
| "set64 RCX v r = r\<lparr>rcx := v\<rparr>"
| "set64 RDX v r = r\<lparr>rdx := v\<rparr>"
| "set64 RSI v r = r\<lparr>rsi := v\<rparr>"
| "set64 RDI v r = r\<lparr>rdi := v\<rparr>"
| "set64 RSP v r = r\<lparr>rsp := v\<rparr>"
| "set64 RBP v r = r\<lparr>rbp := v\<rparr>"
| "set64 RIP v r = r\<lparr>rip := v\<rparr>"
| "set64 R8 v r = r\<lparr>r8 := v\<rparr>"
| "set64 R9 v r = r\<lparr>r9 := v\<rparr>"
| "set64 R10 v r = r\<lparr>r10 := v\<rparr>"
| "set64 R11 v r = r\<lparr>r11 := v\<rparr>"
| "set64 R12 v r = r\<lparr>r12 := v\<rparr>"
| "set64 R13 v r = r\<lparr>r13 := v\<rparr>"
| "set64 R14 v r = r\<lparr>r14 := v\<rparr>"
| "set64 R15 v r = r\<lparr>r15 := v\<rparr>"

primrec set32 :: "reg32 \<Rightarrow> u64 \<Rightarrow> regs64 \<Rightarrow> regs64" where
  "set32 EAX v r = r\<lparr>rax := set_reg32 (rax r) v\<rparr>"
| "set32 EBX v r = r\<lparr>rbx := set_reg32 (rbx r) v\<rparr>"
| "set32 ECX v r = r\<lparr>rcx := set_reg32 (rcx r) v\<rparr>"
| "set32 EDX v r = r\<lparr>rdx := set_reg32 (rdx r) v\<rparr>"
| "set32 ESI v r = r\<lparr>rsi := set_reg32 (rsi r) v\<rparr>"
| "set32 EDI v r = r\<lparr>rdi := set_reg32 (rdi r) v\<rparr>"
| "set32 ESP v r = r\<lparr>rsp := set_reg32 (rsp r) v\<rparr>"
| "set32 EBP v r = r\<lparr>rbp := set_reg32 (rbp r) v\<rparr>"
| "set32 EIP v r = r\<lparr>rip := set_reg32 (rip r) v\<rparr>"
| "set32 R8D v r = r\<lparr>r8 := set_reg32 (r8 r) v\<rparr>"
| "set32 R9D v r = r\<lparr>r9 := set_reg32 (r9 r) v\<rparr>"
| "set32 R10D v r = r\<lparr>r10 := set_reg32 (r10 r) v\<rparr>"
| "set32 R11D v r = r\<lparr>r11 := set_reg32 (r11 r) v\<rparr>"
| "set32 R12D v r = r\<lparr>r12 := set_reg32 (r12 r) v\<rparr>"
| "set32 R13D v r = r\<lparr>r13 := set_reg32 (r13 r) v\<rparr>"
| "set32 R14D v r = r\<lparr>r14 := set_reg32 (r14 r) v\<rparr>"
| "set32 R15D v r = r\<lparr>r15 := set_reg32 (r15 r) v\<rparr>"

primrec set16 :: "reg16 \<Rightarrow> u64 \<Rightarrow> regs64 \<Rightarrow> regs64" where
  "set16 AX v r = r\<lparr>rax := set_reg16 (rax r) v\<rparr>"
| "set16 BX v r = r\<lparr>rbx := set_reg16 (rbx r) v\<rparr>"
| "set16 CX v r = r\<lparr>rcx := set_reg16 (rcx r) v\<rparr>"
| "set16 DX v r = r\<lparr>rdx := set_reg16 (rdx r) v\<rparr>"
| "set16 SI v r = r\<lparr>rsi := set_reg16 (rsi r) v\<rparr>"
| "set16 DI v r = r\<lparr>rdi := set_reg16 (rdi r) v\<rparr>"
| "set16 BP v r = r\<lparr>rbp := set_reg16 (rbp r) v\<rparr>"
| "set16 SP v r = r\<lparr>rsp := set_reg16 (rsp r) v\<rparr>"
| "set16 R8W v r = r\<lparr>r8 := set_reg16 (r8 r) v\<rparr>"
| "set16 R9W v r = r\<lparr>r9 := set_reg16 (r9 r) v\<rparr>"
| "set16 R10W v r = r\<lparr>r10 := set_reg16 (r10 r) v\<rparr>"
| "set16 R11W v r = r\<lparr>r11 := set_reg16 (r11 r) v\<rparr>"
| "set16 R12W v r = r\<lparr>r12 := set_reg16 (r12 r) v\<rparr>"
| "set16 R13W v r = r\<lparr>r13 := set_reg16 (r13 r) v\<rparr>"
| "set16 R14W v r = r\<lparr>r14 := set_reg16 (r14 r) v\<rparr>"
| "set16 R15W v r = r\<lparr>r15 := set_reg16 (r15 r) v\<rparr>"

primrec set8 :: "reg8 \<Rightarrow> u64 \<Rightarrow> regs64 \<Rightarrow> regs64" where
  "set8 AH v r = r\<lparr>rax := set_reg8h (rax r) v\<rparr>"
| "set8 AL v r = r\<lparr>rax := set_reg8l (rax r) v\<rparr>"
| "set8 BH v r = r\<lparr>rbx := set_reg8h (rbx r) v\<rparr>"
| "set8 BL v r = r\<lparr>rbx := set_reg8l (rbx r) v\<rparr>"
| "set8 CH v r = r\<lparr>rcx := set_reg8h (rcx r) v\<rparr>"
| "set8 CL v r = r\<lparr>rcx := set_reg8l (rcx r) v\<rparr>"
| "set8 DH v r = r\<lparr>rdx := set_reg8h (rdx r) v\<rparr>"
| "set8 DL v r = r\<lparr>rdx := set_reg8l (rdx r) v\<rparr>"
| "set8 R8L v r = r\<lparr>r8 := set_reg8l (r8 r) v\<rparr>"
| "set8 R9L v r = r\<lparr>r9 := set_reg8l (r9 r) v\<rparr>"
| "set8 R10L v r = r\<lparr>r10 := set_reg8l (r10 r) v\<rparr>"
| "set8 R11L v r = r\<lparr>r11 := set_reg8l (r11 r) v\<rparr>"
| "set8 R12L v r = r\<lparr>r12 := set_reg8l (r12 r) v\<rparr>"
| "set8 R13L v r = r\<lparr>r13 := set_reg8l (r13 r) v\<rparr>"
| "set8 R14L v r = r\<lparr>r14 := set_reg8l (r14 r) v\<rparr>"
| "set8 R15L v r = r\<lparr>r15 := set_reg8l (r15 r) v\<rparr>"
| "set8 SIL v r = r\<lparr>rsi := set_reg8l (rsi r) v\<rparr>"
| "set8 DIL v r = r\<lparr>rdi := set_reg8l (rdi r) v\<rparr>"
| "set8 BPL v r = r\<lparr>rbp := set_reg8l (rbp r) v\<rparr>"
| "set8 SPL v r = r\<lparr>rsp := set_reg8l (rsp r) v\<rparr>"

definition set_reg :: "register \<Rightarrow> u64 \<Rightarrow> regs64 \<Rightarrow> regs64" where
  "set_reg reg v r =
     (case reg of
        Gpr64 x \<Rightarrow> set64 x v r
      | Gpr32 x \<Rightarrow> set32 x v r
      | Gpr16 x \<Rightarrow> set16 x v r
      | Gpr8 x \<Rightarrow> set8 x v r
      | _ \<Rightarrow> r)"

definition get_size :: "register \<Rightarrow> u32" where
  "get_size reg =
     (case reg of
        Gpr64 _ \<Rightarrow> 64
      | Gpr32 _ \<Rightarrow> 32
      | Gpr16 _ \<Rightarrow> 16
      | Gpr8 _ \<Rightarrow> 8
      | XMM n \<Rightarrow> if n < 16 then 128 else 0
      | YMM n \<Rightarrow> if n < 16 then 256 else 0
      | MM n \<Rightarrow> if n < 8 then 128 else 0
      | _ \<Rightarrow> 0)"

definition is_fpu :: "register \<Rightarrow> bool" where
  "is_fpu reg = (case reg of ST n \<Rightarrow> n < 8 | _ \<Rightarrow> False)"

subsection \<open>Vector registers\<close>

definition is_xmm :: "register \<Rightarrow> bool" where
  "is_xmm reg = (case reg of XMM n \<Rightarrow> n < 16 | MM n \<Rightarrow> n < 8 | _ \<Rightarrow> False)"

definition get_xmm_reg :: "register \<Rightarrow> regs64 \<Rightarrow> u128" where
  "get_xmm_reg reg r =
     (case reg of
        XMM n \<Rightarrow> if n < 16 then xmm r n else 0
      | MM n \<Rightarrow> if n < 8 then mm r n else 0
      | _ \<Rightarrow> 0)"

primrec set_low128 :: "u256 \<Rightarrow> u128 \<Rightarrow> u256" where
  "set_low128 (U256 _ _ y2 y3) value = U256 (ucast value) (ucast (drop_bit 64 value)) y2 y3"

definition set_xmm_reg :: "register \<Rightarrow> u128 \<Rightarrow> regs64 \<Rightarrow> regs64" where
  "set_xmm_reg reg value r =
     (case reg of
        XMM n \<Rightarrow>
          if n < 16 then
            let r = r\<lparr>xmm := (xmm r)(n := value)\<rparr>
            in r\<lparr>ymm := (ymm r)(n := set_low128 (ymm r n) value)\<rparr>
          else r
      | MM n \<Rightarrow> if n < 8 then r\<lparr>mm := (mm r)(n := value)\<rparr> else r
      | _ \<Rightarrow> r)"

definition is_ymm :: "register \<Rightarrow> bool" where
  "is_ymm reg = (case reg of YMM n \<Rightarrow> n < 16 | MM n \<Rightarrow> n < 8 | _ \<Rightarrow> False)"

definition get_ymm_reg :: "register \<Rightarrow> regs64 \<Rightarrow> u256" where
  "get_ymm_reg reg r =
     (case reg of
        YMM n \<Rightarrow> if n < 16 then ymm r n else U256 0 0 0 0
      | _ \<Rightarrow> U256 0 0 0 0)"

primrec low128 :: "u256 \<Rightarrow> u128" where
  "low128 (U256 y0 y1 _ _) = push_bit 64 (ucast y1) OR ucast y0"

definition set_ymm_reg :: "register \<Rightarrow> u256 \<Rightarrow> regs64 \<Rightarrow> regs64" where
  "set_ymm_reg reg value r =
     (case reg of
        YMM n \<Rightarrow>
          if n < 16 then
            let r = r\<lparr>ymm := (ymm r)(n := value)\<rparr>
            in r\<lparr>xmm := (xmm r)(n := low128 value)\<rparr>
          else r
      | _ \<Rightarrow> r)"

subsection \<open>Whole-file operations\<close>

definition clear :: "nat \<Rightarrow> regs64 \<Rightarrow> regs64" where
  "clear bits r =
     (if bits = 64 then
        r\<lparr>rax := 0, rbx := 0, rcx := 0, rdx := 0, rsi := 0, rdi := 0, rbp := 0, rsp := 0, rip := 0,
          r8 := 0, r9 := 0, r10 := 0, r11 := 0, r12 := 0, r13 := 0, r14 := 0, r15 := 0\<rparr>
      else if bits = 32 then
        set32 R15D 0 ( set32 R14D 0 ( set32 R13D 0 ( set32 R12D 0 ( set32 R11D 0 ( set32 R10D 0 (
        set32 R9D 0 ( set32 R8D 0 ( set32 EIP 0 ( set32 EBP 0 ( set32 ESP 0 ( set32 EDI 0 ( set32 ESI 0 (
        set32 EDX 0 ( set32 ECX 0 ( set32 EBX 0 ( set32 EAX 0 r))))))))))))))))
      else if bits = 16 then
        set16 R15W 0 ( set16 R14W 0 ( set16 R13W 0 ( set16 R12W 0 ( set16 R11W 0 ( set16 R10W 0 (
        set16 R9W 0 ( set16 R8W 0 ( set_ip 0 ( set16 BP 0 ( set16 SP 0 ( set16 DI 0 ( set16 SI 0 (
        set16 DX 0 ( set16 CX 0 ( set16 BX 0 ( set16 AX 0 r))))))))))))))))
      else if bits = 8 then
        set8 R15L 0 ( set8 R14L 0 ( set8 R13L 0 ( set8 R12L 0 ( set8 R11L 0 ( set8 R10L 0 ( set8 R9L 0 (
        set8 R8L 0 ( set8 DIL 0 ( set8 SIL 0 ( set8 DL 0 ( set8 CL 0 ( set8 BL 0 (
        set8 AL 0 r)))))))))))))
      else r)"

definition sanitize32 :: "regs64 \<Rightarrow> regs64" where
  "sanitize32 r =
     (let mask = 0x00000000ffffffff
      in r\<lparr>rax := rax r AND mask, rbx := rbx r AND mask, rcx := rcx r AND mask, rdx := rdx r AND mask,
           rsi := rsi r AND mask, rdi := rdi r AND mask, rbp := rbp r AND mask, rsp := rsp r AND mask,
           rip := rip r AND mask\<rparr>)"

definition sub_rsp :: "regs64 \<Rightarrow> regs64" where
  "sub_rsp r = r\<lparr>rsp := rsp r - 8\<rparr>"

definition sub_esp :: "regs64 \<Rightarrow> regs64" where
  "sub_esp r =
     (let esp = ucast (rsp r) :: u32;
          new_esp = esp - 4
      in r\<lparr>rsp := (rsp r AND 0xffffffff00000000) OR ucast new_esp\<rparr>)"

definition sub_sp :: "regs64 \<Rightarrow> regs64" where
  "sub_sp r =
     (let sp = ucast (rsp r) :: u16;
          new_sp = sp - 2
      in r\<lparr>rsp := (rsp r AND 0xffffffffffff0000) OR ucast new_sp\<rparr>)"

subsection \<open>Access by name\<close>

text \<open>The arms of a \<open>match\<close> on a name, in order.\<close>

definition getters :: "(string \<times> (regs64 \<Rightarrow> u64)) list" where
  "getters =
     [(''rax'', rax), (''rbx'', rbx), (''rcx'', rcx), (''rdx'', rdx), (''rsi'', rsi), (''rdi'', rdi),
      (''rbp'', rbp), (''rsp'', rsp), (''rip'', rip), (''r8'', r8), (''r9'', r9), (''r10'', r10),
      (''r11'', r11), (''r12'', r12), (''r13'', r13), (''r14'', r14), (''r15'', r15),
      (''eax'', get32 EAX), (''ebx'', get32 EBX), (''ecx'', get32 ECX), (''edx'', get32 EDX),
      (''esi'', get32 ESI), (''edi'', get32 EDI), (''ebp'', get32 EBP), (''esp'', get32 ESP),
      (''eip'', get32 EIP), (''r8d'', get32 R8D), (''r9d'', get32 R9D), (''r10d'', get32 R10D),
      (''r11d'', get32 R11D), (''r12d'', get32 R12D), (''r13d'', get32 R13D), (''r14d'', get32 R14D),
      (''r15d'', get32 R15D), (''ax'', get16 AX), (''bx'', get16 BX), (''cx'', get16 CX),
      (''dx'', get16 DX), (''si'', get16 SI), (''di'', get16 DI), (''bp'', get16 BP), (''sp'', get16 SP),
      (''r8w'', get16 R8W), (''r9w'', get16 R9W), (''r10w'', get16 R10W), (''r11w'', get16 R11W),
      (''r12w'', get16 R12W), (''r13w'', get16 R13W), (''r14w'', get16 R14W), (''r15w'', get16 R15W),
      (''ah'', get8 AH), (''al'', get8 AL), (''bh'', get8 BH), (''bl'', get8 BL), (''ch'', get8 CH),
      (''cl'', get8 CL), (''dh'', get8 DH), (''dl'', get8 DL), (''r8l'', get8 R8L), (''r9l'', get8 R9L),
      (''r10l'', get8 R10L), (''r11l'', get8 R11L), (''r12l'', get8 R12L), (''r13l'', get8 R13L),
      (''r14l'', get8 R14L), (''r15l'', get8 R15L), (''sil'', get8 SIL), (''dil'', get8 DIL),
      (''bpl'', get8 BPL), (''spl'', get8 SPL)]"

definition get_by_name :: "string \<Rightarrow> regs64 \<Rightarrow> u64" where
  "get_by_name reg_name r = (case map_of getters reg_name of Some get \<Rightarrow> get r | None \<Rightarrow> 0)"

definition setters :: "(string \<times> (u64 \<Rightarrow> regs64 \<Rightarrow> regs64)) list" where
  "setters =
     [(''rax'', \<lambda>v. rax_update (\<lambda>_. v)),
      (''rbx'', \<lambda>v. rbx_update (\<lambda>_. v)),
      (''rcx'', \<lambda>v. rcx_update (\<lambda>_. v)),
      (''rdx'', \<lambda>v. rdx_update (\<lambda>_. v)),
      (''rsi'', \<lambda>v. rsi_update (\<lambda>_. v)),
      (''rdi'', \<lambda>v. rdi_update (\<lambda>_. v)),
      (''rbp'', \<lambda>v. rbp_update (\<lambda>_. v)),
      (''rsp'', \<lambda>v. rsp_update (\<lambda>_. v)),
      (''rip'', \<lambda>v. rip_update (\<lambda>_. v)), (''r8'', \<lambda>v. r8_update (\<lambda>_. v)),
      (''r9'', \<lambda>v. r9_update (\<lambda>_. v)), (''r10'', \<lambda>v. r10_update (\<lambda>_. v)),
      (''r11'', \<lambda>v. r11_update (\<lambda>_. v)),
      (''r12'', \<lambda>v. r12_update (\<lambda>_. v)),
      (''r13'', \<lambda>v. r13_update (\<lambda>_. v)),
      (''r14'', \<lambda>v. r14_update (\<lambda>_. v)),
      (''r15'', \<lambda>v. r15_update (\<lambda>_. v)), (''eax'', set32 EAX), (''ebx'', set32 EBX),
      (''ecx'', set32 ECX), (''edx'', set32 EDX), (''esi'', set32 ESI), (''edi'', set32 EDI),
      (''ebp'', set32 EBP), (''esp'', set32 ESP), (''eip'', set32 EIP), (''r8d'', set32 R8D),
      (''r9d'', set32 R9D), (''r10d'', set32 R10D), (''r11d'', set32 R11D), (''r12d'', set32 R12D),
      (''r13d'', set32 R13D), (''r14d'', set32 R14D), (''r15d'', set32 R15D), (''ax'', set16 AX),
      (''bx'', set16 BX), (''cx'', set16 CX), (''dx'', set16 DX), (''di'', set16 DI), (''si'', set16 SI),
      (''bp'', set16 BP), (''sp'', set16 SP), (''r8w'', set16 R8W), (''r9w'', set16 R9W),
      (''r10w'', set16 R10W), (''r11w'', set16 R11W), (''r12w'', set16 R12W), (''r13w'', set16 R13W),
      (''r14w'', set16 R14W), (''r15w'', set16 R15W), (''ah'', set8 AH), (''al'', set8 AL),
      (''bh'', set8 BH), (''bl'', set8 BL), (''ch'', set8 CH), (''cl'', set8 CL), (''dh'', set8 DH),
      (''dl'', set8 DL), (''r8l'', set8 R8L), (''r9l'', set8 R9L), (''r10l'', set8 R10L),
      (''r11l'', set8 R11L), (''r12l'', set8 R12L), (''r13l'', set8 R13L), (''r14l'', set8 R14L),
      (''r15l'', set8 R15L), (''sil'', set8 SIL), (''dil'', set8 DIL), (''bpl'', set8 BPL),
      (''spl'', set8 SPL)]"

definition set_by_name :: "string \<Rightarrow> u64 \<Rightarrow> regs64 \<Rightarrow> regs64" where
  "set_by_name reg_name value r = (case map_of setters reg_name of Some put \<Rightarrow> put value r | None \<Rightarrow> r)"

definition registers64 :: "(string \<times> reg64) list" where
  "registers64 =
     [(''rax'', RAX), (''rbx'', RBX), (''rcx'', RCX), (''rdx'', RDX), (''rsp'', RSP), (''rbp'', RBP),
      (''rsi'', RSI), (''rdi'', RDI), (''r8'', R8), (''r9'', R9), (''r10'', R10), (''r11'', R11),
      (''r12'', R12), (''r13'', R13), (''r14'', R14), (''r15'', R15), (''rip'', RIP)]"

definition set_reg_by_name :: "string \<Rightarrow> u64 \<Rightarrow> regs64 \<Rightarrow> regs64" where
  "set_reg_by_name reg_name value r =
     (case map_of registers64 reg_name of Some reg \<Rightarrow> set_reg (Gpr64 reg) value r | None \<Rightarrow> r)"

definition xmm_names :: "(string \<times> nat) list" where
  "xmm_names =
     [(''xmm0'', 0), (''xmm1'', 1), (''xmm2'', 2), (''xmm3'', 3), (''xmm4'', 4), (''xmm5'', 5),
      (''xmm6'', 6), (''xmm7'', 7), (''xmm8'', 8), (''xmm9'', 9), (''xmm10'', 10), (''xmm11'', 11),
      (''xmm12'', 12), (''xmm13'', 13), (''xmm14'', 14), (''xmm15'', 15)]"

definition ymm_names :: "(string \<times> nat) list" where
  "ymm_names =
     [(''ymm0'', 0), (''ymm1'', 1), (''ymm2'', 2), (''ymm3'', 3), (''ymm4'', 4), (''ymm5'', 5),
      (''ymm6'', 6), (''ymm7'', 7), (''ymm8'', 8), (''ymm9'', 9), (''ymm10'', 10), (''ymm11'', 11),
      (''ymm12'', 12), (''ymm13'', 13), (''ymm14'', 14), (''ymm15'', 15)]"

definition get_xmm_by_name :: "string \<Rightarrow> regs64 \<Rightarrow> u128" where
  "get_xmm_by_name reg_name r = (case map_of xmm_names reg_name of Some n \<Rightarrow> xmm r n | None \<Rightarrow> 0)"

definition get_ymm_by_name :: "string \<Rightarrow> regs64 \<Rightarrow> u256" where
  "get_ymm_by_name reg_name r =
     (case map_of ymm_names reg_name of Some n \<Rightarrow> ymm r n | None \<Rightarrow> U256 0 0 0 0)"

definition set_xmm_by_name :: "string \<Rightarrow> u128 \<Rightarrow> regs64 \<Rightarrow> regs64" where
  "set_xmm_by_name reg_name value r =
     (case map_of xmm_names reg_name of Some n \<Rightarrow> r\<lparr>xmm := (xmm r)(n := value)\<rparr> | None \<Rightarrow> r)"

definition set_ymm_by_name :: "string \<Rightarrow> u256 \<Rightarrow> regs64 \<Rightarrow> regs64" where
  "set_ymm_by_name reg_name value r =
     (case map_of ymm_names reg_name of Some n \<Rightarrow> r\<lparr>ymm := (ymm r)(n := value)\<rparr> | None \<Rightarrow> r)"

end
