(* ===== verification/Regs_X86_Proofs.thy ===== *)
theory Regs_X86_Proofs
  imports Regs_X86
begin

section \<open>Correctness of the x86 register file\<close>

text \<open>
  Every general-purpose register of the decoder is a range of bits of one 64-bit register. Writing it
  changes these bits and no others, except that a write to a 32-bit register clears the upper half;
  reading it returns them. Access by name agrees with access by register. The vector registers keep
  the aliasing of \<open>xmm\<close> and \<open>ymm\<close> under access by register, but not under access by name.
\<close>

unbundle bit_operations_syntax

subsection \<open>The abstract view\<close>

primrec whole32 :: "reg32 \<Rightarrow> reg64" where
  "whole32 EAX = RAX"
| "whole32 EBX = RBX"
| "whole32 ECX = RCX"
| "whole32 EDX = RDX"
| "whole32 ESI = RSI"
| "whole32 EDI = RDI"
| "whole32 ESP = RSP"
| "whole32 EBP = RBP"
| "whole32 EIP = RIP"
| "whole32 R8D = R8"
| "whole32 R9D = R9"
| "whole32 R10D = R10"
| "whole32 R11D = R11"
| "whole32 R12D = R12"
| "whole32 R13D = R13"
| "whole32 R14D = R14"
| "whole32 R15D = R15"

primrec whole16 :: "reg16 \<Rightarrow> reg64" where
  "whole16 AX = RAX"
| "whole16 BX = RBX"
| "whole16 CX = RCX"
| "whole16 DX = RDX"
| "whole16 SI = RSI"
| "whole16 DI = RDI"
| "whole16 BP = RBP"
| "whole16 SP = RSP"
| "whole16 R8W = R8"
| "whole16 R9W = R9"
| "whole16 R10W = R10"
| "whole16 R11W = R11"
| "whole16 R12W = R12"
| "whole16 R13W = R13"
| "whole16 R14W = R14"
| "whole16 R15W = R15"

primrec whole8 :: "reg8 \<Rightarrow> reg64" where
  "whole8 AH = RAX"
| "whole8 AL = RAX"
| "whole8 BH = RBX"
| "whole8 BL = RBX"
| "whole8 CH = RCX"
| "whole8 CL = RCX"
| "whole8 DH = RDX"
| "whole8 DL = RDX"
| "whole8 R8L = R8"
| "whole8 R9L = R9"
| "whole8 R10L = R10"
| "whole8 R11L = R11"
| "whole8 R12L = R12"
| "whole8 R13L = R13"
| "whole8 R14L = R14"
| "whole8 R15L = R15"
| "whole8 SIL = RSI"
| "whole8 DIL = RDI"
| "whole8 BPL = RBP"
| "whole8 SPL = RSP"

primrec upd64 :: "reg64 \<Rightarrow> (u64 \<Rightarrow> u64) \<Rightarrow> regs64 \<Rightarrow> regs64" where
  "upd64 RAX f r = r\<lparr>rax := f (rax r)\<rparr>"
| "upd64 RBX f r = r\<lparr>rbx := f (rbx r)\<rparr>"
| "upd64 RCX f r = r\<lparr>rcx := f (rcx r)\<rparr>"
| "upd64 RDX f r = r\<lparr>rdx := f (rdx r)\<rparr>"
| "upd64 RSI f r = r\<lparr>rsi := f (rsi r)\<rparr>"
| "upd64 RDI f r = r\<lparr>rdi := f (rdi r)\<rparr>"
| "upd64 RSP f r = r\<lparr>rsp := f (rsp r)\<rparr>"
| "upd64 RBP f r = r\<lparr>rbp := f (rbp r)\<rparr>"
| "upd64 RIP f r = r\<lparr>rip := f (rip r)\<rparr>"
| "upd64 R8 f r = r\<lparr>r8 := f (r8 r)\<rparr>"
| "upd64 R9 f r = r\<lparr>r9 := f (r9 r)\<rparr>"
| "upd64 R10 f r = r\<lparr>r10 := f (r10 r)\<rparr>"
| "upd64 R11 f r = r\<lparr>r11 := f (r11 r)\<rparr>"
| "upd64 R12 f r = r\<lparr>r12 := f (r12 r)\<rparr>"
| "upd64 R13 f r = r\<lparr>r13 := f (r13 r)\<rparr>"
| "upd64 R14 f r = r\<lparr>r14 := f (r14 r)\<rparr>"
| "upd64 R15 f r = r\<lparr>r15 := f (r15 r)\<rparr>"
definition low_bit8 :: "reg8 \<Rightarrow> nat" where
  "low_bit8 x = (if x \<in> {AH, BH, CH, DH} then 8 else 0)"

text \<open>The 64-bit register, the lowest bit and the number of bits of a general-purpose register.\<close>

definition gpr_part :: "register \<Rightarrow> (reg64 \<times> nat \<times> nat) option" where
  "gpr_part reg =
     (case reg of
        Gpr64 x \<Rightarrow> Some (x, 0, 64)
      | Gpr32 x \<Rightarrow> Some (whole32 x, 0, 32)
      | Gpr16 x \<Rightarrow> Some (whole16 x, 0, 16)
      | Gpr8 x \<Rightarrow> Some (whole8 x, low_bit8 x, 8)
      | _ \<Rightarrow> None)"

definition insert_bits :: "nat \<Rightarrow> nat \<Rightarrow> u64 \<Rightarrow> u64 \<Rightarrow> u64" where
  "insert_bits lo w v old =
     (push_bit lo (take_bit w v) OR (if w = 32 then 0 else old AND NOT (push_bit lo (mask w))))"

lemma bit_insert_bits:
  "bit (insert_bits lo w v old) n \<longleftrightarrow>
     n < 64 \<and> (if lo \<le> n \<and> n < lo + w then bit v (n - lo) else w \<noteq> 32 \<and> bit old n)"
  by (auto simp: insert_bits_def bit_simps dest: bit_imp_le_length)

subsection \<open>The macros\<close>

lemma u64_masks:
  "(0x00000000ffffffff :: u64) = mask 32" "(0x000000000000ffff :: u64) = mask 16" "(0x00000000000000ff :: u64) = mask 8"
  "(0xffffffffffff0000 :: u64) = NOT (mask 16)" "(0xffffffffffffff00 :: u64) = NOT (mask 8)"
  "(0xffffffffffff00ff :: u64) = NOT (push_bit 8 (mask 8))" "(0x000000000000ff00 :: u64) = push_bit 8 (mask 8)"
  by (simp_all add: mask_eq_exp_minus_1 push_bit_eq_mult)

lemma plus_disjoint:
  fixes x y :: u64
  assumes "\<And>n. \<not> (bit x n \<and> bit y n)"
  shows "x + y = x OR y"
  using assms by (intro disjunctive_add) auto

lemma set_parts [simp]:
  "set_reg32 old v = insert_bits 0 32 v old" "set_reg16 old v = insert_bits 0 16 v old"
  "set_reg8l old v = insert_bits 0 8 v old" "set_reg8h old v = insert_bits 8 8 v old"
proof -
  show "set_reg32 old v = insert_bits 0 32 v old"
    unfolding set_reg32_def u64_masks by (rule bit_eqI) (auto simp: bit_insert_bits bit_simps)
  show "set_reg16 old v = insert_bits 0 16 v old"
    unfolding set_reg16_def u64_masks
    by (subst plus_disjoint; (rule bit_eqI)?) (auto simp: bit_insert_bits bit_simps dest: bit_imp_le_length)
  show "set_reg8l old v = insert_bits 0 8 v old"
    unfolding set_reg8l_def u64_masks
    by (subst plus_disjoint; (rule bit_eqI)?) (auto simp: bit_insert_bits bit_simps dest: bit_imp_le_length)
  show "set_reg8h old v = insert_bits 8 8 v old"
    unfolding set_reg8h_def u64_masks
    by (subst plus_disjoint; (rule bit_eqI)?) (auto simp: bit_insert_bits bit_simps dest: bit_imp_le_length)
qed

lemma get_parts [simp]:
  "get_reg32l x = take_bit 32 x" "get_reg16 x = take_bit 16 x" "get_reg8l x = take_bit 8 x"
  "get_reg8h x = take_bit 8 (drop_bit 8 x)"
proof -
  show "get_reg32l x = take_bit 32 x" "get_reg16 x = take_bit 16 x" "get_reg8l x = take_bit 8 x"
    unfolding get_reg32l_def get_reg16_def get_reg8l_def u64_masks by (simp_all add: take_bit_eq_mask)
  show "get_reg8h x = take_bit 8 (drop_bit 8 x)"
    unfolding get_reg8h_def u64_masks by (rule bit_eqI) (auto simp: bit_simps)
qed

lemma insert_bits_64 [simp]: "insert_bits 0 64 v old = v"
  by (rule bit_eqI) (auto simp: bit_insert_bits dest: bit_imp_le_length)

lemma take_bit_u64 [simp]: "take_bit 64 (x :: u64) = x"
  by (rule bit_eqI) (auto simp: bit_simps dest: bit_imp_le_length)

subsection \<open>Registers\<close>

lemma get64_upd64 [simp]: "get64 q (upd64 p f r) = (if q = p then f (get64 p r) else get64 q r)"
  by (cases p; cases q) simp_all

lemma upd64_rest [simp]:
  "dr (upd64 p f r) = dr r" "prev_rip (upd64 p f r) = prev_rip r" "cr (upd64 p f r) = cr r" "msr (upd64 p f r) = msr r"
  "tr (upd64 p f r) = tr r" "xmm (upd64 p f r) = xmm r" "ymm (upd64 p f r) = ymm r" "mm (upd64 p f r) = mm r"
  "gs (upd64 p f r) = gs r" "fs (upd64 p f r) = fs r"
  by (cases p; simp)+

lemma set_reg_part:
  assumes "gpr_part g = Some (p, lo, w)"
  shows "set_reg g v r = upd64 p (insert_bits lo w v) r" "get_reg g r = take_bit w (drop_bit lo (get64 p r))"
    "unat (get_size g) = w" "lo + w \<le> 64"
proof -
  have "set_reg g v r = upd64 p (insert_bits lo w v) r \<and> get_reg g r = take_bit w (drop_bit lo (get64 p r))
    \<and> unat (get_size g) = w \<and> lo + w \<le> 64"
  proof (cases g)
    case (Gpr64 x)
    then show ?thesis
      using assms by (cases x) (simp_all add: gpr_part_def set_reg_def get_reg_def get_size_def)
  next
    case (Gpr32 x)
    then show ?thesis
      using assms by (cases x) (auto simp: gpr_part_def set_reg_def get_reg_def get_size_def)
  next
    case (Gpr16 x)
    then show ?thesis
      using assms by (cases x) (auto simp: gpr_part_def set_reg_def get_reg_def get_size_def)
  next
    case (Gpr8 x)
    then show ?thesis
      using assms
      by (cases x) (auto simp: gpr_part_def set_reg_def get_reg_def get_size_def low_bit8_def)
  qed (use assms in \<open>simp_all add: gpr_part_def\<close>)
  then show "set_reg g v r = upd64 p (insert_bits lo w v) r" "get_reg g r = take_bit w (drop_bit lo (get64 p r))"
    "unat (get_size g) = w" "lo + w \<le> 64"
    by simp_all
qed

text \<open>
  C23: a general-purpose register of the decoder is \<open>w\<close> bits of a 64-bit register from bit \<open>lo\<close> on. Writing it
  writes exactly these bits, except that a write to a 32-bit register also clears the upper half; all
  other registers keep their values. Reading it back returns the low \<open>w\<close> bits of the value written, and
  \<open>get_size\<close> is \<open>w\<close>.
\<close>

theorem set_reg_correct:
  assumes "gpr_part g = Some (p, lo, w)"
  shows "(\<forall>n. bit (get64 p (set_reg g v r)) n \<longleftrightarrow>
            n < 64 \<and> (if lo \<le> n \<and> n < lo + w then bit v (n - lo) else w \<noteq> 32 \<and> bit (get64 p r) n))
    \<and> (\<forall>q. q \<noteq> p \<longrightarrow> get64 q (set_reg g v r) = get64 q r)
    \<and> xmm (set_reg g v r) = xmm r \<and> ymm (set_reg g v r) = ymm r \<and> mm (set_reg g v r) = mm r
    \<and> get_reg g (set_reg g v r) = take_bit w v \<and> unat (get_size g) = w"
proof (intro conjI)
  note part = set_reg_part[OF assms]
  show "get_reg g (set_reg g v r) = take_bit w v"
    using part(4) by (intro bit_eqI) (auto simp: part(1,2) bit_simps bit_insert_bits)
qed (use set_reg_part[OF assms] in \<open>auto simp: bit_insert_bits\<close>)

theorem set_reg_correct_witness:
  "gpr_part (Gpr8 CH) = Some (RCX, 8, 8)
   \<and> get_reg (Gpr8 CH) (set_reg (Gpr8 CH) 0x1ff regs64_new) = 0xff
   \<and> get64 RDX (set_reg (Gpr8 CH) 0x1ff regs64_new) = 0"
proof -
  have part: "gpr_part (Gpr8 CH) = Some (RCX, 8, 8)"
    by (simp add: gpr_part_def low_bit8_def)
  have "take_bit 8 (0x1ff :: u64) = 0xff" "get64 RDX regs64_new = 0" "RDX \<noteq> RCX"
    by (simp_all add: take_bit_eq_mod regs64_new_def)
  moreover note set_reg_correct[OF part, of "0x1ff" regs64_new]
  ultimately show ?thesis
    using part by metis
qed

subsection \<open>Access by name\<close>

definition reg_names :: "(string \<times> register) list" where
  "reg_names =
     [(''rax'', Gpr64 RAX), (''rbx'', Gpr64 RBX), (''rcx'', Gpr64 RCX), (''rdx'', Gpr64 RDX),
      (''rsi'', Gpr64 RSI), (''rdi'', Gpr64 RDI), (''rbp'', Gpr64 RBP), (''rsp'', Gpr64 RSP),
      (''rip'', Gpr64 RIP), (''r8'', Gpr64 R8), (''r9'', Gpr64 R9), (''r10'', Gpr64 R10),
      (''r11'', Gpr64 R11), (''r12'', Gpr64 R12), (''r13'', Gpr64 R13), (''r14'', Gpr64 R14),
      (''r15'', Gpr64 R15), (''eax'', Gpr32 EAX), (''ebx'', Gpr32 EBX), (''ecx'', Gpr32 ECX),
      (''edx'', Gpr32 EDX), (''esi'', Gpr32 ESI), (''edi'', Gpr32 EDI), (''ebp'', Gpr32 EBP),
      (''esp'', Gpr32 ESP), (''eip'', Gpr32 EIP), (''r8d'', Gpr32 R8D), (''r9d'', Gpr32 R9D),
      (''r10d'', Gpr32 R10D), (''r11d'', Gpr32 R11D), (''r12d'', Gpr32 R12D), (''r13d'', Gpr32 R13D),
      (''r14d'', Gpr32 R14D), (''r15d'', Gpr32 R15D), (''ax'', Gpr16 AX), (''bx'', Gpr16 BX),
      (''cx'', Gpr16 CX), (''dx'', Gpr16 DX), (''si'', Gpr16 SI), (''di'', Gpr16 DI), (''bp'', Gpr16 BP),
      (''sp'', Gpr16 SP), (''r8w'', Gpr16 R8W), (''r9w'', Gpr16 R9W), (''r10w'', Gpr16 R10W),
      (''r11w'', Gpr16 R11W), (''r12w'', Gpr16 R12W), (''r13w'', Gpr16 R13W), (''r14w'', Gpr16 R14W),
      (''r15w'', Gpr16 R15W), (''ah'', Gpr8 AH), (''al'', Gpr8 AL), (''bh'', Gpr8 BH), (''bl'', Gpr8 BL),
      (''ch'', Gpr8 CH), (''cl'', Gpr8 CL), (''dh'', Gpr8 DH), (''dl'', Gpr8 DL), (''r8l'', Gpr8 R8L),
      (''r9l'', Gpr8 R9L), (''r10l'', Gpr8 R10L), (''r11l'', Gpr8 R11L), (''r12l'', Gpr8 R12L),
      (''r13l'', Gpr8 R13L), (''r14l'', Gpr8 R14L), (''r15l'', Gpr8 R15L), (''sil'', Gpr8 SIL),
      (''dil'', Gpr8 DIL), (''bpl'', Gpr8 BPL), (''spl'', Gpr8 SPL)]"

lemma reg_names_distinct: "distinct (map fst reg_names)"
  unfolding reg_names_def by code_simp

lemma get_set_fun:
  "get_reg (Gpr64 a) = get64 a" "get_reg (Gpr32 b) = get32 b" "get_reg (Gpr16 c) = get16 c" "get_reg (Gpr8 d) = get8 d"
  "set_reg (Gpr64 a) = set64 a" "set_reg (Gpr32 b) = set32 b" "set_reg (Gpr16 c) = set16 c" "set_reg (Gpr8 d) = set8 d"
  by (simp_all add: fun_eq_iff get_reg_def set_reg_def)

lemma getters_eq: "getters = map (\<lambda>(s, g). (s, get_reg g)) reg_names"
  unfolding reg_names_def getters_def by (simp add: get_set_fun fun_eq_iff)

text \<open>The arms of \<open>set_by_name\<close> have two names in another order.\<close>

definition setter_order :: "(string \<times> register) list" where
  "setter_order = take 38 reg_names @ [(''di'', Gpr16 DI), (''si'', Gpr16 SI)] @ drop 40 reg_names"

lemma setters_eq: "setters = map (\<lambda>(s, g). (s, set_reg g)) setter_order"
  unfolding setter_order_def reg_names_def setters_def by (simp add: get_set_fun fun_eq_iff)

lemma reg_names_split: "reg_names = take 38 reg_names @ [(''si'', Gpr16 SI), (''di'', Gpr16 DI)] @ drop 40 reg_names"
  unfolding reg_names_def by simp

lemma map_of_setter_order: "map_of setter_order = map_of reg_names"
proof -
  define a b where "a = take 38 reg_names" and "b = drop 40 reg_names"
  have eq: "reg_names = a @ [(''si'', Gpr16 SI), (''di'', Gpr16 DI)] @ b"
    unfolding a_def b_def by (rule reg_names_split)
  have "distinct (map fst (a @ [(''si'', Gpr16 SI), (''di'', Gpr16 DI)] @ b))"
    using reg_names_distinct by (simp only: eq[symmetric])
  then show ?thesis
    unfolding setter_order_def a_def[symmetric] b_def[symmetric] by (subst eq) (auto simp: fun_eq_iff map_add_def split: option.split)
qed

lemma by_name_lookup:
  "map_of getters s = map_option get_reg (map_of reg_names s)"
  "map_of setters s = map_option set_reg (map_of reg_names s)"
  unfolding getters_eq setters_eq map_of_map map_of_setter_order by simp_all

text \<open>
  C24: reading or writing a general-purpose register by its name is reading or writing the register of
  that name; an unknown name reads as 0 and writes nothing.
\<close>

theorem by_name_correct:
  "(\<forall>(s, g)\<in>set reg_names. get_by_name s r = get_reg g r \<and> set_by_name s v r = set_reg g v r)
   \<and> (\<forall>s. s \<notin> fst ` set reg_names \<longrightarrow> get_by_name s r = 0 \<and> set_by_name s v r = r)"
proof -
  have "map_of reg_names s = Some g" if "(s, g) \<in> set reg_names" for s g
    using that reg_names_distinct by simp
  moreover have "map_of reg_names s = None" if "s \<notin> fst ` set reg_names" for s
    using that by (simp add: map_of_eq_None_iff)
  ultimately show ?thesis
    by (auto simp: by_name_lookup get_by_name_def set_by_name_def)
qed

theorem by_name_correct_witness:
  "(''ah'', Gpr8 AH) \<in> set reg_names
   \<and> set_by_name ''ah'' 7 regs64_new = set_reg (Gpr8 AH) 7 regs64_new
   \<and> ''ymm0'' \<notin> fst ` set reg_names \<and> get_by_name ''ymm0'' regs64_new = 0"
proof -
  have "(''ah'', Gpr8 AH) \<in> set reg_names" "''ymm0'' \<notin> fst ` set reg_names"
    by (simp_all add: reg_names_def)
  then show ?thesis
    using by_name_correct[of regs64_new 7] by fastforce
qed

subsection \<open>Vector registers\<close>

text \<open>\<open>xmm\<close> \<open>n\<close> is the low half of \<open>ymm\<close> \<open>n\<close>.\<close>

definition aliased :: "regs64 \<Rightarrow> bool" where
  "aliased r \<longleftrightarrow> (\<forall>n<16. xmm r n = low128 (ymm r n))"

primrec high128 :: "u256 \<Rightarrow> u64 \<times> u64" where
  "high128 (U256 _ _ y2 y3) = (y2, y3)"

lemma low128_set_low128 [simp]: "low128 (set_low128 y v) = v"
  by (cases y, simp, rule bit_eqI) (auto simp: bit_simps)

lemma high128_set_low128 [simp]: "high128 (set_low128 y v) = high128 y"
  by (cases y) simp

text \<open>
  C25: in a fresh register file every \<open>xmm\<close> register is the low half of the \<open>ymm\<close> register with its number, and
  writes by register keep this: a write to \<open>xmm\<close> keeps the upper half of \<open>ymm\<close>, a write to \<open>ymm\<close> is seen
  through \<open>xmm\<close>, and other vector registers keep their values.
\<close>

theorem vector_aliasing:
  "aliased regs64_new
   \<and> (aliased r \<longrightarrow> aliased (set_xmm_reg reg v r) \<and> aliased (set_ymm_reg reg y r))
   \<and> (n < 16 \<longrightarrow>
        get_xmm_reg (XMM n) (set_xmm_reg (XMM n) v r) = v
        \<and> low128 (get_ymm_reg (YMM n) (set_xmm_reg (XMM n) v r)) = v
        \<and> high128 (get_ymm_reg (YMM n) (set_xmm_reg (XMM n) v r)) = high128 (get_ymm_reg (YMM n) r)
        \<and> get_ymm_reg (YMM n) (set_ymm_reg (YMM n) y r) = y
        \<and> get_xmm_reg (XMM n) (set_ymm_reg (YMM n) y r) = low128 y
        \<and> (\<forall>m. m \<noteq> n \<longrightarrow> get_xmm_reg (XMM m) (set_xmm_reg (XMM n) v r) = get_xmm_reg (XMM m) r
                     \<and> get_ymm_reg (YMM m) (set_ymm_reg (YMM n) y r) = get_ymm_reg (YMM m) r))"
  by (auto simp: aliased_def regs64_new_def set_xmm_reg_def set_ymm_reg_def get_xmm_reg_def get_ymm_reg_def Let_def
      split: register.splits if_splits)

theorem vector_aliasing_witness:
  "aliased (set_xmm_reg (XMM 3) 5 regs64_new) \<and> get_xmm_reg (XMM 3) (set_xmm_reg (XMM 3) 5 regs64_new) = 5"
  using vector_aliasing[of regs64_new "XMM 3" 5 "U256 0 0 0 0" 3] by simp

lemma vector_names:
  "distinct (map fst xmm_names)" "distinct (map fst ymm_names)" "list_all (\<lambda>x. snd x < 16) xmm_names"
  by code_simp+

text \<open>
  C26: writing an \<open>xmm\<close> or \<open>ymm\<close> register by its name does not update the other one: after a write of a new value
  the \<open>ymm\<close> register with that number has a stale low half, and the other way round.
\<close>

theorem by_name_breaks_aliasing:
  assumes "aliased r" "(s, n) \<in> set xmm_names" "(t, n) \<in> set ymm_names" "v \<noteq> xmm r n" "low128 y \<noteq> xmm r n"
  shows "get_xmm_by_name s (set_xmm_by_name s v r) = v \<and> low128 (get_ymm_by_name t (set_xmm_by_name s v r)) \<noteq> v
    \<and> get_ymm_by_name t (set_ymm_by_name t y r) = y \<and> get_xmm_by_name s (set_ymm_by_name t y r) \<noteq> low128 y
    \<and> \<not> aliased (set_xmm_by_name s v r) \<and> \<not> aliased (set_ymm_by_name t y r)"
proof -
  have "map_of xmm_names s = Some n" "map_of ymm_names t = Some n" "n < 16"
    using assms(2,3) vector_names by (auto simp: list_all_iff)
  moreover from this have "low128 (ymm r n) = xmm r n"
    using assms(1) by (simp add: aliased_def)
  ultimately show ?thesis
    using assms(4,5) unfolding aliased_def
    by (auto simp: set_xmm_by_name_def set_ymm_by_name_def get_xmm_by_name_def get_ymm_by_name_def intro!: exI[of _ n])
qed

theorem by_name_breaks_aliasing_witness:
  "aliased regs64_new \<and> \<not> aliased (set_xmm_by_name ''xmm2'' 1 regs64_new)"
proof -
  have "aliased regs64_new" "(''xmm2'', 2) \<in> set xmm_names" "(''ymm2'', 2) \<in> set ymm_names" "(1::u128) \<noteq> xmm regs64_new 2"
    "low128 (U256 1 0 0 0) \<noteq> xmm regs64_new 2"
    by (simp_all add: aliased_def regs64_new_def xmm_names_def ymm_names_def)
  then show ?thesis
    using by_name_breaks_aliasing by blast
qed

end
