(* ===== verification/Locks.thy ===== *)
theory Locks
  imports Mwemu_Prelude
begin

section \<open>Critical sections\<close>

text \<open>
  A model of \<^verbatim>\<open>crates/libmwemu/src/threading/global_locks.rs\<close> and \<^verbatim>\<open>threading/crit_state.rs\<close>: recursive
  locks with a queue of waiting threads, whose ownership passes to the first waiter when the owner
  leaves. \<open>VecDeque\<close> is a list with its front first.

  The lemmas follow the calls of all threads in any interleaving and compare the lock with the
  number of times each thread holds it.
\<close>

record crit_state =
  owner_tid :: "u64 option"
  recursion_count :: usize
  wait_queue :: "u64 list"

record global_locks =
  crit_map :: "u64 \<rightharpoonup> crit_state"

definition global_locks_new :: global_locks where
  "global_locks_new = \<lparr>crit_map = Map.empty\<rparr>"

definition lock_enter :: "u64 \<Rightarrow> u64 \<Rightarrow> global_locks \<Rightarrow> bool \<times> global_locks" where
  "lock_enter cs_ptr tid g =
     (let cs = (case crit_map g cs_ptr of
                  Some cs \<Rightarrow> cs
                | None \<Rightarrow> \<lparr>owner_tid = None, recursion_count = 0, wait_queue = []\<rparr>)
      in case owner_tid cs of
           None \<Rightarrow> (True, g\<lparr>crit_map := (crit_map g)(cs_ptr \<mapsto> cs\<lparr>owner_tid := Some tid, recursion_count := 1\<rparr>)\<rparr>)
         | Some owner \<Rightarrow>
             if owner = tid then
               (True, g\<lparr>crit_map := (crit_map g)(cs_ptr \<mapsto> cs\<lparr>recursion_count := recursion_count cs + 1\<rparr>)\<rparr>)
             else
               (False, g\<lparr>crit_map := (crit_map g)(cs_ptr \<mapsto>
                  (if tid \<in> set (wait_queue cs) then cs else cs\<lparr>wait_queue := wait_queue cs @ [tid]\<rparr>))\<rparr>))"

definition lock_leave :: "u64 \<Rightarrow> u64 \<Rightarrow> global_locks \<Rightarrow> u64 option \<times> global_locks" where
  "lock_leave cs_ptr tid g =
     (case crit_map g cs_ptr of
        None \<Rightarrow> (None, g)
      | Some cs \<Rightarrow>
          if owner_tid cs \<noteq> Some tid then (None, g)
          else if 1 < recursion_count cs then
            (None, g\<lparr>crit_map := (crit_map g)(cs_ptr \<mapsto> cs\<lparr>recursion_count := recursion_count cs - 1\<rparr>)\<rparr>)
          else
            (case wait_queue cs of
               next_tid # rest \<Rightarrow>
                 (Some next_tid,
                  g\<lparr>crit_map := (crit_map g)(cs_ptr \<mapsto>
                     \<lparr>owner_tid = Some next_tid, recursion_count = 1, wait_queue = rest\<rparr>)\<rparr>)
             | [] \<Rightarrow>
                 (None, g\<lparr>crit_map := (crit_map g)(cs_ptr \<mapsto> cs\<lparr>owner_tid := None, recursion_count := 0\<rparr>)\<rparr>)))"

subsection \<open>Runs\<close>

text \<open>
  \<open>d cs t\<close> is how often thread \<open>t\<close> holds lock \<open>cs\<close>: it gains one when its \<open>enter\<close> succeeds or when it is
  woken by a \<open>leave\<close>, and loses one when it leaves. A thread holds a lock less than \<open>2 ^ 64\<close> times.
\<close>

definition gain :: "u64 \<Rightarrow> u64 \<Rightarrow> (u64 \<Rightarrow> u64 \<Rightarrow> nat) \<Rightarrow> u64 \<Rightarrow> u64 \<Rightarrow> nat" where
  "gain cs t d = d(cs := (d cs)(t := d cs t + 1))"

definition lose :: "u64 \<Rightarrow> u64 \<Rightarrow> (u64 \<Rightarrow> u64 \<Rightarrow> nat) \<Rightarrow> u64 \<Rightarrow> u64 \<Rightarrow> nat" where
  "lose cs t d = d(cs := (d cs)(t := d cs t - 1))"

inductive lock_run :: "global_locks \<Rightarrow> (u64 \<Rightarrow> u64 \<Rightarrow> nat) \<Rightarrow> bool" where
  start: "lock_run global_locks_new (\<lambda>_ _. 0)"
| acquire: "lock_run g d \<Longrightarrow> lock_enter cs t g = (True, g') \<Longrightarrow> d cs t + 1 < 2 ^ 64 \<Longrightarrow> lock_run g' (gain cs t d)"
| wait: "lock_run g d \<Longrightarrow> lock_enter cs t g = (False, g') \<Longrightarrow> lock_run g' d"
| release: "lock_run g d \<Longrightarrow> lock_leave cs t g = (None, g') \<Longrightarrow> lock_run g' (lose cs t d)"
| hand_over: "lock_run g d \<Longrightarrow> lock_leave cs t g = (Some n, g') \<Longrightarrow> lock_run g' (gain cs n (lose cs t d))"

definition held_by :: "u64 \<Rightarrow> nat \<Rightarrow> (u64 \<Rightarrow> nat) \<Rightarrow> bool" where
  "held_by t k d \<longleftrightarrow> 0 < k \<and> d = (\<lambda>_. 0)(t := k)"

definition crit_inv :: "crit_state option \<Rightarrow> (u64 \<Rightarrow> nat) \<Rightarrow> bool" where
  "crit_inv cs d \<longleftrightarrow>
     (case cs of
        None \<Rightarrow> d = (\<lambda>_. 0)
      | Some cs \<Rightarrow>
          (case owner_tid cs of
             None \<Rightarrow> d = (\<lambda>_. 0) \<and> wait_queue cs = []
           | Some t \<Rightarrow> held_by t (unat (recursion_count cs)) d \<and> distinct (t # wait_queue cs)))"

lemma crit_inv_simps:
  "crit_inv None e \<longleftrightarrow> e = (\<lambda>_. 0)"
  "owner_tid st = None \<Longrightarrow> crit_inv (Some st) e \<longleftrightarrow> e = (\<lambda>_. 0) \<and> wait_queue st = []"
  "owner_tid st = Some t \<Longrightarrow>
     crit_inv (Some st) e \<longleftrightarrow> held_by t (unat (recursion_count st)) e \<and> distinct (t # wait_queue st)"
  by (simp_all add: crit_inv_def)

lemma gain_lose_frame [simp]: "c \<noteq> cs \<Longrightarrow> gain cs t d c = d c" "c \<noteq> cs \<Longrightarrow> lose cs t d c = d c"
  by (simp_all add: gain_def lose_def)

lemma enter_inv:
  assumes inv: "\<forall>c. crit_inv (crit_map g c) (d c)" and enter: "lock_enter cs t g = (ok, g')" and lim: "d cs t + 1 < 2 ^ 64"
  shows "\<forall>c. crit_inv (crit_map g' c) ((if ok then gain cs t d else d) c)"
    and "ok \<longleftrightarrow> (\<forall>s. s \<noteq> t \<longrightarrow> d cs s = 0)"
proof -
  let ?cs = "case crit_map g cs of Some cs \<Rightarrow> cs | None \<Rightarrow> \<lparr>owner_tid = None, recursion_count = 0, wait_queue = []\<rparr>"
  have cs: "crit_inv (Some ?cs) (d cs)"
    using inv[rule_format, of cs] by (auto simp: crit_inv_def split: option.splits)
  have "(\<forall>c. crit_inv (crit_map g' c) ((if ok then gain cs t d else d) c)) \<and> (ok \<longleftrightarrow> (\<forall>s. s \<noteq> t \<longrightarrow> d cs s = 0))"
  proof (cases "owner_tid ?cs")
    case None
    then show ?thesis
      using inv cs enter by (auto simp: lock_enter_def Let_def crit_inv_def held_by_def gain_def)
  next
    case (Some u)
    then have u: "held_by u (unat (recursion_count ?cs)) (d cs)" "distinct (u # wait_queue ?cs)"
      using cs by (simp_all add: crit_inv_def)
    show ?thesis
    proof (cases "u = t")
      case True
      then have "unat (recursion_count ?cs + 1) = unat (recursion_count ?cs) + 1"
        using True u(1) lim unat_add64[of "recursion_count ?cs" 1] by (simp add: held_by_def)
      then show ?thesis
        using True Some inv u enter by (auto simp: lock_enter_def Let_def crit_inv_def held_by_def gain_def fun_eq_iff)
    next
      case False
      then show ?thesis
        using Some inv u enter by (auto simp: lock_enter_def Let_def crit_inv_def held_by_def fun_eq_iff)
    qed
  qed
  then show "\<forall>c. crit_inv (crit_map g' c) ((if ok then gain cs t d else d) c)" "ok \<longleftrightarrow> (\<forall>s. s \<noteq> t \<longrightarrow> d cs s = 0)"
    by blast+
qed

lemma leave_inv:
  assumes inv: "\<forall>c. crit_inv (crit_map g c) (d c)" and leave: "lock_leave cs t g = (w, g')"
  shows "\<forall>c. crit_inv (crit_map g' c) ((case w of None \<Rightarrow> lose cs t d | Some n \<Rightarrow> gain cs n (lose cs t d)) c)"
    and "d cs t = 0 \<Longrightarrow> w = None \<and> g' = g"
    and "w = Some n \<Longrightarrow> d cs t = 1 \<and> n \<noteq> t"
proof -
  have "(\<forall>c. crit_inv (crit_map g' c) ((case w of None \<Rightarrow> lose cs t d | Some n \<Rightarrow> gain cs n (lose cs t d)) c))
    \<and> (d cs t = 0 \<longrightarrow> w = None \<and> g' = g) \<and> (w = Some n \<longrightarrow> d cs t = 1 \<and> n \<noteq> t)"
  proof (cases "crit_map g cs")
    case None
    then have "d cs = (\<lambda>_. 0)"
      using inv[rule_format, of cs] by (simp add: crit_inv_def)
    then have "lose cs t d = d"
      by (simp add: lose_def fun_eq_iff)
    then show ?thesis
      using None inv leave by (auto simp: lock_leave_def)
  next
    case (Some st)
    then have st: "crit_inv (Some st) (d cs)"
      using inv[rule_format, of cs] by simp
    show ?thesis
    proof (cases "owner_tid st = Some t")
      case False
      then have "d cs t = 0"
        using st by (auto simp: crit_inv_def held_by_def split: option.splits)
      then have "lose cs t d = d"
        by (simp add: lose_def fun_eq_iff)
      then show ?thesis
        using False Some inv leave by (auto simp: lock_leave_def)
    next
      case True
      then have own: "held_by t (unat (recursion_count st)) (d cs)" "distinct (t # wait_queue st)"
        using st by (simp_all add: crit_inv_def)
      show ?thesis
      proof (cases "1 < recursion_count st")
        case more: True
        then have "unat (recursion_count st - 1) = unat (recursion_count st) - 1" "1 < unat (recursion_count st)"
          using unat_sub64[of 1 "recursion_count st"] by (simp_all add: word_less_nat_alt word_le_nat_alt)
        then show ?thesis
          using more True Some inv own leave
          by (auto simp: lock_leave_def crit_inv_def held_by_def lose_def fun_eq_iff)
      next
        case last: False
        then have "unat (recursion_count st) = 1"
          using own(1) by (simp add: held_by_def word_less_nat_alt)
        then show ?thesis
          using last True Some inv own leave
          by (cases "wait_queue st")
            (auto simp: lock_leave_def crit_inv_simps held_by_def lose_def gain_def fun_eq_iff)
      qed
    qed
  qed
  then show "\<forall>c. crit_inv (crit_map g' c) ((case w of None \<Rightarrow> lose cs t d | Some n \<Rightarrow> gain cs n (lose cs t d)) c)"
    "d cs t = 0 \<Longrightarrow> w = None \<and> g' = g" "w = Some n \<Longrightarrow> d cs t = 1 \<and> n \<noteq> t"
    by auto
qed

lemma lock_run_inv: "lock_run g d \<Longrightarrow> \<forall>c. crit_inv (crit_map g c) (d c)"
proof (induction rule: lock_run.induct)
  case start
  then show ?case
    by (simp add: global_locks_new_def crit_inv_simps)
next
  case (acquire g d cs t g')
  then show ?case
    using enter_inv(1)[OF acquire.IH acquire.hyps(2)] by simp
next
  case (wait g d cs t g')
  show ?case
  proof (cases "d cs t + 1 < 2 ^ 64")
    case True
    then show ?thesis
      using enter_inv(1)[OF wait.IH wait.hyps(2)] by simp
  next
    case False
    then have "owner_tid st = Some t" if "crit_map g cs = Some st" for st
      using wait.IH[rule_format, of cs] that by (auto simp: crit_inv_def held_by_def split: option.splits if_splits)
    then show ?thesis
      using wait False wait.IH[rule_format, of cs]
      by (auto simp: lock_enter_def crit_inv_simps split: option.splits if_splits)
  qed
next
  case (release g d cs t g')
  then show ?case
    using leave_inv(1)[OF release.IH release.hyps(2)] by simp
next
  case (hand_over g d cs t n g')
  then show ?case
    using leave_inv(1)[OF hand_over.IH hand_over.hyps(2)] by simp
qed

lemma crit_inv_exclusive:
  assumes "crit_inv cs e" "0 < e s"
  shows "\<exists>st. cs = Some st \<and> owner_tid st = Some s \<and> unat (recursion_count st) = e s \<and> (\<forall>t. t \<noteq> s \<longrightarrow> e t = 0)"
  using assms by (auto simp: crit_inv_def held_by_def split: option.splits if_splits)

text \<open>
  C28: whatever the interleaving of the calls of all threads, at most one thread holds a lock at a time, and the
  lock records this thread as its owner and how often it holds the lock; a lock with an owner is held; no waiting
  thread holds the lock or waits twice;
  \<open>enter\<close> succeeds exactly when no other thread holds the lock; \<open>leave\<close> by a thread that does not hold the lock
  changes nothing; a lock with waiting threads is held, and the last \<open>leave\<close> of its holder passes it to the
  first waiting thread.
\<close>

theorem locks_exclusive:
  assumes "lock_run g d"
  shows "(0 < d cs s \<and> 0 < d cs t \<longrightarrow> s = t)
    \<and> (0 < d cs s \<longrightarrow> (\<exists>st. crit_map g cs = Some st \<and> owner_tid st = Some s \<and> unat (recursion_count st) = d cs s))
    \<and> (crit_map g cs = Some st \<and> owner_tid st = Some s \<longrightarrow> 0 < d cs s)
    \<and> (crit_map g cs = Some st \<longrightarrow> distinct (wait_queue st) \<and> (\<forall>n\<in>set (wait_queue st). d cs n = 0))
    \<and> (d cs t + 1 < 2 ^ 64 \<longrightarrow> fst (lock_enter cs t g) = (\<forall>s. s \<noteq> t \<longrightarrow> d cs s = 0))
    \<and> (d cs t = 0 \<longrightarrow> lock_leave cs t g = (None, g))
    \<and> (crit_map g cs = Some st \<and> wait_queue st = n # ns \<longrightarrow> (\<exists>o'. 0 < d cs o') \<and> d cs n = 0)
    \<and> (crit_map g cs = Some st \<and> wait_queue st = n # ns \<and> d cs t = 1 \<longrightarrow> fst (lock_leave cs t g) = Some n)"
proof -
  note inv = lock_run_inv[OF assms]
  have "lock_leave cs t g = (None, g)" if "d cs t = 0"
    using leave_inv(2)[OF inv _ that] by (metis prod.collapse)
  moreover have "fst (lock_enter cs t g) = (\<forall>s. s \<noteq> t \<longrightarrow> d cs s = 0)" if "d cs t + 1 < 2 ^ 64"
    using enter_inv(2)[OF inv _ that] by (metis prod.collapse)
  moreover have "s = t" if "0 < d cs s" "0 < d cs t"
    using crit_inv_exclusive[OF inv[rule_format], of cs s] that by force
  moreover have "(\<exists>o'. 0 < d cs o') \<and> d cs n = 0" if "crit_map g cs = Some st" "wait_queue st = n # ns"
    using inv[rule_format, of cs] that by (auto simp: crit_inv_def held_by_def split: option.splits)
  moreover have "fst (lock_leave cs t g) = Some n" if "crit_map g cs = Some st" "wait_queue st = n # ns" "d cs t = 1"
  proof -
    have "owner_tid st = Some t" "unat (recursion_count st) = 1"
      using crit_inv_exclusive[OF inv[rule_format], of cs t] that by auto
    then show ?thesis
      using that by (simp add: lock_leave_def word_less_nat_alt)
  qed
  moreover have "\<exists>st. crit_map g cs = Some st \<and> owner_tid st = Some s \<and> unat (recursion_count st) = d cs s" if "0 < d cs s"
    using crit_inv_exclusive[OF inv[rule_format] that] by blast
  moreover have "0 < d cs s" if "crit_map g cs = Some st" "owner_tid st = Some s"
    using inv[rule_format, of cs] that by (simp add: crit_inv_simps held_by_def)
  moreover have "distinct (wait_queue st) \<and> (\<forall>n\<in>set (wait_queue st). d cs n = 0)" if "crit_map g cs = Some st"
    using inv[rule_format, of cs] that by (auto simp: crit_inv_def held_by_def split: option.splits)
  ultimately show ?thesis
    by blast
qed

theorem locks_exclusive_witness:
  "\<exists>g d. lock_run g d \<and> 0 < d 1 5 \<and> (\<exists>st. crit_map g 1 = Some st \<and> owner_tid st = Some 5)
     \<and> fst (lock_enter 1 6 g) = False \<and> fst (lock_leave 1 5 g) = Some 6"
proof -
  obtain g where g: "lock_enter 1 5 global_locks_new = (True, g)"
    by (simp add: lock_enter_def global_locks_new_def)
  obtain g' where g': "lock_enter 1 6 g = (False, g')" "wait_queue (the (crit_map g' 1)) = [6]" "crit_map g' 1 \<noteq> None"
    using g by (auto simp: lock_enter_def global_locks_new_def)
  define d where "d = gain 1 5 (\<lambda>_ _. 0)"
  have "lock_run g d"
    unfolding d_def by (rule lock_run.acquire[OF lock_run.start g]) simp
  then have run: "lock_run g' d"
    by (rule lock_run.wait) (rule g'(1))
  obtain st where st: "crit_map g' 1 = Some st" "wait_queue st = [6]"
    using g'(2,3) by auto
  have d: "d 1 5 = 1" "d 1 6 = 0"
    by (simp_all add: d_def gain_def)
  have "fst (lock_enter 1 6 g') = (\<forall>s. s \<noteq> 6 \<longrightarrow> d 1 s = 0)" "fst (lock_leave 1 5 g') = Some 6"
    using locks_exclusive[OF run, of 1 5 6 st 6 "[]"] locks_exclusive[OF run, of 1 5 5 st 6 "[]"] d st by simp_all
  moreover have "\<exists>st. crit_map g' 1 = Some st \<and> owner_tid st = Some 5"
    using locks_exclusive[OF run, of 1 5 5 st 6 "[]"] d(1) by auto
  moreover have "\<not> (\<forall>s. s \<noteq> 6 \<longrightarrow> d 1 s = 0)"
    using d(1) by (intro notI) (auto dest: spec[of _ 5])
  ultimately show ?thesis
    using run d(1) by (intro exI[of _ g'] exI[of _ d]) auto
qed

end
