(* ===== verification/Kernel_Heap.thy ===== *)
theory Kernel_Heap
  imports Mwemu_Prelude Number_Format
begin

section \<open>The ledger of the emulated kernel allocators\<close>

text \<open>
  A model of \<^verbatim>\<open>crates/libmwemu/src/kernel/layout.rs\<close> and \<^verbatim>\<open>crates/libmwemu/src/kernel/heap.rs\<close>: the plan of
  the kernel address space, and the ledger that hands out chunk addresses and remembers the
  provenance of every chunk, alive or freed. The labels of the regions, which only appear in log
  messages, are not modelled.

  \<open>Vec<KernelChunk>\<close> is a list and a reference to a chunk is the chunk. \<open>slice::partition_point\<close> is the
  binary search of the Rust standard library; on a slice that is not partitioned by its predicate the
  library promises nothing, and no theorem relies on its value there.
\<close>

subsection \<open>Address-space plans\<close>

datatype kernel_os = Linux | Windows | MacOS

record kernel_layout =
  l_stub_base :: u64
  l_stub_size :: u64
  l_data_base :: u64
  l_data_size :: u64
  l_module_base :: u64
  l_heap_base :: u64
  l_heap_size :: u64
  l_vmalloc_base :: u64
  l_vmalloc_size :: u64
  l_stack_base :: u64
  l_stack_size :: u64

definition STUB_SLOT :: u64 where
  "STUB_SLOT = 16"

definition HEAP_REDZONE :: u64 where
  "HEAP_REDZONE = 0x1000"

definition retpad :: "kernel_layout \<Rightarrow> u64" where
  "retpad l = l_stub_base l + l_stub_size l"

fun for_os :: "kernel_os \<Rightarrow> kernel_layout" where
  "for_os Linux =
     \<lparr>l_stub_base = 0xffffffff81000000, l_stub_size = 0x100000,
      l_data_base = 0xffffffff82000000, l_data_size = 0x100000,
      l_module_base = 0xffffffffc0000000,
      l_heap_base = 0xffff888000000000, l_heap_size = 0x10000000,
      l_vmalloc_base = 0xffffc90000000000, l_vmalloc_size = 0x10000000,
      l_stack_base = 0xffffc90000100000, l_stack_size = 0x20000\<rparr>"
| "for_os Windows =
     \<lparr>l_stub_base = 0xfffff80000000000, l_stub_size = 0x100000,
      l_data_base = 0xfffff80000200000, l_data_size = 0x100000,
      l_module_base = 0xfffff80000400000,
      l_heap_base = 0xffffe00000000000, l_heap_size = 0x10000000,
      l_vmalloc_base = 0xffffe10000000000, l_vmalloc_size = 0x10000000,
      l_stack_base = 0xffffe20000000000, l_stack_size = 0x20000\<rparr>"
| "for_os MacOS =
     \<lparr>l_stub_base = 0xffffff8000200000, l_stub_size = 0x100000,
      l_data_base = 0xffffff8000400000, l_data_size = 0x100000,
      l_module_base = 0xffffff8000600000,
      l_heap_base = 0xffffff9000000000, l_heap_size = 0x10000000,
      l_vmalloc_base = 0xffffff9100000000, l_vmalloc_size = 0x10000000,
      l_stack_base = 0xffffff9200000000, l_stack_size = 0x20000\<rparr>"

definition is_stub :: "kernel_layout \<Rightarrow> u64 \<Rightarrow> bool" where
  "is_stub l addr \<longleftrightarrow> l_stub_base l \<le> addr \<and> addr < l_stub_base l + l_stub_size l"

subsection \<open>Chunks\<close>

datatype region = Slab | Vmalloc | Pages

datatype chunk_state = Live | Freed

record kernel_chunk =
  c_addr :: u64
  c_size :: u64
  c_req_size :: u64
  c_region :: region
  c_state :: chunk_state
  c_cache :: string
  c_map_name :: string
  c_alloc_api :: string
  c_alloc_pos :: u64
  c_alloc_rip :: u64
  c_free_api :: string
  c_free_pos :: u64
  c_free_rip :: u64

definition chunk_contains :: "kernel_chunk \<Rightarrow> u64 \<Rightarrow> bool" where
  "chunk_contains c addr \<longleftrightarrow> c_addr c \<le> addr \<and> addr < c_addr c + c_size c"

definition offset_of :: "kernel_chunk \<Rightarrow> u64 \<Rightarrow> u64" where
  "offset_of c addr = addr - c_addr c"

definition is_freed :: "kernel_chunk \<Rightarrow> bool" where
  "is_freed c \<longleftrightarrow> c_state c = Freed"

subsection \<open>The ledger\<close>

record kernel_heap =
  slab_cursor :: u64
  slab_end :: u64
  vmalloc_cursor :: u64
  vmalloc_end :: u64
  chunks :: "kernel_chunk list"
  serial :: u64

definition kernel_heap_new :: "u64 \<Rightarrow> u64 \<Rightarrow> u64 \<Rightarrow> u64 \<Rightarrow> kernel_heap" where
  "kernel_heap_new slab_base slab_size vmalloc_base vmalloc_size =
     \<lparr>slab_cursor = slab_base, slab_end = slab_base + slab_size,
      vmalloc_cursor = vmalloc_base, vmalloc_end = vmalloc_base + vmalloc_size,
      chunks = [], serial = 0\<rparr>"

text \<open>\<open>u64::next_multiple_of\<close>, which wraps without overflow checks.\<close>

definition next_multiple_of :: "u64 \<Rightarrow> u64 \<Rightarrow> u64" where
  "next_multiple_of x n = (let r = x mod n in if r = 0 then x else x + (n - r))"

definition BUCKETS :: "u64 list" where
  "BUCKETS = [8, 16, 32, 64, 96, 128, 192, 256, 512, 1024, 2048, 4096]"

definition bucket :: "u64 \<Rightarrow> u64" where
  "bucket sz =
     (case List.find (\<lambda>b. sz \<le> b) BUCKETS of
        Some b \<Rightarrow> b
      | None \<Rightarrow> next_multiple_of sz 0x1000)"

definition chunk_bytes :: "region \<Rightarrow> u64 \<Rightarrow> u64" where
  "chunk_bytes region req_size =
     (case region of
        Slab \<Rightarrow> bucket (max req_size 1)
      | _ \<Rightarrow> next_multiple_of (max req_size 1) 0x1000)"

definition region_cursor :: "region \<Rightarrow> kernel_heap \<Rightarrow> u64" where
  "region_cursor region h = (case region of Slab \<Rightarrow> slab_cursor h | _ \<Rightarrow> vmalloc_cursor h)"

definition region_end :: "region \<Rightarrow> kernel_heap \<Rightarrow> u64" where
  "region_end region h = (case region of Slab \<Rightarrow> slab_end h | _ \<Rightarrow> vmalloc_end h)"

definition set_cursor :: "region \<Rightarrow> u64 \<Rightarrow> kernel_heap \<Rightarrow> kernel_heap" where
  "set_cursor region c h = (case region of Slab \<Rightarrow> h\<lparr>slab_cursor := c\<rparr> | _ \<Rightarrow> h\<lparr>vmalloc_cursor := c\<rparr>)"

definition record_alloc ::
  "region \<Rightarrow> u64 \<Rightarrow> string \<Rightarrow> string \<Rightarrow> u64 \<Rightarrow> u64 \<Rightarrow> kernel_heap \<Rightarrow> kernel_chunk option \<times> kernel_heap" where
  "record_alloc region req_size cache api pos rip h =
     (let sz = chunk_bytes region req_size;
          addr = next_multiple_of (region_cursor region h) 16
      in if region_end region h < addr + sz + HEAP_REDZONE then (None, h)
         else
           let h = set_cursor region (addr + sz + HEAP_REDZONE) h;
               h = h\<lparr>serial := serial h + 1\<rparr>;
               c = \<lparr>c_addr = addr, c_size = sz, c_req_size = req_size, c_region = region, c_state = Live,
                    c_cache = cache, c_map_name = cache @ ''#'' @ fmt_radix 10 (unat (serial h)),
                    c_alloc_api = api, c_alloc_pos = pos, c_alloc_rip = rip,
                    c_free_api = [], c_free_pos = 0, c_free_rip = 0\<rparr>
           in (Some c, h\<lparr>chunks := chunks h @ [c]\<rparr>))"

text \<open>The loop of \<open>slice::partition_point\<close>.\<close>

function partition_loop :: "('a \<Rightarrow> bool) \<Rightarrow> 'a list \<Rightarrow> nat \<Rightarrow> nat \<Rightarrow> nat" where
  "partition_loop p xs base sz =
     (if sz \<le> 1 then base
      else
        let half = sz div 2;
            mid = base + half
        in partition_loop p xs (if p (xs ! mid) then mid else base) (sz - half))"
  by auto
termination
  by (relation "measure (\<lambda>(p, xs, base, sz). sz)") auto

declare partition_loop.simps [simp del]

definition partition_point :: "('a \<Rightarrow> bool) \<Rightarrow> 'a list \<Rightarrow> nat" where
  "partition_point p xs =
     (if xs = [] then 0
      else
        let base = partition_loop p xs 0 (length xs)
        in if p (xs ! base) then base + 1 else base)"

definition index_of :: "u64 \<Rightarrow> kernel_heap \<Rightarrow> nat option" where
  "index_of addr h =
     (let idx = partition_point (\<lambda>c. c_addr c \<le> addr) (chunks h)
      in if idx = 0 then None
         else if chunk_contains (chunks h ! (idx - 1)) addr then Some (idx - 1)
         else None)"

text \<open>\<open>Iterator::position\<close>.\<close>

definition position :: "('a \<Rightarrow> bool) \<Rightarrow> 'a list \<Rightarrow> nat option" where
  "position p xs =
     (let i = length (takeWhile (\<lambda>x. \<not> p x) xs) in if i < length xs then Some i else None)"

lemma position_Some:
  "position P xs = Some i \<longleftrightarrow> i < length xs \<and> P (xs ! i) \<and> (\<forall>j<i. \<not> P (xs ! j))"
  unfolding position_def Let_def
  using nth_length_takeWhile[of "\<lambda>x. \<not> P x" xs] length_takeWhile_less_P_nth[of _ "\<lambda>x. \<not> P x" xs]
  by (auto simp: not_less) (metis (no_types, lifting) length_takeWhile_le linorder_neqE_nat nth_mem set_takeWhileD takeWhile_nth not_less)+

definition index_of_base :: "u64 \<Rightarrow> kernel_heap \<Rightarrow> nat option" where
  "index_of_base addr h = position (\<lambda>c. c_addr c = addr) (chunks h)"

definition heap_get :: "nat \<Rightarrow> kernel_heap \<Rightarrow> kernel_chunk outcome" where
  "heap_get idx h = vec_index (chunks h) idx"

definition chunk_at :: "u64 \<Rightarrow> kernel_heap \<Rightarrow> kernel_chunk option" where
  "chunk_at addr h = map_option (\<lambda>i. chunks h ! i) (index_of addr h)"

definition record_free :: "nat \<Rightarrow> string \<Rightarrow> u64 \<Rightarrow> u64 \<Rightarrow> kernel_heap \<Rightarrow> kernel_heap outcome" where
  "record_free idx api pos rip h =
     obind (vec_index (chunks h) idx) (\<lambda>c.
       Ret (h\<lparr>chunks := (chunks h)[idx :=
              c\<lparr>c_state := Freed, c_free_api := api, c_free_pos := pos, c_free_rip := rip\<rparr>]\<rparr>))"

definition live :: "kernel_heap \<Rightarrow> kernel_chunk list" where
  "live h = filter (\<lambda>c. \<not> is_freed c) (chunks h)"

definition live_bytes :: "kernel_heap \<Rightarrow> u64" where
  "live_bytes h = sum_list (map c_size (live h))"

end
