(* ===== verification/Regs_Aarch64.thy ===== *)
theory Regs_Aarch64
  imports Word_Casts
begin

section \<open>AArch64 registers and condition flags\<close>

text \<open>
  A model of \<^verbatim>\<open>crates/libmwemu/src/arch/aarch64/regs.rs\<close>: the flags N, Z, C, V, how additions,
  subtractions and logical operations set them, the condition codes, and the register file, whose
  arrays are lists. Access by name and the textual difference of two register files are not modelled.

  The lemmas show that the flags are those of the architecture manual, that packing and unpacking
  the flags are inverse, and that the condition codes decide the comparisons they are named after.
\<close>

unbundle bit_operations_syntax

subsection \<open>Condition flags\<close>

record nzcv =
  n_flag :: bool
  z_flag :: bool
  c_flag :: bool
  v_flag :: bool

definition nzcv_new :: nzcv where
  "nzcv_new = \<lparr>n_flag = False, z_flag = False, c_flag = False, v_flag = False\<rparr>"

definition nzcv_as_u64 :: "nzcv \<Rightarrow> u64" where
  "nzcv_as_u64 f =
     push_bit 31 (of_bool (n_flag f)) OR push_bit 30 (of_bool (z_flag f))
     OR push_bit 29 (of_bool (c_flag f)) OR push_bit 28 (of_bool (v_flag f))"

definition nzcv_from_u64 :: "u64 \<Rightarrow> nzcv" where
  "nzcv_from_u64 val =
     \<lparr>n_flag = drop_bit 31 val AND 1 \<noteq> 0, z_flag = drop_bit 30 val AND 1 \<noteq> 0,
      c_flag = drop_bit 29 val AND 1 \<noteq> 0, v_flag = drop_bit 28 val AND 1 \<noteq> 0\<rparr>"

definition update_add64 :: "u64 \<Rightarrow> u64 \<Rightarrow> u64 \<Rightarrow> nzcv" where
  "update_add64 a b result =
     \<lparr>n_flag = result <s 0, z_flag = result = 0, c_flag = result < a,
      v_flag = ((a XOR result) AND (b XOR result)) <s 0\<rparr>"

definition update_add32 :: "u32 \<Rightarrow> u32 \<Rightarrow> u32 \<Rightarrow> nzcv" where
  "update_add32 a b result =
     \<lparr>n_flag = result <s 0, z_flag = result = 0, c_flag = result < a,
      v_flag = ((a XOR result) AND (b XOR result)) <s 0\<rparr>"

definition update_sub64 :: "u64 \<Rightarrow> u64 \<Rightarrow> u64 \<Rightarrow> nzcv" where
  "update_sub64 a b result =
     \<lparr>n_flag = result <s 0, z_flag = result = 0, c_flag = b \<le> a,
      v_flag = ((a XOR b) AND (a XOR result)) <s 0\<rparr>"

definition update_sub32 :: "u32 \<Rightarrow> u32 \<Rightarrow> u32 \<Rightarrow> nzcv" where
  "update_sub32 a b result =
     \<lparr>n_flag = result <s 0, z_flag = result = 0, c_flag = b \<le> a,
      v_flag = ((a XOR b) AND (a XOR result)) <s 0\<rparr>"

definition update_logic64 :: "u64 \<Rightarrow> nzcv" where
  "update_logic64 result = \<lparr>n_flag = result <s 0, z_flag = result = 0, c_flag = False, v_flag = False\<rparr>"

definition update_logic32 :: "u32 \<Rightarrow> nzcv" where
  "update_logic32 result = \<lparr>n_flag = result <s 0, z_flag = result = 0, c_flag = False, v_flag = False\<rparr>"

definition eval_condition :: "nzcv \<Rightarrow> u8 \<Rightarrow> bool" where
  "eval_condition f cond =
     (let k = cond AND 0xf
      in if k = 0 then z_flag f
         else if k = 1 then \<not> z_flag f
         else if k = 2 then c_flag f
         else if k = 3 then \<not> c_flag f
         else if k = 4 then n_flag f
         else if k = 5 then \<not> n_flag f
         else if k = 6 then v_flag f
         else if k = 7 then \<not> v_flag f
         else if k = 8 then c_flag f \<and> \<not> z_flag f
         else if k = 9 then \<not> c_flag f \<or> z_flag f
         else if k = 10 then n_flag f = v_flag f
         else if k = 11 then n_flag f \<noteq> v_flag f
         else if k = 12 then \<not> z_flag f \<and> n_flag f = v_flag f
         else if k = 13 then z_flag f \<or> n_flag f \<noteq> v_flag f
         else True)"

subsection \<open>The register file\<close>

record regs_aarch64 =
  x_regs :: "u64 list"
  sp :: u64
  pc :: u64
  nzcv :: nzcv
  tpidr_el0 :: u64
  fpcr :: u64
  fpsr :: u64
  v_regs :: "u128 list"

definition regs_aarch64_new :: regs_aarch64 where
  "regs_aarch64_new =
     \<lparr>x_regs = replicate 31 0, sp = 0, pc = 0, nzcv = nzcv_new, tpidr_el0 = 0, fpcr = 0, fpsr = 0, v_regs = replicate 32 0\<rparr>"

definition get_x :: "nat \<Rightarrow> regs_aarch64 \<Rightarrow> u64 outcome" where
  "get_x reg r = (if reg = 31 then Ret 0 else vec_index (x_regs r) reg)"

definition get_w :: "nat \<Rightarrow> regs_aarch64 \<Rightarrow> u32 outcome" where
  "get_w reg r = obind (get_x reg r) (\<lambda>val. Ret (ucast val))"

definition set_x :: "nat \<Rightarrow> u64 \<Rightarrow> regs_aarch64 \<Rightarrow> regs_aarch64 outcome" where
  "set_x reg val r =
     (if reg < 31 then obind (vec_store (x_regs r) reg val) (\<lambda>xs. Ret (r\<lparr>x_regs := xs\<rparr>)) else Ret r)"

definition set_w :: "nat \<Rightarrow> u32 \<Rightarrow> regs_aarch64 \<Rightarrow> regs_aarch64 outcome" where
  "set_w reg val r = set_x reg (ucast val) r"

definition get_x_or_sp :: "nat \<Rightarrow> regs_aarch64 \<Rightarrow> u64 outcome" where
  "get_x_or_sp reg r = (if reg = 31 then Ret (sp r) else vec_index (x_regs r) reg)"

definition set_x_or_sp :: "nat \<Rightarrow> u64 \<Rightarrow> regs_aarch64 \<Rightarrow> regs_aarch64 outcome" where
  "set_x_or_sp reg val r =
     (if reg = 31 then Ret (r\<lparr>sp := val\<rparr>)
      else obind (vec_store (x_regs r) reg val) (\<lambda>xs. Ret (r\<lparr>x_regs := xs\<rparr>)))"

subsection \<open>The flags of the architecture\<close>

text \<open>The flags of \<open>AddWithCarry(a, b, c)\<close> in the architecture manual.\<close>

definition add_with_carry_flags :: "'a::len word \<Rightarrow> 'a word \<Rightarrow> bool \<Rightarrow> nzcv" where
  "add_with_carry_flags a b c =
     \<lparr>n_flag = sint (a + b + of_bool c) < 0, z_flag = a + b + of_bool c = 0,
      c_flag = 2 ^ LENGTH('a) \<le> unat a + unat b + of_bool c,
      v_flag = sint (a + b + of_bool c) \<noteq> sint a + sint b + of_bool c\<rparr>"

lemma sint_in_range:
  fixes w :: "'a::len word"
  assumes "LENGTH('a) = Suc n" "w = of_int i"
  shows "sint w = i \<longleftrightarrow> - (2 ^ n) \<le> i \<and> i < 2 ^ n"
proof
  show "- (2 ^ n) \<le> i \<and> i < 2 ^ n" if "sint w = i"
    using that sint_ge[of w] sint_lt[of w] assms(1) by simp
  show "sint w = i" if "- (2 ^ n) \<le> i \<and> i < 2 ^ n"
    using that assms by (simp add: sint_sbintrunc' signed_take_bit_int_eq_self)
qed

lemma add_overflow_bits:
  fixes a b :: "'a::len word" and c :: bool
  assumes "LENGTH('a) = Suc n"
  defines "r \<equiv> a + b + of_bool c"
  shows "(bit a n \<noteq> bit r n) \<and> (bit b n \<noteq> bit r n) \<longleftrightarrow> sint r \<noteq> sint a + sint b + of_bool c"
proof -
  have "(bit a n \<noteq> bit r n) \<and> (bit b n \<noteq> bit r n) \<longleftrightarrow> carry_at (Suc n) a b c \<noteq> carry_at n a b c"
    using bit_add_carry[of n a b c] carry_at_Suc[of n a b c] assms(1) by (auto simp: r_def)
  also have "\<dots> \<longleftrightarrow> sint r \<noteq> sint a + sint b + of_bool c"
    unfolding signed_add_overflow_iff[OF assms(1)]
    by (subst sint_in_range[OF assms(1)]) (simp_all add: r_def)
  finally show ?thesis .
qed

lemma mod_sum_less:
  fixes m :: nat
  assumes "i < m" "j < m"
  shows "(i + j) mod m < i \<longleftrightarrow> m \<le> i + j"
proof (cases "i + j < m")
  case False
  then have "(i + j) mod m = i + j - m"
    using assms by (simp add: mod_if)
  then show ?thesis
    using assms False by auto
qed simp

lemma add_flags_eq:
  fixes a b :: "'a::len word"
  assumes "LENGTH('a) = Suc n"
  shows "\<lparr>n_flag = a + b <s 0, z_flag = a + b = 0, c_flag = a + b < a, v_flag = ((a XOR (a + b)) AND (b XOR (a + b))) <s 0\<rparr>
    = add_with_carry_flags a b False"
proof -
  have carry: "a + b < a \<longleftrightarrow> 2 ^ LENGTH('a) \<le> unat a + unat b"
    by (simp add: word_less_nat_alt unat_word_ariths mod_sum_less)
  have "((a XOR (a + b)) AND (b XOR (a + b))) <s 0 \<longleftrightarrow> sint (a + b) \<noteq> sint a + sint b"
    using add_overflow_bits[OF assms, where a = a and b = b and c = False] assms
    by (simp add: word_sless_alt sint_neg_iff bit_simps)
  then show ?thesis
    using carry by (simp add: add_with_carry_flags_def word_sless_alt)
qed

lemma sub_flags_eq:
  fixes a b :: "'a::len word"
  assumes "LENGTH('a) = Suc n"
  shows "\<lparr>n_flag = a - b <s 0, z_flag = a - b = 0, c_flag = b \<le> a, v_flag = ((a XOR b) AND (a XOR (a - b))) <s 0\<rparr>
    = add_with_carry_flags a (NOT b) True"
proof -
  have r: "a + NOT b + 1 = a - b"
    by (simp add: not_eq_complement)
  have "NOT b = - 1 - b"
    by (simp add: not_eq_complement)
  then have "unat (NOT b) = 2 ^ LENGTH('a) - 1 - unat b"
    using unat_sub[of b "- 1"] by (simp add: unsigned_minus_1_eq_mask mask_eq_exp_minus_1)
  moreover have "unat b < 2 ^ LENGTH('a)"
    by (rule unsigned_less)
  ultimately have carry: "b \<le> a \<longleftrightarrow> 2 ^ LENGTH('a) \<le> unat a + unat (NOT b) + 1"
    unfolding word_le_nat_alt by linarith
  have "((a XOR b) AND (a XOR (a - b))) <s 0 \<longleftrightarrow> sint (a - b) \<noteq> sint a + sint (NOT b) + 1"
    using add_overflow_bits[OF assms, where a = a and b = "NOT b" and c = True] assms
    by (simp add: word_sless_alt sint_neg_iff bit_simps r) auto
  then show ?thesis
    using carry by (simp add: add_with_carry_flags_def word_sless_alt r)
qed

lemma update_flags_eq:
  "update_add64 a b (a + b) = add_with_carry_flags a b False" "update_add32 c d (c + d) = add_with_carry_flags c d False"
  "update_sub64 a b (a - b) = add_with_carry_flags a (NOT b) True"
  "update_sub32 c d (c - d) = add_with_carry_flags c (NOT d) True"
  unfolding update_add64_def update_add32_def update_sub64_def update_sub32_def
  by (rule add_flags_eq[of 63] add_flags_eq[of 31] sub_flags_eq[of 63] sub_flags_eq[of 31]; simp)+

subsection \<open>Conditions\<close>

lemma sint_NOT: "sint (NOT b) = - sint (b :: 'a::len word) - 1"
proof -
  have "- (2 ^ LENGTH('a)) \<le> - sint b - 1" "- sint b - 1 < 2 ^ LENGTH('a)"
    using sint_lt[of b] sint_ge[of b] power_increasing[of "LENGTH('a) - 1" "LENGTH('a)" "2::int"] by linarith+
  then show ?thesis
    by (simp add: signed_not_eq not_int_def signed_take_bit_int_eq_self)
qed

lemma wrapped_sign:
  fixes w :: "'a::len word"
  assumes "LENGTH('a) = Suc n" "w = word_of_int d" "- (2 * 2 ^ n) < d" "d < 2 * 2 ^ n"
  shows "(sint w < 0) = (sint w \<noteq> d) \<longleftrightarrow> 0 \<le> d"
proof -
  define m :: int where "m = 2 ^ n"
  have m: "0 < m" "- (2 * m) < d" "d < 2 * m"
    using assms(3,4) by (simp_all add: m_def)
  have w: "sint w = (d + m) mod (2 * m) - m"
    using assms(1,2) by (simp add: m_def signed_of_int signed_take_bit_eq_take_bit_shift take_bit_eq_mod)
  consider "d < - m" | "- m \<le> d" "d < m" | "m \<le> d"
    by linarith
  then show ?thesis
  proof cases
    case 1
    then have "(d + m) mod (2 * m) = d + 3 * m"
      using m by (intro int_mod_pos_eq[where q = "- 1"]) simp_all
    then show ?thesis
      using 1 m w by auto
  next
    case 2
    then have "(d + m) mod (2 * m) = d + m"
      by (intro mod_pos_pos_trivial) simp_all
    then show ?thesis
      using w by auto
  next
    case 3
    then have "(d + m) mod (2 * m) = d - m"
      using m by (intro int_mod_pos_eq[where q = 1]) simp_all
    then show ?thesis
      using 3 m w by auto
  qed
qed

lemma compare_flags:
  fixes a b :: "'a::len word"
  assumes "LENGTH('a) = Suc n"
  defines "f \<equiv> add_with_carry_flags a (NOT b) True"
  shows "z_flag f \<longleftrightarrow> a = b" "c_flag f \<longleftrightarrow> b \<le> a" "n_flag f = v_flag f \<longleftrightarrow> sint b \<le> sint a"
    "n_flag f \<longleftrightarrow> sint (a - b) < 0" "v_flag f \<longleftrightarrow> sint (a - b) \<noteq> sint a - sint b"
proof -
  have f: "f = \<lparr>n_flag = a - b <s 0, z_flag = a - b = 0, c_flag = b \<le> a, v_flag = ((a XOR b) AND (a XOR (a - b))) <s 0\<rparr>"
    unfolding f_def by (rule sub_flags_eq[OF assms(1), symmetric])
  show "z_flag f \<longleftrightarrow> a = b" "c_flag f \<longleftrightarrow> b \<le> a"
    by (simp_all add: f)
  have r: "a + NOT b + 1 = a - b"
    by (simp add: not_eq_complement)
  have "sint a < 2 ^ n" "sint b < 2 ^ n" "- (2 ^ n) \<le> sint a" "- (2 ^ n) \<le> sint b"
    using sint_lt[of a] sint_lt[of b] sint_ge[of a] sint_ge[of b] assms(1) by simp_all
  then have "(sint (a - b) < 0) = (sint (a - b) \<noteq> sint a - sint b) \<longleftrightarrow> 0 \<le> sint a - sint b"
    using assms(1) by (intro wrapped_sign) (simp_all, linarith+)
  then show "n_flag f = v_flag f \<longleftrightarrow> sint b \<le> sint a"
    by (simp add: f_def add_with_carry_flags_def r sint_NOT)
  show "n_flag f \<longleftrightarrow> sint (a - b) < 0" "v_flag f \<longleftrightarrow> sint (a - b) \<noteq> sint a - sint b"
    by (simp_all add: f_def add_with_carry_flags_def r sint_NOT)
qed

lemma eval_condition_codes:
  "eval_condition f 0 = z_flag f" "eval_condition f 1 = (\<not> z_flag f)" "eval_condition f 2 = c_flag f" "eval_condition f 3 = (\<not> c_flag f)"
  "eval_condition f 4 = n_flag f" "eval_condition f 5 = (\<not> n_flag f)" "eval_condition f 6 = v_flag f" "eval_condition f 7 = (\<not> v_flag f)"
  "eval_condition f 8 = (c_flag f \<and> \<not> z_flag f)" "eval_condition f 9 = (\<not> c_flag f \<or> z_flag f)"
  "eval_condition f 10 = (n_flag f = v_flag f)" "eval_condition f 11 = (\<not> (n_flag f = v_flag f))"
  "eval_condition f 12 = (\<not> z_flag f \<and> n_flag f = v_flag f)" "eval_condition f 13 = (z_flag f \<or> \<not> (n_flag f = v_flag f))"
  "eval_condition f 14" "eval_condition f 15"
  by (simp_all add: eval_condition_def)

lemma compare_codes:
  fixes a b :: "'a::len word"
  assumes "LENGTH('a) = Suc n"
  defines "f \<equiv> add_with_carry_flags a (NOT b) True"
  shows "eval_condition f 0 \<longleftrightarrow> a = b" "eval_condition f 1 \<longleftrightarrow> a \<noteq> b" "eval_condition f 2 \<longleftrightarrow> b \<le> a" "eval_condition f 3 \<longleftrightarrow> a < b"
    "eval_condition f 4 \<longleftrightarrow> sint (a - b) < 0" "eval_condition f 5 \<longleftrightarrow> 0 \<le> sint (a - b)"
    "eval_condition f 6 \<longleftrightarrow> sint (a - b) \<noteq> sint a - sint b" "eval_condition f 7 \<longleftrightarrow> sint (a - b) = sint a - sint b"
    "eval_condition f 8 \<longleftrightarrow> b < a" "eval_condition f 9 \<longleftrightarrow> a \<le> b"
    "eval_condition f 10 \<longleftrightarrow> sint b \<le> sint a" "eval_condition f 11 \<longleftrightarrow> sint a < sint b"
    "eval_condition f 12 \<longleftrightarrow> sint b < sint a" "eval_condition f 13 \<longleftrightarrow> sint a \<le> sint b"
proof -
  note F = compare_flags[OF assms(1), of a b, folded f_def]
  have "sint a = sint b \<longleftrightarrow> a = b"
    by (auto dest: signed_word_eqI)
  then show "eval_condition f 12 \<longleftrightarrow> sint b < sint a" "eval_condition f 13 \<longleftrightarrow> sint a \<le> sint b"
    unfolding eval_condition_codes F(1-3) by auto
  show "eval_condition f 10 \<longleftrightarrow> sint b \<le> sint a" "eval_condition f 11 \<longleftrightarrow> sint a < sint b"
    unfolding eval_condition_codes F(3) by auto
  show "eval_condition f 8 \<longleftrightarrow> b < a" "eval_condition f 9 \<longleftrightarrow> a \<le> b"
    unfolding eval_condition_codes F(1,2) by auto
qed (simp_all add: eval_condition_codes compare_flags(1,2,4,5)[OF assms(1), of a b, folded f_def] not_le not_less)

text \<open>
  C27: after comparing \<open>a\<close> with \<open>b\<close>, at 64 and at 32 bits, each of the sixteen condition codes holds exactly when
  what it is named after does: EQ, NE, the unsigned HS, LO, HI, LS and the signed GE, LT, GT, LE decide the order of
  the operands; MI and PL the sign of the wrapped difference, VS and VC whether it differs from the
  difference of the signed values; AL and NV always hold.
\<close>

theorem compare_conditions:
  fixes a b :: u64 and c d :: u32
  defines "f \<equiv> update_sub64 a b (a - b)" and "g \<equiv> update_sub32 c d (c - d)"
  shows "(eval_condition f 0 \<longleftrightarrow> a = b) \<and> (eval_condition f 1 \<longleftrightarrow> a \<noteq> b)
    \<and> (eval_condition f 2 \<longleftrightarrow> b \<le> a) \<and> (eval_condition f 3 \<longleftrightarrow> a < b)
    \<and> (eval_condition f 8 \<longleftrightarrow> b < a) \<and> (eval_condition f 9 \<longleftrightarrow> a \<le> b)
    \<and> (eval_condition f 10 \<longleftrightarrow> sint b \<le> sint a) \<and> (eval_condition f 11 \<longleftrightarrow> sint a < sint b)
    \<and> (eval_condition f 12 \<longleftrightarrow> sint b < sint a) \<and> (eval_condition f 13 \<longleftrightarrow> sint a \<le> sint b)
    \<and> (eval_condition f 4 \<longleftrightarrow> sint (a - b) < 0) \<and> (eval_condition f 5 \<longleftrightarrow> 0 \<le> sint (a - b))
    \<and> (eval_condition f 6 \<longleftrightarrow> sint (a - b) \<noteq> sint a - sint b) \<and> (eval_condition f 7 \<longleftrightarrow> sint (a - b) = sint a - sint b)
    \<and> eval_condition f 14 \<and> eval_condition f 15
    \<and> (eval_condition g 0 \<longleftrightarrow> c = d) \<and> (eval_condition g 1 \<longleftrightarrow> c \<noteq> d)
    \<and> (eval_condition g 2 \<longleftrightarrow> d \<le> c) \<and> (eval_condition g 3 \<longleftrightarrow> c < d)
    \<and> (eval_condition g 8 \<longleftrightarrow> d < c) \<and> (eval_condition g 9 \<longleftrightarrow> c \<le> d)
    \<and> (eval_condition g 10 \<longleftrightarrow> sint d \<le> sint c) \<and> (eval_condition g 11 \<longleftrightarrow> sint c < sint d)
    \<and> (eval_condition g 12 \<longleftrightarrow> sint d < sint c) \<and> (eval_condition g 13 \<longleftrightarrow> sint c \<le> sint d)
    \<and> (eval_condition g 4 \<longleftrightarrow> sint (c - d) < 0) \<and> (eval_condition g 5 \<longleftrightarrow> 0 \<le> sint (c - d))
    \<and> (eval_condition g 6 \<longleftrightarrow> sint (c - d) \<noteq> sint c - sint d) \<and> (eval_condition g 7 \<longleftrightarrow> sint (c - d) = sint c - sint d)
    \<and> eval_condition g 14 \<and> eval_condition g 15"
  using compare_codes[of 63 a b, folded update_flags_eq f_def] compare_codes[of 31 c d, folded update_flags_eq g_def]
    eval_condition_codes(15,16)[of f] eval_condition_codes(15,16)[of g]
  by (intro conjI) simp_all

text \<open>
  packing the flags into the upper bits of a word and unpacking them are inverse to each other, up to
  the bits that hold no flag.
\<close>

theorem nzcv_roundtrip:
  "nzcv_from_u64 (nzcv_as_u64 f) = f \<and> nzcv_as_u64 (nzcv_from_u64 w) = w AND 0xf0000000"
proof
  show "nzcv_from_u64 (nzcv_as_u64 f) = f"
    by (cases f) (simp add: nzcv_from_u64_def nzcv_as_u64_def and_one_eq_one_iff bit_simps)
  have m: "(0xf0000000 :: u64) = push_bit 28 (mask 4)"
    by (simp add: mask_eq_exp_minus_1 push_bit_eq_mult)
  show "nzcv_as_u64 (nzcv_from_u64 w) = w AND 0xf0000000"
  proof (rule bit_eqI)
    fix n :: nat
    have "28 \<le> n \<and> n - 28 < 4 \<longleftrightarrow> n = 28 \<or> n = 29 \<or> n = 30 \<or> n = 31"
      by auto
    then show "bit (nzcv_as_u64 (nzcv_from_u64 w)) n \<longleftrightarrow> bit (w AND 0xf0000000) n"
      unfolding m by (auto simp: nzcv_from_u64_def nzcv_as_u64_def and_one_eq_one_iff bit_simps bit_1_iff)
  qed
qed

end
