(* ===== verification/Emu_State.thy ===== *)
theory Emu_State
  imports Maps_Util Heap Kernel_Heap Regs_X86 Regs_Aarch64
begin

section \<open>The state of the emulator\<close>

text \<open>
  The part of the emulator's state that the modelled operations read and write: the thread contexts
  of \<^verbatim>\<open>crates/libmwemu/src/threading/context.rs\<close>, the kernel environment of
  \<^verbatim>\<open>crates/libmwemu/src/kernel/mod.rs\<close> and \<^verbatim>\<open>kernel/guard.rs\<close>, the process table of
  \<^verbatim>\<open>crates/libmwemu/src/threading/process.rs\<close>, and the fields of \<open>Emu\<close> in \<^verbatim>\<open>crates/libmwemu/src/emu/mod.rs\<close>
  that hold them, the width of the configured architecture, and the accessors of \<^verbatim>\<open>crates/libmwemu/src/emu/registers.rs\<close>.

  The state of a thread that depends on the architecture is its register file; floating point state, exception
  handlers, local storage and trace buffers are left out, since no modelled operation touches them. A section
  and a symbol of a driver image, types of the ELF parser, have the fields that the emulator reads.
  \<open>HashMap\<close> is a map, and the two enumerations of operating systems are one type.
\<close>

subsection \<open>Threads\<close>

datatype arch_thread_state = X86 regs64 | AArch64 regs_aarch64

record reservation =
  r_addr :: u64
  r_bytes :: u64
  r_values :: "u64 \<times> u64"

record thread_context =
  t_id :: u64
  suspended :: bool
  wake_tick :: usize
  blocked_on_cs :: "u64 option"
  clear_child_tid :: u64
  t_handle :: u64
  arch :: arch_thread_state
  exit_value :: "u64 option"
  joining :: "(u64 \<times> u64) option"
  blocked_on_lock :: "u64 option"
  cond_wait :: "(u64 \<times> u64) option"
  exclusive :: "reservation option"

definition thread_new :: "u64 \<Rightarrow> bool \<Rightarrow> thread_context" where
  "thread_new tid is_aarch64 =
     \<lparr>t_id = tid, suspended = False, wake_tick = 0, blocked_on_cs = None, clear_child_tid = 0, t_handle = 0,
      arch = (if is_aarch64 then AArch64 regs_aarch64_new else X86 regs64_new),
      exit_value = None, joining = None, blocked_on_lock = None, cond_wait = None, exclusive = None\<rparr>"

definition is_waiting_on_sync :: "thread_context \<Rightarrow> bool" where
  "is_waiting_on_sync t \<longleftrightarrow> joining t \<noteq> None \<or> blocked_on_lock t \<noteq> None \<or> cond_wait t \<noteq> None"

definition is_runnable :: "usize \<Rightarrow> thread_context \<Rightarrow> bool" where
  "is_runnable tick t \<longleftrightarrow>
     \<not> suspended t \<and> wake_tick t \<le> tick \<and> blocked_on_cs t = None \<and> exit_value t = None
     \<and> joining t = None \<and> blocked_on_lock t = None \<and> cond_wait t = None"

subsection \<open>The kernel environment\<close>

datatype finding_kind = UseAfterFree | WriteAfterFree | FreedFunctionPointerCall | PoisonDereference
  | DoubleFree | InvalidFree | HeapOverflow | Leak

record chunk_origin =
  o_addr :: u64
  o_size :: u64
  o_req_size :: u64
  o_cache :: string
  o_alloc_api :: string
  o_alloc_pos :: u64
  o_alloc_rip :: u64
  o_free_api :: string
  o_free_pos :: u64
  o_free_rip :: u64

record finding =
  fi_kind :: finding_kind
  fi_pos :: u64
  fi_rip :: u64
  fi_addr :: u64
  fi_size :: u32
  fi_origin :: chunk_origin
  fi_hits :: u64

record rel_section =
  sec_addr :: u64
  sec_size :: u64
  sec_read :: bool
  sec_execute :: bool

record rel_symbol =
  sym_name :: string
  sym_addr :: u64
  sym_is_global :: bool
  sym_is_func :: bool

record module_image =
  mod_name :: string
  mod_base :: u64
  mod_size :: u64
  mod_init :: "u64 option"
  mod_exit :: "u64 option"
  mod_sections :: "rel_section list"
  mod_symbols :: "rel_symbol list"
  mod_unresolved :: "string list"

record registered_driver =
  rd_bus :: string
  rd_name :: "u8 list"
  rd_struct_ptr :: u64
  rd_probe :: u64
  rd_probe_name :: string
  rd_id_table :: u64

record deferred_call =
  dc_kind :: string
  dc_func :: u64
  dc_arg :: u64

record kmem_cache =
  kc_handle :: u64
  kc_name :: string
  kc_obj_size :: u64

record kernel_env =
  k_os :: kernel_os
  k_layout :: kernel_layout
  k_heap :: kernel_heap
  k_module :: module_image
  findings :: "finding list"
  stub_by_addr :: "u64 \<rightharpoonup> string"
  stub_by_name :: "string \<rightharpoonup> u64"
  data_by_name :: "string \<rightharpoonup> u64"
  k_log :: "string list"
  caches :: "u64 \<rightharpoonup> kmem_cache"
  ledger_only :: bool
  unimplemented :: "string list"
  deferred :: "deferred_call list"
  registered_drivers :: "registered_driver list"
  registers :: "u64 \<rightharpoonup> u64"
  alloc_count :: u64
  fail_alloc_index :: "u64 option"
  next_stub :: u64
  next_data :: u64

definition module_default :: module_image where
  "module_default =
     \<lparr>mod_name = [], mod_base = 0, mod_size = 0, mod_init = None, mod_exit = None, mod_sections = [],
      mod_symbols = [], mod_unresolved = []\<rparr>"

definition kernel_env_new :: "kernel_os \<Rightarrow> kernel_env" where
  "kernel_env_new os =
     (let layout = for_os os
      in \<lparr>k_os = os, k_layout = layout,
          k_heap = kernel_heap_new (l_heap_base layout) (l_heap_size layout) (l_vmalloc_base layout) (l_vmalloc_size layout),
          k_module = module_default, findings = [], stub_by_addr = Map.empty, stub_by_name = Map.empty,
          data_by_name = Map.empty, k_log = [], caches = Map.empty, ledger_only = False, unimplemented = [], deferred = [],
          registered_drivers = [], registers = Map.empty, alloc_count = 0, fail_alloc_index = None,
          next_stub = l_stub_base layout, next_data = l_data_base layout\<rparr>)"

subsection \<open>Processes\<close>

record at_fork =
  af_prepare :: u64
  af_parent :: u64
  af_child :: u64

record zombie =
  z_pid :: u64
  z_ppid :: u64
  z_status :: u64

record fork_frame =
  ff_pid :: u64
  ff_ppid :: u64
  ff_maps :: maps
  ff_threads :: "thread_context list"
  ff_current_thread_id :: nat
  ff_heap_arenas :: "o1heap list"
  ff_guard_heap :: "kernel_heap option"
  ff_emulated_stdout :: "u8 list"
  ff_getopt_char_index :: usize
  ff_atfork :: "at_fork list"

record process_table =
  pid :: u64
  ppid :: u64
  exit_status_of :: "u64 option"
  atfork :: "at_fork list"
  next_pid :: u64
  frames :: "fork_frame list"
  zombies :: "zombie list"

subsection \<open>The emulator\<close>

record emu =
  emu_maps :: maps
  heap_arenas :: "o1heap list"
  emu_pos :: u64
  emu_tick :: usize
  is_running :: bool
  process_terminated :: bool
  force_break :: bool
  force_reload :: bool
  emu_os :: kernel_os
  kernel :: "kernel_env option"
  kernel_guard :: bool
  threads :: "thread_context list"
  current_thread_id :: nat
  gateway_return :: u64
  processes :: process_table
  emulated_stdout :: "u8 list"
  getopt_char_index :: usize
  is_x64 :: bool

definition emu_stop :: "emu \<Rightarrow> emu" where
  "emu_stop e = e\<lparr>process_terminated := True, is_running := False\<rparr>"

definition current_thread :: "emu \<Rightarrow> thread_context outcome" where
  "current_thread e = vec_index (threads e) (current_thread_id e)"

definition put_thread :: "thread_context \<Rightarrow> emu \<Rightarrow> emu" where
  "put_thread t e = e\<lparr>threads := (threads e)[current_thread_id e := t]\<rparr>"

definition emu_regs_aarch64 :: "emu \<Rightarrow> regs_aarch64 outcome" where
  "emu_regs_aarch64 e =
     obind (current_thread e) (\<lambda>t. case arch t of AArch64 r \<Rightarrow> Ret r | X86 _ \<Rightarrow> Panic Unreachable)"

text \<open>An operation of the address space on the emulator that holds it.\<close>

definition on_maps :: "(maps \<Rightarrow> ('a \<times> maps) outcome) \<Rightarrow> emu \<Rightarrow> ('a \<times> emu) outcome" where
  "on_maps f e = obind (f (emu_maps e)) (\<lambda>(x, s). Ret (x, e\<lparr>emu_maps := s\<rparr>))"

definition emu_regs :: "emu \<Rightarrow> regs64 outcome" where
  "emu_regs e = obind (current_thread e) (\<lambda>t. case arch t of X86 r \<Rightarrow> Ret r | AArch64 _ \<Rightarrow> Panic Unreachable)"

text \<open>A change through \<open>regs_mut\<close> and through \<open>regs_aarch64_mut\<close>.\<close>

definition with_regs :: "(regs64 \<Rightarrow> regs64) \<Rightarrow> emu \<Rightarrow> emu outcome" where
  "with_regs f e =
     obind (current_thread e) (\<lambda>t.
       case arch t of
         X86 r \<Rightarrow> Ret (put_thread (t\<lparr>arch := X86 (f r)\<rparr>) e)
       | AArch64 _ \<Rightarrow> Panic Unreachable)"

definition with_regs_aarch64 :: "(regs_aarch64 \<Rightarrow> regs_aarch64 outcome) \<Rightarrow> emu \<Rightarrow> emu outcome" where
  "with_regs_aarch64 f e =
     obind (current_thread e) (\<lambda>t.
       case arch t of
         AArch64 r \<Rightarrow> obind (f r) (\<lambda>r. Ret (put_thread (t\<lparr>arch := AArch64 r\<rparr>) e))
       | X86 _ \<Rightarrow> Panic Unreachable)"

definition emu_pc :: "emu \<Rightarrow> u64 outcome" where
  "emu_pc e = obind (current_thread e) (\<lambda>t. Ret (case arch t of X86 r \<Rightarrow> rip r | AArch64 r \<Rightarrow> pc r))"

definition emu_set_pc :: "u64 \<Rightarrow> emu \<Rightarrow> emu outcome" where
  "emu_set_pc addr e =
     obind (current_thread e) (\<lambda>t.
       Ret (put_thread (t\<lparr>arch := (case arch t of X86 r \<Rightarrow> X86 (r\<lparr>rip := addr\<rparr>) | AArch64 r \<Rightarrow> AArch64 (r\<lparr>pc := addr\<rparr>))\<rparr>) e))"

definition emu_sp :: "emu \<Rightarrow> u64 outcome" where
  "emu_sp e = obind (current_thread e) (\<lambda>t. Ret (case arch t of X86 r \<Rightarrow> rsp r | AArch64 r \<Rightarrow> sp r))"

definition emu_set_sp :: "u64 \<Rightarrow> emu \<Rightarrow> emu outcome" where
  "emu_set_sp addr e =
     obind (current_thread e) (\<lambda>t.
       Ret (put_thread (t\<lparr>arch := (case arch t of X86 r \<Rightarrow> X86 (r\<lparr>rsp := addr\<rparr>) | AArch64 r \<Rightarrow> AArch64 (r\<lparr>sp := addr\<rparr>))\<rparr>) e))"

text \<open>An emulator with one thread and the given memory, for examples.\<close>

definition sample_emu :: "maps \<Rightarrow> thread_context \<Rightarrow> emu" where
  "sample_emu s t =
     \<lparr>emu_maps = s, heap_arenas = [], emu_pos = 0, emu_tick = 0, is_running = True, process_terminated = False,
      force_break = False, force_reload = False, emu_os = Linux, kernel = None, kernel_guard = False,
      threads = [t], current_thread_id = 0, gateway_return = 0,
      processes = \<lparr>pid = 1234, ppid = 1, exit_status_of = None, atfork = [], next_pid = 1235, frames = [], zombies = []\<rparr>,
      emulated_stdout = [], getopt_char_index = 0, is_x64 = True\<rparr>"

end
