(* ===== verification/Scheduler.thy ===== *)
theory Scheduler
  imports Emu_State
begin

section \<open>The thread scheduler\<close>

text \<open>
  A model of \<^verbatim>\<open>crates/libmwemu/src/threading/scheduler.rs\<close>: the round-robin choice of the next thread, the
  jump of the clock to the next wake-up time when every thread sleeps, and the scheduling step. The
  functions that only log are left out.

  Decoding and executing one instruction, which drives the decoder, and advancing the program counter
  are the parameters \<open>decode_and_execute\<close> and \<open>advance_pc\<close> of the step, as is the exit position of the
  configuration. What
  \<open>handle_exit\<close> does is output.
\<close>

definition is_thread_runnable :: "emu \<Rightarrow> nat \<Rightarrow> bool" where
  "is_thread_runnable e thread_idx \<longleftrightarrow>
     thread_idx < length (threads e) \<and> is_runnable (emu_tick e) (threads e ! thread_idx)"

definition switch_to_thread :: "nat \<Rightarrow> emu \<Rightarrow> bool \<times> emu" where
  "switch_to_thread thread_id e =
     (if length (threads e) \<le> thread_id then (False, e)
      else if thread_id = current_thread_id e then (True, e)
      else (True, e\<lparr>current_thread_id := thread_id\<rparr>))"

definition advance_to_next_wake :: "emu \<Rightarrow> bool \<times> emu" where
  "advance_to_next_wake e =
     (let current_tick = emu_tick e;
          next_wake = fold (\<lambda>t next_wake. if \<not> suspended t \<and> current_tick < wake_tick t then min next_wake (wake_tick t) else next_wake)
                        (threads e) (- 1)
      in if next_wake \<noteq> - 1 \<and> current_tick < next_wake then (True, e\<lparr>emu_tick := next_wake\<rparr>)
         else (False, e))"

text \<open>The loop over the offsets from the current thread; \<open>None\<close> when it ends without a return.\<close>

fun scan_threads :: "nat list \<Rightarrow> emu \<Rightarrow> (bool \<times> emu) option" where
  "scan_threads [] e = None"
| "scan_threads (i # is) e =
     (let thread_idx = (current_thread_id e + i) mod length (threads e)
      in if thread_idx = current_thread_id e then
           (if is_thread_runnable e (current_thread_id e) then Some (False, e) else None)
         else if is_thread_runnable e thread_idx then Some (True, snd (switch_to_thread thread_idx e))
         else scan_threads is e)"

text \<open>The threads that sleep, which bound the number of times the clock can jump.\<close>

definition sleeping :: "emu \<Rightarrow> thread_context list" where
  "sleeping e = filter (\<lambda>t. \<not> suspended t \<and> emu_tick e < wake_tick t) (threads e)"

definition wake_times :: "emu \<Rightarrow> usize list" where
  "wake_times e = map wake_tick (sleeping e)"

lemma next_wake_fold:
  fixes m :: usize
  shows "fold (\<lambda>t next_wake. if \<not> suspended t \<and> c < wake_tick t then min next_wake (wake_tick t) else next_wake) ts m
    = fold min (map wake_tick (filter (\<lambda>t. \<not> suspended t \<and> c < wake_tick t) ts)) m"
  by (induction ts arbitrary: m) (auto simp: min.commute)

lemma fold_min_mem: "fold min xs (m :: 'a::linorder) \<in> insert m (set xs) \<and> (\<forall>y\<in>insert m (set xs). fold min xs m \<le> y)"
proof (induction xs arbitrary: m)
  case (Cons a xs)
  then show ?case
    using Cons.IH[of "min a m"] by (auto simp: min_le_iff_disj) (metis min_def)+
qed simp

lemma advance_to_next_wake_eq:
  "advance_to_next_wake e =
     (if fold min (wake_times e) (- 1) \<noteq> - 1 then (True, e\<lparr>emu_tick := fold min (wake_times e) (- 1)\<rparr>) else (False, e))"
proof -
  have "emu_tick e < fold min (wake_times e) (- 1)" if "fold min (wake_times e) (- 1) \<noteq> - 1"
    using fold_min_mem[of "wake_times e" "- 1"] that by (auto simp: wake_times_def sleeping_def)
  then show ?thesis
    by (auto simp: advance_to_next_wake_def Let_def next_wake_fold wake_times_def sleeping_def)
qed

lemma advance_wakes:
  assumes "advance_to_next_wake e = (True, e')"
  shows "emu_tick e < emu_tick e'" "threads e' = threads e" "length (sleeping e') < length (sleeping e)"
    "emu_tick e' \<in> set (wake_times e)" "\<forall>w\<in>set (wake_times e). emu_tick e' \<le> w"
proof -
  let ?w = "fold min (wake_times e) (- 1)"
  have e': "e' = e\<lparr>emu_tick := ?w\<rparr>" "?w \<noteq> - 1"
    using assms by (auto simp: advance_to_next_wake_eq split: if_splits)
  have w: "?w \<in> set (wake_times e)" "\<forall>v\<in>set (wake_times e). ?w \<le> v"
    using fold_min_mem[of "wake_times e" "- 1"] e'(2) by auto
  then obtain t where t: "t \<in> set (sleeping e)" "wake_tick t = ?w"
    by (auto simp: wake_times_def)
  show "emu_tick e < emu_tick e'" "threads e' = threads e"
    using t by (auto simp: e' sleeping_def)
  show "emu_tick e' \<in> set (wake_times e)" "\<forall>w\<in>set (wake_times e). emu_tick e' \<le> w"
    using w by (simp_all add: e')
  have "sleeping e' = filter (\<lambda>t. ?w < wake_tick t) (sleeping e)"
    using t by (auto simp: e' sleeping_def intro!: filter_cong)
  also have "length \<dots> < length (sleeping e)"
    using t by (intro length_filter_less) auto
  finally show "length (sleeping e') < length (sleeping e)" .
qed

function schedule_next_thread :: "emu \<Rightarrow> bool \<times> emu" where
  "schedule_next_thread e =
     (if length (threads e) \<le> 1 then (False, e)
      else
        case scan_threads [1..<length (threads e) + 1] e of
          Some r \<Rightarrow> r
        | None \<Rightarrow>
            (case advance_to_next_wake e of
               (True, e') \<Rightarrow> schedule_next_thread e'
             | (False, e') \<Rightarrow> (False, e')))"
  by auto
termination
  by (relation "measure (\<lambda>e. length (sleeping e))") (auto dest: advance_wakes(3)[OF sym])

declare schedule_next_thread.simps [simp del]

definition execute_thread_instruction :: "(emu \<Rightarrow> nat \<times> bool \<times> emu) \<Rightarrow> (nat \<Rightarrow> emu \<Rightarrow> emu) \<Rightarrow> nat \<Rightarrow> emu \<Rightarrow> bool \<times> emu" where
  "execute_thread_instruction decode_and_execute advance_pc thread_id e =
     (let (switched, e) = (if current_thread_id e \<noteq> thread_id then switch_to_thread thread_id e else (True, e))
      in if \<not> switched then (False, e)
         else
           let (sz, result_ok, e) = decode_and_execute e
           in if sz = 0 then (False, e) else (result_ok, advance_pc sz e))"

function step_with_scheduling :: "(emu \<Rightarrow> nat \<times> bool \<times> emu) \<Rightarrow> (nat \<Rightarrow> emu \<Rightarrow> emu) \<Rightarrow> u64 \<Rightarrow> emu \<Rightarrow> bool \<times> emu" where
  "step_with_scheduling decode_and_execute advance_pc exit_position e =
     (let e = e\<lparr>emu_pos := emu_pos e + 1\<rparr>
      in if exit_position \<noteq> 0 \<and> emu_pos e = exit_position then (False, e)
         else if length (threads e) = 1 then
           (if is_thread_runnable e 0 then execute_thread_instruction decode_and_execute advance_pc 0 e else (False, e))
         else if is_thread_runnable e (current_thread_id e) then
           execute_thread_instruction decode_and_execute advance_pc (current_thread_id e) e
         else
           case List.find (\<lambda>i. is_thread_runnable e ((current_thread_id e + i) mod length (threads e))) [1..<length (threads e)] of
             Some i \<Rightarrow> execute_thread_instruction decode_and_execute advance_pc ((current_thread_id e + i) mod length (threads e)) e
           | None \<Rightarrow>
               (case advance_to_next_wake e of
                  (True, e') \<Rightarrow> step_with_scheduling decode_and_execute advance_pc exit_position e'
                | (False, e') \<Rightarrow> (False, e')))"
  by auto
termination
proof (relation "measure (\<lambda>(_, _, _, e). length (sleeping e))")
qed (auto dest!: advance_wakes(3)[OF sym] simp: sleeping_def Let_def)

declare step_with_scheduling.simps [simp del]

subsection \<open>Round robin\<close>

lemma mod_offset:
  assumes "c < n" "0 < i" "i < (n::nat)"
  shows "(c + i) mod n \<noteq> c"
  using assms by (auto simp: mod_if)

definition other_runnable :: "emu \<Rightarrow> nat \<Rightarrow> nat option" where
  "other_runnable e j =
     List.find (\<lambda>i. is_thread_runnable e ((current_thread_id e + i) mod length (threads e))) [j..<length (threads e)]"

lemma scan_threads_eq:
  assumes "current_thread_id e < length (threads e)" "0 < j" "j \<le> length (threads e)"
  shows "scan_threads [j..<length (threads e) + 1] e =
    (case other_runnable e j of
       Some i \<Rightarrow> Some (True, e\<lparr>current_thread_id := (current_thread_id e + i) mod length (threads e)\<rparr>)
     | None \<Rightarrow> if is_thread_runnable e (current_thread_id e) then Some (False, e) else None)"
  using assms(2,3)
proof (induction "length (threads e) - j" arbitrary: j)
  case 0
  then show ?case
    using assms(1) by (simp add: other_runnable_def)
next
  case (Suc k)
  then have j: "0 < j" "j < length (threads e)"
    by simp_all
  have up: "[j..<length (threads e) + 1] = j # [Suc j..<length (threads e) + 1]" "[j..<length (threads e)] = j # [Suc j..<length (threads e)]"
    using j by (simp_all add: upt_conv_Cons)
  have IH: "scan_threads [Suc j..<length (threads e) + 1] e =
    (case other_runnable e (Suc j) of
       Some i \<Rightarrow> Some (True, e\<lparr>current_thread_id := (current_thread_id e + i) mod length (threads e)\<rparr>)
     | None \<Rightarrow> if is_thread_runnable e (current_thread_id e) then Some (False, e) else None)"
    using Suc.hyps(2) j by (intro Suc.hyps(1)) simp_all
  have "(current_thread_id e + j) mod length (threads e) < length (threads e)"
    using assms(1) by (intro mod_less_divisor) linarith
  then show ?case
    using mod_offset[OF assms(1) j] IH j unfolding up(1)
    by (simp add: up(2) other_runnable_def switch_to_thread_def)
qed

lemma find_upt_Some:
  "List.find P [a..<n] = Some i \<longleftrightarrow> a \<le> i \<and> i < n \<and> P i \<and> (\<forall>j. a \<le> j \<and> j < i \<longrightarrow> \<not> P j)"
proof (induction "n - a" arbitrary: a)
  case (Suc k)
  then have "[a..<n] = a # [Suc a..<n]" "a < n"
    by (simp_all add: upt_conv_Cons)
  moreover have "(\<forall>j. a \<le> j \<and> j < i \<longrightarrow> \<not> P j) \<longleftrightarrow> (a < i \<longrightarrow> \<not> P a) \<and> (\<forall>j. Suc a \<le> j \<and> j < i \<longrightarrow> \<not> P j)"
    by (metis Suc_le_eq le_less)
  ultimately show ?case
    using Suc.hyps(1)[of "Suc a"] Suc.hyps(2) by (auto simp: Suc_le_eq le_less)
qed simp

lemma other_runnable_Some:
  "other_runnable e 1 = Some i \<longleftrightarrow>
     0 < i \<and> i < length (threads e) \<and> is_thread_runnable e ((current_thread_id e + i) mod length (threads e))
     \<and> (\<forall>j. 0 < j \<and> j < i \<longrightarrow> \<not> is_thread_runnable e ((current_thread_id e + j) mod length (threads e)))"
  unfolding other_runnable_def find_upt_Some by auto

lemma other_runnable_None:
  assumes "other_runnable e 1 = None" "current_thread_id e < length (threads e)" "\<not> is_thread_runnable e (current_thread_id e)"
  shows "\<not> is_thread_runnable e k"
proof
  assume k: "is_thread_runnable e k"
  then have len: "k < length (threads e)"
    by (simp add: is_thread_runnable_def)
  define i where "i = (if current_thread_id e < k then k - current_thread_id e else k + length (threads e) - current_thread_id e)"
  have "k \<noteq> current_thread_id e"
    using k assms(3) by auto
  then have "0 < i" "i < length (threads e)" "(current_thread_id e + i) mod length (threads e) = k"
    using len assms(2) by (auto simp: i_def)
  then show False
    using k assms(1) by (auto simp: other_runnable_def find_None_iff)
qed

lemma schedule_unfold:
  assumes "current_thread_id e < length (threads e)" "1 < length (threads e)"
  shows "schedule_next_thread e =
    (case other_runnable e 1 of
       Some i \<Rightarrow> (True, e\<lparr>current_thread_id := (current_thread_id e + i) mod length (threads e)\<rparr>)
     | None \<Rightarrow>
         if is_thread_runnable e (current_thread_id e) then (False, e)
         else case advance_to_next_wake e of (True, e') \<Rightarrow> schedule_next_thread e' | (False, e') \<Rightarrow> (False, e'))"
  using assms scan_threads_eq[of e 1] by (subst schedule_next_thread.simps) (simp split: option.split)

text \<open>
  The specification of the scheduler. A time is \<open>ahead\<close> when the clock can get there; time \<open>2 ^ 64 - 1\<close> stands for
  never. The scheduler moves to the earliest time at which a thread can run, and there to the next such thread in
  turn; the current thread is the last in turn. When no thread can ever run, the clock stops at the last
  time at which a thread wakes.
\<close>

definition runnable_at :: "emu \<Rightarrow> usize \<Rightarrow> nat \<Rightarrow> bool" where
  "runnable_at e tick k \<longleftrightarrow> k < length (threads e) \<and> is_runnable tick (threads e ! k)"

definition ahead :: "emu \<Rightarrow> usize \<Rightarrow> bool" where
  "ahead e tick \<longleftrightarrow> tick = emu_tick e \<or> emu_tick e < tick \<and> tick \<noteq> - 1"

definition earliest :: "emu \<Rightarrow> usize \<Rightarrow> bool" where
  "earliest e tick \<longleftrightarrow>
     ahead e tick \<and> (\<exists>k. runnable_at e tick k) \<and> (\<forall>u k. ahead e u \<and> u < tick \<longrightarrow> \<not> runnable_at e u k)"

definition next_in_turn :: "emu \<Rightarrow> usize \<Rightarrow> nat \<Rightarrow> bool" where
  "next_in_turn e tick k \<longleftrightarrow>
     (\<exists>i. 0 < i \<and> i \<le> length (threads e) \<and> k = (current_thread_id e + i) mod length (threads e) \<and> runnable_at e tick k
        \<and> (\<forall>j. 0 < j \<and> j < i \<longrightarrow> \<not> runnable_at e tick ((current_thread_id e + j) mod length (threads e))))"

definition last_wake :: "emu \<Rightarrow> usize \<Rightarrow> bool" where
  "last_wake e tick \<longleftrightarrow>
     (tick = emu_tick e \<or> emu_tick e < tick \<and> (\<exists>t\<in>set (threads e). \<not> suspended t \<and> wake_tick t = tick))
     \<and> (\<forall>t\<in>set (threads e). \<not> suspended t \<and> wake_tick t \<noteq> - 1 \<longrightarrow> wake_tick t \<le> tick)"

definition scheduled :: "emu \<Rightarrow> bool \<Rightarrow> emu \<Rightarrow> bool" where
  "scheduled e switched e' \<longleftrightarrow>
     e' = e\<lparr>emu_tick := emu_tick e', current_thread_id := current_thread_id e'\<rparr>
     \<and> (switched \<longleftrightarrow> current_thread_id e' \<noteq> current_thread_id e)
     \<and> (if \<exists>tick k. ahead e tick \<and> runnable_at e tick k
        then earliest e (emu_tick e') \<and> next_in_turn e (emu_tick e') (current_thread_id e')
        else last_wake e (emu_tick e') \<and> current_thread_id e' = current_thread_id e)"

lemma runnable_now: "is_thread_runnable e k = runnable_at e (emu_tick e) k"
  by (simp add: is_thread_runnable_def runnable_at_def)

lemma earliest_now: "runnable_at e (emu_tick e) k \<Longrightarrow> earliest e (emu_tick e)"
  by (auto simp: earliest_def ahead_def)

lemma no_runnable_until:
  assumes "\<forall>k. \<not> is_thread_runnable e k" "emu_tick e \<le> tick" "\<forall>w\<in>set (wake_times e). tick < w"
  shows "\<not> runnable_at e tick k"
proof
  assume run: "runnable_at e tick k"
  let ?t = "threads e ! k"
  have k: "k < length (threads e)" "is_runnable tick ?t"
    using run by (simp_all add: runnable_at_def)
  have "wake_tick ?t \<le> emu_tick e"
  proof (rule ccontr)
    assume "\<not> wake_tick ?t \<le> emu_tick e"
    then have "wake_tick ?t \<in> set (wake_times e)"
      using k by (auto simp: wake_times_def sleeping_def is_runnable_def)
    then show False
      using assms(3) k(2) by (auto simp: is_runnable_def)
  qed
  then have "is_thread_runnable e k"
    using k by (simp add: is_runnable_def is_thread_runnable_def)
  then show False
    using assms(1) by blast
qed

lemma scheduled_jump:
  assumes adv: "advance_to_next_wake e = (True, e1)" and idle: "\<forall>k. \<not> is_thread_runnable e k" and s: "scheduled e1 switched e'"
  shows "scheduled e switched e'"
proof -
  let ?w = "fold min (wake_times e) (- 1)"
  have e1: "e1 = e\<lparr>emu_tick := ?w\<rparr>" "?w \<noteq> - 1"
    using adv by (auto simp: advance_to_next_wake_eq split: if_splits)
  note a = advance_wakes[OF adv]
  have tick: "emu_tick e1 = ?w" "emu_tick e < ?w"
    using a(1) by (simp_all add: e1(1))
  have same [simp]: "runnable_at e1 = runnable_at e" "next_in_turn e1 = next_in_turn e"
    by (simp_all add: fun_eq_iff e1(1) runnable_at_def next_in_turn_def)
  have before: "\<not> runnable_at e u k" if "ahead e u" "u < ?w" for u k
    using that a(5) tick(1) by (intro no_runnable_until[OF idle]) (auto simp: ahead_def)
  have ahead: "ahead e u \<longleftrightarrow> ahead e1 u \<or> ahead e u \<and> u < ?w" for u
    using tick(2) e1(2) unfolding ahead_def tick(1) by auto
  have ex: "(\<exists>t k. ahead e1 t \<and> runnable_at e t k) \<longleftrightarrow> (\<exists>t k. ahead e t \<and> runnable_at e t k)"
    using ahead before by blast
  have early: "earliest e u" if "earliest e1 u" for u
    using that ahead before unfolding earliest_def by simp blast
  have late: "last_wake e u" if "last_wake e1 u" for u
  proof -
    have "\<exists>t\<in>set (threads e). \<not> suspended t \<and> wake_tick t = ?w"
      using a(4) by (auto simp: tick(1) wake_times_def sleeping_def)
    then show ?thesis
      using that tick(2) by (auto simp: last_wake_def e1(1) intro: less_trans)
  qed
  have upd: "e1\<lparr>emu_tick := u, current_thread_id := c\<rparr> = e\<lparr>emu_tick := u, current_thread_id := c\<rparr>"
    "current_thread_id e1 = current_thread_id e" for u c
    by (simp_all add: e1(1))
  define P where "P \<longleftrightarrow> (\<exists>t k. ahead e t \<and> runnable_at e t k)"
  note t = s[unfolded scheduled_def same upd ex, folded P_def]
  have "if P then earliest e (emu_tick e') \<and> next_in_turn e (emu_tick e') (current_thread_id e')
      else last_wake e (emu_tick e') \<and> current_thread_id e' = current_thread_id e"
    using t[THEN conjunct2, THEN conjunct2] early late by (simp split: if_splits)
  then show ?thesis
    using t unfolding scheduled_def P_def[symmetric] by blast
qed

lemma scheduled_stop:
  assumes adv: "advance_to_next_wake e = (False, e1)" and idle: "\<forall>k. \<not> is_thread_runnable e k"
  shows "scheduled e False e1"
proof -
  have e1: "e1 = e" "fold min (wake_times e) (- 1) = - 1"
    using adv by (auto simp: advance_to_next_wake_eq split: if_splits)
  then have never: "\<forall>w\<in>set (wake_times e). w = - 1"
    using fold_min_mem[of "wake_times e" "- 1"] by (simp add: word_order.extremum_unique)
  have "\<not> runnable_at e tick k" if "ahead e tick" for tick k
  proof (cases "tick = emu_tick e")
    case True
    then show ?thesis
      using idle by (simp add: runnable_now)
  next
    case False
    then show ?thesis
      using that never by (intro no_runnable_until[OF idle]) (auto simp: ahead_def word_order.not_eq_extremum)
  qed
  moreover have "last_wake e (emu_tick e)"
    using never by (fastforce simp: last_wake_def wake_times_def sleeping_def)
  ultimately show ?thesis
    by (auto simp: scheduled_def e1(1))
qed

lemma scheduled_other:
  assumes "current_thread_id e < length (threads e)" "other_runnable e 1 = Some i"
  shows "scheduled e True (e\<lparr>current_thread_id := (current_thread_id e + i) mod length (threads e)\<rparr>)"
proof -
  have i: "0 < i" "i < length (threads e)" "runnable_at e (emu_tick e) ((current_thread_id e + i) mod length (threads e))"
    "\<forall>j. 0 < j \<and> j < i \<longrightarrow> \<not> runnable_at e (emu_tick e) ((current_thread_id e + j) mod length (threads e))"
    using assms(2) unfolding other_runnable_Some runnable_now by blast+
  then have "next_in_turn e (emu_tick e) ((current_thread_id e + i) mod length (threads e))"
    unfolding next_in_turn_def by (intro exI[of _ i]) simp
  moreover have "\<exists>tick k. ahead e tick \<and> runnable_at e tick k"
    using i(3) by (auto simp: ahead_def)
  ultimately show ?thesis
    using i mod_offset[OF assms(1) i(1,2)] earliest_now[OF i(3)] by (simp add: scheduled_def)
qed

lemma scheduled_stay:
  assumes "current_thread_id e < length (threads e)" "other_runnable e 1 = None" "is_thread_runnable e (current_thread_id e)"
  shows "scheduled e False e"
proof -
  have now: "runnable_at e (emu_tick e) (current_thread_id e)"
    using assms(3) by (simp add: runnable_now)
  have "\<forall>j. 0 < j \<and> j < length (threads e) \<longrightarrow> \<not> runnable_at e (emu_tick e) ((current_thread_id e + j) mod length (threads e))"
    using assms(2) by (auto simp: other_runnable_def find_None_iff runnable_now)
  then have "next_in_turn e (emu_tick e) (current_thread_id e)"
    using assms(1) now unfolding next_in_turn_def by (intro exI[of _ "length (threads e)"]) auto
  moreover have "\<exists>tick k. ahead e tick \<and> runnable_at e tick k"
    using now by (auto simp: ahead_def)
  ultimately show ?thesis
    using earliest_now[OF now] by (simp add: scheduled_def)
qed

lemma schedule_result:
  assumes "schedule_next_thread e = (switched, e')" "current_thread_id e < length (threads e)" "1 < length (threads e)"
  shows "scheduled e switched e'"
  using assms
proof (induction e rule: schedule_next_thread.induct)
  case (1 e)
  note unfold = schedule_unfold[OF "1.prems"(2,3)]
  consider (other) i where "other_runnable e 1 = Some i" | (stay) "other_runnable e 1 = None" "is_thread_runnable e (current_thread_id e)"
    | (idle) "other_runnable e 1 = None" "\<not> is_thread_runnable e (current_thread_id e)"
    by fastforce
  then show ?case
  proof cases
    case other
    then show ?thesis
      using "1.prems"(1) scheduled_other[OF "1.prems"(2) other] by (auto simp: unfold)
  next
    case stay
    then show ?thesis
      using "1.prems"(1) scheduled_stay[OF "1.prems"(2) stay] by (auto simp: unfold)
  next
    case idle
    then have idle': "\<forall>k. \<not> is_thread_runnable e k"
      using other_runnable_None[OF idle(1) "1.prems"(2) idle(2)] by simp
    have scan: "scan_threads [1..<length (threads e) + 1] e = None"
      using scan_threads_eq[of e 1] "1.prems"(2,3) idle by simp
    obtain adv e1 where adv: "advance_to_next_wake e = (adv, e1)"
      by (metis prod.collapse)
    show ?thesis
    proof (cases adv)
      case True
      then have adv': "advance_to_next_wake e = (True, e1)"
        using adv by simp
      have "current_thread_id e1 = current_thread_id e" "schedule_next_thread e1 = (switched, e')"
        using adv' "1.prems"(1) idle by (auto simp: unfold advance_to_next_wake_eq split: if_splits)
      then have "scheduled e1 switched e'"
        using "1.IH"[OF _ scan adv'[symmetric] refl] "1.prems"(2,3) advance_wakes(2)[OF adv'] by simp
      then show ?thesis
        by (rule scheduled_jump[OF adv' idle'])
    next
      case False
      then show ?thesis
        using "1.prems"(1) idle adv scheduled_stop[OF _ idle', of e1] by (auto simp: unfold)
    qed
  qed
qed

text \<open>
  C29: with more than one thread, the scheduler ends and changes only the clock and the current thread. If a thread
  can run now or later, the clock is afterwards at the earliest such time, so it does not move while a thread, the
  current one included, can run now; and the current thread is the first that can run at that time, in
  round-robin order after the one that was current, which comes last. If no thread can ever run, the current thread
  stays, and the clock is at the last time at which a thread wakes. Time \<open>2 ^ 64 - 1\<close> stands for never.
\<close>

theorem schedule_next_thread_correct:
  assumes "current_thread_id e < length (threads e)" "1 < length (threads e)" "schedule_next_thread e = (switched, e')"
  shows "e' = e\<lparr>emu_tick := emu_tick e', current_thread_id := current_thread_id e'\<rparr>
    \<and> (switched \<longleftrightarrow> current_thread_id e' \<noteq> current_thread_id e)
    \<and> (if \<exists>tick k. ahead e tick \<and> runnable_at e tick k
       then earliest e (emu_tick e') \<and> next_in_turn e (emu_tick e') (current_thread_id e')
       else last_wake e (emu_tick e') \<and> current_thread_id e' = current_thread_id e)"
  using schedule_result[OF assms(3,1,2)] unfolding scheduled_def .

definition two_sleepers :: emu where
  "two_sleepers =
     \<lparr>emu_maps = maps_default, heap_arenas = [], emu_pos = 0, emu_tick = 5, is_running = True, process_terminated = False, force_break = False,
      force_reload = False, emu_os = Linux, kernel = None, kernel_guard = False,
      threads = [(thread_new 1 True)\<lparr>wake_tick := 9\<rparr>, (thread_new 2 True)\<lparr>wake_tick := 7\<rparr>],
      current_thread_id = 0, gateway_return = 0,
      processes = \<lparr>pid = 1234, ppid = 1, exit_status_of = None, atfork = [], next_pid = 1235, frames = [], zombies = []\<rparr>,
      emulated_stdout = [], getopt_char_index = 0, is_x64 = False\<rparr>"

lemma two_sleepers_runnable: "runnable_at two_sleepers tick k \<longleftrightarrow> k = 0 \<and> 9 \<le> tick \<or> k = 1 \<and> 7 \<le> tick"
  by (auto simp: runnable_at_def two_sleepers_def thread_new_def is_runnable_def less_Suc_eq)

theorem schedule_next_thread_correct_witness:
  "\<exists>e'. schedule_next_thread two_sleepers = (True, e') \<and> current_thread_id e' = 1 \<and> emu_tick e' = 7"
proof -
  have len: "current_thread_id two_sleepers < length (threads two_sleepers)" "1 < length (threads two_sleepers)"
    by (simp_all add: two_sleepers_def)
  obtain switched e' where s: "schedule_next_thread two_sleepers = (switched, e')"
    by fastforce
  note c = schedule_next_thread_correct[OF len s]
  have later: "ahead two_sleepers 7" "runnable_at two_sleepers 7 1"
    by (simp_all add: ahead_def two_sleepers_runnable) (simp add: two_sleepers_def)
  then have e: "earliest two_sleepers (emu_tick e')" "next_in_turn two_sleepers (emu_tick e') (current_thread_id e')"
    "switched \<longleftrightarrow> current_thread_id e' \<noteq> current_thread_id two_sleepers"
    using c by (auto split: if_splits)
  have "\<not> 7 < emu_tick e'"
    using e(1) later unfolding earliest_def by blast
  moreover have "7 \<le> emu_tick e'"
    using e(1) unfolding earliest_def two_sleepers_runnable by (auto intro: order_trans[of _ 9])
  ultimately have tick: "emu_tick e' = 7"
    by simp
  then have "current_thread_id e' = 1"
    using e(2) by (auto simp: next_in_turn_def two_sleepers_runnable)
  moreover from this have switched
    using e(3) by (simp add: two_sleepers_def)
  ultimately show ?thesis
    using s tick by auto
qed

subsection \<open>Fairness\<close>

definition distance :: "emu \<Rightarrow> nat \<Rightarrow> nat" where
  "distance e j = (if current_thread_id e \<le> j then j - current_thread_id e else j + length (threads e) - current_thread_id e)"

lemma schedule_closer:
  assumes "current_thread_id e < length (threads e)" "1 < length (threads e)" "is_thread_runnable e j" "j \<noteq> current_thread_id e"
  defines "e' \<equiv> snd (schedule_next_thread e)"
  shows "distance e' j < distance e j" "threads e' = threads e" "emu_tick e' = emu_tick e"
    "current_thread_id e' < length (threads e')"
proof -
  let ?n = "length (threads e)" and ?c = "current_thread_id e"
  have j: "j < ?n"
    using assms(3) by (simp add: is_thread_runnable_def)
  have d: "0 < distance e j" "distance e j < ?n" "(?c + distance e j) mod ?n = j"
    using j assms(1,4) by (auto simp: distance_def)
  then obtain i where i: "other_runnable e 1 = Some i"
    using assms(3) by (cases "other_runnable e 1") (auto simp: other_runnable_def find_None_iff)
  then have le: "0 < i" "i \<le> distance e j"
    using other_runnable_Some[THEN iffD1, OF i] d assms(3) by (auto simp: not_less[symmetric])
  have e': "e' = e\<lparr>current_thread_id := (?c + i) mod ?n\<rparr>"
    using i by (simp add: e'_def schedule_unfold[OF assms(1,2)])
  show "threads e' = threads e" "emu_tick e' = emu_tick e" "current_thread_id e' < length (threads e')"
    using assms(1) by (simp_all add: e') (metis length_greater_0_conv list.size(3) mod_less_divisor not_less_zero)
  show "distance e' j < distance e j"
    using le d(2) j assms(1) by (auto simp: e' distance_def mod_if split: if_splits)
qed

text \<open>
  C30: the scheduler is fair: a thread that can run becomes the current thread after at most as many calls as
  there are threads, without a jump of the clock.
\<close>

theorem scheduler_fair:
  assumes "current_thread_id e < length (threads e)" "1 < length (threads e)" "is_thread_runnable e j"
  shows "\<exists>k<length (threads e). current_thread_id (((snd \<circ> schedule_next_thread) ^^ k) e) = j
    \<and> emu_tick (((snd \<circ> schedule_next_thread) ^^ k) e) = emu_tick e"
proof -
  have "\<exists>k\<le>distance e j. current_thread_id (((snd \<circ> schedule_next_thread) ^^ k) e) = j
    \<and> emu_tick (((snd \<circ> schedule_next_thread) ^^ k) e) = emu_tick e"
    using assms
  proof (induction "distance e j" arbitrary: e rule: less_induct)
    case less
    show ?case
    proof (cases "j = current_thread_id e")
      case True
      then show ?thesis
        by (intro exI[of _ 0]) simp
    next
      case False
      let ?e = "snd (schedule_next_thread e)"
      note c = schedule_closer[OF less.prems False]
      have "is_thread_runnable ?e j"
        using less.prems(3) c(2,3) by (simp add: is_thread_runnable_def)
      then obtain k where "k \<le> distance ?e j" "current_thread_id (((snd \<circ> schedule_next_thread) ^^ k) ?e) = j"
        "emu_tick (((snd \<circ> schedule_next_thread) ^^ k) ?e) = emu_tick ?e"
        using less.hyps[OF c(1) c(4)] less.prems(2) c(2) by auto
      then show ?thesis
        using c(1,3) by (intro exI[of _ "Suc k"]) (simp add: funpow_swap1 del: funpow.simps(2) add: funpow_Suc_right)
    qed
  qed
  moreover have "distance e j < length (threads e)"
    using assms by (auto simp: distance_def is_thread_runnable_def)
  ultimately show ?thesis
    using le_less_trans by blast
qed

theorem scheduler_fair_witness:
  "\<exists>k<2. current_thread_id (((snd \<circ> schedule_next_thread) ^^ k) (two_sleepers\<lparr>emu_tick := 7\<rparr>)) = 1"
proof -
  have "is_thread_runnable (two_sleepers\<lparr>emu_tick := 7\<rparr>) 1"
    by (simp add: two_sleepers_def is_thread_runnable_def thread_new_def is_runnable_def)
  moreover have "length (threads (two_sleepers\<lparr>emu_tick := 7\<rparr>)) = 2" "current_thread_id (two_sleepers\<lparr>emu_tick := 7\<rparr>) = 0"
    by (simp_all add: two_sleepers_def)
  ultimately show ?thesis
    using scheduler_fair[of "two_sleepers\<lparr>emu_tick := 7\<rparr>" 1] by auto
qed

end
