(* ===== verification/Heap_Snapshot.thy ===== *)
theory Heap_Snapshot
  imports Heap_Runs
begin

section \<open>Snapshots of the heap\<close>

text \<open>
  \<open>snapshot\<close> walks to the first fragment and lists the fragments from there; \<open>from_snapshot\<close> builds a
  heap from such a list. Both walks end on a heap that satisfies the invariant when they start from
  a fragment in the address order, and the copy represents the same blocks.
\<close>

subsection \<open>Live fragments\<close>

lemma dll_alive:
  assumes "dll nx' pv' p xs q" "\<And>m n. m \<in> set xs \<Longrightarrow> alive h m \<Longrightarrow> nx' m = Some n \<Longrightarrow> alive h n"
    "xs \<noteq> [] \<Longrightarrow> alive h (hd xs)"
  shows "\<forall>n\<in>set xs. alive h n"
  using assms
proof (induction xs arbitrary: p)
  case (Cons x xs)
  then have x: "alive h x"
    by simp
  have "alive h (hd xs)" if "xs \<noteq> []"
    using Cons.prems(1) Cons.prems(2)[of x "hd xs"] x that by (cases xs) auto
  then have "\<forall>n\<in>set xs. alive h n"
    using Cons.prems by (intro Cons.IH[of "Some x"]) auto
  then show ?case
    using x by simp
qed simp

lemma binned_alive:
  assumes b: "binned h F bl" and n: "n \<in> F"
  shows "alive h n"
proof -
  let ?i = "bin_of (sz h n)"
  note bD = binnedD[OF b]
  have i: "?i < NUM_BINS_MAX"
    using bin_of_less(2)[OF bD(1)[OF n]] by simp
  have "\<forall>m\<in>set (bl ?i). alive h m"
  proof (rule dll_alive[OF bD(3)])
    show "alive h m'" if "alive h m" "nf h m = Some m'" for m m'
      using that by (auto simp: nf_def intro: alive.by_next_free)
    show "alive h (hd (bl ?i))" if "bl ?i \<noteq> []"
      using that bD(4)[of ?i] i by (cases "bl ?i") (auto intro: alive.in_bin)
  qed
  then show ?thesis
    using bD(5)[of ?i] n by auto
qed

lemma chain_alive:
  assumes inv: "heap_inv h ns bl"
  shows "\<forall>n\<in>set ns. alive h n"
proof (rule dll_alive[OF heap_invD(3)[OF inv]])
  show "alive h n" if "alive h m" "nx h m = Some n" for m n
    using that by (auto simp: nx_def intro: alive.by_next)
  show "alive h (hd ns)" if "ns \<noteq> []"
  proof (cases "us h (hd ns)")
    case True
    then show ?thesis
      using heap_invD(5)[OF inv, of "hd ns"] that by (auto intro: alive.in_index)
  next
    case False
    then show ?thesis
      using binned_alive[OF heap_invD(4)[OF inv], of "hd ns"] that by simp
  qed
qed

subsection \<open>The walks\<close>

lemma walk_back_first:
  assumes "heap_inv h (as @ n # bs) bl"
  shows "walk_back h n = Some (hd (as @ [n]))"
  using assms
proof (induction as arbitrary: n bs rule: rev_induct)
  case Nil
  then have "pv h n = None"
    using heap_invD(3)[OF Nil] by simp
  then show ?case
    by (subst walk_back.simps) (simp add: upgrade_def fold_fields)
next
  case (snoc m as)
  have "pv h n = Some m"
    using heap_invD(3)[OF snoc.prems] by simp
  moreover have "alive h m"
    using chain_alive[OF snoc.prems] by simp
  ultimately have "walk_back h n = walk_back h m"
    by (subst walk_back.simps) (simp add: upgrade_def fold_fields)
  also have "\<dots> = Some (hd (as @ [m]))"
    using snoc.IH[of m "n # bs"] snoc.prems by simp
  finally show ?case
    by (cases as) simp_all
qed

definition raw_block :: "o1heap \<Rightarrow> node \<Rightarrow> u32 \<times> u32 \<times> bool" where
  "raw_block h n = (off h n, sz h n, us h n)"

lemma walk_fragments_chain:
  "dll (nx h) (pv h) p xs None \<Longrightarrow>
    walk_fragments h (head_or None xs) acc = Some (acc @ map (raw_block h) xs)"
proof (induction xs arbitrary: p acc)
  case Nil
  then show ?case
    by (subst walk_fragments.simps) simp
next
  case (Cons x xs)
  then show ?case
    using Cons.IH[of "Some x" "acc @ [raw_block h x]"]
    by (subst walk_fragments.simps) (simp add: fold_fields raw_block_def[of h x])
qed

lemma snapshot_chain:
  assumes inv: "heap_inv h ns bl" and n: "any_fragment pick h = Some n" "n \<in> set ns"
  shows "snapshot pick h = Some \<lparr>s_base = heap_base h, s_diagnostics = diagnostics h,
    s_fragments = map (raw_block h) ns, s_hash_keys = sorted_list_of_set (dom (hashes h))\<rparr>"
proof -
  obtain as bs where ns: "ns = as @ n # bs"
    using n(2) by (meson split_list)
  have "first_fragment pick h = Some (Some (hd (as @ [n])))"
    using walk_back_first[of h as n bs bl] inv n(1) by (simp add: first_fragment_def ns)
  also have "Some (hd (as @ [n])) = head_or None ns"
    by (cases as) (simp_all add: ns)
  finally show ?thesis
    using walk_fragments_chain[OF heap_invD(3)[OF inv], of "[]"] by (simp add: snapshot_def)
qed

subsection \<open>Rebuilding\<close>

definition rebuilt :: "o1heap \<Rightarrow> (u32 \<times> u32 \<times> bool) list \<Rightarrow> (u32 \<rightharpoonup> node) \<Rightarrow> (nat \<Rightarrow> node list) \<Rightarrow> bool" where
  "rebuilt h fs by_offset bl \<longleftrightarrow>
     fresh h = length fs \<and> dll (nx h) (pv h) None [0..<length fs] None
     \<and> map (raw_block h) [0..<length fs] = fs \<and> binned h {i. i < length fs \<and> \<not> us h i} bl
     \<and> hashes h = Map.empty \<and> (\<forall>i<length fs. by_offset (off h i) = Some i)
     \<and> (\<forall>k i. by_offset k = Some i \<longrightarrow> i < length fs \<and> off h i = k)"

definition link_prev :: "node option \<Rightarrow> node \<Rightarrow> o1heap \<Rightarrow> o1heap" where
  "link_prev prev n h = (case prev of
     None \<Rightarrow> h
   | Some p \<Rightarrow> upd n (f_prev_update (\<lambda>_. Some p)) (upd p (f_next_update (\<lambda>_. Some n)) h))"

lemma link_prev_fields:
  assumes "pv h n = None" "prev \<noteq> Some n"
  shows "nx (link_prev prev n h) = upd_at prev (Some n) (nx h)" "pv (link_prev prev n h) = (pv h)(n := prev)"
    "nf (link_prev prev n h) = nf h" "pf (link_prev prev n h) = pf h" "off (link_prev prev n h) = off h"
    "sz (link_prev prev n h) = sz h" "us (link_prev prev n h) = us h" "bins (link_prev prev n h) = bins h"
    "hashes (link_prev prev n h) = hashes h" "nonempty_bin_mask (link_prev prev n h) = nonempty_bin_mask h"
    "diagnostics (link_prev prev n h) = diagnostics h" "heap_base (link_prev prev n h) = heap_base h"
    "fresh (link_prev prev n h) = fresh h"
  using assms by (cases prev; simp add: link_prev_def upd_def field_defs fun_eq_iff)+

lemma rebuild_Cons:
  "rebuild ((a, s, u) # fs) prev by_offset h =
     (let (n, h) = rc_new (fragment_new a s) h;
          h = link_prev prev n (upd n (f_used_update (\<lambda>_. u)) h)
      in rebuild fs (Some n) (by_offset(a \<mapsto> n)) (if u then h else rebin n h))"
  by (simp add: link_prev_def Let_def)

lemma rebuild_step:
  fixes u :: bool
  assumes r: "rebuilt h fs by_offset bl" and s: "256 \<le> unat s" and a: "a \<notin> fst ` set fs"
    and n: "rc_new (fragment_new a s) h = (n, h1)"
  defines "h2 \<equiv> link_prev (last_or None [0..<length fs]) n (upd n (f_used_update (\<lambda>_. u)) h1)"
  defines "h3 \<equiv> if u then h2 else rebin n h2"
  obtains bl' where "rebuilt h3 (fs @ [(a, s, u)]) (by_offset(a \<mapsto> n)) bl'" "n = length fs"
    "heap_base h3 = heap_base h" "diagnostics h3 = diagnostics h"
proof -
  let ?k = "length fs" and ?F = "{i. i < length fs \<and> \<not> us h i}"
  note e = rc_new_effect[OF n]
  have k: "n = ?k" "fresh h = ?k"
    using r e(1) by (simp_all add: rebuilt_def)
  have prev: "last_or None [0..<?k] \<noteq> Some n"
    using last_or_in[of None "[0..<?k]" n] k by auto
  have u1: "pv (upd n (f_used_update (\<lambda>_. u)) h1) n = None"
    by (simp add: used_fields e fragment_new_def)
  have f2: "nx h2 = upd_at (last_or None [0..<?k]) (Some n) ((nx h)(n := None))"
    "pv h2 = (pv h)(n := last_or None [0..<?k])" "nf h2 = (nf h)(n := None)" "pf h2 = (pf h)(n := None)"
    "off h2 = (off h)(n := a)" "sz h2 = (sz h)(n := s)" "us h2 = (us h)(n := u)" "bins h2 = bins h"
    "hashes h2 = hashes h" "nonempty_bin_mask h2 = nonempty_bin_mask h" "diagnostics h2 = diagnostics h"
    "heap_base h2 = heap_base h" "fresh h2 = Suc (fresh h)"
    using link_prev_fields[OF u1 prev, folded h2_def] by (simp_all add: used_fields e(2-) fragment_new_def)
  have big: "256 \<le> unat (sz h2 n)"
    using s by (simp add: f2)
  note rb = rebin_effect[OF big]
  have f3: "nx h3 = nx h2" "pv h3 = pv h2" "off h3 = off h2" "sz h3 = sz h2" "us h3 = us h2" "hashes h3 = hashes h2"
    "diagnostics h3 = diagnostics h2" "heap_base h3 = heap_base h2" "fresh h3 = fresh h2"
    by (simp_all add: h3_def rb)
  have "binned h ?F bl"
    using r by (simp add: rebuilt_def)
  then have b2: "binned h2 ?F bl"
    by (rule binned_cong) (auto simp: f2 k)
  have "\<exists>bl'. binned h3 {i. i < Suc ?k \<and> \<not> us h3 i} bl'"
  proof (cases u)
    case True
    then have "{i. i < Suc ?k \<and> \<not> us h3 i} = ?F"
      by (auto simp: f3 f2 k less_Suc_eq)
    moreover have "h3 = h2"
      using True by (simp add: h3_def)
    ultimately show ?thesis
      using b2 by auto
  next
    case False
    then have "{i. i < Suc ?k \<and> \<not> us h3 i} = insert n ?F"
      by (auto simp: f3 f2 k less_Suc_eq)
    moreover have "h3 = rebin n h2"
      using False by (simp add: h3_def)
    ultimately show ?thesis
      using rebin_binned[OF b2 _ big] k by auto
  qed
  then obtain bl' where b3: "binned h3 {i. i < Suc ?k \<and> \<not> us h3 i} bl'"
    by blast
  have "dll (nx h3) (pv h3) None ([0..<?k] @ [n]) None"
    unfolding f3 f2 using r k by (intro dll_snoc) (simp_all add: rebuilt_def)
  moreover have old: "map (raw_block h) [0..<?k] = fs"
    using r by (simp add: rebuilt_def)
  have "map (raw_block h3) [0..<?k] = map (raw_block h) [0..<?k]"
    using k by (intro map_cong) (auto simp: raw_block_def f3 f2)
  then have "map (raw_block h3) [0..<?k] = fs"
    by (simp only: old)
  moreover have "off h3 i \<noteq> a" if "i < ?k" for i
  proof -
    have "raw_block h i \<in> set (map (raw_block h) [0..<?k])"
      using that by simp
    then have "raw_block h i \<in> set fs"
      by (simp only: old)
    then show ?thesis
      using a that k by (auto simp: raw_block_def f3 f2 image_iff)
  qed
  ultimately have "rebuilt h3 (fs @ [(a, s, u)]) (by_offset(a \<mapsto> n)) bl'"
    using r k b3 unfolding rebuilt_def
    by (auto simp: f3 f2 raw_block_def less_Suc_eq)
  then show thesis
    using that k f3 f2 by simp
qed

lemma rebuild_rebuilt:
  assumes "rebuilt h fs by_offset bl" "\<And>a s u. (a, s, u) \<in> set gs \<Longrightarrow> 256 \<le> unat s" "distinct (map fst (fs @ gs))"
  shows "\<exists>b' h' bl'. rebuild gs (last_or None [0..<length fs]) by_offset h = (b', h')
    \<and> rebuilt h' (fs @ gs) b' bl' \<and> heap_base h' = heap_base h \<and> diagnostics h' = diagnostics h"
  using assms
proof (induction gs arbitrary: h fs by_offset bl)
  case Nil
  then show ?case
    by auto
next
  case (Cons g gs)
  obtain a s u where g: "g = (a, s, u)"
    by (metis prod.exhaust)
  obtain n h1 where n: "rc_new (fragment_new a s) h = (n, h1)"
    by fastforce
  define h3 where "h3 = (let h = link_prev (last_or None [0..<length fs]) n (upd n (f_used_update (\<lambda>_. u)) h1)
      in if u then h else rebin n h)"
  have s: "256 \<le> unat s" and a: "a \<notin> fst ` set fs"
    using Cons.prems(2)[of a s u] Cons.prems(3) by (auto simp: g)
  obtain bl' where r: "rebuilt h3 (fs @ [(a, s, u)]) (by_offset(a \<mapsto> n)) bl'" "n = length fs"
    "heap_base h3 = heap_base h" "diagnostics h3 = diagnostics h"
    unfolding h3_def Let_def by (rule rebuild_step[OF Cons.prems(1) s a n])
  have eq: "rebuild (g # gs) (last_or None [0..<length fs]) by_offset h = rebuild gs (Some n) (by_offset(a \<mapsto> n)) h3"
    unfolding g rebuild_Cons n h3_def by (simp add: Let_def)
  have lst: "last_or None [0..<length (fs @ [(a, s, u)])] = Some n"
    by (simp add: r(2))
  have "\<exists>b' h' bl'. rebuild gs (last_or None [0..<length (fs @ [(a, s, u)])]) (by_offset(a \<mapsto> n)) h3 = (b', h')
    \<and> rebuilt h' ((fs @ [(a, s, u)]) @ gs) b' bl' \<and> heap_base h' = heap_base h3 \<and> diagnostics h' = diagnostics h3"
    using Cons.prems(2,3) by (intro Cons.IH[OF r(1)]) (auto simp: g)
  then show ?case
    unfolding eq lst r(3,4) by (simp only: g append_assoc append_Cons append_Nil)
qed

lemma reindex_fields:
  "nx (reindex ks b h) = nx h" "pv (reindex ks b h) = pv h" "nf (reindex ks b h) = nf h"
  "pf (reindex ks b h) = pf h" "off (reindex ks b h) = off h" "sz (reindex ks b h) = sz h"
  "us (reindex ks b h) = us h" "bins (reindex ks b h) = bins h"
  "nonempty_bin_mask (reindex ks b h) = nonempty_bin_mask h" "diagnostics (reindex ks b h) = diagnostics h"
  "heap_base (reindex ks b h) = heap_base h" "fresh (reindex ks b h) = fresh h"
  by (induction ks b h rule: reindex.induct; simp split: option.split)+

lemma reindex_hashes:
  "hashes (reindex ks b h) k = (if k \<in> set ks \<and> b k \<noteq> None then b k else hashes h k)"
  by (induction ks b h rule: reindex.induct) (auto split: option.split)

lemma raw_to_block: "(\<lambda>(a, s, u). (unat a, unat s, u)) \<circ> raw_block h = block_of h"
  by (auto simp: raw_block_def block_of_def fun_eq_iff)

lemma map_blocks_eq:
  assumes "map (raw_block h') xs = map (raw_block h) ns"
  shows "map (block_of h') xs = map (block_of h) ns"
  using arg_cong[OF assms, of "map (\<lambda>(a, s, u). (unat a, unat s, u))"] by (simp add: raw_to_block)

lemma from_snapshot_inv:
  assumes inv: "heap_inv h ns bl"
  defines "snap \<equiv> \<lparr>s_base = heap_base h, s_diagnostics = diagnostics h,
    s_fragments = map (raw_block h) ns, s_hash_keys = sorted_list_of_set (dom (hashes h))\<rparr>"
  shows "heap_rep (heap_base h) (unat (capacity (diagnostics h))) (from_snapshot snap) (map (block_of h) ns)"
proof -
  define h0 where "h0 = \<lparr>heap_base = heap_base h, bins = (\<lambda>_. None), hashes = Map.empty, nonempty_bin_mask = 0,
    diagnostics = diagnostics h, frag = (\<lambda>_. fragment_new 0 0), fresh = 0\<rparr>"
  let ?fs = "map (raw_block h) ns" and ?k = "length ns"
  note D = heap_invD[OF inv]
  have "rebuilt h0 [] Map.empty (\<lambda>_. [])"
    by (simp add: rebuilt_def h0_def binned_def)
  moreover have "256 \<le> unat s" if "(a, s, u) \<in> set ?fs" for a s u
    using that heap_inv_block(1)[OF inv] by (auto simp: raw_block_def)
  moreover have "distinct (map fst ([] @ ?fs))"
    using D(1) heap_off_inj[OF inv] by (auto simp: distinct_map inj_on_def raw_block_def)
  ultimately obtain b h1 bl1 where r: "rebuild ?fs None Map.empty h0 = (b, h1)" "rebuilt h1 ?fs b bl1"
    "heap_base h1 = heap_base h" "diagnostics h1 = diagnostics h"
    using rebuild_rebuilt[of h0 "[]" Map.empty "\<lambda>_. []" ?fs] by (auto simp: h0_def)
  define h2 where "h2 = reindex (sorted_list_of_set (dom (hashes h))) b h1"
  have snap: "from_snapshot snap = h2"
    using r(1) by (simp add: from_snapshot_def snap_def h0_def[symmetric] h2_def)
  note f = reindex_fields[of "sorted_list_of_set (dom (hashes h))" b h1, folded h2_def]
  have raw: "map (raw_block h1) [0..<?k] = ?fs" and h1: "fresh h1 = ?k" "hashes h1 = Map.empty"
    "dll (nx h1) (pv h1) None [0..<?k] None" "binned h1 {i. i < ?k \<and> \<not> us h1 i} bl1"
    "\<And>i. i < ?k \<Longrightarrow> b (off h1 i) = Some i" "\<And>k i. b k = Some i \<Longrightarrow> i < ?k \<and> off h1 i = k"
    using r(2) by (simp_all add: rebuilt_def)
  have blocks: "map (block_of h2) [0..<?k] = map (block_of h) ns"
    using map_blocks_eq[OF raw] by (simp add: block_of_def f cong: map_cong)
  have "hashes h2 (off h2 i) = Some i" if i: "i < ?k" "us h2 i" for i
  proof -
    have "raw_block h1 i = raw_block h (ns ! i)"
      using arg_cong[OF raw, of "\<lambda>xs. xs ! i"] i(1) by simp
    then have "off h1 i = off h (ns ! i)" "us h (ns ! i)"
      using i(2) by (simp_all add: raw_block_def f)
    then have "off h1 i \<in> dom (hashes h)"
      using D(5)[of "ns ! i"] i(1) by auto
    then show ?thesis
      using h1(5)[OF i(1)] by (simp add: h2_def reindex_hashes reindex_fields)
  qed
  moreover have "i < ?k \<and> off h2 i = k" if "hashes h2 k = Some i" for k i
    using that h1(2) h1(6)[of k i] by (auto simp: h2_def reindex_hashes reindex_fields split: if_splits)
  ultimately have "indexed h2 [0..<?k]"
    by (simp add: indexed_def f h1(1))
  moreover have "chain h2 [0..<?k]"
    using h1(3) by (simp add: chain_def f h1(1))
  moreover have "{i. i < ?k \<and> \<not> us h1 i} = {i \<in> set [0..<?k]. \<not> us h2 i}"
    by (auto simp: f)
  then have "binned h2 {i \<in> set [0..<?k]. \<not> us h2 i} bl1"
    using binned_cong[OF h1(4), of h2] by (simp add: f)
  ultimately have "heap_inv h2 [0..<?k] bl1"
    unfolding heap_inv_def blocks using D(7,8,9) by (simp add: f r(4))
  from heap_repI[OF this] show ?thesis
    unfolding snap blocks by (simp add: f r)
qed

subsection \<open>The copy\<close>

lemma allocate_success:
  assumes "heap_rep base cap h bs"
  shows "(\<exists>a h'. allocate amount h = Ret (Some a, h')) \<longleftrightarrow> can_allocate amount cap bs"
  using allocate_refines[OF assms, of amount] by (auto split: if_splits)

lemma same_lookups:
  assumes "heap_rep base cap h bs" "heap_rep base cap h' bs"
  shows "allocation_size addr h' = allocation_size addr h"
  using allocation_size_iff[OF assms(1), of addr] allocation_size_iff[OF assms(2), of addr]
  by (cases "allocation_size addr h"; cases "allocation_size addr h'") (simp, metis+)

text \<open>
C15: A copy of the heap (\<open>clone\<close>: a snapshot and a heap rebuilt from it) is faithful when the walk starts
from a fragment of the address order. The walks end; the copy has the same base, capacity and blocks;
it reports the same allocations; and a request succeeds on the copy exactly when it succeeds on the
original.
\<close>

theorem heap_clone_correct:
  assumes inv: "heap_inv h ns bl" and n: "any_fragment pick h = Some n" "n \<in> set ns"
  shows "\<exists>h'. heap_clone pick h = Some h'
    \<and> heap_rep (heap_base h) (unat (capacity (diagnostics h))) h' (map (block_of h) ns)
    \<and> (\<forall>addr. allocation_size addr h' = allocation_size addr h)
    \<and> (\<forall>amount. (\<exists>a k. allocate amount h' = Ret (Some a, k)) \<longleftrightarrow> (\<exists>a k. allocate amount h = Ret (Some a, k)))"
proof -
  obtain h' where h': "heap_clone pick h = Some h'"
    "heap_rep (heap_base h) (unat (capacity (diagnostics h))) h' (map (block_of h) ns)"
    using snapshot_chain[OF inv n] from_snapshot_inv[OF inv] by (simp add: heap_clone_def)
  note rep = heap_repI[OF inv refl refl]
  show ?thesis
    using h' same_lookups[OF rep h'(2)] allocate_success[OF rep] allocate_success[OF h'(2)] by blast
qed

theorem heap_clone_correct_witness:
  "\<exists>h h'. heap_reachable 1024 0x1000 0x10000 h \<and> heap_clone (\<lambda>m. m 0) h = Some h'
     \<and> heap_rep 0x1000 0x10000 h' [(0, 512, True), (512, 512, True), (1024, 64512, False)]"
proof -
  obtain h where h: "heap_reachable 1024 0x1000 0x10000 h"
    "heap_rep 0x1000 0x10000 h [(0, 512, True), (512, 512, True), (1024, 64512, False)]"
    by (rule two_allocations)
  obtain ns bl where inv: "heap_inv h ns bl"
    "[(0, 512, True), (512, 512, True), (1024, 64512, False)] = map (block_of h) ns"
    "heap_base h = 0x1000" "unat (capacity (diagnostics h)) = 0x10000"
    using h(2) by (rule heap_repE)
  have "(unat (0::u32), 512, True) \<in> set (map (block_of h) ns)"
    unfolding inv(2)[symmetric] by simp
  then have "(unat (0::u32), 512, True) \<in> block_of h ` set ns"
    by (simp only: set_map)
  then obtain n where n: "hashes h 0 = Some n" "us h n"
    using used_at_offset[OF inv(1), of 0 512] by blast
  then have "n \<in> set ns" "any_fragment (\<lambda>m. m 0) h = Some n"
    using heap_invD(6)[OF inv(1) n(1)] by (simp_all add: any_fragment_def)
  from heap_clone_correct[OF inv(1) this(2,1), folded inv(2), unfolded inv(3,4)]
  obtain h' where "heap_clone (\<lambda>m. m 0) h = Some h'"
    "heap_rep 0x1000 0x10000 h' [(0, 512, True), (512, 512, True), (1024, 64512, False)]"
    by blast
  then show ?thesis
    using h(1) by blast
qed

end
