(* ===== verification/Heap_Stale.thy ===== *)
theory Heap_Stale
  imports Heap_Snapshot
begin

text \<open>
  A copy of a heap that starts from a stale index entry. \<open>free\<close> removes from the index the entry of the
  fragment that it frees, and not those of the fragments that the merge absorbs, so a run of two
  allocations freed from the last to the first leaves one entry, for a fragment of size 0. \<open>snapshot\<close> may
  start from it, and the copy then has none of the arena.
\<close>

subsection \<open>A copy that starts from a stale entry\<close>

text \<open>A heap with one free fragment, whose index has one entry, for a fragment that \<open>free\<close> has merged
  away and whose left neighbour is gone.\<close>

definition stale_only :: "o1heap \<Rightarrow> u32 \<Rightarrow> node \<Rightarrow> bool" where
  "stale_only h k m \<longleftrightarrow> hashes h = [k \<mapsto> m] \<and> nx h m = None \<and> nf h m = None \<and> sz h m = 0 \<and> off h m = k \<and> \<not> us h m
     \<and> (\<exists>p. pv h m = Some p \<and> p \<noteq> m \<and> p \<noteq> 0) \<and> (\<exists>bl. heap_inv h [0] bl)"

lemma distinct_singleton:
  assumes "set xs = {n}" "distinct xs"
  shows "xs = [n]"
proof (cases xs)
  case (Cons x ys)
  then have "x = n" "set ys \<subseteq> {n}" "n \<notin> set ys"
    using assms by auto
  then have "ys = []"
    by (cases ys) simp_all
  then show ?thesis
    using Cons \<open>x = n\<close> by simp
qed (use assms in simp)

lemma one_binned:
  assumes "binned h {n} bl"
  shows "nf h n = None" "pf h n = None" "bins h i = Some m \<Longrightarrow> m = n"
proof -
  note bD = binnedD[OF assms]
  have "set (bl (bin_of (sz h n))) = {n}"
    using bD(5)[of "bin_of (sz h n)"] by auto
  then have "bl (bin_of (sz h n)) = [n]"
    using bD(2)[of "bin_of (sz h n)"] by (rule distinct_singleton)
  then show "nf h n = None" "pf h n = None"
    using bD(3)[of "bin_of (sz h n)"] by simp_all
  show "m = n" if "bins h i = Some m"
    using that bD(4)[of i] bD(5)[of i] head_or_in[of None "bl i" m] by auto
qed

lemma stale_snapshot:
  assumes st: "stale_only h k m" and pick: "pick (hashes h) = Some m"
  shows "snapshot pick h = Some \<lparr>s_base = heap_base h, s_diagnostics = diagnostics h,
    s_fragments = [(k, 0, False)], s_hash_keys = [k]\<rparr>"
proof -
  obtain p bl where p: "pv h m = Some p" "p \<noteq> m" "p \<noteq> 0" and inv: "heap_inv h [0] bl"
    using st by (auto simp: stale_only_def)
  note D = heap_invD[OF inv]
  have ends: "nx h 0 = None" "pv h 0 = None"
    using D(3) by simp_all
  have "\<not> us h 0"
  proof
    assume "us h 0"
    then have "[k \<mapsto> m] (off h 0) = Some 0"
      using D(5)[of 0] st by (simp add: stale_only_def)
    then have "m = 0"
      by (simp split: if_splits)
    then show False
      using p(1) ends(2) by simp
  qed
  note zero = ends(1) this
  have b: "binned h {0} bl"
    using D(4) zero(2) by (simp add: Collect_conv_if)
  have "n = m \<or> n = 0" if "alive h n" for n
    using that
  proof induction
    case (in_bin i n)
    then show ?case
      using one_binned(3)[OF b] by auto
  next
    case (by_next n n')
    then show ?case
      using st zero by (auto simp: stale_only_def fold_fields)
  next
    case (by_next_free n n')
    then show ?case
      using st one_binned(1)[OF b] by (auto simp: stale_only_def fold_fields)
  qed (use st in \<open>auto simp: stale_only_def split: if_splits\<close>)
  then have "\<not> alive h p"
    using p by auto
  then have "walk_back h m = Some m"
    by (subst walk_back.simps) (simp add: upgrade_def fold_fields p)
  moreover have "walk_fragments h None acc = Some acc" for acc
    by (subst walk_fragments.simps) simp
  then have "walk_fragments h (Some m) [] = Some [(k, 0, False)]"
    using st by (subst walk_fragments.simps) (simp add: fold_fields stale_only_def)
  ultimately show ?thesis
    using pick st by (simp add: snapshot_def first_fragment_def any_fragment_def stale_only_def)
qed

lemma rebin_empty: "sz h n = 0 \<Longrightarrow> rebin n h = h"
  by (simp add: rebin_def fold_fields FRAGMENT_SIZE_MIN_def)

lemma stale_clone:
  assumes st: "stale_only h k m" and pick: "pick (hashes h) = Some m"
  obtains h' where "heap_clone pick h = Some h'" "\<And>amount. \<exists>h''. allocate amount h' = Ret (None, h'')"
proof -
  define h' where "h' = from_snapshot \<lparr>s_base = heap_base h, s_diagnostics = diagnostics h,
    s_fragments = [(k, 0, False)], s_hash_keys = [k]\<rparr>"
  have "nonempty_bin_mask (rebin n (upd n (f_used_update f) g)) = nonempty_bin_mask g" if "sz g n = 0" for n f g
    using that by (subst rebin_empty) (simp_all add: heap_fields fold_fields)
  then have "nonempty_bin_mask h' = 0"
    by (simp add: h'_def from_snapshot_def rc_new_def Let_def reindex_fields sz_def fragment_new_def)
  then have "\<exists>h''. allocate amount h' = Ret (None, h'')" for amount
    by (simp add: allocate_def Let_def)
  moreover have "heap_clone pick h = Some h'"
    by (simp add: heap_clone_def stale_snapshot[of h k m pick, OF st pick] h'_def)
  ultimately show thesis
    using that by blast
qed

lemma clamp_200: "clamp_fragment (round_up_to_power_of_2 200) = 256"
  by code_simp

text \<open>An allocation from the last fragment, the only one that is free.\<close>

lemma allocate_last:
  assumes inv: "heap_inv h (as @ [n]) bl" and us: "\<not> us h n" "\<forall>y\<in>set as. us h y" and s: "512 \<le> unat (sz h n)"
  defines "m \<equiv> fresh h"
  obtains h' bl' where "allocate 200 h = Ret (Some (ucast (off h n) + heap_base h), h')" "heap_inv h' (as @ [n, m]) bl'"
    "hashes h' = (hashes h)(off h n + 256 \<mapsto> m, off h n \<mapsto> n)" "us h' = (us h)(m := False, n := True)"
    "off h' = (off h)(m := off h n + 256)" "sz h' = (sz h)(m := sz h n - 256, n := 256)" "fresh h' = Suc m"
    "heap_base h' = heap_base h" "pv h' m = Some n" "nx h' m = None"
    "capacity (diagnostics h') = capacity (diagnostics h)"
proof -
  note D = heap_invD[OF inv]
  have cap: "unat (off h n) + unat (sz h n) \<le> unat (capacity (diagnostics h))"
    using heap_inv_block(2)[OF inv, of n] by simp
  have "(unat (off h n), unat (sz h n), False) \<in> set (map (block_of h) (as @ [n]))"
    using us(1) by (simp add: block_of_def)
  then have "can_allocate 200 (unat (capacity (diagnostics h))) (map (block_of h) (as @ [n]))"
    using s cap unfolding can_allocate_def fragment_bytes_def clamp_200 by (intro conjI bexI) auto
  from allocate_some[OF inv this, unfolded clamp_200] obtain n' a h' where
    al: "allocate 200 h = Ret (Some a, h')" "take_fragment n' 256 h = (a, h')" "n' \<in> set (as @ [n])" "\<not> us h n'"
    by metis
  then have "n' = n"
    using us(2) by auto
  note al = al(1) al(2)[unfolded this]
  have le: "(256::u32) \<le> sz h n"
    using s by (simp add: word_le_nat_alt)
  have split: "256 \<le> sz h n - ucast (256::u64)"
    using s unat_sub[OF le] by (simp add: word_le_nat_alt)
  have m: "m \<notin> set (as @ [n])" "n < fresh h"
    using D(2)[of m] D(2)[of n] by (auto simp: m_def)
  obtain bl' where i: "heap_inv h' (as @ n # fresh h # []) bl'" "a = ucast (off h n) + heap_base h" "heap_base h' = heap_base h"
    "capacity (diagnostics h') = capacity (diagnostics h)"
    using s by (auto intro: take_split_correct[OF inv us(1) _ _ _ al(2) split])
  obtain bl1 where f: "nx h' = ((nx h)(m := nx h n))(n := Some m)" "pv h' = upd_at (nx h n) (Some m) ((pv h)(m := Some n))"
    "off h' = (off h)(m := off h n + ucast (256::u64))"
    "sz h' = ((sz h)(m := sz h n - ucast (256::u64)))(n := ucast (256::u64))" "us h' = ((us h)(m := False))(n := True)"
    "hashes h' = (hashes h)(off h n + ucast (256::u64) \<mapsto> m, off h n \<mapsto> n)" "fresh h' = Suc (fresh h)"
    unfolding m_def by (rule take_split[OF D(4) _ m(2) _ split al(2)]) (use us(1) m(1) in \<open>auto simp: m_def\<close>)
  have "nx h n = None"
    using D(3) by simp
  with f i al show thesis
    using m by (intro that[of h' bl']) (auto simp: m_def)
qed

text \<open>A release of the last allocation, which absorbs the free fragment behind it.\<close>

lemma free_last:
  assumes inv: "heap_inv h (as @ [n, q]) bl" and us: "us h n" "\<not> us h q" "\<forall>y\<in>set as. us h y"
    and hash: "hashes h (off h n) = Some n"
  obtains h' bl' where "heap_free (ucast (off h n) + heap_base h) h = Ret h'" "heap_inv h' (as @ [n]) bl'"
    "map (block_of h') (as @ [n]) = map (block_of h) as @ [(unat (off h n), unat (sz h n) + unat (sz h q), False)]"
    "hashes h' = (hashes h)(off h n := None)" "us h' = (us h)(n := False)" "off h' = off h"
    "sz h' = (sz h)(n := sz h n + sz h q, q := 0)" "pv h' = pv h" "nx h' = (nx h)(n := None)"
    "\<forall>y. y \<noteq> n \<longrightarrow> nf h' y = nf h y" "heap_base h' = heap_base h" "nf h q = None"
    "capacity (diagnostics h') = capacity (diagnostics h)"
proof -
  note D = heap_invD[OF inv]
  have dist: "n \<notin> set as" "n \<noteq> q" "n \<notin> set [q]"
    using D(1) by auto
  have F: "{y \<in> set (as @ [n, q]). \<not> us h y} = {q}"
    using us by auto
  have b: "binned (freed n h) {q} bl"
    using freed_binned[OF D(4)] unfolding F .
  note one = one_binned[OF b, simplified]
  have "256 \<le> unat (sz (freed n h) q)"
    using binnedD(1)[OF b] by simp
  note u = unbin_effect[OF this, unfolded freed_fields, simplified one, simplified]
  define h2 where "h2 = upd q (f_size_update (\<lambda>_. 0)) (upd n (\<lambda>f. f\<lparr>f_size := f_size f + sz h q\<rparr>) (unbin q (freed n h)))"
  define h' where "h' = rebin n (link_past n None h2)"
  have at: "heap_at (heap_base h) (unat (capacity (diagnostics h))) h' (as @ [n])
      (map (block_of h) as @ [(unat (off h n), unat (sz h n) + unat (sz h q), False)])"
    using merge_right[of h as n q "[]" bl] inv us by (simp add: h'_def h2_def)
  have links: "pv (freed n h) n = last_or None as" "nx (freed n h) n = head_or None [q]" "nx h q = None"
    using D(3) by simp_all
  have "\<not> free_head h (rev as)" "free_head h [q]"
    using us by (cases as rule: rev_cases; simp add: free_head_def)+
  then have "merge_free n (freed n h) = Ret h'"
    unfolding merge_free_unfold[OF links(1,2), unfolded free_at_head[OF dist(3)] free_at_last[OF dist(1)]]
    using links(3) dist by (simp add: h'_def h2_def u size_fields)
  then have free: "heap_free (ucast (off h n) + heap_base h) h = Ret h'"
    using heap_free_at[OF inv, of "ucast (off h n) + heap_base h" n] hash us(1) by (simp add: ucast_id_up)
  have s2: "sz h2 = (sz h)(n := sz h n + sz h q, q := 0)"
    using dist by (simp add: h2_def size_fields u)
  have "256 \<le> unat (sz h2 n)"
    using heap_inv_block(1)[OF inv, of n] adjacent_sizes[of h as "[n, q]" "[]" bl] inv dist
    by (simp add: s2 block_of_def unat_word_ariths)
  then have "256 \<le> unat (sz (link_past n None h2) n)"
    by (simp add: heap_fields)
  note r = rebin_effect[OF this, folded h'_def]
  obtain bl' where inv': "heap_inv h' (as @ [n]) bl'" "heap_base h' = heap_base h"
    "map (block_of h') (as @ [n]) = map (block_of h) as @ [(unat (off h n), unat (sz h n) + unat (sz h q), False)]"
    "unat (capacity (diagnostics h')) = unat (capacity (diagnostics h))"
    using at unfolding heap_at_def by blast
  show thesis
    by (rule that[OF free inv'(1,3)])
      (use inv'(2,4) one dist in \<open>simp_all add: r heap_fields s2, simp_all add: h2_def size_fields u\<close>)
qed

text \<open>Two allocations of 200 bytes in a new arena of 64 KiB, freed from the last to the first.\<close>

lemma stale_run:
  obtains h where "heap_reachable 1024 0x1000 0x10000 h" "stale_only h 512 2"
    "heap_rep 0x1000 0x10000 h [(0, 0x10000, False)]"
proof -
  obtain h0 where h0: "heap_new 1024 0x1000 0x10000 = Some h0" "heap_inv h0 [0] ((\<lambda>_. [])(bin_of 0x10000 := [0]))"
    "map (block_of h0) [0] = [(0, unat (0x10000::u32), False)]" "heap_base h0 = 0x1000" "hashes h0 = [0 \<mapsto> 0]"
    "fresh h0 = 1" "capacity (diagnostics h0) = ucast (0x10000::u32)"
    using heap_new_inv[of 1024 "0x10000" "0x1000"] by auto
  then have b0: "off h0 0 = 0" "sz h0 0 = 0x10000" "\<not> us h0 0"
    by (simp_all add: block_of_def word_unat_eq_iff)
  have i0: "heap_inv h0 ([] @ [0]) ((\<lambda>_. [])(bin_of 0x10000 := [0]))" "\<forall>y\<in>set []. us h0 y" "512 \<le> unat (sz h0 0)"
    using h0(2) by (simp_all add: b0)
  obtain h1 bl1 where h1: "allocate 200 h0 = Ret (Some (ucast (off h0 0) + heap_base h0), h1)"
    "heap_inv h1 ([] @ [0, fresh h0]) bl1" "hashes h1 = (hashes h0)(off h0 0 + 256 \<mapsto> fresh h0, off h0 0 \<mapsto> 0)"
    "us h1 = (us h0)(fresh h0 := False, 0 := True)" "off h1 = (off h0)(fresh h0 := off h0 0 + 256)"
    "sz h1 = (sz h0)(fresh h0 := sz h0 0 - 256, 0 := 256)" "fresh h1 = Suc (fresh h0)" "heap_base h1 = heap_base h0"
    "capacity (diagnostics h1) = capacity (diagnostics h0)"
    by (rule allocate_last[OF i0(1) b0(3) i0(2,3)])
  note f1 = h1(3-9)[unfolded h0(4-6) b0]
  have i1: "heap_inv h1 ([0] @ [1]) bl1" "\<not> us h1 1" "\<forall>y\<in>set [0]. us h1 y" "512 \<le> unat (sz h1 1)"
    using h1(2) by (simp_all add: f1 h0(6))
  obtain h2 bl2 where h2: "allocate 200 h1 = Ret (Some (ucast (off h1 1) + heap_base h1), h2)"
    "heap_inv h2 ([0] @ [1, fresh h1]) bl2" "hashes h2 = (hashes h1)(off h1 1 + 256 \<mapsto> fresh h1, off h1 1 \<mapsto> 1)"
    "us h2 = (us h1)(fresh h1 := False, 1 := True)" "off h2 = (off h1)(fresh h1 := off h1 1 + 256)"
    "sz h2 = (sz h1)(fresh h1 := sz h1 1 - 256, 1 := 256)" "heap_base h2 = heap_base h1"
    "pv h2 (fresh h1) = Some 1" "nx h2 (fresh h1) = None" "capacity (diagnostics h2) = capacity (diagnostics h1)"
    by (rule allocate_last[OF i1])
  have fr: "fresh h1 = 2"
    by (simp add: f1)
  note f2 = h2(3-10)[unfolded fr]
  have i2: "heap_inv h2 ([0] @ [1, 2]) bl2" "us h2 1" "\<not> us h2 2" "\<forall>y\<in>set [0]. us h2 y" "hashes h2 (off h2 1) = Some 1"
    using h2(2)[unfolded fr] by (simp_all add: f2 f1)
  obtain h3 bl3 where h3: "heap_free (ucast (off h2 1) + heap_base h2) h2 = Ret h3" "heap_inv h3 ([0] @ [1]) bl3"
    "map (block_of h3) ([0] @ [1]) = map (block_of h2) [0] @ [(unat (off h2 1), unat (sz h2 1) + unat (sz h2 2), False)]"
    "hashes h3 = (hashes h2)(off h2 1 := None)" "us h3 = (us h2)(1 := False)" "off h3 = off h2"
    "sz h3 = (sz h2)(1 := sz h2 1 + sz h2 2, 2 := 0)" "pv h3 = pv h2" "nx h3 = (nx h2)(1 := None)"
    "\<forall>y. y \<noteq> 1 \<longrightarrow> nf h3 y = nf h2 y" "heap_base h3 = heap_base h2" "nf h2 2 = None"
    "capacity (diagnostics h3) = capacity (diagnostics h2)"
    by (rule free_last[OF i2])
  have i3: "heap_inv h3 ([] @ [0, 1]) bl3" "us h3 0" "\<not> us h3 1" "\<forall>y\<in>set []. us h3 y" "hashes h3 (off h3 0) = Some 0"
    using h3(2) by (simp_all add: h3(4-6) f2 f1 b0)
  obtain h4 bl4 where h4: "heap_free (ucast (off h3 0) + heap_base h3) h3 = Ret h4" "heap_inv h4 ([] @ [0]) bl4"
    "map (block_of h4) ([] @ [0]) = map (block_of h3) [] @ [(unat (off h3 0), unat (sz h3 0) + unat (sz h3 1), False)]"
    "hashes h4 = (hashes h3)(off h3 0 := None)" "us h4 = (us h3)(0 := False)" "off h4 = off h3"
    "sz h4 = (sz h3)(0 := sz h3 0 + sz h3 1, 1 := 0)" "pv h4 = pv h3" "nx h4 = (nx h3)(0 := None)"
    "\<forall>y. y \<noteq> 0 \<longrightarrow> nf h4 y = nf h3 y" "heap_base h4 = heap_base h3" "nf h3 1 = None"
    "capacity (diagnostics h4) = capacity (diagnostics h3)"
    by (rule free_last[OF i3])
  note fields = h4(4-13) h3(4-13) f2 f1 b0
  have "heap_reachable 1024 0x1000 0x10000 h4"
    using reach_new[OF h0(1)] step_allocate[OF h1(1)] step_allocate[OF h2(1)] step_free[OF h3(1)] step_free[OF h4(1)]
    by (meson reach_step)
  moreover have "hashes h4 = [512 \<mapsto> 2]"
    by (auto simp: fields fun_eq_iff)
  then have "stale_only h4 512 2"
    using h4(2) by (auto simp: stale_only_def fields)
  moreover have "heap_rep 0x1000 0x10000 h4 [(0, 0x10000, False)]"
    using heap_repI[OF h4(2), of "0x1000" "0x10000"] h4(3) by (simp add: fields h0(7))
  ultimately show thesis
    by (rule that)
qed

text \<open>
C16: A copy of a heap can lose all of its memory. A run of allocations and releases ends in a heap of 64
KiB, all of it free and available, whose copy fails every allocation, for every iteration order of the
index. The index has one entry then, for a fragment that was merged away with its left neighbour, and the
copy is made of that fragment alone.
\<close>

theorem clone_loses_arena:
  "\<exists>h. heap_reachable 1024 0x1000 0x10000 h \<and> heap_rep 0x1000 0x10000 h [(0, 0x10000, False)]
     \<and> hashes h = [512 \<mapsto> 2] \<and> (\<exists>h1. allocate 200 h = Ret (Some 0x1000, h1))
     \<and> (\<forall>pick. pick (hashes h) \<in> Some ` ran (hashes h) \<longrightarrow>
         (\<exists>h'. heap_clone pick h = Some h' \<and> (\<forall>amount. \<exists>h''. allocate amount h' = Ret (None, h''))))"
proof -
  obtain h where h: "heap_reachable 1024 0x1000 0x10000 h" "stale_only h 512 2"
    "heap_rep 0x1000 0x10000 h [(0, 0x10000, False)]"
    by (rule stale_run)
  have "can_allocate 200 0x10000 [(0, 0x10000, False)]"
    by (simp add: can_allocate_def fragment_bytes_def clamp_200)
  then obtain h1 where "allocate 200 h = Ret (Some (of_nat 0 + 0x1000), h1)"
    using allocate_only_block[OF h(3)] by metis
  moreover have "\<exists>h'. heap_clone pick h = Some h' \<and> (\<forall>amount. \<exists>h''. allocate amount h' = Ret (None, h''))"
    if "pick (hashes h) \<in> Some ` ran (hashes h)" for pick
  proof -
    have "pick (hashes h) = Some 2"
      using that h(2) by (simp add: stale_only_def)
    then show ?thesis
      using stale_clone[of h 512 2 pick, OF h(2)] by metis
  qed
  ultimately show ?thesis
    using h by (intro exI[of _ h]) (simp add: stale_only_def)
qed

theorem clone_loses_arena_witness:
  "\<exists>h h' h''. heap_reachable 1024 0x1000 0x10000 h \<and> heap_rep 0x1000 0x10000 h [(0, 0x10000, False)]
     \<and> heap_clone (\<lambda>m. m 512) h = Some h' \<and> allocate 200 h' = Ret (None, h'')"
proof -
  obtain h where h: "heap_reachable 1024 0x1000 0x10000 h" "heap_rep 0x1000 0x10000 h [(0, 0x10000, False)]"
    "hashes h = [512 \<mapsto> 2]" "\<forall>pick. pick (hashes h) \<in> Some ` ran (hashes h) \<longrightarrow>
         (\<exists>h'. heap_clone pick h = Some h' \<and> (\<forall>amount. \<exists>h''. allocate amount h' = Ret (None, h'')))"
    using clone_loses_arena by blast
  have "hashes h 512 \<in> Some ` ran (hashes h)"
    by (simp add: h(3))
  then obtain h' h'' where "heap_clone (\<lambda>m. m 512) h = Some h'" "allocate 200 h' = Ret (None, h'')"
    using h(4)[rule_format, of "\<lambda>m. m 512"] by blast
  then show ?thesis
    using h(1,2) by blast
qed

end
