(* ===== verification/Processes.thy ===== *)
theory Processes
  imports Emu_State Heap_Stale
begin

section \<open>Forked processes\<close>

text \<open>
  A model of \<^verbatim>\<open>crates/libmwemu/src/threading/process.rs\<close>: \<open>fork\<close> saves the parent and goes on as the child, the
  end of the child restores the parent and leaves a zombie, which the parent reaps.

  Cloning an arena is \<open>heap_clone\<close>, which may not return and depends on the iteration order \<open>pick\<close> of a hash
  map; then \<open>fork_begin\<close> does not return either. The instruction cache, which \<open>process_exit\<close> resets, is not
  part of the state.
\<close>

subsection \<open>Operations\<close>

definition INITIAL_PID :: u64 where "INITIAL_PID = 1234"

definition INITIAL_PPID :: u64 where "INITIAL_PPID = 1"

definition process_table_new :: process_table where
  "process_table_new =
     \<lparr>pid = INITIAL_PID, ppid = INITIAL_PPID, exit_status_of = None, atfork = [], next_pid = INITIAL_PID + 1,
      frames = [], zombies = []\<rparr>"

definition in_child :: "process_table \<Rightarrow> bool" where
  "in_child p \<longleftrightarrow> frames p \<noteq> []"

definition has_children :: "process_table \<Rightarrow> bool" where
  "has_children p \<longleftrightarrow> list_ex (\<lambda>z. z_ppid z = pid p) (zombies p)"

definition exit_status :: "u64 \<Rightarrow> u64" where
  "exit_status code = push_bit 8 (code AND 0xff)"

definition signal_status :: "u64 \<Rightarrow> u64" where
  "signal_status sig = sig AND 0x7f"

fun clone_arenas :: "pick \<Rightarrow> o1heap list \<Rightarrow> o1heap list option" where
  "clone_arenas pick [] = Some []"
| "clone_arenas pick (h # hs) =
     (case heap_clone pick h of
        None \<Rightarrow> None
      | Some h' \<Rightarrow> map_option ((#) h') (clone_arenas pick hs))"

definition fork_begin :: "pick \<Rightarrow> emu \<Rightarrow> (u64 \<times> emu) outcome option" where
  "fork_begin pick e =
     map_option (\<lambda>arenas.
       let p = processes e;
           child_pid = next_pid p;
           p = p\<lparr>next_pid := next_pid p + 1\<rparr>;
           frame = \<lparr>ff_pid = pid p, ff_ppid = ppid p, ff_maps = emu_maps e, ff_threads = threads e,
                    ff_current_thread_id = current_thread_id e, ff_heap_arenas = arenas,
                    ff_guard_heap = map_option k_heap (kernel e), ff_emulated_stdout = emulated_stdout e,
                    ff_getopt_char_index = getopt_char_index e, ff_atfork = atfork p\<rparr>;
           p = p\<lparr>frames := frames p @ [frame]\<rparr>
       in obind (vec_index (threads e) (current_thread_id e)) (\<lambda>caller.
            let p = p\<lparr>ppid := pid p\<rparr>;
                p = p\<lparr>pid := child_pid\<rparr>
            in Ret (child_pid, e\<lparr>threads := [caller], current_thread_id := 0, processes := p\<rparr>)))
       (clone_arenas pick (heap_arenas e))"

definition process_exit :: "u64 \<Rightarrow> emu \<Rightarrow> u64 option \<times> emu" where
  "process_exit status e =
     (let p = processes e
      in if \<not> in_child p then
           (None, emu_stop (e\<lparr>processes := p\<lparr>exit_status_of := Some status\<rparr>\<rparr>))
         else
           let frame = last (frames p);
               child_pid = pid p;
               p = p\<lparr>frames := butlast (frames p),
                     zombies := zombies p @ [\<lparr>z_pid = child_pid, z_ppid = ff_pid frame, z_status = status\<rparr>],
                     pid := ff_pid frame, ppid := ff_ppid frame, atfork := ff_atfork frame\<rparr>;
               k = (case (kernel e, ff_guard_heap frame) of
                      (Some k, Some h) \<Rightarrow> Some (k\<lparr>k_heap := h\<rparr>)
                    | _ \<Rightarrow> kernel e)
           in (Some child_pid,
               e\<lparr>processes := p, emu_maps := ff_maps frame, threads := ff_threads frame,
                 current_thread_id := ff_current_thread_id frame, heap_arenas := ff_heap_arenas frame, kernel := k,
                 emulated_stdout := ff_emulated_stdout frame, getopt_char_index := ff_getopt_char_index frame\<rparr>))"

definition is_reapable :: "u64 \<Rightarrow> u64 \<Rightarrow> zombie \<Rightarrow> bool" where
  "is_reapable me child z \<longleftrightarrow> z_ppid z = me \<and> (sint child \<le> 0 \<or> z_pid z = child)"

definition reap_child :: "u64 \<Rightarrow> emu \<Rightarrow> (u64 \<times> u64) option \<times> emu" where
  "reap_child child e =
     (let p = processes e
      in case position (is_reapable (pid p) child) (zombies p) of
           None \<Rightarrow> (None, e)
         | Some idx \<Rightarrow>
             let z = zombies p ! idx
             in (Some (z_pid z, z_status z),
                 e\<lparr>processes := p\<lparr>zombies := take idx (zombies p) @ drop (idx + 1) (zombies p)\<rparr>\<rparr>))"

subsection \<open>Fork and exit\<close>

lemma fork_begin_eq:
  assumes "fork_begin pick e = Some (Ret (child, e1))"
  shows "current_thread_id e < length (threads e)" "child = next_pid (processes e)"
    "\<exists>arenas frame. clone_arenas pick (heap_arenas e) = Some arenas
       \<and> frame = \<lparr>ff_pid = pid (processes e), ff_ppid = ppid (processes e), ff_maps = emu_maps e, ff_threads = threads e,
            ff_current_thread_id = current_thread_id e, ff_heap_arenas = arenas,
            ff_guard_heap = map_option k_heap (kernel e), ff_emulated_stdout = emulated_stdout e,
            ff_getopt_char_index = getopt_char_index e, ff_atfork = atfork (processes e)\<rparr>
       \<and> e1 = e\<lparr>threads := [threads e ! current_thread_id e], current_thread_id := 0,
            processes := (processes e)\<lparr>pid := next_pid (processes e), ppid := pid (processes e),
              next_pid := next_pid (processes e) + 1, frames := frames (processes e) @ [frame]\<rparr>\<rparr>"
  using assms by (auto simp: fork_begin_def Let_def vec_index_def split: if_splits)

lemma fork_frame:
  assumes "fork_begin pick e = Some (Ret (child, e1))"
  obtains frame where "ff_pid frame = pid (processes e)" "pid (processes e1) = child"
    "processes e1 = (processes e)\<lparr>pid := next_pid (processes e), ppid := pid (processes e),
         next_pid := next_pid (processes e) + 1, frames := frames (processes e) @ [frame]\<rparr>"
  using fork_begin_eq(2,3)[OF assms] by (auto intro: that[rotated])

lemma process_exit_child:
  assumes "frames (processes e) = fs' @ [frame]"
  shows "process_exit status e =
    (Some (pid (processes e)),
     e\<lparr>processes := (processes e)\<lparr>frames := fs',
         zombies := zombies (processes e) @ [\<lparr>z_pid = pid (processes e), z_ppid = ff_pid frame, z_status = status\<rparr>],
         pid := ff_pid frame, ppid := ff_ppid frame, atfork := ff_atfork frame\<rparr>,
       emu_maps := ff_maps frame, threads := ff_threads frame, current_thread_id := ff_current_thread_id frame,
       heap_arenas := ff_heap_arenas frame,
       kernel := (case (kernel e, ff_guard_heap frame) of (Some k, Some h) \<Rightarrow> Some (k\<lparr>k_heap := h\<rparr>) | _ \<Rightarrow> kernel e),
       emulated_stdout := ff_emulated_stdout frame, getopt_char_index := ff_getopt_char_index frame\<rparr>)"
  using assms by (simp add: process_exit_def in_child_def Let_def)

text \<open>
  C31: the child starts with the memory of the parent and only the thread that called \<open>fork\<close>. When it exits,
  after any run that ended its own children, the parent continues as it was: memory, threads, output,
  and process identity are those from before \<open>fork\<close>, the heap arenas are their copies, and the status of the
  child waits for the parent. With the memory guard on, its ledger is the one from before \<open>fork\<close> and the
  findings of the child are kept; with the guard off, or switched on by the child, the rest of the
  kernel environment is that of the child.
\<close>

theorem fork_exit_restores:
  assumes "fork_begin pick e = Some (Ret (child, e1))"
    and "frames (processes e2) = frames (processes e1)" "pid (processes e2) = pid (processes e1)"
  shows "emu_maps e1 = emu_maps e \<and> threads e1 = [threads e ! current_thread_id e] \<and> pid (processes e1) = child
    \<and> ppid (processes e1) = pid (processes e)
    \<and> (\<exists>e3. process_exit status e2 = (Some child, e3)
        \<and> emu_maps e3 = emu_maps e \<and> threads e3 = threads e \<and> current_thread_id e3 = current_thread_id e
        \<and> emulated_stdout e3 = emulated_stdout e \<and> getopt_char_index e3 = getopt_char_index e
        \<and> clone_arenas pick (heap_arenas e) = Some (heap_arenas e3)
        \<and> kernel e3 = (case (kernel e2, kernel e) of (Some k2, Some k) \<Rightarrow> Some (k2\<lparr>k_heap := k_heap k\<rparr>) | _ \<Rightarrow> kernel e2)
        \<and> pid (processes e3) = pid (processes e) \<and> ppid (processes e3) = ppid (processes e)
        \<and> atfork (processes e3) = atfork (processes e) \<and> frames (processes e3) = frames (processes e)
        \<and> zombies (processes e3) = zombies (processes e2) @ [\<lparr>z_pid = child, z_ppid = pid (processes e), z_status = status\<rparr>])"
proof -
  obtain arenas frame where f: "clone_arenas pick (heap_arenas e) = Some arenas"
    "frame = \<lparr>ff_pid = pid (processes e), ff_ppid = ppid (processes e), ff_maps = emu_maps e, ff_threads = threads e,
       ff_current_thread_id = current_thread_id e, ff_heap_arenas = arenas,
       ff_guard_heap = map_option k_heap (kernel e), ff_emulated_stdout = emulated_stdout e,
       ff_getopt_char_index = getopt_char_index e, ff_atfork = atfork (processes e)\<rparr>"
    "e1 = e\<lparr>threads := [threads e ! current_thread_id e], current_thread_id := 0,
       processes := (processes e)\<lparr>pid := next_pid (processes e), ppid := pid (processes e),
         next_pid := next_pid (processes e) + 1, frames := frames (processes e) @ [frame]\<rparr>\<rparr>"
    using fork_begin_eq(3)[OF assms(1)] by blast
  have "frames (processes e2) = frames (processes e) @ [frame]" "pid (processes e2) = child"
    using assms(2,3) fork_begin_eq(2)[OF assms(1)] by (simp_all add: f(3))
  then show ?thesis
    using process_exit_child[of e2 "frames (processes e)" frame status] fork_begin_eq(2)[OF assms(1)] f(1)
    by (simp add: f(2,3) split: option.split)
qed

subsection \<open>Process identifiers\<close>

definition known_pids :: "process_table \<Rightarrow> u64 list" where
  "known_pids p = pid p # map ff_pid (frames p) @ map z_pid (zombies p)"

definition pids_ok :: "process_table \<Rightarrow> bool" where
  "pids_ok p \<longleftrightarrow> distinct (known_pids p) \<and> (\<forall>q\<in>set (known_pids p). q < next_pid p)"

lemma pids_ok_new: "pids_ok process_table_new"
  by (simp add: pids_ok_def known_pids_def process_table_new_def INITIAL_PID_def)

lemma pids_ok_fork:
  assumes "fork_begin pick e = Some (Ret (child, e1))" "pids_ok (processes e)" "next_pid (processes e) \<noteq> - 1"
  shows "pids_ok (processes e1)" "child \<notin> set (known_pids (processes e))"
proof -
  obtain frame where f: "ff_pid frame = pid (processes e)" "pid (processes e1) = child"
    "processes e1 = (processes e)\<lparr>pid := next_pid (processes e), ppid := pid (processes e),
         next_pid := next_pid (processes e) + 1, frames := frames (processes e) @ [frame]\<rparr>"
    using assms(1) by (rule fork_frame)
  let ?n = "next_pid (processes e)"
  have n: "?n < ?n + 1"
    using assms(3) by (rule less_plus_one64)
  have old: "distinct (known_pids (processes e))" "q < ?n" if "q \<in> set (known_pids (processes e))" for q
    using assms(2) that by (simp_all add: pids_ok_def)
  show "child \<notin> set (known_pids (processes e))"
    using assms(2) fork_begin_eq(2)[OF assms(1)] by (auto simp: pids_ok_def)
  have set: "set (known_pids (processes e1)) = insert ?n (set (known_pids (processes e)))"
    by (auto simp: known_pids_def f(1,3))
  have "distinct (known_pids (processes e1))"
    using assms(2) by (auto simp: pids_ok_def known_pids_def f(1,3))
  moreover have "q < ?n + 1" if "q \<in> set (known_pids (processes e1))" for q
    using that n old(2)[of q] unfolding set by (auto intro: less_trans)
  ultimately show "pids_ok (processes e1)"
    by (simp add: pids_ok_def f(3))
qed

lemma pids_ok_exit:
  assumes "pids_ok (processes e)"
  shows "pids_ok (processes (snd (process_exit status e)))"
proof (cases "frames (processes e) = []")
  case True
  then show ?thesis
    using assms by (simp add: process_exit_def in_child_def pids_ok_def known_pids_def emu_stop_def)
next
  case False
  then obtain fs' frame where "frames (processes e) = fs' @ [frame]"
    by (metis append_butlast_last_id)
  then show ?thesis
    using assms by (auto simp: process_exit_child pids_ok_def known_pids_def)
qed

lemma remove_index:
  assumes "distinct (map f zs)"
  shows "distinct (map f (take i zs @ drop (i + 1) zs))" "set (take i zs @ drop (i + 1) zs) \<subseteq> set zs"
proof -
  have "distinct (take i (map f zs) @ drop (i + 1) (map f zs))"
    using assms set_take_disj_set_drop_if_distinct[of "map f zs" i "i + 1"] by simp
  then show "distinct (map f (take i zs @ drop (i + 1) zs))"
    by (simp add: take_map drop_map)
  show "set (take i zs @ drop (i + 1) zs) \<subseteq> set zs"
    by (auto dest: in_set_takeD in_set_dropD)
qed

lemma pids_ok_fewer:
  assumes "pids_ok p" "distinct (map z_pid zs)" "set zs \<subseteq> set (zombies p)"
  shows "pids_ok (p\<lparr>zombies := zs\<rparr>)"
proof -
  have sub: "z_pid ` set zs \<subseteq> z_pid ` set (zombies p)"
    using assms(3) by blast
  have ok: "pid p \<notin> ff_pid ` set (frames p)" "pid p \<notin> z_pid ` set (zombies p)" "distinct (map ff_pid (frames p))"
    "ff_pid ` set (frames p) \<inter> z_pid ` set (zombies p) = {}" "pid p < next_pid p"
    "\<forall>q\<in>ff_pid ` set (frames p) \<union> z_pid ` set (zombies p). q < next_pid p"
    using assms(1) by (simp_all add: pids_ok_def known_pids_def)
  have "pid p \<notin> z_pid ` set zs" "ff_pid ` set (frames p) \<inter> z_pid ` set zs = {}"
    "\<forall>q\<in>ff_pid ` set (frames p) \<union> z_pid ` set zs. q < next_pid p"
    using sub ok(2,4,6) by blast+
  then show ?thesis
    using ok(1,3,5) assms(2) by (simp add: pids_ok_def known_pids_def)
qed

lemma pids_ok_reap:
  assumes "pids_ok (processes e)"
  shows "pids_ok (processes (snd (reap_child child e)))"
proof (cases "position (is_reapable (pid (processes e)) child) (zombies (processes e))")
  case None
  then show ?thesis
    using assms by (simp add: reap_child_def Let_def)
next
  case (Some i)
  have "distinct (map z_pid (zombies (processes e)))"
    using assms by (simp add: pids_ok_def known_pids_def)
  then show ?thesis
    using Some pids_ok_fewer[OF assms remove_index] by (simp add: reap_child_def Let_def)
qed

lemma reap_last:
  assumes "zombies (processes e) = zs @ [z]" "z_ppid z = pid (processes e)" "z_pid z = child" "0 < sint child"
    "child \<notin> z_pid ` set zs"
  shows "reap_child child e = (Some (child, z_status z), e\<lparr>processes := (processes e)\<lparr>zombies := zs\<rparr>\<rparr>)"
    "fst (reap_child child (e\<lparr>processes := (processes e)\<lparr>zombies := zs\<rparr>\<rparr>)) = None"
proof -
  have no: "\<not> is_reapable (pid (processes e)) child y" if "y \<in> set zs" for y
    using assms(4,5) that by (auto simp: is_reapable_def)
  then have "position (is_reapable (pid (processes e)) child) (zs @ [z]) = Some (length zs)"
    using assms(2,3) by (auto simp: position_Some nth_append is_reapable_def)
  then show "reap_child child e = (Some (child, z_status z), e\<lparr>processes := (processes e)\<lparr>zombies := zs\<rparr>\<rparr>)"
    using assms(1,3) by (simp add: reap_child_def Let_def)
  have "position (is_reapable (pid (processes e)) child) zs = None"
    using no by (auto simp: position_def Let_def takeWhile_eq_all_conv[THEN iffD2])
  then show "fst (reap_child child (e\<lparr>processes := (processes e)\<lparr>zombies := zs\<rparr>\<rparr>)) = None"
    by (simp add: reap_child_def Let_def)
qed

lemma exit_code: "drop_bit 8 (exit_status code) = code AND 0xff"
proof -
  have m: "(0xff :: u64) = mask 8"
    by (simp add: mask_eq_exp_minus_1)
  show ?thesis
    unfolding exit_status_def m by (rule bit_eqI) (auto simp: bit_simps)
qed

text \<open>
  C32: process identifiers stay unique through forks, exits and reaping. A child that exits with a code is
  reaped by its parent exactly once, with a status from which the code can be read back.
\<close>

theorem child_is_reaped_once:
  assumes "pids_ok (processes e)" "fork_begin pick e = Some (Ret (child, e1))" "0 < sint (next_pid (processes e))"
    "next_pid (processes e) \<noteq> - 1"
    and "frames (processes e2) = frames (processes e1)" "pid (processes e2) = pid (processes e1)" "pids_ok (processes e2)"
  shows "\<exists>e3 e4. process_exit (exit_status code) e2 = (Some child, e3) \<and> pids_ok (processes e1) \<and> pids_ok (processes e3)
    \<and> reap_child child e3 = (Some (child, exit_status code), e4) \<and> pids_ok (processes e4)
    \<and> fst (reap_child child e4) = None \<and> drop_bit 8 (exit_status code) = code AND 0xff"
proof -
  let ?z = "\<lparr>z_pid = child, z_ppid = pid (processes e), z_status = exit_status code\<rparr>"
  obtain frame where f: "ff_pid frame = pid (processes e)" "pid (processes e1) = child"
    "processes e1 = (processes e)\<lparr>pid := next_pid (processes e), ppid := pid (processes e),
         next_pid := next_pid (processes e) + 1, frames := frames (processes e) @ [frame]\<rparr>"
    using assms(2) by (rule fork_frame)
  then have f2: "frames (processes e2) = frames (processes e) @ [frame]" "pid (processes e2) = child"
    using assms(5,6) by simp_all
  obtain e3 where e3: "process_exit (exit_status code) e2 = (Some child, e3)" "zombies (processes e3) = zombies (processes e2) @ [?z]"
    "pid (processes e3) = pid (processes e)"
    using process_exit_child[OF f2(1)] f(1) f2(2) by simp
  have "child \<notin> z_pid ` set (zombies (processes e2))"
    using assms(7) f2(2) by (auto simp: pids_ok_def known_pids_def)
  then have "reap_child child e3 = (Some (child, exit_status code), e3\<lparr>processes := (processes e3)\<lparr>zombies := zombies (processes e2)\<rparr>\<rparr>)"
    "fst (reap_child child (e3\<lparr>processes := (processes e3)\<lparr>zombies := zombies (processes e2)\<rparr>\<rparr>)) = None"
    using reap_last[of e3 "zombies (processes e2)" ?z child] e3(2,3) assms(3) fork_begin_eq(2)[OF assms(2)] by simp_all
  moreover have "pids_ok (processes e3)"
    using pids_ok_exit[OF assms(7), of "exit_status code"] e3(1) by simp
  moreover have "pids_ok (processes (snd (reap_child child e3)))"
    using calculation(3) by (rule pids_ok_reap)
  ultimately show ?thesis
    using e3(1) pids_ok_fork(1)[OF assms(2,1,4)] exit_code
    by (intro exI[of _ e3] exI[of _ "e3\<lparr>processes := (processes e3)\<lparr>zombies := zombies (processes e2)\<rparr>\<rparr>"]) simp
qed

definition one_thread :: "o1heap list \<Rightarrow> emu" where
  "one_thread hs =
     \<lparr>emu_maps = maps_default, heap_arenas = hs, emu_pos = 0, emu_tick = 0, is_running = True, process_terminated = False,
      force_break = False, force_reload = False, emu_os = Linux, kernel = Some (kernel_env_new Linux), kernel_guard = True,
      threads = [thread_new 1 True], current_thread_id = 0, gateway_return = 0, processes = process_table_new,
      emulated_stdout = [], getopt_char_index = 0, is_x64 = False\<rparr>"

lemma fork_one_thread:
  assumes "clone_arenas pick hs = Some hs'"
  shows "\<exists>e1. fork_begin pick (one_thread hs) = Some (Ret (1235, e1)) \<and> kernel e1 = Some (kernel_env_new Linux)"
  using assms by (simp add: fork_begin_def one_thread_def vec_index_def process_table_new_def INITIAL_PID_def Let_def)

theorem fork_exit_restores_witness:
  "\<exists>e1 e3 e1' e3'. fork_begin (\<lambda>_. None) (one_thread []) = Some (Ret (1235, e1)) \<and> process_exit 7 e1 = (Some 1235, e3)
     \<and> threads e3 = threads (one_thread []) \<and> kernel e3 = Some (kernel_env_new Linux)
     \<and> fork_begin (\<lambda>_. None) ((one_thread [])\<lparr>kernel := None\<rparr>) = Some (Ret (1235, e1')) \<and> process_exit 7 e1' = (Some 1235, e3')
     \<and> threads e3' = threads (one_thread []) \<and> kernel e3' = None"
proof -
  obtain e1 where e1: "fork_begin (\<lambda>_. None) (one_thread []) = Some (Ret (1235, e1))" "kernel e1 = Some (kernel_env_new Linux)"
    using fork_one_thread[of "\<lambda>_. None" "[]"] by auto
  obtain e1' where e1': "fork_begin (\<lambda>_. None) ((one_thread [])\<lparr>kernel := None\<rparr>) = Some (Ret (1235, e1'))" "kernel e1' = None"
    by (simp add: fork_begin_def one_thread_def vec_index_def process_table_new_def INITIAL_PID_def Let_def)
  have "kernel (one_thread []) = Some (kernel_env_new Linux)"
    by (simp add: one_thread_def)
  then have "\<exists>e3. process_exit 7 e1 = (Some 1235, e3) \<and> threads e3 = threads (one_thread []) \<and> kernel e3 = Some (kernel_env_new Linux)"
    using fork_exit_restores[OF e1(1) refl refl, of 7] e1(2) by (elim conjE exE, intro exI conjI) (assumption+, simp)
  moreover have "\<exists>e3'. process_exit 7 e1' = (Some 1235, e3') \<and> threads e3' = threads (one_thread []) \<and> kernel e3' = None"
    using fork_exit_restores[OF e1'(1) refl refl, of 7] e1'(2) by (elim conjE exE, intro exI conjI) (assumption+, simp_all)
  ultimately show ?thesis
    using e1(1) e1'(1) by blast
qed

theorem child_is_reaped_once_witness:
  "\<exists>e1 e3 e4. fork_begin (\<lambda>_. None) (one_thread []) = Some (Ret (1235, e1))
     \<and> process_exit (exit_status 3) e1 = (Some 1235, e3) \<and> reap_child 1235 e3 = (Some (1235, exit_status 3), e4)"
proof -
  obtain e1 where e1: "fork_begin (\<lambda>_. None) (one_thread []) = Some (Ret (1235, e1))"
    using fork_one_thread[of "\<lambda>_. None" "[]"] by auto
  have p: "processes (one_thread []) = process_table_new"
    by (simp add: one_thread_def)
  have n: "0 < sint (next_pid (processes (one_thread [])))" "next_pid (processes (one_thread [])) \<noteq> - 1"
    by (simp_all add: p process_table_new_def INITIAL_PID_def)
  have ok: "pids_ok (processes (one_thread []))"
    by (simp add: p pids_ok_new)
  show ?thesis
    using child_is_reaped_once[OF ok e1 n refl refl pids_ok_fork(1)[OF e1 ok n(2)], of 3] e1 by blast
qed

subsection \<open>Forking and the heap\<close>

text \<open>
  C33: a fork can cost the parent its heap. There is a heap, reached by allocations and releases, in which a
  request of 200 bytes succeeds; but if a process with this heap forks and the child exits at once,
  every request to the heap of the parent fails.
\<close>

theorem fork_loses_heap:
  "\<exists>h. heap_reachable 1024 0x1000 0x10000 h \<and> hashes h = [512 \<mapsto> 2] \<and> (\<exists>h1. allocate 200 h = Ret (Some 0x1000, h1))
     \<and> (\<forall>pick e. heap_arenas e = [h] \<and> current_thread_id e < length (threads e) \<and> pick (hashes h) \<in> Some ` ran (hashes h)
          \<longrightarrow> (\<exists>child e1. fork_begin pick e = Some (Ret (child, e1))
               \<and> (\<forall>status. \<exists>e3 h'. process_exit status e1 = (Some child, e3) \<and> heap_arenas e3 = [h']
                    \<and> (\<forall>amount. \<exists>h''. allocate amount h' = Ret (None, h'')))))"
proof -
  obtain h where h: "heap_reachable 1024 0x1000 0x10000 h" "stale_only h 512 2"
    "heap_rep 0x1000 0x10000 h [(0, 0x10000, False)]"
    by (rule stale_run)
  have "can_allocate 200 0x10000 [(0, 0x10000, False)]"
    by (simp add: can_allocate_def fragment_bytes_def clamp_200)
  then obtain h1 where h1: "allocate 200 h = Ret (Some (of_nat 0 + 0x1000), h1)"
    using allocate_only_block[OF h(3)] by metis
  have "\<exists>child e1. fork_begin pick e = Some (Ret (child, e1))
       \<and> (\<forall>status. \<exists>e3 h'. process_exit status e1 = (Some child, e3) \<and> heap_arenas e3 = [h']
            \<and> (\<forall>amount. \<exists>h''. allocate amount h' = Ret (None, h'')))"
    if e: "heap_arenas e = [h]" "current_thread_id e < length (threads e)" "pick (hashes h) \<in> Some ` ran (hashes h)" for pick e
  proof -
    have "pick (hashes h) = Some 2"
      using e(3) h(2) by (simp add: stale_only_def)
    with h(2) obtain h' where h': "heap_clone pick h = Some h'" "\<And>amount. \<exists>h''. allocate amount h' = Ret (None, h'')"
      by (rule stale_clone) blast
    have "clone_arenas pick (heap_arenas e) = Some [h']"
      using h'(1) e(1) by simp
    then obtain child e1 where e1: "fork_begin pick e = Some (Ret (child, e1))"
      using e(2) by (auto simp: fork_begin_def vec_index_def Let_def)
    then obtain frame where "frames (processes e1) = frames (processes e) @ [frame]" "ff_heap_arenas frame = [h']"
      "pid (processes e1) = child"
      using fork_begin_eq(2,3)[OF e1] \<open>clone_arenas pick (heap_arenas e) = Some [h']\<close> by auto
    then have "\<exists>e3. process_exit status e1 = (Some child, e3) \<and> heap_arenas e3 = [h']" for status
      using process_exit_child[of e1 "frames (processes e)" frame status] by auto
    then show ?thesis
      using e1 h'(2) by blast
  qed
  then show ?thesis
    using h(1,2) h1 by (intro exI[of _ h]) (auto simp: stale_only_def)
qed

theorem fork_loses_heap_witness:
  "\<exists>h child e1 e3 h' h''. fork_begin (\<lambda>m. m 512) (one_thread [h]) = Some (Ret (child, e1))
     \<and> process_exit 0 e1 = (Some child, e3) \<and> heap_arenas e3 = [h'] \<and> allocate 200 h' = Ret (None, h'')"
proof -
  obtain h where h: "hashes h = [512 \<mapsto> 2]"
    "\<forall>pick e. heap_arenas e = [h] \<and> current_thread_id e < length (threads e) \<and> pick (hashes h) \<in> Some ` ran (hashes h)
          \<longrightarrow> (\<exists>child e1. fork_begin pick e = Some (Ret (child, e1))
               \<and> (\<forall>status. \<exists>e3 h'. process_exit status e1 = (Some child, e3) \<and> heap_arenas e3 = [h']
                    \<and> (\<forall>amount. \<exists>h''. allocate amount h' = Ret (None, h''))))"
    using fork_loses_heap by blast
  have "heap_arenas (one_thread [h]) = [h] \<and> current_thread_id (one_thread [h]) < length (threads (one_thread [h]))
      \<and> (\<lambda>m. m 512) (hashes h) \<in> Some ` ran (hashes h)"
    by (simp add: one_thread_def h(1))
  from h(2)[THEN spec, of "\<lambda>m. m 512", THEN spec, of "one_thread [h]", THEN mp, OF this] obtain child e1
    where e1: "fork_begin (\<lambda>m. m 512) (one_thread [h]) = Some (Ret (child, e1))"
      "\<forall>status. \<exists>e3 h'. process_exit status e1 = (Some child, e3) \<and> heap_arenas e3 = [h']
         \<and> (\<forall>amount. \<exists>h''. allocate amount h' = Ret (None, h''))"
    by (elim exE conjE)
  from e1(2)[THEN spec, of 0] obtain e3 h' where e3: "process_exit 0 e1 = (Some child, e3)" "heap_arenas e3 = [h']"
      "\<forall>amount. \<exists>h''. allocate amount h' = Ret (None, h'')"
    by (elim exE conjE)
  from e3(3)[THEN spec, of 200] obtain h'' where "allocate 200 h' = Ret (None, h'')"
    by (elim exE)
  then show ?thesis
    using e1(1) e3(1,2) by (intro exI conjI)
qed

end
