(* ===== verification/Emu_Stack.thy ===== *)
theory Emu_Stack
  imports Emu_State Maps_Create
begin

section \<open>The guest stack\<close>

text \<open>
  A model of \<^verbatim>\<open>crates/libmwemu/src/emu/stack.rs\<close> and of \<open>try_grow_stack\<close> in \<^verbatim>\<open>crates/libmwemu/src/emu/memory.rs\<close>, for a
  configuration in which the stack and memory traces are off. \<open>vk\<close> is the choice of a vacant key by the
  slab, as in the model of the address space.

  The property composes the registers, the address space and the growth of the stack: a value that
  was pushed is popped, and the stack pointer is back where it was.
\<close>

unbundle bit_operations_syntax

definition try_grow_stack :: "(slab \<Rightarrow> nat) \<Rightarrow> u64 \<Rightarrow> emu \<Rightarrow> (bool \<times> emu) outcome" where
  "try_grow_stack vk fault_addr e =
     (let MAX_DIST_BELOW_RSP = 0x100000;
          GROW_PAGE_SIZE = 0x1000
      in if \<not> is_x64 e then Ret (False, e)
         else
           obind (emu_regs e) (\<lambda>regs.
             if (if rsp regs \<le> fault_addr then 0x2000 < fault_addr - rsp regs
                 else MAX_DIST_BELOW_RSP < rsp regs - fault_addr) then Ret (False, e)
             else
               let page_base = fault_addr AND NOT (GROW_PAGE_SIZE - 1);
                   (mapped, s) = is_mapped page_base (emu_maps e)
               in if mapped then Ret (False, e\<lparr>emu_maps := s\<rparr>)
                  else
                    case create_map vk (''stack_grow_'' @ fmt_hex page_base) page_base GROW_PAGE_SIZE PERM_READ_WRITE s of
                      (Inr _, s) \<Rightarrow> Ret (True, e\<lparr>emu_maps := s\<rparr>)
                    | (Inl _, s) \<Rightarrow> Ret (False, e\<lparr>emu_maps := s\<rparr>)))"

definition stack_push16 :: "(slab \<Rightarrow> nat) \<Rightarrow> u16 \<Rightarrow> emu \<Rightarrow> (bool \<times> emu) outcome" where
  "stack_push16 vk value e =
     obind (emu_sp e) (\<lambda>old_sp.
       let new_sp = old_sp - 2
       in obind (emu_set_sp new_sp e) (\<lambda>e.
          obind (on_maps (maps_write_word new_sp value) e) (\<lambda>(ok, e).
            if ok then Ret (True, e)
            else
              obind (try_grow_stack vk new_sp e) (\<lambda>(grown, e).
                if grown then on_maps (maps_write_word new_sp value) e else Ret (False, e)))))"

definition stack_push32 :: "u32 \<Rightarrow> emu \<Rightarrow> (bool \<times> emu) outcome" where
  "stack_push32 value e =
     obind (emu_regs e) (\<lambda>regs.
       let esp = get32 ESP regs - 4
       in obind (with_regs (set32 ESP esp) e) (\<lambda>e.
          obind (emu_regs e) (\<lambda>regs. on_maps (maps_write_dword (get32 ESP regs) value) e)))"

definition stack_push64 :: "(slab \<Rightarrow> nat) \<Rightarrow> u64 \<Rightarrow> emu \<Rightarrow> (bool \<times> emu) outcome" where
  "stack_push64 vk value e =
     obind (emu_sp e) (\<lambda>old_sp.
       let new_sp = old_sp - 8
       in obind (emu_set_sp new_sp e) (\<lambda>e.
          obind (on_maps (maps_write_qword new_sp value) e) (\<lambda>(ok, e).
            if ok then Ret (True, e)
            else
              obind (try_grow_stack vk new_sp e) (\<lambda>(grown, e).
                if grown then on_maps (maps_write_qword new_sp value) e else Ret (False, e)))))"

definition stack_pop16 :: "emu \<Rightarrow> (u16 option \<times> emu) outcome" where
  "stack_pop16 e =
     obind (emu_sp e) (\<lambda>old_sp.
       obind (on_maps (maps_read_word old_sp) e) (\<lambda>(value, e).
         case value of
           None \<Rightarrow> Ret (None, e)
         | Some v \<Rightarrow> obind (emu_set_sp (old_sp + 2) e) (\<lambda>e. Ret (Some v, e))))"

definition stack_pop32 :: "emu \<Rightarrow> (u32 option \<times> emu) outcome" where
  "stack_pop32 e =
     obind (emu_regs e) (\<lambda>regs.
       obind (on_maps (maps_read_dword (get32 ESP regs)) e) (\<lambda>(value, e).
         case value of
           None \<Rightarrow> Ret (None, e)
         | Some v \<Rightarrow>
             obind (emu_regs e) (\<lambda>regs.
               obind (with_regs (set32 ESP (get32 ESP regs + 4)) e) (\<lambda>e. Ret (Some v, e)))))"

definition stack_pop64 :: "emu \<Rightarrow> (u64 option \<times> emu) outcome" where
  "stack_pop64 e =
     obind (emu_sp e) (\<lambda>old_sp.
       obind (on_maps (maps_read_qword old_sp) e) (\<lambda>(value, e).
         case value of
           None \<Rightarrow> Ret (None, e)
         | Some v \<Rightarrow> obind (emu_set_sp (old_sp + 8) e) (\<lambda>e. Ret (Some v, e))))"

subsection \<open>The stack pointer\<close>

definition thread_ok :: "emu \<Rightarrow> bool" where
  "thread_ok e \<longleftrightarrow> current_thread_id e < length (threads e)"

lemma emu_sp_Ret: "emu_sp e = Ret a \<Longrightarrow> thread_ok e"
  by (auto simp: emu_sp_def current_thread_def vec_index_def thread_ok_def split: if_splits)

lemma set_sp_back:
  assumes "emu_sp e = Ret a" "emu_set_sp b e = Ret e1"
  shows "emu_sp (e1\<lparr>emu_maps := s\<rparr>) = Ret b" "emu_set_sp a (e1\<lparr>emu_maps := s\<rparr>) = Ret (e\<lparr>emu_maps := s\<rparr>)"
    "emu_maps e1 = emu_maps e" "is_x64 e1 = is_x64 e"
proof -
  define t where "t = threads e ! current_thread_id e"
  have i: "current_thread_id e < length (threads e)"
    using emu_sp_Ret[OF assms(1)] by (simp add: thread_ok_def)
  then have e1: "e1 = put_thread (t\<lparr>arch := (case arch t of X86 r \<Rightarrow> X86 (r\<lparr>rsp := b\<rparr>) | AArch64 r \<Rightarrow> AArch64 (r\<lparr>sp := b\<rparr>))\<rparr>) e"
    using assms(2) by (simp add: emu_set_sp_def current_thread_def vec_index_def t_def)
  have a: "a = (case arch t of X86 r \<Rightarrow> rsp r | AArch64 r \<Rightarrow> sp r)"
    using assms(1) i by (simp add: emu_sp_def current_thread_def vec_index_def t_def)
  show "emu_maps e1 = emu_maps e" "is_x64 e1 = is_x64 e"
    by (simp_all add: e1 put_thread_def)
  show "emu_sp (e1\<lparr>emu_maps := s\<rparr>) = Ret b"
    using i by (simp add: e1 put_thread_def emu_sp_def current_thread_def vec_index_def split: arch_thread_state.split)
  have "t\<lparr>arch := (case arch t of X86 r \<Rightarrow> X86 (r\<lparr>rsp := a\<rparr>) | AArch64 r \<Rightarrow> AArch64 (r\<lparr>sp := a\<rparr>))\<rparr> = t"
    by (simp add: a split: arch_thread_state.split)
  then show "emu_set_sp a (e1\<lparr>emu_maps := s\<rparr>) = Ret (e\<lparr>emu_maps := s\<rparr>)"
    using i by (cases "arch t")
      (simp_all add: e1 put_thread_def emu_set_sp_def current_thread_def vec_index_def t_def)
qed

subsection \<open>Growth\<close>

text \<open>A page whose first address is free meets no region.\<close>

definition page_clear :: "u64 \<Rightarrow> maps \<Rightarrow> bool" where
  "page_clear a s \<longleftrightarrow>
     (let page = a AND NOT 0xfff in search_maps page s = None \<longrightarrow> free_range s page 0x1000 \<and> unat page + 0x1000 < 2 ^ 64)"

lemma page_clear_tlb [simp]: "page_clear a (s\<lparr>tlb := t\<rparr>) = page_clear a s"
  by (simp add: page_clear_def free_range_def Let_def)

lemma try_grow_stack_wf:
  assumes wf: "maps_wf (emu_maps e)" and vk: "vacant_key vk" and clear: "page_clear a (emu_maps e)"
    and r: "try_grow_stack vk a e = Ret (g, e')"
  shows "\<exists>s. e' = e\<lparr>emu_maps := s\<rparr> \<and> maps_wf s"
proof -
  define page where "page = a AND NOT (0x1000 - 1)"
  define n where "n = ''stack_grow_'' @ fmt_hex page"
  obtain t where t: "get_mem_by_addr page (emu_maps e) = (search_maps page (emu_maps e), (emu_maps e)\<lparr>tlb := t\<rparr>)"
    using get_mem_by_addr_wf[OF wf] .
  have wft: "maps_wf ((emu_maps e)\<lparr>tlb := t\<rparr>)"
    using wf by simp
  have new: "maps_wf (snd (create_map vk n page 0x1000 PERM_READ_WRITE ((emu_maps e)\<lparr>tlb := t\<rparr>)))"
    if none: "search_maps page (emu_maps e) = None"
  proof (cases "name_map (emu_maps e) n")
    case None
    have free: "free_range ((emu_maps e)\<lparr>tlb := t\<rparr>) page (unat (0x1000 :: u64))" "unat page + unat (0x1000 :: u64) < 2 ^ 64"
      using clear none by (simp_all add: page_clear_def free_range_def Let_def page_def)
    show ?thesis
      by (rule create_map_free[OF wft vk free(2,1), of n PERM_READ_WRITE]) (use None in simp_all)
  next
    case (Some k)
    obtain t' where "create_map vk n page 0x1000 PERM_READ_WRITE ((emu_maps e)\<lparr>tlb := t\<rparr>)
        = (Inl (NameExists n), (emu_maps e)\<lparr>tlb := t\<rparr>\<lparr>tlb := t'\<rparr>)"
      using create_map_eq[OF wft, of page vk n "0x1000" PERM_READ_WRITE] none Some by auto
    then show ?thesis
      using wf by simp
  qed
  have "\<exists>s\<in>{emu_maps e, (emu_maps e)\<lparr>tlb := t\<rparr>}. e' = e\<lparr>emu_maps := s\<rparr>"
    if "\<not> (search_maps page (emu_maps e) = None
        \<and> e' = e\<lparr>emu_maps := snd (create_map vk n page 0x1000 PERM_READ_WRITE ((emu_maps e)\<lparr>tlb := t\<rparr>))\<rparr>)"
    using r that unfolding try_grow_stack_def Let_def page_def[symmetric] n_def[symmetric] is_mapped_def t prod.case
    by (auto split: if_splits prod.splits sum.splits)
  then show ?thesis
    using new wf wft by blast
qed

subsection \<open>Push and pop\<close>

text \<open>A write that succeeds, at once or after the stack has grown.\<close>

lemma write_or_grow:
  fixes v :: "'a::len word"
  assumes wf: "maps_wf (emu_maps e)" and sw: "scalar_width TYPE('a word)" and vk: "vacant_key vk" and clear: "page_clear a (emu_maps e)"
    and r: "obind (on_maps (write_scalar a v) e) (\<lambda>(ok, e).
       if ok then Ret (True, e)
       else obind (try_grow_stack vk a e) (\<lambda>(grown, e). if grown then on_maps (write_scalar a v) e else Ret (False, e))) = Ret (True, e1)"
  obtains s s1 where "e1 = e\<lparr>emu_maps := s1\<rparr>" "wrote a (to_le_bytes v) s s1" "maps_wf s"
    "reachable perm_can_write s a (scalar_size TYPE('a word))"
proof -
  have done_ok: "wrote a (to_le_bytes v) s s1 \<and> reachable perm_can_write s a (scalar_size TYPE('a word))"
    if "maps_wf s" "write_scalar a v s = Ret (True, s1)" for s s1
    using write_scalar_wf[OF that(1) sw, of a v] that(2) by (auto split: if_splits)
  have fail: "\<exists>t. s1 = s\<lparr>tlb := t\<rparr>" if "maps_wf s" "write_scalar a v s = Ret (False, s1)" for s s1
    using write_scalar_wf[OF that(1) sw, of a v] that(2) by (auto split: if_splits)
  obtain ok s2 where s2: "write_scalar a v (emu_maps e) = Ret (ok, s2)"
    using r by (cases "write_scalar a v (emu_maps e)") (auto simp: on_maps_def)
  show ?thesis
  proof (cases ok)
    case True
    then have "e1 = e\<lparr>emu_maps := s2\<rparr>"
      using r s2 by (simp add: on_maps_def)
    then show ?thesis
      using done_ok[OF wf] s2 True wf by (intro that[of s2 "emu_maps e"]) auto
  next
    case False
    then obtain t where t: "s2 = (emu_maps e)\<lparr>tlb := t\<rparr>"
      using fail[OF wf] s2 by auto
    obtain g e2 where g: "try_grow_stack vk a (e\<lparr>emu_maps := s2\<rparr>) = Ret (g, e2)"
      using r s2 False by (cases "try_grow_stack vk a (e\<lparr>emu_maps := s2\<rparr>)") (auto simp: on_maps_def)
    obtain s where s: "e2 = e\<lparr>emu_maps := s2\<rparr>\<lparr>emu_maps := s\<rparr>" "maps_wf s"
      using try_grow_stack_wf[OF _ vk _ g] wf clear by (auto simp: t)
    have "on_maps (write_scalar a v) e2 = Ret (True, e1)"
      using r s2 False g by (simp add: on_maps_def split: if_splits)
    then obtain s1 where "write_scalar a v s = Ret (True, s1)" "e1 = e\<lparr>emu_maps := s1\<rparr>"
      by (cases "write_scalar a v s") (auto simp: on_maps_def s(1))
    then show ?thesis
      using done_ok[OF s(2)] s(2) by (intro that[of s1 s]) auto
  qed
qed

lemma read_back:
  fixes v :: "'a::len word"
  assumes sw: "scalar_width TYPE('a word)" and wf: "maps_wf s" and w: "wrote a (to_le_bytes v) s s1"
    and r: "reachable perm_can_read s1 a (scalar_size TYPE('a word))"
  shows "\<exists>t. read_scalar a s1 = Ret (Some v, s1\<lparr>tlb := t\<rparr>)"
proof -
  let ?n = "scalar_size TYPE('a word)"
  have n: "?n < 2 ^ 64" "length (to_le_bytes v) = ?n"
    using scalar_size_bounds[OF sw] by simp_all
  have r0: "reachable perm_can_read s a ?n"
    using w r same_shape_reachable unfolding wrote_def by blast
  have "flat_bytes s1 a ?n = to_le_bytes v"
    using flat_bytes_update[of a "to_le_bytes v" s s1] w n r0 reachable_mapped[OF wf r0 _ n(1)]
    by (fastforce simp: wrote_def reachable_def)
  moreover obtain t where "read_scalar a s1 =
      Ret (if reachable perm_can_read s1 a ?n then Some (from_le_bytes (flat_bytes s1 a ?n) :: 'a word) else None, s1\<lparr>tlb := t\<rparr>)"
    using read_scalar_wf[OF _ sw] w unfolding wrote_def by blast
  ultimately show ?thesis
    using r sw by auto
qed

lemma stack_push64_ok:
  assumes "maps_wf (emu_maps e)" "emu_sp e = Ret a" "reachable perm_can_write (emu_maps e) (a - 8) 8"
  obtains e1 where "stack_push64 vk v e = Ret (True, e1)" "same_shape (emu_maps e) (emu_maps e1)"
proof -
  have sw: "scalar_width TYPE(u64)" "scalar_size TYPE(u64) = 8"
    by (simp_all add: scalar_width_def)
  obtain e0 where e0: "emu_set_sp (a - 8) e = Ret e0"
    using emu_sp_Ret[OF assms(2)] by (auto simp: emu_set_sp_def current_thread_def vec_index_def thread_ok_def)
  note restore = set_sp_back[OF assms(2) e0]
  obtain s1 where "write_scalar (a - 8) v (emu_maps e) = Ret (True, s1)" "same_shape (emu_maps e) s1"
    using write_scalar_wf[OF assms(1) sw(1), of "a - 8" v] assms(3) sw(2) by (auto simp: wrote_def)
  then show ?thesis
    using e0 assms(2) restore(3) by (intro that[of "e0\<lparr>emu_maps := s1\<rparr>"])
      (simp_all add: stack_push64_def Let_def on_maps_def maps_write_qword_def)
qed

text \<open>
  C34: a 64-bit value that was pushed is popped, and afterwards the emulator is the one from before the push up
  to its memory: the stack pointer is back. This also holds when the push had to map a new page for the stack, if no
  region starts in the middle of that page.
\<close>

theorem stack_roundtrip:
  assumes "maps_wf (emu_maps e)" "vacant_key vk" "emu_sp e = Ret a" "page_clear (a - 8) (emu_maps e)"
    and "stack_push64 vk v e = Ret (True, e1)" "reachable perm_can_read (emu_maps e1) (a - 8) 8"
  shows "emu_sp e1 = Ret (a - 8)
    \<and> (\<exists>s. stack_pop64 e1 = Ret (Some v, e\<lparr>emu_maps := s\<rparr>) \<and> maps_wf s \<and> flat s = flat (emu_maps e1))"
proof -
  have sw: "scalar_width TYPE(u64)" "scalar_size TYPE(u64) = 8"
    by (simp_all add: scalar_width_def)
  obtain e0 where e0: "emu_set_sp (a - 8) e = Ret e0"
    using assms(3,5) by (auto simp: stack_push64_def Let_def)
  note restore = set_sp_back[OF assms(3) e0]
  have "obind (on_maps (write_scalar (a - 8) v) e0) (\<lambda>(ok, e).
       if ok then Ret (True, e)
       else obind (try_grow_stack vk (a - 8) e) (\<lambda>(grown, e). if grown then on_maps (write_scalar (a - 8) v) e else Ret (False, e)))
     = Ret (True, e1)"
    using assms(3,5) e0 unfolding stack_push64_def by (simp only: obind.simps Let_def maps_write_qword_def[abs_def])
  then obtain s s1 where s: "e1 = e0\<lparr>emu_maps := s1\<rparr>" "wrote (a - 8) (to_le_bytes v) s s1" "maps_wf s"
    by (rule write_or_grow[rotated 4]) (use assms(1,2,4) sw restore(3) in simp_all)
  obtain t where "read_scalar (a - 8) s1 = Ret (Some v, s1\<lparr>tlb := t\<rparr>)"
    using read_back[OF sw(1) s(3,2)] assms(6) s(1) sw(2) by auto
  then have "stack_pop64 e1 = Ret (Some v, e\<lparr>emu_maps := s1\<lparr>tlb := t\<rparr>\<rparr>)"
    using restore(1)[of s1] restore(2)[of "s1\<lparr>tlb := t\<rparr>"] s(1) by (simp add: stack_pop64_def maps_read_qword_def on_maps_def)
  moreover have "maps_wf (s1\<lparr>tlb := t\<rparr>)" "flat (s1\<lparr>tlb := t\<rparr>) = flat (emu_maps e1)"
    using s(1,2) by (simp_all add: wrote_def)
  ultimately show ?thesis
    using restore(1)[of s1] s(1) by blast
qed

theorem stack_roundtrip_witness:
  "\<exists>e1 s. stack_push64 next_key 0xDEADBEEF (sample_emu two_maps ((thread_new 1 False)\<lparr>arch := X86 (regs64_new\<lparr>rsp := 0x1008\<rparr>)\<rparr>)) = Ret (True, e1)
     \<and> emu_sp e1 = Ret 0x1000 \<and> stack_pop64 e1 = Ret (Some 0xDEADBEEF, s)"
proof -
  define e where "e = sample_emu two_maps ((thread_new 1 False)\<lparr>arch := X86 (regs64_new\<lparr>rsp := 0x1008\<rparr>)\<rparr>)"
  have e: "emu_maps e = two_maps" "emu_sp e = Ret 0x1008"
    by (simp_all add: e_def sample_emu_def emu_sp_def current_thread_def vec_index_def)
  have r: "reachable perm_can_write two_maps 0x1000 8" "reachable perm_can_read two_maps 0x1000 8"
    by (simp_all add: reachable_def two_maps_ex two_maps_inside read_write_allowed in_range_def last_addr_def)
  obtain e1 where e1: "stack_push64 next_key 0xDEADBEEF e = Ret (True, e1)" "same_shape two_maps (emu_maps e1)"
    by (rule stack_push64_ok[of e "0x1008" next_key "0xDEADBEEF"]) (use e r two_maps_wf in simp_all)
  have "flat two_maps 0x1000 \<noteq> None"
    using flat_inside[OF two_maps_wf, of 0 _ "0x1000"] by (simp add: two_maps_slab inside_def)
  then have "search_maps 0x1000 two_maps \<noteq> None"
    by (simp add: flat_None_iff[OF two_maps_wf])
  then have "page_clear (0x1008 - 8) (emu_maps e)"
    by (auto simp: page_clear_def e(1))
  moreover have "reachable perm_can_read (emu_maps e1) (0x1008 - 8) 8"
    using same_shape_reachable[OF e1(2)] r(2) by simp
  ultimately obtain s where "emu_sp e1 = Ret (0x1008 - 8)" "stack_pop64 e1 = Ret (Some 0xDEADBEEF, e\<lparr>emu_maps := s\<rparr>)"
    using stack_roundtrip[OF _ vacant_next_key e(2) _ e1(1)] unfolding e(1) by (metis two_maps_wf)
  then show ?thesis
    unfolding e_def[symmetric] using e1(1) by (intro exI[of _ e1] exI[of _ "e\<lparr>emu_maps := s\<rparr>"]) simp
qed

end
