(* ===== verification/Kernel_Env.thy ===== *)
theory Kernel_Env
  imports Emu_Stack Kernel_Heap
begin

section \<open>The kernel environment and the memory guard\<close>

text \<open>
  A model of \<^verbatim>\<open>crates/libmwemu/src/kernel/guard.rs\<close> and \<^verbatim>\<open>crates/libmwemu/src/kernel/mod.rs\<close>: the findings, the guard of
  memory accesses, and the operations of the emulated kernel on the emulator: bringing up its address
  space, stubs and data of imported symbols, allocation and release of chunks, control transfers into the
  stubs, deferred callbacks, captured drivers and device registers.

  Log messages and the texts of the reports are left out. The handlers of the imported functions
  (\<open>linux::gateway\<close>, \<open>windows::gateway\<close>, \<open>macos::gateway\<close>) and calls into driver code (\<open>kernel_call\<close>) run foreign code;
  they are parameters. \<open>vk\<close> is the choice of a vacant key by the slab.
\<close>

unbundle bit_operations_syntax

subsection \<open>Driver images\<close>

text \<open>\<open>max_by_key\<close> returns the last of the symbols with the greatest key.\<close>

definition module_symbol :: "string \<Rightarrow> module_image \<Rightarrow> u64 option" where
  "module_symbol name m =
     (let syms = filter (\<lambda>s. sym_name s = name) (mod_symbols m);
          globals = filter sym_is_global syms
      in if globals \<noteq> [] then Some (sym_addr (last globals))
         else if syms \<noteq> [] then Some (sym_addr (last syms))
         else None)"

definition module_contains :: "module_image \<Rightarrow> u64 \<Rightarrow> bool" where
  "module_contains m addr \<longleftrightarrow> mod_size m \<noteq> 0 \<and> mod_base m \<le> addr \<and> addr < mod_base m + mod_size m"

definition section_at :: "module_image \<Rightarrow> u64 \<Rightarrow> rel_section option" where
  "section_at m addr = List.find (\<lambda>s. sec_size s \<noteq> 0 \<and> sec_addr s \<le> addr \<and> addr < sec_addr s + sec_size s) (mod_sections m)"

definition is_module_text :: "module_image \<Rightarrow> u64 \<Rightarrow> bool" where
  "is_module_text m addr = (case section_at m addr of Some s \<Rightarrow> sec_execute s | None \<Rightarrow> False)"

definition is_module_data :: "module_image \<Rightarrow> u64 \<Rightarrow> bool" where
  "is_module_data m addr = (case section_at m addr of Some s \<Rightarrow> sec_read s \<and> \<not> sec_execute s | None \<Rightarrow> False)"

definition func_name_at :: "module_image \<Rightarrow> u64 \<Rightarrow> string option" where
  "func_name_at m addr =
     map_option sym_name (List.find (\<lambda>s. sym_is_func s \<and> sym_addr s = addr \<and> sym_name s \<noteq> []) (mod_symbols m))"

subsection \<open>Findings\<close>

definition is_free_poison :: "u64 \<Rightarrow> bool" where
  "is_free_poison addr \<longleftrightarrow>
     (let POISON64 = 0x6b6b6b6b6b6b6b6b;
          POISON32 = 0x6b6b6b6b;
          PAGE = NOT 0xfff
      in addr AND PAGE = POISON64 AND PAGE \<or> addr AND PAGE = POISON32 AND PAGE)"

definition is_use_after_free :: "finding_kind \<Rightarrow> bool" where
  "is_use_after_free kind \<longleftrightarrow> kind \<in> {UseAfterFree, WriteAfterFree, FreedFunctionPointerCall, PoisonDereference}"

definition origin_of :: "kernel_chunk \<Rightarrow> chunk_origin" where
  "origin_of c =
     \<lparr>o_addr = c_addr c, o_size = c_size c, o_req_size = c_req_size c, o_cache = c_cache c,
      o_alloc_api = c_alloc_api c, o_alloc_pos = c_alloc_pos c, o_alloc_rip = c_alloc_rip c,
      o_free_api = c_free_api c, o_free_pos = c_free_pos c, o_free_rip = c_free_rip c\<rparr>"

definition origin_default :: chunk_origin where
  "origin_default =
     \<lparr>o_addr = 0, o_size = 0, o_req_size = 0, o_cache = [], o_alloc_api = [], o_alloc_pos = 0, o_alloc_rip = 0,
      o_free_api = [], o_free_pos = 0, o_free_rip = 0\<rparr>"

definition kernel_report :: "finding_kind \<Rightarrow> u64 \<Rightarrow> u64 \<Rightarrow> u32 \<Rightarrow> chunk_origin \<Rightarrow> emu \<Rightarrow> emu" where
  "kernel_report kind ip addr bytes origin e =
     (case kernel e of
        None \<Rightarrow> e
      | Some k \<Rightarrow>
          (case position (\<lambda>f. fi_kind f = kind \<and> fi_rip f = ip \<and> o_addr (fi_origin f) = o_addr origin) (findings k) of
             Some i \<Rightarrow>
               let f = findings k ! i
               in e\<lparr>kernel := Some (k\<lparr>findings := (findings k)[i := f\<lparr>fi_hits := fi_hits f + 1\<rparr>]\<rparr>)\<rparr>
           | None \<Rightarrow>
               e\<lparr>kernel := Some (k\<lparr>findings := findings k @
                   [\<lparr>fi_kind = kind, fi_pos = emu_pos e, fi_rip = ip, fi_addr = addr, fi_size = bytes,
                     fi_origin = origin, fi_hits = 1\<rparr>]\<rparr>)\<rparr>))"

definition kernel_guard_access :: "u64 \<Rightarrow> u64 \<Rightarrow> u32 \<Rightarrow> bool \<Rightarrow> emu \<Rightarrow> emu outcome" where
  "kernel_guard_access ip addr bytes is_write e =
     (case kernel e of
        None \<Rightarrow> Ret e
      | Some k \<Rightarrow>
          if is_free_poison addr then
            Ret (kernel_report PoisonDereference ip addr bytes (origin_default\<lparr>o_cache := ''freed object''\<rparr>) e)
          else
            (case index_of addr (k_heap k) of
               None \<Rightarrow> Ret e
             | Some idx \<Rightarrow>
                 obind (heap_get idx (k_heap k)) (\<lambda>chunk.
                   if is_freed chunk then
                     Ret (kernel_report (if is_write then WriteAfterFree else UseAfterFree) ip addr bytes (origin_of chunk) e)
                   else if c_req_size chunk \<le> offset_of chunk addr then
                     Ret (kernel_report HeapOverflow ip addr bytes (origin_of chunk) e)
                   else Ret e)))"

definition kernel_guard_range :: "u64 \<Rightarrow> u64 \<Rightarrow> u64 \<Rightarrow> bool \<Rightarrow> emu \<Rightarrow> emu outcome" where
  "kernel_guard_range ip addr len is_write e =
     (if len = 0 then Ret e
      else
        case kernel e of
          None \<Rightarrow> Ret e
        | Some k \<Rightarrow>
            (case index_of addr (k_heap k) of
               None \<Rightarrow> Ret e
             | Some idx \<Rightarrow>
                 obind (heap_get idx (k_heap k)) (\<lambda>chunk.
                   let off = offset_of chunk addr
                   in if is_freed chunk then
                        Ret (kernel_report (if is_write then WriteAfterFree else UseAfterFree) ip addr (ucast len) (origin_of chunk) e)
                      else if c_req_size chunk < off + len then
                        Ret (kernel_report HeapOverflow ip (c_addr chunk + c_req_size chunk) (ucast len) (origin_of chunk) e)
                      else Ret e)))"

definition kernel_findings :: "emu \<Rightarrow> finding list" where
  "kernel_findings e = (case kernel e of Some k \<Rightarrow> findings k | None \<Rightarrow> [])"

definition kernel_found_uaf :: "emu \<Rightarrow> bool" where
  "kernel_found_uaf e \<longleftrightarrow> list_ex (\<lambda>f. is_use_after_free (fi_kind f)) (kernel_findings e)"

definition kernel_check_leaks :: "emu \<Rightarrow> emu" where
  "kernel_check_leaks e =
     (case kernel e of
        None \<Rightarrow> e
      | Some k \<Rightarrow>
          fold (\<lambda>origin e. kernel_report Leak (o_alloc_rip origin) (o_addr origin) 0 origin e)
            (map origin_of (live (k_heap k))) e)"

subsection \<open>Bringing up the kernel\<close>

text \<open>
  One step of \<open>kernel_init\<close>: create a region unless there is one of that name, and fill it. The result tells
  whether \<open>kernel_init\<close> goes on.
\<close>

definition kernel_map :: "(slab \<Rightarrow> nat) \<Rightarrow> string \<Rightarrow> u64 \<Rightarrow> u64 \<Rightarrow> permission \<Rightarrow> u8 list \<Rightarrow> emu \<Rightarrow> (bool \<times> emu) outcome" where
  "kernel_map vk name base sz perm filler e =
     (if get_map_by_name name (emu_maps e) \<noteq> None then Ret (True, e)
      else
        case create_map vk name base sz perm (emu_maps e) of
          (Inl _, s) \<Rightarrow> Ret (False, e\<lparr>emu_maps := s\<rparr>)
        | (Inr key, s) \<Rightarrow>
            obind (expect (om_get (mem_slab s) key)) (\<lambda>m.
              if filler = [] then Ret (True, e\<lparr>emu_maps := s\<rparr>)
              else obind (force_write_bytes (base_addr m) filler m) (\<lambda>m. Ret (True, e\<lparr>emu_maps := put_mem key m s\<rparr>))))"

definition kernel_stack_pointer :: "u64 \<Rightarrow> emu \<Rightarrow> emu outcome" where
  "kernel_stack_pointer new_sp e =
     obind (current_thread e) (\<lambda>t.
       case arch t of
         AArch64 r \<Rightarrow> Ret (put_thread (t\<lparr>arch := AArch64 (r\<lparr>sp := new_sp\<rparr>)\<rparr>) e)
       | X86 r \<Rightarrow> Ret (put_thread (t\<lparr>arch := X86 (r\<lparr>rsp := new_sp, rbp := new_sp\<rparr>)\<rparr>) e))"

definition kernel_init :: "(slab \<Rightarrow> nat) \<Rightarrow> kernel_os \<Rightarrow> emu \<Rightarrow> emu outcome" where
  "kernel_init vk os e =
     (let layout = for_os os
      in obind (kernel_map vk ''kernel.stubs'' (l_stub_base layout) (l_stub_size layout) PERM_READ_EXECUTE
                  (replicate (unat (l_stub_size layout)) 0xc3) e) (\<lambda>(ok, e).
         if \<not> ok then Ret e
         else
           obind (kernel_map vk ''kernel.retpad'' (retpad layout) 0x1000 PERM_READ_EXECUTE (replicate 0x1000 0xf4) e) (\<lambda>(ok, e).
             if \<not> ok then Ret e
             else
               obind (kernel_map vk ''kernel.data'' (l_data_base layout) (l_data_size layout) PERM_READ_WRITE [] e) (\<lambda>(ok, e).
                 if \<not> ok then Ret e
                 else
                   obind (kernel_map vk ''kernel.stack'' (l_stack_base layout) (l_stack_size layout) PERM_READ_WRITE [] e) (\<lambda>(ok, e).
                     if \<not> ok then Ret e
                     else
                       obind (kernel_stack_pointer (l_stack_base layout + l_stack_size layout div 2) e) (\<lambda>e.
                         Ret (e\<lparr>kernel := Some (kernel_env_new os), kernel_guard := True, emu_os := os\<rparr>)))))))"

definition memory_guard_init :: "emu \<Rightarrow> emu" where
  "memory_guard_init e =
     (if kernel e \<noteq> None then e
      else e\<lparr>kernel := Some ((kernel_env_new (emu_os e))\<lparr>ledger_only := True\<rparr>), kernel_guard := True\<rparr>)"

subsection \<open>Imported symbols\<close>

definition symbol_at :: "kernel_env \<Rightarrow> u64 \<Rightarrow> string option" where
  "symbol_at k addr = stub_by_addr k addr"

definition kernel_stub_for :: "string \<Rightarrow> emu \<Rightarrow> u64 option \<times> emu" where
  "kernel_stub_for name e =
     (case kernel e of
        None \<Rightarrow> (None, e)
      | Some k \<Rightarrow>
          (case stub_by_name k name of
             Some addr \<Rightarrow> (Some addr, e)
           | None \<Rightarrow>
               let addr = next_stub k
               in if l_stub_base (k_layout k) + l_stub_size (k_layout k) < addr + STUB_SLOT then (None, e)
                  else (Some addr,
                        e\<lparr>kernel := Some (k\<lparr>next_stub := addr + STUB_SLOT,
                             stub_by_name := (stub_by_name k)(name \<mapsto> addr),
                             stub_by_addr := (stub_by_addr k)(addr \<mapsto> name)\<rparr>)\<rparr>)))"

definition kernel_data_for :: "string \<Rightarrow> u64 \<Rightarrow> emu \<Rightarrow> u64 option \<times> emu" where
  "kernel_data_for name sz e =
     (case kernel e of
        None \<Rightarrow> (None, e)
      | Some k \<Rightarrow>
          (case data_by_name k name of
             Some addr \<Rightarrow> (Some addr, e)
           | None \<Rightarrow>
               let addr = next_multiple_of (next_data k) 16
               in if l_data_base (k_layout k) + l_data_size (k_layout k) < addr + sz then (None, e)
                  else (Some addr,
                        e\<lparr>kernel := Some (k\<lparr>next_data := addr + sz, data_by_name := (data_by_name k)(name \<mapsto> addr)\<rparr>)\<rparr>)))"

text \<open>The table of \<open>linux::data_symbol_size\<close>.\<close>

definition data_symbol_sizes :: "(string list \<times> u64) list" where
  "data_symbol_sizes =
     [([''jiffies'', ''jiffies_64''], 8), ([''kmalloc_caches''], 0x1000),
      ([''current_task'', ''cpu_number'', ''__preempt_count'', ''__per_cpu_offset''], 0x100),
      ([''__stack_chk_guard'', ''__ref_stack_chk_guard''], 8),
      ([''system_wq'', ''system_highpri_wq'', ''system_long_wq'', ''system_unbound_wq'', ''system_freezable_wq'',
        ''system_power_efficient_wq''], 8),
      ([''boot_cpu_data'', ''init_task'', ''init_net'', ''init_user_ns'', ''init_mm''], 0x400),
      ([''page_offset_base'', ''vmemmap_base'', ''physical_mask'', ''phys_base''], 8),
      ([''param_ops_int'', ''param_ops_uint'', ''param_ops_long'', ''param_ops_ulong'', ''param_ops_charp'',
        ''param_ops_bool'', ''param_ops_string'', ''param_ops_short''], 0x40),
      ([''pv_ops'', ''static_key_initialized'', ''__tracepoint_module_get''], 0x200),
      ([''empty_zero_page'', ''mem_section'', ''max_pfn'', ''totalram_pages''], 0x100)]"

definition data_symbol_size :: "string \<Rightarrow> u64 option" where
  "data_symbol_size name = map_option snd (List.find (\<lambda>(names, _). name \<in> set names) data_symbol_sizes)"

definition kernel_resolve_import :: "string \<Rightarrow> emu \<Rightarrow> u64 option \<times> emu" where
  "kernel_resolve_import name e =
     (case kernel e of
        None \<Rightarrow> (None, e)
      | Some k \<Rightarrow>
          (case (case k_os k of Linux \<Rightarrow> data_symbol_size name | _ \<Rightarrow> None) of
             Some sz \<Rightarrow> kernel_data_for name sz e
           | None \<Rightarrow> kernel_stub_for name e))"

subsection \<open>Deferred calls and fault injection\<close>

definition kernel_defer :: "deferred_call \<Rightarrow> emu \<Rightarrow> emu" where
  "kernel_defer call e =
     (if dc_func call = 0 then e
      else case kernel e of None \<Rightarrow> e | Some k \<Rightarrow> e\<lparr>kernel := Some (k\<lparr>deferred := deferred k @ [call]\<rparr>)\<rparr>)"

definition kernel_set_fail_alloc :: "u64 option \<Rightarrow> emu \<Rightarrow> emu" where
  "kernel_set_fail_alloc idx e =
     (case kernel e of None \<Rightarrow> e | Some k \<Rightarrow> e\<lparr>kernel := Some (k\<lparr>fail_alloc_index := idx\<rparr>)\<rparr>)"

definition kernel_alloc_count :: "emu \<Rightarrow> u64" where
  "kernel_alloc_count e = (case kernel e of Some k \<Rightarrow> alloc_count k | None \<Rightarrow> 0)"

text \<open>The loop of \<open>kernel_run_deferred\<close>, with the number of rounds that are left.\<close>

primrec run_deferred :: "(u64 \<Rightarrow> u64 list \<Rightarrow> emu \<Rightarrow> emu) \<Rightarrow> nat \<Rightarrow> nat \<Rightarrow> emu \<Rightarrow> nat \<times> emu" where
  "run_deferred kernel_call 0 calls e = (calls, e)"
| "run_deferred kernel_call (Suc n) calls e =
     (case kernel e of
        None \<Rightarrow> (calls, e)
      | Some k \<Rightarrow>
          (case deferred k of
             [] \<Rightarrow> (calls, e)
           | call # rest \<Rightarrow>
               run_deferred kernel_call n (calls + 1)
                 (kernel_call (dc_func call) [dc_arg call] (e\<lparr>kernel := Some (k\<lparr>deferred := rest\<rparr>)\<rparr>))))"

definition kernel_run_deferred :: "(u64 \<Rightarrow> u64 list \<Rightarrow> emu \<Rightarrow> emu) \<Rightarrow> emu \<Rightarrow> nat \<times> emu" where
  "kernel_run_deferred kernel_call e = run_deferred kernel_call 64 0 e"

subsection \<open>Allocation\<close>

definition kernel_alloc ::
  "(slab \<Rightarrow> nat) \<Rightarrow> region \<Rightarrow> u64 \<Rightarrow> string \<Rightarrow> string \<Rightarrow> bool \<Rightarrow> emu \<Rightarrow> (u64 \<times> emu) outcome" where
  "kernel_alloc vk region req_size cache api zeroed e =
     obind (emu_pc e) (\<lambda>ip.
       case kernel e of
         None \<Rightarrow> Ret (0, e)
       | Some k \<Rightarrow>
           let this_idx = alloc_count k;
               k = k\<lparr>alloc_count := this_idx + 1\<rparr>
           in if fail_alloc_index k = Some this_idx then Ret (0, e\<lparr>kernel := Some k\<rparr>)
              else
                case record_alloc region req_size cache api (emu_pos e) ip (k_heap k) of
                  (None, h) \<Rightarrow> Ret (0, e\<lparr>kernel := Some (k\<lparr>k_heap := h\<rparr>)\<rparr>)
                | (Some chunk, h) \<Rightarrow>
                    let e = e\<lparr>kernel := Some (k\<lparr>k_heap := h\<rparr>)\<rparr>
                    in case create_map vk (c_map_name chunk) (c_addr chunk) (c_size chunk) PERM_READ_WRITE (emu_maps e) of
                         (Inl _, s) \<Rightarrow> Ret (0, e\<lparr>emu_maps := s\<rparr>)
                       | (Inr key, s) \<Rightarrow>
                           obind (expect (om_get (mem_slab s) key)) (\<lambda>m.
                             obind (mem_write_bytes (c_addr chunk) (replicate (unat (c_size chunk)) (if zeroed then 0 else 0x5a)) m) (\<lambda>m.
                               Ret (c_addr chunk, e\<lparr>emu_maps := put_mem key m s\<rparr>))))"

definition kernel_free :: "u64 \<Rightarrow> string \<Rightarrow> emu \<Rightarrow> (bool \<times> emu) outcome" where
  "kernel_free ptr api e =
     (if ptr = 0 then Ret (True, e)
      else
        obind (emu_pc e) (\<lambda>ip.
          case kernel e of
            None \<Rightarrow> Ret (False, e)
          | Some k \<Rightarrow>
              (case index_of_base ptr (k_heap k) of
                 None \<Rightarrow>
                   let origin = (case chunk_at ptr (k_heap k) of Some c \<Rightarrow> origin_of c | None \<Rightarrow> origin_default)
                   in Ret (False, kernel_report InvalidFree ip ptr 0 origin e)
               | Some idx \<Rightarrow>
                   obind (heap_get idx (k_heap k)) (\<lambda>chunk.
                     if is_freed chunk then
                       Ret (False, kernel_report DoubleFree ip ptr 0 (origin_of chunk) e)
                     else
                       obind (record_free idx api (emu_pos e) ip (k_heap k)) (\<lambda>h.
                         let e = e\<lparr>kernel := Some (k\<lparr>k_heap := h\<rparr>)\<rparr>;
                             (found, s) = get_mem_by_addr_mut (c_addr chunk) (emu_maps e)
                         in case found of
                              None \<Rightarrow> Ret (True, e\<lparr>emu_maps := s\<rparr>)
                            | Some key \<Rightarrow>
                                obind (expect (om_get (mem_slab s) key)) (\<lambda>m.
                                  obind (force_write_bytes (c_addr chunk) (replicate (unat (c_size chunk)) 0x6b) m) (\<lambda>m.
                                    Ret (True, e\<lparr>emu_maps := put_mem key m s\<rparr>))))))))"

subsection \<open>Control transfers\<close>

definition kernel_check_call_target :: "u64 \<Rightarrow> emu \<Rightarrow> emu outcome" where
  "kernel_check_call_target target e =
     obind (emu_pc e) (\<lambda>ip.
       Ret (case kernel e of
              None \<Rightarrow> e
            | Some k \<Rightarrow>
                (case chunk_at target (k_heap k) of
                   None \<Rightarrow> e
                 | Some c \<Rightarrow>
                     if is_freed c then kernel_report FreedFunctionPointerCall ip target 0 (origin_of c) e else e)))"

definition thunk_registers :: "(string \<times> reg64) list" where
  "thunk_registers =
     [(''rax'', RAX), (''rbx'', RBX), (''rcx'', RCX), (''rdx'', RDX), (''rsi'', RSI), (''rdi'', RDI), (''rbp'', RBP), (''r8'', R8),
      (''r9'', R9), (''r10'', R10), (''r11'', R11), (''r12'', R12), (''r13'', R13), (''r14'', R14), (''r15'', R15)]"

definition kernel_indirect_thunk :: "string \<Rightarrow> emu \<Rightarrow> (bool \<times> emu) outcome" where
  "kernel_indirect_thunk reg e =
     (case map_of thunk_registers reg of
        None \<Rightarrow> Ret (False, e)
      | Some r \<Rightarrow>
          obind (emu_regs e) (\<lambda>regs.
            let target = get64 r regs
            in obind (kernel_check_call_target target e) (\<lambda>e.
               obind (with_regs (\<lambda>regs. regs\<lparr>rip := target\<rparr>) e) (\<lambda>e.
                 Ret (True, e\<lparr>force_break := True\<rparr>)))))"

definition set_kernel_ret :: "u64 \<Rightarrow> emu \<Rightarrow> emu outcome" where
  "set_kernel_ret v e =
     obind (current_thread e) (\<lambda>t.
       case arch t of
         AArch64 r \<Rightarrow> obind (vec_store (x_regs r) 0 v) (\<lambda>xs. Ret (put_thread (t\<lparr>arch := AArch64 (r\<lparr>x_regs := xs\<rparr>)\<rparr>) e))
       | X86 r \<Rightarrow> Ret (put_thread (t\<lparr>arch := X86 (r\<lparr>rax := v\<rparr>)\<rparr>) e))"

text \<open>The part of \<open>kernel_set_pc\<close> that takes the return address.\<close>

definition kernel_return_address :: "emu \<Rightarrow> emu outcome" where
  "kernel_return_address e =
     obind (current_thread e) (\<lambda>t.
       case arch t of
         AArch64 r \<Rightarrow> obind (vec_index (x_regs r) 30) (\<lambda>lr. emu_set_pc lr (e\<lparr>gateway_return := lr\<rparr>))
       | X86 _ \<Rightarrow>
           obind (stack_pop64 e) (\<lambda>(v, e).
             let ret = (case v of Some x \<Rightarrow> x | None \<Rightarrow> 0)
             in emu_set_pc ret (e\<lparr>gateway_return := ret\<rparr>)))"

definition kernel_set_pc :: "(kernel_os \<Rightarrow> string \<Rightarrow> emu \<Rightarrow> bool \<times> emu) \<Rightarrow> u64 \<Rightarrow> emu \<Rightarrow> (bool \<times> emu) outcome" where
  "kernel_set_pc gateway addr e =
     (case kernel e of
        None \<Rightarrow> Ret (False, e)
      | Some k \<Rightarrow>
          if \<not> is_stub (k_layout k) addr then
            let (mapped, s) = is_mapped addr (emu_maps e);
                e = e\<lparr>emu_maps := s\<rparr>
            in if \<not> mapped then
                 obind (emu_pc e) (\<lambda>ip.
                   let e = (if is_free_poison addr then kernel_report FreedFunctionPointerCall ip addr 0 origin_default e else e)
                   in Ret (True, (emu_stop e)\<lparr>force_break := True\<rparr>))
               else obind (emu_set_pc addr e) (\<lambda>e. Ret (True, e))
          else
            let symbol = (case symbol_at k addr of Some s \<Rightarrow> s | None \<Rightarrow> ''<unknown>'')
            in if starts_with symbol ''__x86_indirect_thunk_'' then
                 kernel_indirect_thunk (drop (length ''__x86_indirect_thunk_'') symbol) e
               else
                 obind (kernel_return_address e) (\<lambda>e.
                   let (handled, e) = gateway (k_os k) symbol e
                   in if handled then Ret (True, e\<lparr>force_break := True\<rparr>)
                      else
                        case kernel e of
                          None \<Rightarrow> Ret (True, emu_stop e)
                        | Some k \<Rightarrow>
                            let e = (if symbol \<in> set (unimplemented k) then e
                                     else e\<lparr>kernel := Some (k\<lparr>unimplemented := unimplemented k @ [symbol]\<rparr>)\<rparr>)
                            in obind (set_kernel_ret 0 e) (\<lambda>e. Ret (True, e\<lparr>force_break := True\<rparr>))))"

subsection \<open>Drivers and device registers\<close>

definition is_ascii_graphic :: "u8 \<Rightarrow> bool" where
  "is_ascii_graphic b \<longleftrightarrow> 0x21 \<le> b \<and> b \<le> 0x7e"

text \<open>The loop over the fields of the driver structure: \<open>name\<close>, \<open>probe\<close>, the name of \<open>probe\<close> and \<open>id_table\<close>.\<close>

fun scan_driver :: "u64 list \<Rightarrow> u64 \<Rightarrow> u8 list \<times> u64 \<times> string \<times> u64 \<Rightarrow> emu \<Rightarrow> ((u8 list \<times> u64 \<times> string \<times> u64) \<times> emu) outcome" where
  "scan_driver [] struct_ptr found e = Ret (found, e)"
| "scan_driver (off # offs) struct_ptr (name, probe, probe_name, id_table) e =
     obind (on_maps (maps_read_qword (struct_ptr + off)) e) (\<lambda>(q, e).
       case q of
         None \<Rightarrow> Ret ((name, probe, probe_name, id_table), e)
       | Some q \<Rightarrow>
           if q = 0 then scan_driver offs struct_ptr (name, probe, probe_name, id_table) e
           else
             case kernel e of
               None \<Rightarrow> scan_driver offs struct_ptr (name, probe, probe_name, id_table) e
             | Some k \<Rightarrow>
                 if probe = 0 \<and> is_module_text (k_module k) q then
                   scan_driver offs struct_ptr
                     (name, q, (case func_name_at (k_module k) q of Some n \<Rightarrow> n | None \<Rightarrow> []), id_table) e
                 else if id_table = 0 \<and> is_module_data (k_module k) q then
                   obind (on_maps (maps_read_string q) e) (\<lambda>(s, e).
                     if s \<noteq> [] \<and> length s \<le> 40 \<and> list_all (\<lambda>c. is_ascii_graphic c \<or> c = 0x20) s \<and> name = [] then
                       scan_driver offs struct_ptr (s, probe, probe_name, id_table) e
                     else scan_driver offs struct_ptr (name, probe, probe_name, q) e)
                 else scan_driver offs struct_ptr (name, probe, probe_name, id_table) e)"

definition kernel_register_driver :: "string \<Rightarrow> u64 \<Rightarrow> emu \<Rightarrow> (u64 \<times> emu) outcome" where
  "kernel_register_driver bus struct_ptr e =
     obind (if struct_ptr \<noteq> 0
            then scan_driver (map (\<lambda>i. 8 * of_nat i) [0..<0x24]) struct_ptr ([], 0, [], 0) e
            else Ret (([], 0, [], 0), e)) (\<lambda>((name, probe, probe_name, id_table), e).
       Ret (probe,
            case kernel e of
              None \<Rightarrow> e
            | Some k \<Rightarrow>
                e\<lparr>kernel := Some (k\<lparr>registered_drivers := registered_drivers k @
                    [\<lparr>rd_bus = bus, rd_name = name, rd_struct_ptr = struct_ptr, rd_probe = probe,
                      rd_probe_name = probe_name, rd_id_table = id_table\<rparr>]\<rparr>)\<rparr>))"

definition kernel_set_register :: "u64 \<Rightarrow> u64 \<Rightarrow> emu \<Rightarrow> emu" where
  "kernel_set_register addr v e =
     (case kernel e of None \<Rightarrow> e | Some k \<Rightarrow> e\<lparr>kernel := Some (k\<lparr>registers := (registers k)(addr \<mapsto> v)\<rparr>)\<rparr>)"

definition kernel_get_register :: "u64 \<Rightarrow> emu \<Rightarrow> u64" where
  "kernel_get_register addr e =
     (case kernel e of None \<Rightarrow> 0 | Some k \<Rightarrow> (case registers k addr of Some v \<Rightarrow> v | None \<Rightarrow> 0))"

text \<open>The bytes of an outgoing transfer; a byte that cannot be read is zero.\<close>

primrec read_register_bytes :: "nat \<Rightarrow> u64 \<Rightarrow> emu \<Rightarrow> (u8 list \<times> emu) outcome" where
  "read_register_bytes 0 buf e = Ret ([], e)"
| "read_register_bytes (Suc n) buf e =
     obind (on_maps (maps_read_byte buf) e) (\<lambda>(b, e).
       obind (read_register_bytes n (buf + 1) e) (\<lambda>(bs, e).
         Ret ((case b of Some b \<Rightarrow> b | None \<Rightarrow> 0) # bs, e)))"

definition kernel_usb_register_xfer :: "u64 \<Rightarrow> u64 \<Rightarrow> u64 \<Rightarrow> bool \<Rightarrow> emu \<Rightarrow> (u64 \<times> emu) outcome" where
  "kernel_usb_register_xfer addr buf sz dir_in e =
     (let n = min sz 8
      in if buf = 0 \<or> n = 0 then Ret (n, e)
         else if dir_in then
           obind (on_maps (maps_write_bytes buf (take (unat n) (to_le_bytes (kernel_get_register addr e)))) e) (\<lambda>(_, e). Ret (n, e))
         else
           obind (read_register_bytes (unat n) buf e) (\<lambda>(bs, e).
             Ret (n, kernel_set_register addr (from_le_bytes (bs @ replicate (8 - unat n) 0)) e)))"

definition kernel_log_line :: "string \<Rightarrow> emu \<Rightarrow> emu" where
  "kernel_log_line line e =
     (case kernel e of None \<Rightarrow> e | Some k \<Rightarrow> e\<lparr>kernel := Some (k\<lparr>k_log := k_log k @ [line]\<rparr>)\<rparr>)"

end
