(* ===== verification/Kernel_Ledger.thy ===== *)
theory Kernel_Ledger
  imports Kernel_Heap
begin

section \<open>Correctness of the ledger\<close>

text \<open>
  The invariant of the ledger: the chunks of each area lie between its base and its cursor, in order,
  with the redzone between them. Allocation keeps it as long as the sizes do not wrap around. The
  binary search of \<open>index_of\<close> finds the chunk of an address when the whole list is in address order,
  which the two cursors do not guarantee.
\<close>

subsection \<open>Rounding\<close>

lemma next_multiple_of_unat:
  assumes "0 < n" "unat x + unat n < 2 ^ 64"
  shows "unat x \<le> unat (next_multiple_of x n)" "unat (next_multiple_of x n) < unat x + unat n"
    "unat n dvd unat (next_multiple_of x n)"
proof -
  define r where "r = unat x mod unat n"
  have n: "0 < unat n"
    using assms(1) by (simp add: word_less_nat_alt)
  have r: "unat (x mod n) = r" "r < unat n"
    using n by (simp_all add: unat_mod r_def)
  have eq: "unat (next_multiple_of x n) = (if r = 0 then unat x else unat x + (unat n - r))"
  proof (cases "r = 0")
    case True
    then have "x mod n = 0"
      using r(1) by (metis unat_eq_zero)
    then show ?thesis
      using True by (simp add: next_multiple_of_def)
  next
    case False
    then have "x mod n \<noteq> 0"
      using r(1) by (metis unat_0)
    moreover have "unat (n - x mod n) = unat n - r"
      using r by (metis less_imp_le_nat unat_sub word_le_nat_alt)
    moreover have "unat x + (unat n - r) < 2 ^ 64"
      using assms(2) by simp
    ultimately show ?thesis
      using False unat_add64[of x "n - x mod n"] by (simp only: next_multiple_of_def Let_def if_False)
  qed
  show "unat x \<le> unat (next_multiple_of x n)" "unat (next_multiple_of x n) < unat x + unat n"
    using r(2) n by (auto simp: eq)
  have "unat x + (unat n - r) = (unat x div unat n + 1) * unat n"
  proof -
    have "unat x = unat x div unat n * unat n + r"
      by (simp add: r_def)
    then show ?thesis
      using r(2) by (simp only: distrib_right)
  qed
  then show "unat n dvd unat (next_multiple_of x n)"
    using mod_0_imp_dvd[of "unat x" "unat n"] by (auto simp: eq r_def[symmetric])
qed

lemma bucket_bounds:
  assumes "0 < sz" "unat sz + 0x1000 < 2 ^ 64"
  shows "unat sz \<le> unat (bucket sz)" "unat (bucket sz) < unat sz + 0x1000"
proof -
  have "unat sz \<le> unat (bucket sz) \<and> unat (bucket sz) < unat sz + 0x1000"
  proof (cases "List.find (\<lambda>b. sz \<le> b) BUCKETS")
    case None
    then show ?thesis
      using next_multiple_of_unat[of "0x1000" sz] assms by (simp add: bucket_def)
  next
    case (Some b)
    then have "sz \<le> b" "b \<in> set BUCKETS"
      by (auto simp: find_Some_iff)
    then have "unat b < unat sz + 0x1000" "unat sz \<le> unat b"
      using assms(1) by (auto simp: BUCKETS_def word_le_nat_alt word_less_nat_alt)
    then show ?thesis
      using Some by (simp add: bucket_def)
  qed
  then show "unat sz \<le> unat (bucket sz)" "unat (bucket sz) < unat sz + 0x1000"
    by auto
qed

lemma chunk_bytes_bounds:
  assumes "unat req + 0x1001 < 2 ^ 64"
  shows "unat req \<le> unat (chunk_bytes r req)" "unat (chunk_bytes r req) \<le> unat req + 0x1000" "0 < unat (chunk_bytes r req)"
proof -
  have m: "unat (max req 1) = max (unat req) 1"
    by (simp add: max_def word_le_nat_alt)
  have "0 < max req 1"
    using m by (simp add: word_less_nat_alt)
  then have "max (unat req) 1 \<le> unat (chunk_bytes r req) \<and> unat (chunk_bytes r req) < max (unat req) 1 + 0x1000"
    using bucket_bounds[of "max req 1"] next_multiple_of_unat[of "0x1000" "max req 1"] assms m
    by (cases r) (simp_all add: chunk_bytes_def)
  then show "unat req \<le> unat (chunk_bytes r req)" "unat (chunk_bytes r req) \<le> unat req + 0x1000" "0 < unat (chunk_bytes r req)"
    by auto
qed

subsection \<open>The invariant\<close>

definition same_area :: "region \<Rightarrow> region \<Rightarrow> bool" where
  "same_area r r' \<longleftrightarrow> (r = Slab \<longleftrightarrow> r' = Slab)"

text \<open>One chunk ends, with its redzone, before another starts.\<close>

definition chunk_before :: "kernel_chunk \<Rightarrow> kernel_chunk \<Rightarrow> bool" where
  "chunk_before c d \<longleftrightarrow> unat (c_addr c) + unat (c_size c) + 0x1000 \<le> unat (c_addr d)"

definition area_base :: "u64 \<Rightarrow> u64 \<Rightarrow> region \<Rightarrow> u64" where
  "area_base sb vb r = (case r of Slab \<Rightarrow> sb | _ \<Rightarrow> vb)"

definition chunk_ok :: "u64 \<Rightarrow> u64 \<Rightarrow> kernel_heap \<Rightarrow> kernel_chunk \<Rightarrow> bool" where
  "chunk_ok sb vb h c \<longleftrightarrow>
     area_base sb vb (c_region c) \<le> c_addr c
     \<and> unat (c_addr c) + unat (c_size c) + 0x1000 \<le> unat (region_cursor (c_region c) h)
     \<and> 0 < c_size c \<and> c_req_size c \<le> c_size c \<and> 16 dvd unat (c_addr c)"

definition ledger_ok :: "u64 \<Rightarrow> u64 \<Rightarrow> kernel_heap \<Rightarrow> bool" where
  "ledger_ok sb vb h \<longleftrightarrow>
     sb \<le> slab_cursor h \<and> slab_cursor h \<le> slab_end h \<and> slab_end h \<le> vb
     \<and> vb \<le> vmalloc_cursor h \<and> vmalloc_cursor h \<le> vmalloc_end h
     \<and> (\<forall>c\<in>set (chunks h). chunk_ok sb vb h c)
     \<and> sorted_wrt (\<lambda>c d. same_area (c_region c) (c_region d) \<longrightarrow> chunk_before c d) (chunks h)"

definition no_wrap :: "region \<Rightarrow> u64 \<Rightarrow> kernel_heap \<Rightarrow> bool" where
  "no_wrap r req h \<longleftrightarrow> unat (region_end r h) + unat req + 0x2010 < 2 ^ 64"

lemma ledger_cursor:
  assumes "ledger_ok sb vb h"
  shows "unat (area_base sb vb r) \<le> unat (region_cursor r h)" "unat (region_cursor r h) \<le> unat (region_end r h)"
  using assms by (cases r; simp add: ledger_ok_def area_base_def region_cursor_def region_end_def word_le_nat_alt)+

lemma ledger_chunk:
  assumes "ledger_ok sb vb h" "c \<in> set (chunks h)"
  shows "unat (area_base sb vb (c_region c)) \<le> unat (c_addr c)"
    "unat (c_addr c) + unat (c_size c) + 0x1000 \<le> unat (region_cursor (c_region c) h)"
    "0 < unat (c_size c)" "unat (c_req_size c) \<le> unat (c_size c)"
  using assms by (auto simp: ledger_ok_def chunk_ok_def word_le_nat_alt word_less_nat_alt)

lemma contains_iff:
  assumes "ledger_ok sb vb h" "c \<in> set (chunks h)"
  shows "chunk_contains c addr \<longleftrightarrow> unat (c_addr c) \<le> unat addr \<and> unat addr < unat (c_addr c) + unat (c_size c)"
proof -
  have "unat (c_addr c) + unat (c_size c) < 2 ^ 64"
    using ledger_chunk(2)[OF assms] unat_u64_less[of "region_cursor (c_region c) h"] by simp
  then show ?thesis
    by (simp add: chunk_contains_def word_le_nat_alt word_less_nat_alt unat_word_ariths)
qed

text \<open>Chunks of different areas: slab chunks lie below all others.\<close>

lemma areas_apart:
  assumes ok: "ledger_ok sb vb h" and c: "c \<in> set (chunks h)" "c_region c = Slab"
    and d: "d \<in> set (chunks h)" "c_region d \<noteq> Slab"
  shows "chunk_before c d"
proof -
  have "unat (slab_cursor h) \<le> unat vb"
    using ok by (auto simp: ledger_ok_def word_le_nat_alt)
  moreover have "area_base sb vb (c_region d) = vb"
    using d(2) by (cases "c_region d") (simp_all add: area_base_def)
  ultimately show ?thesis
    using ledger_chunk(2)[OF ok c(1)] ledger_chunk(1)[OF ok d(1)] c(2)
    by (simp add: chunk_before_def region_cursor_def)
qed

lemma ledger_apart:
  assumes ok: "ledger_ok sb vb h" and ij: "i < length (chunks h)" "j < length (chunks h)" "i \<noteq> j"
  shows "chunk_before (chunks h ! i) (chunks h ! j) \<or> chunk_before (chunks h ! j) (chunks h ! i)"
proof -
  have mem: "chunks h ! i \<in> set (chunks h)" "chunks h ! j \<in> set (chunks h)"
    using ij by simp_all
  have sw: "sorted_wrt (\<lambda>c d. same_area (c_region c) (c_region d) \<longrightarrow> chunk_before c d) (chunks h)"
    using ok by (simp add: ledger_ok_def)
  show ?thesis
  proof (cases "same_area (c_region (chunks h ! i)) (c_region (chunks h ! j))")
    case True
    show ?thesis
    proof (cases "i < j")
      case True
      then show ?thesis
        using sorted_wrt_nth_less[OF sw True ij(2)] \<open>same_area _ _\<close> by simp
    next
      case False
      then have "j < i"
        using ij(3) by simp
      then show ?thesis
        using sorted_wrt_nth_less[OF sw \<open>j < i\<close> ij(1)] \<open>same_area _ _\<close> by (simp add: same_area_def)
    qed
  next
    case False
    then show ?thesis
      using areas_apart[OF ok mem(1) _ mem(2)] areas_apart[OF ok mem(2) _ mem(1)] by (auto simp: same_area_def)
  qed
qed

subsection \<open>Allocation\<close>

lemma record_alloc_eq:
  assumes ok: "ledger_ok sb vb h" and nw: "no_wrap r req h"
  defines "sz \<equiv> chunk_bytes r req"
  defines "addr \<equiv> next_multiple_of (region_cursor r h) 16"
  shows "unat (region_cursor r h) \<le> unat addr" "16 dvd unat addr"
    "unat (addr + sz + HEAP_REDZONE) = unat addr + unat sz + 0x1000"
    "unat req \<le> unat sz" "0 < unat sz"
proof -
  have cur: "unat (region_cursor r h) \<le> unat (region_end r h)"
    using ledger_cursor(2)[OF ok] .
  have lim: "unat (region_end r h) + unat req + 0x2010 < 2 ^ 64"
    using nw by (simp add: no_wrap_def)
  have a: "unat (region_cursor r h) \<le> unat addr" "unat addr < unat (region_cursor r h) + 16" "16 dvd unat addr"
    using next_multiple_of_unat[of 16 "region_cursor r h"] cur lim by (simp_all add: addr_def)
  have s: "unat req \<le> unat sz" "unat sz \<le> unat req + 0x1000" "0 < unat sz"
    using chunk_bytes_bounds[of req r] lim by (simp_all add: sz_def)
  have "unat (addr + sz) = unat addr + unat sz"
    using a s cur lim by (intro unat_add64) simp
  moreover have "unat (addr + sz + HEAP_REDZONE) = unat (addr + sz) + unat HEAP_REDZONE"
    using a s cur lim calculation by (intro unat_add64) (simp add: HEAP_REDZONE_def)
  ultimately show "unat (addr + sz + HEAP_REDZONE) = unat addr + unat sz + 0x1000"
    by (simp add: HEAP_REDZONE_def)
  show "unat (region_cursor r h) \<le> unat addr" "16 dvd unat addr" "unat req \<le> unat sz" "0 < unat sz"
    using a s by simp_all
qed

lemma set_cursor_sel [simp]:
  "region_cursor r (set_cursor r' c h) = (if same_area r r' then c else region_cursor r h)"
  "region_end r (set_cursor r' c h) = region_end r h"
  "chunks (set_cursor r' c h) = chunks h" "serial (set_cursor r' c h) = serial h"
  by (cases r; cases r'; simp add: set_cursor_def region_cursor_def region_end_def same_area_def)+

lemma heap_update_sel [simp]:
  "region_cursor r (h\<lparr>serial := n\<rparr>) = region_cursor r h" "region_cursor r (h\<lparr>chunks := cs\<rparr>) = region_cursor r h"
  "region_end r (h\<lparr>serial := n\<rparr>) = region_end r h" "region_end r (h\<lparr>chunks := cs\<rparr>) = region_end r h"
  by (cases r; simp add: region_cursor_def region_end_def)+

lemma ledger_ok_alt:
  "ledger_ok sb vb h \<longleftrightarrow>
     sb \<le> region_cursor Slab h \<and> region_cursor Slab h \<le> region_end Slab h \<and> region_end Slab h \<le> vb
     \<and> vb \<le> region_cursor Vmalloc h \<and> region_cursor Vmalloc h \<le> region_end Vmalloc h
     \<and> (\<forall>c\<in>set (chunks h). chunk_ok sb vb h c)
     \<and> sorted_wrt (\<lambda>c d. same_area (c_region c) (c_region d) \<longrightarrow> chunk_before c d) (chunks h)"
  by (simp add: ledger_ok_def region_cursor_def region_end_def)

lemma chunk_ok_mono:
  assumes "chunk_ok sb vb h c" "unat (region_cursor (c_region c) h) \<le> unat (region_cursor (c_region c) h')"
  shows "chunk_ok sb vb h' c"
  using assms by (simp add: chunk_ok_def)

lemma record_alloc_ok:
  assumes ok: "ledger_ok sb vb h" and nw: "no_wrap r req h"
    and eq: "record_alloc r req cache api pos rip h = (Some c, h')"
  shows "ledger_ok sb vb h'" "chunks h' = chunks h @ [c]" "\<forall>d\<in>set (chunks h). chunk_before d c \<or> chunk_before c d"
    "req \<le> c_size c" "c_region c = r" "c_req_size c = req" "\<not> is_freed c"
    "c_map_name c = cache @ ''#'' @ fmt_radix 10 (unat (serial h + 1))" "serial h' = serial h + 1"
    "region_end r' h' = region_end r' h"
proof -
  define sz where "sz = chunk_bytes r req"
  define addr where "addr = next_multiple_of (region_cursor r h) 16"
  note a = record_alloc_eq[OF ok nw, folded sz_def addr_def]
  from eq have room: "\<not> region_end r h < addr + sz + HEAP_REDZONE"
    by (auto simp: record_alloc_def Let_def addr_def sz_def split: if_splits)
  with eq have c: "c_addr c = addr" "c_size c = sz" "c_req_size c = req" "c_region c = r" "\<not> is_freed c"
    "c_map_name c = cache @ ''#'' @ fmt_radix 10 (unat (serial h + 1))"
    and h': "h' = (set_cursor r (addr + sz + HEAP_REDZONE) h)\<lparr>serial := serial h + 1, chunks := chunks h @ [c]\<rparr>"
    by (auto simp: record_alloc_def Let_def addr_def sz_def is_freed_def)
  show ch: "chunks h' = chunks h @ [c]"
    by (simp add: h')
  have fit: "unat addr + unat sz + 0x1000 \<le> unat (region_end r h)"
    using room a(3) by (simp add: word_less_nat_alt)
  have cur: "region_cursor r' h' = (if same_area r' r then addr + sz + HEAP_REDZONE else region_cursor r' h)" for r'
    by (simp add: h')
  have grow: "unat (region_cursor r' h) \<le> unat (region_cursor r' h')" for r'
  proof -
    have "region_cursor r' h = region_cursor r h" if "same_area r' r"
      using that by (cases r; cases r'; simp add: same_area_def region_cursor_def)
    then show ?thesis
      using a(1,3) by (simp add: cur)
  qed
  have endr: "region_end r' h' = region_end r' h" for r'
    by (simp add: h')
  then show "region_end r' h' = region_end r' h" .
  have own: "chunk_ok sb vb h' c"
    using a c fit ledger_cursor(1)[OF ok, of r] cur[of r]
    by (simp add: chunk_ok_def word_le_nat_alt word_less_nat_alt same_area_def)
  have before: "chunk_before d c" if "d \<in> set (chunks h)" "same_area (c_region d) r" for d
  proof -
    have "region_cursor (c_region d) h = region_cursor r h"
      using that(2) by (cases r; cases "c_region d"; simp add: same_area_def region_cursor_def)
    then show ?thesis
      using ledger_chunk(2)[OF ok that(1)] a(1) c(1) by (simp add: chunk_before_def)
  qed
  have last: "region_cursor r' h' \<le> region_end r' h'" for r'
  proof (cases "same_area r' r")
    case True
    then have "region_end r' h = region_end r h"
      by (cases r; cases r'; simp add: same_area_def region_end_def)
    then show ?thesis
      using True room by (simp add: cur endr not_less)
  next
    case False
    then show ?thesis
      using ledger_cursor(2)[OF ok, of r'] by (simp add: cur endr word_le_nat_alt)
  qed
  have "sb \<le> region_cursor Slab h'" "vb \<le> region_cursor Vmalloc h'" "region_end Slab h' \<le> vb"
    using ok grow[of Slab] grow[of Vmalloc] by (auto simp: ledger_ok_alt endr word_le_nat_alt)
  moreover have "\<forall>d\<in>set (chunks h'). chunk_ok sb vb h' d"
    using ok own chunk_ok_mono[OF _ grow] by (auto simp: ch ledger_ok_def)
  moreover have "sorted_wrt (\<lambda>c d. same_area (c_region c) (c_region d) \<longrightarrow> chunk_before c d) (chunks h')"
    using ok before c(4) by (auto simp: ch ledger_ok_def sorted_wrt_append)
  ultimately show ok': "ledger_ok sb vb h'"
    using last by (simp add: ledger_ok_alt)
  show "\<forall>d\<in>set (chunks h). chunk_before d c \<or> chunk_before c d"
  proof
    fix d
    assume d: "d \<in> set (chunks h)"
    then have mem: "d \<in> set (chunks h')" "c \<in> set (chunks h')"
      by (simp_all add: ch)
    show "chunk_before d c \<or> chunk_before c d"
      using before[OF d] areas_apart[OF ok' mem(1) _ mem(2)] areas_apart[OF ok' mem(2) _ mem(1)] c(4)
      by (auto simp: same_area_def)
  qed
  show "req \<le> c_size c" "c_region c = r" "c_req_size c = req" "\<not> is_freed c" "serial h' = serial h + 1"
    "c_map_name c = cache @ ''#'' @ fmt_radix 10 (unat (serial h + 1))"
    using a(4) c by (simp_all add: word_le_nat_alt h')
qed

subsection \<open>Binary search\<close>

lemma partition_loop_inv:
  assumes "\<forall>i<length xs. p (xs ! i) \<longleftrightarrow> i < k" "0 < sz" "base + sz \<le> length xs" "k \<le> base + sz"
  shows "base \<le> partition_loop p xs base sz \<and> partition_loop p xs base sz < base + sz
    \<and> (partition_loop p xs base sz < k \<or> partition_loop p xs base sz = base) \<and> k \<le> partition_loop p xs base sz + 1"
  using assms
proof (induction p xs base sz rule: partition_loop.induct)
  case (1 p xs base sz)
  show ?case
  proof (cases "sz \<le> 1")
    case True
    then show ?thesis
      using "1.prems" by (subst (1 2 3 4 5) partition_loop.simps) auto
  next
    case False
    let ?m = "base + sz div 2"
    have m: "?m < length xs" "0 < sz - sz div 2" "sz div 2 < sz" "0 < sz div 2"
      using False "1.prems"(3) by auto
    have step: "partition_loop p xs base sz = partition_loop p xs (if p (xs ! ?m) then ?m else base) (sz - sz div 2)"
      using False by (subst partition_loop.simps) (simp add: Let_def)
    have half: "sz div 2 \<le> sz - sz div 2"
      by simp
    show ?thesis
    proof (cases "p (xs ! ?m)")
      case True
      then show ?thesis
        using "1.IH"[OF False refl refl] "1.prems" m unfolding step by auto
    next
      case no: False
      then have "k \<le> ?m"
        using "1.prems"(1) m(1) by auto
      then have k: "k \<le> base + (sz - sz div 2)" "base + (sz - sz div 2) \<le> length xs"
        using half "1.prems"(3) m(3) by linarith+
      have "base + (sz - sz div 2) < base + sz"
        using m(3,4) by linarith
      then show ?thesis
        using "1.IH"[OF False refl refl] "1.prems"(1) m(2) k no unfolding step by (auto intro: order.strict_trans)
    qed
  qed
qed

lemma partition_point_correct:
  assumes "\<forall>i<length xs. p (xs ! i) \<longleftrightarrow> i < k" "k \<le> length xs"
  shows "partition_point p xs = k"
proof (cases "xs = []")
  case True
  then show ?thesis
    using assms(2) by (simp add: partition_point_def)
next
  case False
  let ?b = "partition_loop p xs 0 (length xs)"
  have "?b < length xs" "?b < k \<or> ?b = 0" "k \<le> ?b + 1"
    using partition_loop_inv[OF assms(1), of "length xs" 0] False assms(2) by auto
  then show ?thesis
    using assms False by (auto simp: partition_point_def Let_def)
qed

subsection \<open>Looking up an address\<close>

lemma nth_takeWhile_holds:
  assumes "j < length (takeWhile P xs)"
  shows "P (xs ! j)"
  using set_takeWhileD[OF nth_mem[OF assms]] takeWhile_nth[OF assms] by simp

definition in_order :: "kernel_heap \<Rightarrow> bool" where
  "in_order h \<longleftrightarrow> sorted_wrt chunk_before (chunks h)"

lemma index_of_in_order:
  assumes ok: "ledger_ok sb vb h" and ord: "in_order h"
  shows "index_of addr h = Some i \<longleftrightarrow> i < length (chunks h) \<and> chunk_contains (chunks h ! i) addr"
proof -
  let ?cs = "chunks h"
  define k where "k = length (takeWhile (\<lambda>c. c_addr c \<le> addr) ?cs)"
  have le: "k \<le> length ?cs"
    unfolding k_def by (rule length_takeWhile_le)
  have mem: "?cs ! j \<in> set ?cs" if "j < length ?cs" for j
    using that by simp
  have before: "chunk_before (?cs ! a) (?cs ! b)" if "a < b" "b < length ?cs" for a b
    using ord that sorted_wrt_nth_less[of chunk_before ?cs a b] by (simp add: in_order_def)
  have part: "c_addr (?cs ! j) \<le> addr \<longleftrightarrow> j < k" if "j < length ?cs" for j
  proof
    assume a: "c_addr (?cs ! j) \<le> addr"
    show "j < k"
    proof (rule ccontr)
      assume "\<not> j < k"
      then have kj: "k \<le> j" "k < length ?cs"
        using that by auto
      then have no: "\<not> c_addr (?cs ! k) \<le> addr"
        using nth_length_takeWhile[of "\<lambda>c. c_addr c \<le> addr" ?cs] by (simp add: k_def)
      then have "k \<noteq> j"
        using a by auto
      then have "chunk_before (?cs ! k) (?cs ! j)"
        using before kj that by simp
      then show False
        using no a by (auto simp: chunk_before_def word_le_nat_alt)
    qed
  next
    assume "j < k"
    then show "c_addr (?cs ! j) \<le> addr"
      unfolding k_def by (rule nth_takeWhile_holds)
  qed
  then have pp: "partition_point (\<lambda>c. c_addr c \<le> addr) ?cs = k"
    by (intro partition_point_correct le allI impI)
  have last: "j = k - 1 \<and> k \<noteq> 0" if j: "j < length ?cs" "chunk_contains (?cs ! j) addr" for j
  proof -
    have c: "unat (c_addr (?cs ! j)) \<le> unat addr" "unat addr < unat (c_addr (?cs ! j)) + unat (c_size (?cs ! j))"
      using j contains_iff[OF ok mem[OF j(1)]] by simp_all
    then have "j < k"
      using part[OF j(1)] by (simp add: word_le_nat_alt)
    moreover have "\<not> j < k - 1"
    proof
      assume "j < k - 1"
      then have "chunk_before (?cs ! j) (?cs ! (k - 1))" "c_addr (?cs ! (k - 1)) \<le> addr"
        using before[of j "k - 1"] part[of "k - 1"] le by auto
      then show False
        using c(2) by (simp add: chunk_before_def word_le_nat_alt)
    qed
    ultimately show ?thesis
      by simp
  qed
  have "index_of addr h = (if k = 0 then None else if chunk_contains (?cs ! (k - 1)) addr then Some (k - 1) else None)"
    by (simp only: index_of_def pp Let_def)
  then show ?thesis
    using last[of i] le by auto
qed

lemma chunk_unique:
  assumes ok: "ledger_ok sb vb h" and i: "i < length (chunks h)" "chunk_contains (chunks h ! i) addr"
    and j: "j < length (chunks h)" "chunk_contains (chunks h ! j) addr"
  shows "i = j"
proof (rule ccontr)
  assume "i \<noteq> j"
  then have "chunk_before (chunks h ! i) (chunks h ! j) \<or> chunk_before (chunks h ! j) (chunks h ! i)"
    using ledger_apart[OF ok i(1) j(1)] by simp
  then show False
    using i(2) j(2) contains_iff[OF ok nth_mem[OF i(1)]] contains_iff[OF ok nth_mem[OF j(1)]]
    by (auto simp: chunk_before_def)
qed

lemma index_of_base_iff:
  assumes ok: "ledger_ok sb vb h"
  shows "index_of_base addr h = Some i \<longleftrightarrow> i < length (chunks h) \<and> c_addr (chunks h ! i) = addr"
proof -
  let ?P = "\<lambda>c. c_addr c = addr" and ?cs = "chunks h"
  define k where "k = length (takeWhile (\<lambda>c. \<not> ?P c) ?cs)"
  have one: "a = b" if "a < length ?cs" "?P (?cs ! a)" "b < length ?cs" "?P (?cs ! b)" for a b
  proof -
    have "chunk_contains (?cs ! a) addr" "chunk_contains (?cs ! b) addr"
      using that contains_iff[OF ok] ledger_chunk(3)[OF ok] by simp_all
    then show ?thesis
      using chunk_unique[OF ok] that by blast
  qed
  have "?P (?cs ! k)" if "k < length ?cs"
    using nth_length_takeWhile[OF that[unfolded k_def]] by (simp add: k_def)
  moreover have "k < length ?cs" if "i < length ?cs" "?P (?cs ! i)"
  proof (rule ccontr)
    assume "\<not> k < length ?cs"
    then have "i < k"
      using that(1) by simp
    then show False
      using nth_takeWhile_holds[of i "\<lambda>c. \<not> ?P c" ?cs] that(2) by (simp add: k_def)
  qed
  moreover have "index_of_base addr h = (if k < length ?cs then Some k else None)"
    by (simp only: index_of_base_def position_def Let_def k_def)
  ultimately show ?thesis
    using one[of i k] by auto
qed

text \<open>When the last chunk is a slab chunk, the search looks only at it for every address above the slabs.\<close>

lemma index_of_above:
  assumes ok: "ledger_ok sb vb h" and cs: "chunks h = cs @ [s]" "c_region s = Slab" and a: "\<forall>c\<in>set cs. c_addr c \<le> addr"
    and v: "vb \<le> addr"
  shows "index_of addr h = None"
proof -
  have "s \<in> set (chunks h)"
    by (simp add: cs)
  note b = ledger_chunk[OF ok this]
  have "unat (slab_cursor h) \<le> unat vb"
    using ok by (auto simp: ledger_ok_def word_le_nat_alt)
  then have s: "unat (c_addr s) + unat (c_size s) + 0x1000 \<le> unat addr"
    using b(2) cs(2) v by (simp add: region_cursor_def word_le_nat_alt)
  then have "\<forall>i<length (chunks h). c_addr (chunks h ! i) \<le> addr \<longleftrightarrow> i < length (chunks h)"
    using a by (auto simp: cs(1) nth_append word_le_nat_alt less_Suc_eq)
  then have "partition_point (\<lambda>c. c_addr c \<le> addr) (chunks h) = length (chunks h)"
    by (rule partition_point_correct) simp
  moreover have "\<not> chunk_contains s addr"
    using contains_iff[OF ok \<open>s \<in> set (chunks h)\<close>] s by simp
  ultimately show ?thesis
    by (simp add: index_of_def cs(1))
qed

end
