(* ===== verification/Kernel_Start.thy ===== *)
theory Kernel_Start
  imports Kernel_Env Kernel_Ledger
begin

section \<open>Bringing up the kernel\<close>

text \<open>
  The two ways in which the guard is switched on, \<open>memory_guard_init\<close> for programs and \<open>kernel_init\<close> for drivers, leave
  a fresh ledger whose areas are free of regions. \<open>kernel_init\<close> maps four regions of its own. On
  Linux one of them, the kernel stack, lies inside the area of \<open>vmalloc\<close>, so there only the slab area is free.
\<close>

subsection \<open>Areas and names for chunks\<close>

text \<open>A range outside of the part of an area that is still to be given out.\<close>

definition outside :: "region \<Rightarrow> kernel_heap \<Rightarrow> u64 \<Rightarrow> nat \<Rightarrow> bool" where
  "outside r h a n \<longleftrightarrow>
     unat a < unat (region_cursor r h) \<and> unat a + n \<le> unat (region_cursor r h) \<or> unat (region_end r h) \<le> unat a"

definition area_free :: "region \<Rightarrow> maps \<Rightarrow> kernel_heap \<Rightarrow> bool" where
  "area_free r s h \<longleftrightarrow>
     (\<forall>key m. om_get (mem_slab s) key = Some m \<longrightarrow> outside r h (base_addr m) (length (mem m)))"

definition names_free :: "maps \<Rightarrow> kernel_heap \<Rightarrow> bool" where
  "names_free s h \<longleftrightarrow> (\<forall>cache n. unat (serial h) < n \<longrightarrow> name_map s (cache @ ''#'' @ fmt_radix 10 n) = None)"

lemma fresh_ledger:
  "ledger_ok (l_heap_base (for_os os)) (l_vmalloc_base (for_os os)) (k_heap (kernel_env_new os))"
  "chunks (k_heap (kernel_env_new os)) = []" "serial (k_heap (kernel_env_new os)) = 0" "0 < l_heap_base (for_os os)"
  "unat (region_end r (k_heap (kernel_env_new os))) \<le> 0xffffff9110000000"
  by (cases os; cases r; simp add: kernel_env_new_def kernel_heap_new_def ledger_ok_def region_end_def Let_def)+

subsection \<open>Mapping regions\<close>

lemma fill_region:
  assumes "mem_wf m" "length bs = length (mem m)"
  shows "force_write_bytes (base_addr m) bs m = Ret (m\<lparr>mem := bs\<rparr>)"
  using assms mem_wf_len[OF assms(1)] by (simp add: force_write_bytes_def Let_def unat_of_nat64 splice_def)

text \<open>Ranges to be mapped under names: room for all of them, and what mapping them adds.\<close>

definition room :: "(string \<times> u64 \<times> u64) list \<Rightarrow> maps \<Rightarrow> bool" where
  "room rs s \<longleftrightarrow>
     (\<forall>(name, a, n)\<in>set rs. unat a + unat n < 2 ^ 64 \<and> free_range s a (unat n) \<and> name_map s name = None)"

definition apart :: "string \<times> u64 \<times> u64 \<Rightarrow> string \<times> u64 \<times> u64 \<Rightarrow> bool" where
  "apart = (\<lambda>(x, a, n) (y, b, m). x \<noteq> y \<and> a \<noteq> b \<and> (unat a + unat n \<le> unat b \<or> unat b + unat m \<le> unat a))"

definition adds :: "(string \<times> u64 \<times> u64) list \<Rightarrow> maps \<Rightarrow> maps \<Rightarrow> bool" where
  "adds rs s s' \<longleftrightarrow>
     (\<forall>key m. om_get (mem_slab s') key = Some m \<longrightarrow>
        om_get (mem_slab s) key = Some m \<or> (\<exists>(x, a, n)\<in>set rs. base_addr m = a \<and> length (mem m) = unat n))
     \<and> dom (name_map s') \<subseteq> dom (name_map s) \<union> fst ` set rs"

lemma adds_trans: "adds rs s s' \<Longrightarrow> adds rs' s' s'' \<Longrightarrow> adds (rs @ rs') s s''"
  unfolding adds_def by (fastforce simp: subset_eq)

lemma room_adds:
  assumes "room rs s" "adds [r] s s'" "\<forall>r'\<in>set rs. apart r r'"
  shows "room rs s'"
  unfolding room_def
proof (intro ballI, clarify)
  fix x a n
  assume r': "(x, a, n) \<in> set rs"
  obtain y b m where r: "r = (y, b, m)"
    by (cases r) auto
  have ap: "x \<noteq> y" "a \<noteq> b" "unat b + unat m \<le> unat a \<or> unat a + unat n \<le> unat b"
    using assms(3) r' by (force simp: apart_def r)+
  have old: "unat a + unat n < 2 ^ 64" "free_range s a (unat n)" "name_map s x = None"
    using assms(1) r' by (auto simp: room_def)
  have "free_range s' a (unat n)"
    unfolding free_range_def
  proof (intro allI impI)
    fix key m'
    assume "om_get (mem_slab s') key = Some m'"
    then have "om_get (mem_slab s) key = Some m' \<or> base_addr m' = b \<and> length (mem m') = unat m"
      using assms(2) by (auto simp: adds_def r)
    then show "base_addr m' \<noteq> a \<and> (unat (base_addr m') + length (mem m') \<le> unat a \<or> unat a + unat n \<le> unat (base_addr m'))"
      using old(2) ap(2,3) unfolding free_range_def by metis
  qed
  moreover have "x \<notin> dom (name_map s')"
    using assms(2) old(3) ap(1) by (auto simp: adds_def r)
  ultimately show "unat a + unat n < 2 ^ 64 \<and> free_range s' a (unat n) \<and> name_map s' x = None"
    using old(1) by auto
qed

lemma kernel_map_step:
  assumes wf: "maps_wf (emu_maps e)" and vk: "vacant_key vk" and room: "room ((x, a, n) # rs) (emu_maps e)"
    and ap: "\<forall>r\<in>set rs. apart (x, a, n) r" and filler: "filler = [] \<or> length filler = unat n"
  shows "\<exists>s'. kernel_map vk x a n p filler e = Ret (True, e\<lparr>emu_maps := s'\<rparr>) \<and> maps_wf s' \<and> room rs s' \<and> adds [(x, a, n)] (emu_maps e) s'"
proof -
  let ?s = "emu_maps e"
  let ?k = "vk (mem_slab ?s)" and ?m = "fresh_region x a n p"
  let ?new = "add_region ?k ?m ?s"
  have pre: "unat a + unat n < 2 ^ 64" "free_range ?s a (unat n)" "name_map ?s x = None" "room rs ?s"
    using room by (auto simp: room_def)
  obtain t where c: "create_map vk x a n p ?s = (Inr ?k, ?new\<lparr>tlb := t, code_writes :=
       if perm_can_execute p then log_write (code_writes ?s) a n else code_writes ?s\<rparr>)" and wf0: "maps_wf ?new"
    by (rule create_map_free[OF wf vk pre(1-3)])
  define s1 where "s1 = ?new\<lparr>tlb := t, code_writes := if perm_can_execute p then log_write (code_writes ?s) a n else code_writes ?s\<rparr>"
  have s1: "maps_wf s1" "om_get (mem_slab s1) = om_get (mem_slab ?new)" "name_map s1 = name_map ?new"
    using wf0 by (simp_all add: s1_def)
  have g: "om_get (mem_slab s1) ?k = Some ?m"
    using wf by (simp add: s1(2))
  define s2 where "s2 = (if filler = [] then s1 else put_mem ?k (?m\<lparr>mem := filler\<rparr>) s1)"
  have len: "length filler = length (mem ?m)" if "filler \<noteq> []"
    using filler that by simp
  have "force_write_bytes a filler ?m = Ret (?m\<lparr>mem := filler\<rparr>)" if "filler \<noteq> []"
    using fill_region[OF fresh_region_wf[OF pre(1)] len[OF that]] by simp
  then have run: "kernel_map vk x a n p filler e = Ret (True, e\<lparr>emu_maps := s2\<rparr>)"
    using pre(3) c g by (simp add: kernel_map_def get_map_by_name_def s1_def[symmetric] s2_def)
  moreover have "maps_wf s2"
    using s1(1) put_mem_wf[OF s1(1) g len] by (simp add: s2_def)
  moreover have adds: "adds [(x, a, n)] ?s s2"
  proof -
    have "om_get (mem_slab s2) key = (if key = ?k then Some (if filler = [] then ?m else ?m\<lparr>mem := filler\<rparr>) else om_get (mem_slab ?s) key)" for key
      using s1(1,2) wf by (simp add: s2_def)
    moreover have "name_map s2 = (name_map ?s)(x \<mapsto> ?k)"
      using s1(3) wf by (simp add: s2_def)
    ultimately show ?thesis
      using filler by (auto simp: adds_def)
  qed
  ultimately show ?thesis
    using room_adds[OF pre(4) adds ap] by blast
qed

subsection \<open>The kernel's own regions\<close>

definition kernel_ranges :: "kernel_os \<Rightarrow> (string \<times> u64 \<times> u64) list" where
  "kernel_ranges os =
     [(''kernel.stubs'', l_stub_base (for_os os), l_stub_size (for_os os)), (''kernel.retpad'', retpad (for_os os), 0x1000),
      (''kernel.data'', l_data_base (for_os os), l_data_size (for_os os)), (''kernel.stack'', l_stack_base (for_os os), l_stack_size (for_os os))]"

lemma kernel_ranges_apart: "sorted_wrt apart (kernel_ranges os)"
  by (cases os) (simp_all add: kernel_ranges_def apart_def retpad_def)

lemma kernel_ranges_outside:
  assumes "os = Linux \<Longrightarrow> r = Slab" "(x, a, n) \<in> set (kernel_ranges os)"
  shows "outside r (k_heap (kernel_env_new os)) a (unat n)" "CHR ''#'' \<notin> set x"
  using assms
  by (cases os; cases r; auto simp: kernel_ranges_def outside_def retpad_def region_cursor_def region_end_def kernel_env_new_def
      kernel_heap_new_def Let_def)+

lemma stack_pointer_Ret:
  assumes "thread_ok e"
  shows "\<exists>ts. kernel_stack_pointer v e = Ret (e\<lparr>threads := ts\<rparr>) \<and> length ts = length (threads e)"
proof -
  let ?t = "threads e ! current_thread_id e"
  have "current_thread e = Ret ?t"
    using assms by (simp add: current_thread_def vec_index_def thread_ok_def)
  then show ?thesis
    by (cases "arch ?t") (auto simp: kernel_stack_pointer_def put_thread_def)
qed

lemma kernel_init_eq:
  assumes wf: "maps_wf (emu_maps e)" and vk: "vacant_key vk" and room: "room (kernel_ranges os) (emu_maps e)" and t: "thread_ok e"
  shows "\<exists>s ts. kernel_init vk os e
      = Ret (e\<lparr>emu_maps := s, threads := ts, kernel := Some (kernel_env_new os), kernel_guard := True, emu_os := os\<rparr>)
    \<and> maps_wf s \<and> adds (kernel_ranges os) (emu_maps e) s \<and> length ts = length (threads e)"
proof -
  let ?L = "for_os os"
  obtain r1 r2 r3 r4 where rs: "kernel_ranges os = [r1, r2, r3, r4]"
    "r1 = (''kernel.stubs'', l_stub_base ?L, l_stub_size ?L)" "r2 = (''kernel.retpad'', retpad ?L, 0x1000)"
    "r3 = (''kernel.data'', l_data_base ?L, l_data_size ?L)" "r4 = (''kernel.stack'', l_stack_base ?L, l_stack_size ?L)"
    by (simp add: kernel_ranges_def)
  have ap: "\<forall>r\<in>set [r2, r3, r4]. apart r1 r" "\<forall>r\<in>set [r3, r4]. apart r2 r" "\<forall>r\<in>set [r4]. apart r3 r"
    using kernel_ranges_apart[of os] by (simp_all add: rs(1))
  obtain s1 where s1: "kernel_map vk ''kernel.stubs'' (l_stub_base ?L) (l_stub_size ?L) PERM_READ_EXECUTE (replicate (unat (l_stub_size ?L)) 0xc3) e
      = Ret (True, e\<lparr>emu_maps := s1\<rparr>)" "maps_wf s1" "room [r2, r3, r4] s1" "adds [r1] (emu_maps e) s1"
    using kernel_map_step[OF wf vk room[unfolded rs(1), unfolded rs(2)] ap(1)[unfolded rs(2)], of "replicate (unat (l_stub_size ?L)) 0xc3" PERM_READ_EXECUTE]
    by (auto simp: rs(2))
  obtain s2 where s2: "kernel_map vk ''kernel.retpad'' (retpad ?L) 0x1000 PERM_READ_EXECUTE (replicate 0x1000 0xf4) (e\<lparr>emu_maps := s1\<rparr>)
      = Ret (True, e\<lparr>emu_maps := s2\<rparr>)" "maps_wf s2" "room [r3, r4] s2" "adds [r2] s1 s2"
    using kernel_map_step[OF _ vk _ ap(2)[unfolded rs(3)], of "e\<lparr>emu_maps := s1\<rparr>" "replicate 0x1000 0xf4" PERM_READ_EXECUTE] s1(2,3)
    by (auto simp: rs(3))
  obtain s3 where s3: "kernel_map vk ''kernel.data'' (l_data_base ?L) (l_data_size ?L) PERM_READ_WRITE [] (e\<lparr>emu_maps := s2\<rparr>)
      = Ret (True, e\<lparr>emu_maps := s3\<rparr>)" "maps_wf s3" "room [r4] s3" "adds [r3] s2 s3"
    using kernel_map_step[OF _ vk _ ap(3)[unfolded rs(4)], of "e\<lparr>emu_maps := s2\<rparr>" "[]" PERM_READ_WRITE] s2(2,3)
    by (auto simp: rs(4))
  obtain s4 where s4: "kernel_map vk ''kernel.stack'' (l_stack_base ?L) (l_stack_size ?L) PERM_READ_WRITE [] (e\<lparr>emu_maps := s3\<rparr>)
      = Ret (True, e\<lparr>emu_maps := s4\<rparr>)" "maps_wf s4" "adds [r4] s3 s4"
    using kernel_map_step[OF _ vk, of "e\<lparr>emu_maps := s3\<rparr>" "''kernel.stack''" "l_stack_base ?L" "l_stack_size ?L" "[]" "[]" PERM_READ_WRITE] s3(2,3)
    by (auto simp: rs(5))
  obtain ts where ts: "kernel_stack_pointer (l_stack_base ?L + l_stack_size ?L div 2) (e\<lparr>emu_maps := s4\<rparr>) = Ret (e\<lparr>emu_maps := s4, threads := ts\<rparr>)"
    "length ts = length (threads e)"
    using stack_pointer_Ret[of "e\<lparr>emu_maps := s4\<rparr>" "l_stack_base ?L + l_stack_size ?L div 2"] t by (auto simp: thread_ok_def)
  have "adds (kernel_ranges os) (emu_maps e) s4"
    using adds_trans[OF adds_trans[OF adds_trans[OF s1(4) s2(4)] s3(4)] s4(3)] by (simp add: rs(1))
  moreover have "kernel_init vk os e
      = Ret (e\<lparr>emu_maps := s4, threads := ts, kernel := Some (kernel_env_new os), kernel_guard := True, emu_os := os\<rparr>)"
    unfolding kernel_init_def Let_def by (simp add: s1(1) s2(1) s3(1) s4(1) ts(1))
  ultimately show ?thesis
    using s4(2) ts(2) by blast
qed

subsection \<open>The start of a run\<close>

text \<open>No region in the way of the areas \<open>A\<close>, and no region with the name of a chunk.\<close>

definition quiet :: "region set \<Rightarrow> kernel_os \<Rightarrow> emu \<Rightarrow> bool" where
  "quiet A os e \<longleftrightarrow>
     maps_wf (emu_maps e) \<and> thread_ok e \<and> names_free (emu_maps e) (k_heap (kernel_env_new os))
     \<and> (\<forall>r\<in>A. area_free r (emu_maps e) (k_heap (kernel_env_new os)))"

text \<open>
  The guard is on: for a program, by \<open>memory_guard_init\<close>, or for a driver, by \<open>kernel_init\<close>, which needs room for
  its own regions.
\<close>

inductive started :: "(slab \<Rightarrow> nat) \<Rightarrow> region set \<Rightarrow> kernel_os \<Rightarrow> emu \<Rightarrow> bool" for vk A where
  program: "kernel e = None \<Longrightarrow> quiet A (emu_os e) e \<Longrightarrow> started vk A (emu_os e) (memory_guard_init e)"
| driver: "quiet A os e \<Longrightarrow> room (kernel_ranges os) (emu_maps e) \<Longrightarrow> (os = Linux \<Longrightarrow> A \<subseteq> {Slab}) \<Longrightarrow>
    kernel_init vk os e = Ret e' \<Longrightarrow> started vk A os e'"

lemma started_fresh:
  assumes "started vk A os e" "vacant_key vk"
  obtains k where "kernel e = Some k" "k_heap k = k_heap (kernel_env_new os)" "quiet A os e"
  using assms
proof cases
  case (program e0)
  then show ?thesis
    using that[of "(kernel_env_new os)\<lparr>ledger_only := True\<rparr>"] by (simp add: memory_guard_init_def quiet_def thread_ok_def)
next
  case (driver e0)
  let ?h = "k_heap (kernel_env_new os)"
  have q: "maps_wf (emu_maps e0)" "thread_ok e0" "names_free (emu_maps e0) ?h" "\<And>r. r \<in> A \<Longrightarrow> area_free r (emu_maps e0) ?h"
    using driver(1) by (auto simp: quiet_def)
  obtain s ts where s: "e = e0\<lparr>emu_maps := s, threads := ts, kernel := Some (kernel_env_new os), kernel_guard := True, emu_os := os\<rparr>"
    "maps_wf s" "adds (kernel_ranges os) (emu_maps e0) s" "length ts = length (threads e0)"
    using kernel_init_eq[OF q(1) assms(2) driver(2) q(2)] driver(4) by auto
  have lin: "os = Linux \<Longrightarrow> r = Slab" if "r \<in> A" for r
    using driver(3) that by blast
  have "area_free r s ?h" if r: "r \<in> A" for r
    unfolding area_free_def
  proof (intro allI impI)
    fix key m
    assume "om_get (mem_slab s) key = Some m"
    then have "om_get (mem_slab (emu_maps e0)) key = Some m
        \<or> (\<exists>(x, a, n)\<in>set (kernel_ranges os). base_addr m = a \<and> length (mem m) = unat n)"
      using s(3) unfolding adds_def by blast
    then show "outside r ?h (base_addr m) (length (mem m))"
      using q(4)[OF r] kernel_ranges_outside(1)[OF lin[OF r]] unfolding area_free_def by fastforce
  qed
  moreover have "names_free s ?h"
    unfolding names_free_def
  proof (intro allI impI)
    fix cache n
    assume "unat (serial ?h) < n"
    then have "cache @ ''#'' @ fmt_radix 10 n \<notin> dom (name_map (emu_maps e0))"
      using q(3) by (auto simp: names_free_def)
    moreover have "cache @ ''#'' @ fmt_radix 10 n \<notin> fst ` set (kernel_ranges os)"
      using kernel_ranges_outside(2)[of os Slab] by fastforce
    ultimately show "name_map s (cache @ ''#'' @ fmt_radix 10 n) = None"
      using s(3) unfolding adds_def by blast
  qed
  ultimately have "quiet A os e"
    using s(2,4) q(2) by (simp add: quiet_def s(1) thread_ok_def)
  then show ?thesis
    using that[of "kernel_env_new os"] by (simp add: s(1))
qed

end
