(* ===== verification/Kernel_Guard.thy ===== *)
theory Kernel_Guard
  imports Kernel_Start
begin

section \<open>Correctness of the memory guard\<close>

text \<open>
  The invariant of an emulator whose guard is on and which allocates chunks from the areas \<open>A\<close>: the ledger is
  well-formed, every chunk has a region of its own in the address space, and the rest of the areas is
  free. Allocation and release keep it. Under it, and while the ledger is in address order, the guard reports exactly
  the accesses to freed memory and past the end of a request, at the granularity of the first byte of the access.
\<close>

subsection \<open>A new region with its contents\<close>

lemma create_filled:
  assumes wf: "maps_wf s" and vk: "vacant_key vk" and nw: "unat base + unat sz < 2 ^ 64"
    and free: "free_range s base (unat sz)" and name: "name_map s name = None" and len: "length bs = unat sz"
  obtains s1 m where "create_map vk name base sz PERM_READ_WRITE s = (Inr (vk (mem_slab s)), s1)"
    "om_get (mem_slab s1) (vk (mem_slab s)) = Some m" "mem_write_bytes base bs m = Ret (m\<lparr>mem := bs\<rparr>)"
    "maps_wf (put_mem (vk (mem_slab s)) (m\<lparr>mem := bs\<rparr>) s1)"
    "\<forall>x. flat (put_mem (vk (mem_slab s)) (m\<lparr>mem := bs\<rparr>) s1) x =
       (if in_range base (unat sz) x then Some (PERM_READ_WRITE, bs ! (unat x - unat base)) else flat s x)"
    "\<forall>k. om_get (mem_slab (put_mem (vk (mem_slab s)) (m\<lparr>mem := bs\<rparr>) s1)) k =
       (if k = vk (mem_slab s) then Some (m\<lparr>mem := bs\<rparr>) else om_get (mem_slab s) k)"
    "name_map (put_mem (vk (mem_slab s)) (m\<lparr>mem := bs\<rparr>) s1) = (name_map s)(name \<mapsto> vk (mem_slab s))"
    "base_addr m = base" "permission m = PERM_READ_WRITE" "om_get (mem_slab s) (vk (mem_slab s)) = None"
proof -
  let ?k = "vk (mem_slab s)" and ?m = "fresh_region name base sz PERM_READ_WRITE"
  let ?s0 = "add_region ?k ?m s"
  have k: "om_get (mem_slab s) ?k = None"
    using vk by (simp add: vacant_key_def)
  obtain t where c: "create_map vk name base sz PERM_READ_WRITE s = (Inr ?k, ?s0\<lparr>tlb := t, code_writes :=
       if perm_can_execute PERM_READ_WRITE then log_write (code_writes s) base sz else code_writes s\<rparr>)"
    and wf0: "maps_wf ?s0" and fl: "flat ?s0 = flat_map base (unat sz) PERM_READ_WRITE (flat s)"
    by (rule create_map_free[OF wf vk nw free name])
  define s1 where "s1 = ?s0\<lparr>tlb := t, code_writes :=
       if perm_can_execute PERM_READ_WRITE then log_write (code_writes s) base sz else code_writes s\<rparr>"
  have wf1: "maps_wf s1" "flat s1 = flat ?s0" "om_get (mem_slab s1) = om_get (mem_slab ?s0)" "name_map s1 = name_map ?s0"
    using wf0 by (simp_all add: s1_def)
  have g: "om_get (mem_slab s1) ?k = Some ?m"
    using wf by (simp add: wf1(3))
  have m: "mem_wf ?m" "length bs = length (mem ?m)"
    using nw len by (simp_all add: fresh_region_wf)
  have byte: "byte_of (?m\<lparr>mem := bs\<rparr>) x = bs ! (unat x - unat base)" if "in_range base (unat sz) x" for x
    using inside_index[OF m(1)] fresh_region_inside[OF nw] that by (simp add: byte_of_def)
  show ?thesis
  proof (rule that[of s1 ?m])
    show "create_map vk name base sz PERM_READ_WRITE s = (Inr ?k, s1)"
      using c by (simp add: s1_def)
    show "mem_write_bytes base bs ?m = Ret (?m\<lparr>mem := bs\<rparr>)"
      using fill_region[OF m] by (simp add: mem_write_bytes_def can_write_def read_write_allowed)
    show "maps_wf (put_mem ?k (?m\<lparr>mem := bs\<rparr>) s1)"
      by (rule put_mem_wf[OF wf1(1) g m(2)])
    show "\<forall>x. flat (put_mem ?k (?m\<lparr>mem := bs\<rparr>) s1) x =
       (if in_range base (unat sz) x then Some (PERM_READ_WRITE, bs ! (unat x - unat base)) else flat s x)"
      using flat_put_mem[OF wf1(1) g m(2)] byte fresh_region_inside[OF nw, of name PERM_READ_WRITE] wf1(2) fl
      by (simp add: flat_map_def)
    show "\<forall>k. om_get (mem_slab (put_mem ?k (?m\<lparr>mem := bs\<rparr>) s1)) k = (if k = ?k then Some (?m\<lparr>mem := bs\<rparr>) else om_get (mem_slab s) k)"
      using wf1(1,3) wf by simp
    show "name_map (put_mem ?k (?m\<lparr>mem := bs\<rparr>) s1) = (name_map s)(name \<mapsto> ?k)"
      using wf1(4) wf by simp
  qed (use g k in simp_all)
qed

subsection \<open>Names of chunks\<close>

lemma digit_char_no_hash:
  assumes "d < 10"
  shows "digit_char d \<noteq> CHR ''#''"
proof
  assume "digit_char d = CHR ''#''"
  then have "(of_char (digit_char d) :: nat) = 35"
    by simp
  then show False
    using assms by (simp add: digit_char_def)
qed

lemma digits_no_hash: "CHR ''#'' \<notin> set (fmt_radix 10 n)"
proof (induction n rule: less_induct)
  case (less n)
  show ?case
  proof (cases "n < 10")
    case True
    then show ?thesis
      using digit_char_no_hash[of n] by (subst fmt_radix.simps) auto
  next
    case False
    then have "CHR ''#'' \<notin> set (fmt_radix 10 (n div 10))"
      by (intro less) simp
    then show ?thesis
      using False digit_char_no_hash[of "n mod 10"] by (subst fmt_radix.simps) auto
  qed
qed

lemma chunk_name_inject:
  assumes "c @ ''#'' @ fmt_radix 10 n = c' @ ''#'' @ fmt_radix 10 n'"
  shows "n = n'"
proof -
  have "takeWhile (\<lambda>x. x \<noteq> CHR ''#'') (rev (c @ ''#'' @ fmt_radix 10 n)) = rev (fmt_radix 10 n)" for c n
    using digits_no_hash[of n] by (simp add: takeWhile_append2 takeWhile_append)
  then have "rev (fmt_radix 10 n) = rev (fmt_radix 10 n')"
    using assms by metis
  then show ?thesis
    by (simp add: fmt_radix_inject)
qed

subsection \<open>The invariant\<close>

definition chunk_mapped :: "maps \<Rightarrow> kernel_chunk \<Rightarrow> bool" where
  "chunk_mapped s c \<longleftrightarrow>
     (\<exists>key m. om_get (mem_slab s) key = Some m \<and> base_addr m = c_addr c \<and> length (mem m) = unat (c_size c)
        \<and> permission m = PERM_READ_WRITE)"

definition serial_ok :: "kernel_heap \<Rightarrow> bool" where
  "serial_ok h \<longleftrightarrow> unat (serial h) = length (chunks h)"

definition alloc_inv :: "region set \<Rightarrow> u64 \<Rightarrow> u64 \<Rightarrow> kernel_env \<Rightarrow> emu \<Rightarrow> bool" where
  "alloc_inv A sb vb k e \<longleftrightarrow>
     0 < sb \<and> kernel e = Some k \<and> ledger_ok sb vb (k_heap k) \<and> serial_ok (k_heap k) \<and> maps_wf (emu_maps e) \<and> thread_ok e
     \<and> (\<forall>r\<in>A. area_free r (emu_maps e) (k_heap k)) \<and> names_free (emu_maps e) (k_heap k)"

definition guard_inv :: "region set \<Rightarrow> u64 \<Rightarrow> u64 \<Rightarrow> kernel_env \<Rightarrow> emu \<Rightarrow> bool" where
  "guard_inv A sb vb k e \<longleftrightarrow>
     alloc_inv A sb vb k e \<and> (\<forall>c\<in>set (chunks (k_heap k)). chunk_mapped (emu_maps e) c)"

lemma alloc_invD:
  assumes "alloc_inv A sb vb k e"
  shows "0 < sb" "kernel e = Some k" "ledger_ok sb vb (k_heap k)" "serial_ok (k_heap k)" "maps_wf (emu_maps e)" "thread_ok e"
    "r \<in> A \<Longrightarrow> area_free r (emu_maps e) (k_heap k)" "names_free (emu_maps e) (k_heap k)"
  using assms by (simp_all add: alloc_inv_def)

lemma guard_invD:
  assumes "guard_inv A sb vb k e"
  shows "0 < sb" "kernel e = Some k" "ledger_ok sb vb (k_heap k)" "serial_ok (k_heap k)" "maps_wf (emu_maps e)" "thread_ok e"
    "c \<in> set (chunks (k_heap k)) \<Longrightarrow> chunk_mapped (emu_maps e) c" "r \<in> A \<Longrightarrow> area_free r (emu_maps e) (k_heap k)"
    "names_free (emu_maps e) (k_heap k)"
  using assms by (simp_all add: guard_inv_def alloc_inv_def)

lemma chunk_nonzero:
  assumes "ledger_ok sb vb h" "0 < sb" "c \<in> set (chunks h)"
  shows "c_addr c \<noteq> 0"
proof -
  have "0 < unat (area_base sb vb (c_region c))"
    using assms(1,2) by (cases "c_region c") (auto simp: area_base_def ledger_ok_def word_less_nat_alt word_le_nat_alt)
  then show ?thesis
    using ledger_chunk(1)[OF assms(1,3)] by auto
qed

text \<open>Every chunk takes at least a redzone, so the serial number does not wrap.\<close>

lemma chunk_before_div:
  assumes "chunk_before c d"
  shows "unat (c_addr c) div 0x1000 < unat (c_addr d) div 0x1000"
proof -
  have "unat (c_addr c) + 0x1000 \<le> unat (c_addr d)"
    using assms by (simp add: chunk_before_def)
  then have "(unat (c_addr c) + 0x1000) div 0x1000 \<le> unat (c_addr d) div 0x1000"
    by (rule div_le_mono)
  then show ?thesis
    by simp
qed

lemma ledger_length:
  assumes "ledger_ok sb vb h"
  shows "length (chunks h) \<le> 2 ^ 52"
proof -
  let ?f = "\<lambda>i. unat (c_addr (chunks h ! i)) div 0x1000"
  have "inj_on ?f {..<length (chunks h)}"
  proof (rule inj_onI)
    fix i j
    assume ij: "i \<in> {..<length (chunks h)}" "j \<in> {..<length (chunks h)}" "?f i = ?f j"
    show "i = j"
    proof (rule ccontr)
      assume "i \<noteq> j"
      then have "?f i < ?f j \<or> ?f j < ?f i"
        using ledger_apart[OF assms, of i j] ij(1,2) chunk_before_div by blast
      then show False
        using ij(3) by simp
    qed
  qed
  moreover have "?f i < 2 ^ 52" for i
    using unat_u64_less[of "c_addr (chunks h ! i)"] by (simp add: less_mult_imp_div_less)
  then have "?f ` {..<length (chunks h)} \<subseteq> {..<2 ^ 52}"
    by blast
  ultimately show ?thesis
    by (metis card_inj_on_le card_lessThan finite_lessThan)
qed

lemma serial_no_wrap:
  assumes "ledger_ok sb vb h" "serial_ok h"
  shows "serial h \<noteq> - 1"
proof
  assume "serial h = - 1"
  then have "unat (serial h) = 2 ^ 64 - 1"
    by (simp add: unsigned_minus_1_eq_mask mask_eq_exp_minus_1)
  then show False
    using ledger_length[OF assms(1)] assms(2) by (simp add: serial_ok_def)
qed

lemma emu_pc_Ret:
  assumes "thread_ok e"
  obtains ip where "emu_pc e = Ret ip"
  using assms by (auto simp: emu_pc_def current_thread_def vec_index_def thread_ok_def)

subsection \<open>Allocation\<close>

lemma record_alloc_addr:
  assumes ok: "ledger_ok sb vb h" and nw: "no_wrap r req h"
    and eq: "record_alloc r req cache api pos ip h = (Some c, h')"
  shows "unat (region_cursor r h) \<le> unat (c_addr c)"
  using eq record_alloc_eq(1)[OF ok nw] by (auto simp: record_alloc_def Let_def split: if_splits)

lemma area_alloc:
  assumes ok: "ledger_ok sb vb h" and nw: "no_wrap r req h"
    and eq: "record_alloc r req cache api pos ip h = (Some c, h')"
  shows "unat (region_cursor r h) \<le> unat (c_addr c)" "unat (c_addr c) + unat (c_size c) + 0x1000 \<le> unat (region_cursor r h')"
    "unat (region_cursor r h') \<le> unat (region_end r h)" "0 < unat (c_size c)"
    "unat (region_cursor r' h) \<le> unat (region_cursor r' h')" "\<not> same_area r r' \<Longrightarrow> region_cursor r' h' = region_cursor r' h"
proof -
  note a = record_alloc_ok[OF assms]
  have c: "c \<in> set (chunks h')"
    by (simp add: a(2))
  show cur: "unat (region_cursor r h) \<le> unat (c_addr c)"
    using record_alloc_addr[OF assms] .
  show next_cur: "unat (c_addr c) + unat (c_size c) + 0x1000 \<le> unat (region_cursor r h')" "0 < unat (c_size c)"
    using ledger_chunk[OF a(1) c] by (simp_all add: a(5))
  show "unat (region_cursor r h') \<le> unat (region_end r h)"
    using ledger_cursor(2)[OF a(1), of r] a(10)[of r] by simp
  show other: "region_cursor r' h' = region_cursor r' h" if "\<not> same_area r r'" for r'
    using eq that by (auto simp: record_alloc_def Let_def same_area_def split: if_splits)
  have same: "region_cursor r' x = region_cursor r x" if "same_area r r'" for x
    using that by (cases r; cases r'; simp add: same_area_def region_cursor_def)
  show "unat (region_cursor r' h) \<le> unat (region_cursor r' h')"
    using other[of r'] same cur next_cur(1) by (cases "same_area r r'") simp_all
qed

text \<open>A new chunk takes nothing from what is left of the areas.\<close>

lemma area_alloc_outside:
  assumes ok: "ledger_ok sb vb h" and nw: "no_wrap r req h"
    and eq: "record_alloc r req cache api pos ip h = (Some c, h')"
  shows "outside r' h' (c_addr c) (unat (c_size c))" "outside r' h a n \<Longrightarrow> outside r' h' a n"
proof -
  note a = area_alloc[OF assms] and b = record_alloc_ok[OF assms]
  show "outside r' h a n \<Longrightarrow> outside r' h' a n"
    using a(5)[of r'] b(10)[of r'] by (auto simp: outside_def)
  show "outside r' h' (c_addr c) (unat (c_size c))"
  proof (cases "same_area r r'")
    case True
    then have "region_cursor r' h' = region_cursor r h'"
      by (cases r; cases r'; simp add: same_area_def region_cursor_def)
    then show ?thesis
      using a(2) by (simp add: outside_def)
  next
    case False
    have e: "unat (region_end Slab h') \<le> unat vb" "unat vb \<le> unat (region_cursor Vmalloc h')"
      using b(1) by (auto simp: ledger_ok_alt word_le_nat_alt)
    have "r = Slab \<and> region_cursor r' h' = region_cursor Vmalloc h' \<or> r' = Slab \<and> area_base sb vb r = vb"
      using False by (cases r; cases r'; simp add: same_area_def region_cursor_def area_base_def)
    moreover have "unat (c_addr c) + unat (c_size c) + 0x1000 \<le> unat (region_end r h')"
      using a(2,3) b(10)[of r] by simp
    moreover have "unat (area_base sb vb r) \<le> unat (c_addr c)"
      using ledger_chunk(1)[OF b(1), of c] b(2,5) by simp
    ultimately show ?thesis
      using e unfolding outside_def by auto
  qed
qed

lemma area_free_range:
  assumes "area_free r s h" "unat (region_cursor r h) \<le> unat a" "unat a + n \<le> unat (region_end r h)" "0 < n"
  shows "free_range s a n"
  using assms unfolding area_free_def outside_def free_range_def by fastforce

lemma names_free_step:
  assumes "names_free s h" "serial h \<noteq> - 1" "serial h' = serial h + 1"
    "name_map s' = (name_map s)(cache @ ''#'' @ fmt_radix 10 (unat (serial h + 1)) \<mapsto> key)"
  shows "names_free s' h'"
proof -
  have "1 + serial h \<noteq> 0"
    using assms(2) by (simp add: eq_neg_iff_add_eq_0 add.commute)
  then have u: "unat (serial h') = unat (serial h) + 1"
    using assms(3) by (simp add: unatSuc add.commute)
  show ?thesis
    unfolding names_free_def
  proof (intro allI impI)
    fix c n
    assume n: "unat (serial h') < n"
    then have "c @ ''#'' @ fmt_radix 10 n \<noteq> cache @ ''#'' @ fmt_radix 10 (unat (serial h + 1))"
      using chunk_name_inject[of c n cache "unat (serial h + 1)"] assms(3) by auto
    moreover have "name_map s (c @ ''#'' @ fmt_radix 10 n) = None"
      using assms(1) n u by (simp add: names_free_def)
    ultimately show "name_map s' (c @ ''#'' @ fmt_radix 10 n) = None"
      by (simp only: assms(4) fun_upd_apply if_False)
  qed
qed

text \<open>What an allocation of a chunk \<open>c\<close> adds.\<close>

definition chunk_added :: "u64 \<Rightarrow> bool \<Rightarrow> kernel_chunk \<Rightarrow> emu \<Rightarrow> emu \<Rightarrow> bool" where
  "chunk_added req zeroed c e e1 \<longleftrightarrow>
     c_req_size c = req \<and> req \<le> c_size c \<and> \<not> is_freed c \<and> c_addr c \<noteq> 0
     \<and> (\<forall>x. flat (emu_maps e1) x =
           (if in_range (c_addr c) (unat (c_size c)) x then Some (PERM_READ_WRITE, if zeroed then 0 else 0x5a)
            else flat (emu_maps e) x))
     \<and> (\<forall>x. in_range (c_addr c) (unat (c_size c)) x \<longrightarrow> flat (emu_maps e) x = None)"

lemma kernel_alloc_new:
  assumes inv: "alloc_inv A sb vb k e" and vk: "vacant_key vk" and r: "r \<in> A" and nw: "no_wrap r req (k_heap k)"
    and inj: "fail_alloc_index k \<noteq> Some (alloc_count k)" and pc: "emu_pc e = Ret ip"
    and rec: "record_alloc r req cache api (emu_pos e) ip (k_heap k) = (Some c, h')"
  shows "\<exists>e1 k1. kernel_alloc vk r req cache api zeroed e = Ret (c_addr c, e1) \<and> alloc_inv A sb vb k1 e1
    \<and> (guard_inv A sb vb k e \<longrightarrow> guard_inv A sb vb k1 e1) \<and> chunks (k_heap k1) = chunks (k_heap k) @ [c] \<and> chunk_added req zeroed c e e1
    \<and> findings k1 = findings k \<and> (\<forall>r'. region_end r' (k_heap k1) = region_end r' (k_heap k))"
proof -
  note i = alloc_invD[OF inv]
  have sn: "serial (k_heap k) \<noteq> - 1"
    by (rule serial_no_wrap[OF i(3,4)])
  note a = record_alloc_ok[OF i(3) nw rec] and b = area_alloc[OF i(3) nw rec] and out = area_alloc_outside[OF i(3) nw rec]
  let ?s = "emu_maps e"
  define bs where "bs = (replicate (unat (c_size c)) (if zeroed then 0 else 0x5a) :: u8 list)"
  have bs: "length bs = unat (c_size c)"
    by (simp add: bs_def)
  have fit: "unat (c_addr c) + unat (c_size c) \<le> unat (region_end r (k_heap k))" "unat (c_addr c) + unat (c_size c) < 2 ^ 64"
    using b(2,3) unat_u64_less[of "region_end r (k_heap k)"] by simp_all
  have free: "free_range ?s (c_addr c) (unat (c_size c))"
    by (rule area_free_range[OF i(7)[OF r] b(1) fit(1) b(4)])
  have "1 + serial (k_heap k) \<noteq> 0"
    using sn by (simp add: eq_neg_iff_add_eq_0 add.commute)
  then have sn1: "unat (serial (k_heap k) + 1) = unat (serial (k_heap k)) + 1"
    by (simp add: unatSuc add.commute)
  then have name: "name_map ?s (c_map_name c) = None"
    using i(8) unfolding a(8) names_free_def by simp
  obtain s1 m where m: "create_map vk (c_map_name c) (c_addr c) (c_size c) PERM_READ_WRITE ?s = (Inr (vk (mem_slab ?s)), s1)"
    "om_get (mem_slab s1) (vk (mem_slab ?s)) = Some m" "mem_write_bytes (c_addr c) bs m = Ret (m\<lparr>mem := bs\<rparr>)"
    "maps_wf (put_mem (vk (mem_slab ?s)) (m\<lparr>mem := bs\<rparr>) s1)"
    "\<forall>x. flat (put_mem (vk (mem_slab ?s)) (m\<lparr>mem := bs\<rparr>) s1) x =
       (if in_range (c_addr c) (unat (c_size c)) x then Some (PERM_READ_WRITE, bs ! (unat x - unat (c_addr c))) else flat ?s x)"
    "\<forall>k. om_get (mem_slab (put_mem (vk (mem_slab ?s)) (m\<lparr>mem := bs\<rparr>) s1)) k =
       (if k = vk (mem_slab ?s) then Some (m\<lparr>mem := bs\<rparr>) else om_get (mem_slab ?s) k)"
    "name_map (put_mem (vk (mem_slab ?s)) (m\<lparr>mem := bs\<rparr>) s1) = (name_map ?s)(c_map_name c \<mapsto> vk (mem_slab ?s))"
    "base_addr m = c_addr c" "permission m = PERM_READ_WRITE" "om_get (mem_slab ?s) (vk (mem_slab ?s)) = None"
    by (rule create_filled[OF i(5) vk fit(2) free name bs])
  define s2 where "s2 = put_mem (vk (mem_slab ?s)) (m\<lparr>mem := bs\<rparr>) s1"
  define k1 where "k1 = k\<lparr>alloc_count := alloc_count k + 1, k_heap := h'\<rparr>"
  define e1 where "e1 = e\<lparr>kernel := Some k1, emu_maps := s2\<rparr>"
  note s2 = m(4-7)[folded s2_def]
  have run: "kernel_alloc vk r req cache api zeroed e = Ret (c_addr c, e1)"
    using i(2) inj rec m(1-3) by (simp add: kernel_alloc_def pc Let_def e1_def k1_def s2_def bs_def)
  have tok: "thread_ok e1"
    using i(6) by (simp add: e1_def thread_ok_def)
  have cm: "chunk_mapped s2 d" if d: "d \<in> set (chunks h')" "guard_inv A sb vb k e" for d
  proof (cases "d = c")
    case True
    then show ?thesis
      unfolding chunk_mapped_def by (intro exI[of _ "vk (mem_slab ?s)"] exI[of _ "m\<lparr>mem := bs\<rparr>"]) (simp add: s2(3) m(8,9) bs)
  next
    case False
    then have "d \<in> set (chunks (k_heap k))"
      using d(1) by (simp add: a(2))
    then obtain key n where "om_get (mem_slab ?s) key = Some n" "base_addr n = c_addr d" "length (mem n) = unat (c_size d)"
      "permission n = PERM_READ_WRITE"
      using d(2) unfolding guard_inv_def chunk_mapped_def by blast
    moreover from this have "key \<noteq> vk (mem_slab ?s)"
      using m(10) by auto
    ultimately show ?thesis
      unfolding chunk_mapped_def by (intro exI[of _ key] exI[of _ n]) (simp add: s2(3))
  qed
  have "area_free r' s2 h'" if r': "r' \<in> A" for r'
    unfolding area_free_def
  proof (intro allI impI)
    fix key n
    assume n: "om_get (mem_slab s2) key = Some n"
    show "outside r' h' (base_addr n) (length (mem n))"
    proof (cases "key = vk (mem_slab ?s)")
      case True
      then have "base_addr n = c_addr c" "length (mem n) = unat (c_size c)"
        using n s2(3)[rule_format, of key] m(8) bs by auto
      then show ?thesis
        using out(1) by simp
    next
      case False
      then have "om_get (mem_slab ?s) key = Some n"
        using n s2(3)[rule_format, of key] by simp
      then show ?thesis
        using i(7)[OF r'] out(2) unfolding area_free_def by blast
    qed
  qed
  moreover have "names_free s2 h'"
    using names_free_step[OF i(8) sn a(9)] s2(4) by (simp add: a(8))
  moreover have "serial_ok h'"
    using i(4) sn1 by (simp add: serial_ok_def a(2,9))
  ultimately have ai: "alloc_inv A sb vb k1 e1"
    using i(1) a(1) s2(1) tok by (simp add: alloc_inv_def e1_def k1_def)
  moreover have "guard_inv A sb vb k1 e1" if "guard_inv A sb vb k e"
    using that ai cm by (simp add: guard_inv_def a(2) e1_def k1_def)
  moreover have "flat ?s x = None" if "in_range (c_addr c) (unat (c_size c)) x" for x
  proof -
    have "\<not> inside n x" if "om_get (mem_slab ?s) key = Some n" for key n
      using free_rangeD[OF free that] wf_region[OF i(5) that] \<open>in_range _ _ x\<close>
      by (cases "base_addr n < c_addr c") (auto simp: inside_iff in_range_def word_less_nat_alt word_unat_eq_iff)
    then show ?thesis
      by (simp add: flat_None_iff[OF i(5)] search_maps_None_iff[OF i(5)])
  qed
  moreover have "c_addr c \<noteq> 0"
    using chunk_nonzero[OF a(1) i(1)] by (simp add: a(2))
  ultimately show ?thesis
    using run a(2,4,6,7) a(10) s2(2)
    by (intro exI[of _ e1] exI[of _ k1]) (auto simp: chunk_added_def e1_def k1_def in_range_def bs_def)
qed

subsection \<open>Release\<close>

lemma ledger_ok_update:
  assumes ok: "ledger_ok sb vb h" and i: "i < length (chunks h)"
    and c: "c_addr c = c_addr (chunks h ! i)" "c_size c = c_size (chunks h ! i)" "c_req_size c = c_req_size (chunks h ! i)"
      "c_region c = c_region (chunks h ! i)"
  shows "ledger_ok sb vb (h\<lparr>chunks := (chunks h)[i := c]\<rparr>)"
proof -
  let ?h = "h\<lparr>chunks := (chunks h)[i := c]\<rparr>"
  have same: "c_addr (chunks ?h ! j) = c_addr (chunks h ! j)" "c_size (chunks ?h ! j) = c_size (chunks h ! j)"
    "c_req_size (chunks ?h ! j) = c_req_size (chunks h ! j)" "c_region (chunks ?h ! j) = c_region (chunks h ! j)" for j
    using c i by (cases "j = i"; simp)+
  have "chunk_ok sb vb ?h (chunks ?h ! j)" if "j < length (chunks h)" for j
  proof -
    have "chunk_ok sb vb h (chunks h ! j)"
      using ok that by (simp add: ledger_ok_def)
    then show ?thesis
      unfolding chunk_ok_def same by simp
  qed
  then have "\<forall>d\<in>set (chunks ?h). chunk_ok sb vb ?h d"
    by (auto simp: in_set_conv_nth)
  moreover have "sorted_wrt (\<lambda>c d. same_area (c_region c) (c_region d) \<longrightarrow> chunk_before c d) (chunks ?h)"
    using ok unfolding ledger_ok_def sorted_wrt_iff_nth_less chunk_before_def same by simp
  ultimately show ?thesis
    using ok by (simp add: ledger_ok_def)
qed

definition freed_by :: "string \<Rightarrow> u64 \<Rightarrow> u64 \<Rightarrow> kernel_chunk \<Rightarrow> kernel_chunk" where
  "freed_by api pos ip c = c\<lparr>c_state := Freed, c_free_api := api, c_free_pos := pos, c_free_rip := ip\<rparr>"

lemma freed_by_sel [simp]:
  "c_addr (freed_by api pos ip c) = c_addr c" "c_size (freed_by api pos ip c) = c_size c"
  "c_req_size (freed_by api pos ip c) = c_req_size c" "c_region (freed_by api pos ip c) = c_region c"
  "is_freed (freed_by api pos ip c)"
  by (simp_all add: freed_by_def is_freed_def)

lemma chunk_mapped_in_range:
  assumes wf: "maps_wf s" and m: "om_get (mem_slab s) key = Some m" "base_addr m = a" "length (mem m) = n"
  shows "inside m x = in_range a n x"
  using inside_iff[OF wf_region[OF wf m(1)]] m by (simp add: in_range_def)

lemma kernel_free_live:
  assumes inv: "guard_inv A sb vb k e" and i: "i < length (chunks (k_heap k))" and c: "chunks (k_heap k) ! i = c" "\<not> is_freed c"
    and pc: "emu_pc e = Ret ip"
  shows "\<exists>e1 k1. kernel_free (c_addr c) api e = Ret (True, e1) \<and> guard_inv A sb vb k1 e1
    \<and> chunks (k_heap k1) = (chunks (k_heap k))[i := freed_by api (emu_pos e) ip c] \<and> findings k1 = findings k
    \<and> (\<forall>r. region_end r (k_heap k1) = region_end r (k_heap k))
    \<and> (\<forall>x. flat (emu_maps e1) x =
          (if in_range (c_addr c) (unat (c_size c)) x then Some (PERM_READ_WRITE, 0x6b) else flat (emu_maps e) x))"
proof -
  note v = guard_invD[OF inv]
  let ?s = "emu_maps e" and ?h = "k_heap k"
  have mem: "c \<in> set (chunks ?h)"
    using i c(1) by auto
  have nz: "c_addr c \<noteq> 0"
    by (rule chunk_nonzero[OF v(3,1) mem])
  obtain key m where m: "om_get (mem_slab ?s) key = Some m" "base_addr m = c_addr c" "length (mem m) = unat (c_size c)"
    "permission m = PERM_READ_WRITE"
    using v(7)[OF mem] by (auto simp: chunk_mapped_def)
  note ins = chunk_mapped_in_range[OF v(5) m(1-3)]
  define bs where "bs = (replicate (unat (c_size c)) 0x6b :: u8 list)"
  have bs: "length bs = length (mem m)"
    by (simp add: bs_def m(3))
  obtain t where t: "get_mem_by_addr_mut (c_addr c) ?s = (search_maps (c_addr c) ?s, ?s\<lparr>tlb := t\<rparr>)"
    using get_mem_by_addr_mut_wf[OF v(5)] .
  have "inside m (c_addr c)"
    using ledger_chunk(3)[OF v(3) mem] by (simp add: ins in_range_def)
  then have found: "search_maps (c_addr c) ?s = Some key"
    using search_maps_iff[OF v(5)] m(1) by blast
  have fw: "force_write_bytes (c_addr c) bs m = Ret (m\<lparr>mem := bs\<rparr>)"
    using fill_region[OF wf_region[OF v(5) m(1)] bs] by (simp add: m(2))
  define h1 where "h1 = ?h\<lparr>chunks := (chunks ?h)[i := freed_by api (emu_pos e) ip c]\<rparr>"
  define k1 where "k1 = k\<lparr>k_heap := h1\<rparr>"
  define s1 where "s1 = put_mem key (m\<lparr>mem := bs\<rparr>) (?s\<lparr>tlb := t\<rparr>)"
  define e1 where "e1 = e\<lparr>kernel := Some k1, emu_maps := s1\<rparr>"
  have base: "index_of_base (c_addr c) ?h = Some i"
    using index_of_base_iff[OF v(3)] i c(1) by simp
  have run: "kernel_free (c_addr c) api e = Ret (True, e1)"
    using nz v(2) base i c m(1) fw unfolding kernel_free_def
    by (simp add: pc heap_get_def vec_index_def record_free_def t found Let_def bs_def[symmetric] e1_def s1_def k1_def h1_def freed_by_def)
  have wft: "maps_wf (?s\<lparr>tlb := t\<rparr>)" "om_get (mem_slab (?s\<lparr>tlb := t\<rparr>)) key = Some m"
    using v(5) m(1) by simp_all
  have wf1: "maps_wf s1"
    unfolding s1_def by (rule put_mem_wf[OF wft bs])
  have flat1: "flat s1 x = (if in_range (c_addr c) (unat (c_size c)) x then Some (PERM_READ_WRITE, 0x6b) else flat ?s x)" for x
  proof -
    have "byte_of (m\<lparr>mem := bs\<rparr>) x = 0x6b" if "inside m x"
      using inside_index[OF wf_region[OF v(5) m(1)] that] by (simp add: byte_of_def bs_def m(3))
    then show ?thesis
      unfolding s1_def using flat_put_mem[OF wft bs, of x] by (simp add: ins m(4))
  qed
  have get1: "om_get (mem_slab s1) key' = (if key' = key then Some (m\<lparr>mem := bs\<rparr>) else om_get (mem_slab ?s) key')" for key'
    unfolding s1_def using wft(1) by simp
  have "\<exists>n. om_get (mem_slab s1) key' = Some n \<and> base_addr n = base_addr n0 \<and> length (mem n) = length (mem n0)
      \<and> permission n = permission n0" if "om_get (mem_slab ?s) key' = Some n0" for key' n0
    using that get1[of key'] m(1) bs by auto
  then have mapped: "chunk_mapped s1 d" if "chunk_mapped ?s d" for d
    using that unfolding chunk_mapped_def by metis
  have sub: "set (chunks h1) \<subseteq> insert (freed_by api (emu_pos e) ip c) (set (chunks ?h))"
    unfolding h1_def by (simp add: set_update_subset_insert)
  have "chunk_mapped s1 d" if "d \<in> set (chunks h1)" for d
  proof -
    have "d = freed_by api (emu_pos e) ip c \<or> d \<in> set (chunks ?h)"
      using that sub by blast
    then obtain d0 where "d0 \<in> set (chunks ?h)" "c_addr d = c_addr d0" "c_size d = c_size d0"
      using mem by (metis freed_by_sel(1,2))
    then show ?thesis
      using mapped[OF v(7)] by (simp add: chunk_mapped_def)
  qed
  moreover have "area_free r s1 h1" if "r \<in> A" for r
    using v(8)[OF that] get1 m(1) bs unfolding area_free_def h1_def outside_def by (auto split: if_splits)
  moreover have "names_free s1 h1"
    using v(9) by (simp add: names_free_def s1_def h1_def)
  moreover have "ledger_ok sb vb h1"
    unfolding h1_def by (rule ledger_ok_update[OF v(3) i]) (simp_all add: c(1))
  ultimately have "guard_inv A sb vb k1 e1"
    using v(1,6) wf1 inv by (simp add: guard_inv_def alloc_inv_def e1_def k1_def thread_ok_def serial_ok_def h1_def)
  then show ?thesis
    using run flat1 by (intro exI[of _ e1] exI[of _ k1]) (simp add: e1_def k1_def h1_def)
qed

subsection \<open>Reports\<close>

lemma kernel_report_eq:
  assumes "kernel e = Some k"
  obtains fs where "kernel_report kind ip a n org e = e\<lparr>kernel := Some (k\<lparr>findings := fs\<rparr>)\<rparr>"
    "\<exists>f\<in>set fs. fi_kind f = kind \<and> fi_rip f = ip \<and> o_addr (fi_origin f) = o_addr org"
    "length (findings k) \<le> length fs"
proof (cases "position (\<lambda>f. fi_kind f = kind \<and> fi_rip f = ip \<and> o_addr (fi_origin f) = o_addr org) (findings k)")
  case None
  then show ?thesis
    using assms that by (simp add: kernel_report_def)
next
  case (Some i)
  have p: "i < length (findings k)" "fi_kind (findings k ! i) = kind \<and> fi_rip (findings k ! i) = ip
      \<and> o_addr (fi_origin (findings k ! i)) = o_addr org"
    using Some by (simp_all add: position_Some)
  let ?fs = "(findings k)[i := (findings k ! i)\<lparr>fi_hits := fi_hits (findings k ! i) + 1\<rparr>]"
  have "(findings k ! i)\<lparr>fi_hits := fi_hits (findings k ! i) + 1\<rparr> \<in> set ?fs"
    using p(1) by (rule set_update_memI)
  then show ?thesis
    using p(2) by (intro that[of ?fs] bexI) (auto simp: kernel_report_def assms Some Let_def)
qed

lemma kernel_report_found:
  assumes "kernel e = Some k"
  shows "\<exists>f\<in>set (kernel_findings (kernel_report kind ip a n org e)). fi_kind f = kind \<and> fi_rip f = ip \<and> o_addr (fi_origin f) = o_addr org"
proof -
  obtain fs where "kernel_report kind ip a n org e = e\<lparr>kernel := Some (k\<lparr>findings := fs\<rparr>)\<rparr>"
    "\<exists>f\<in>set fs. fi_kind f = kind \<and> fi_rip f = ip \<and> o_addr (fi_origin f) = o_addr org"
    using kernel_report_eq[OF assms] by blast
  then show ?thesis
    by (simp add: kernel_findings_def)
qed

lemma report_inv:
  assumes "guard_inv A sb vb k e"
  shows "\<exists>k1. guard_inv A sb vb k1 (kernel_report kind ip a n org e) \<and> k_heap k1 = k_heap k"
proof -
  obtain fs where "kernel_report kind ip a n org e = e\<lparr>kernel := Some (k\<lparr>findings := fs\<rparr>)\<rparr>"
    using kernel_report_eq[OF guard_invD(2)[OF assms]] by blast
  then show ?thesis
    using assms by (intro exI[of _ "k\<lparr>findings := fs\<rparr>"]) (simp add: guard_inv_def alloc_inv_def thread_ok_def)
qed

subsection \<open>Every operation keeps the invariant\<close>

lemma record_alloc_room:
  assumes ok: "ledger_ok sb vb h" and nw: "no_wrap r req h" and eq: "record_alloc r req cache api pos ip h = (None, h')"
  shows "unat (region_end r h) < unat (region_cursor r h) + unat req + 0x2010"
proof -
  define sz where "sz = chunk_bytes r req"
  define addr where "addr = next_multiple_of (region_cursor r h) 16"
  note a = record_alloc_eq[OF ok nw, folded sz_def addr_def]
  have "unat (region_end r h) < unat (addr + sz + HEAP_REDZONE)"
    using eq by (auto simp: record_alloc_def Let_def addr_def sz_def word_less_nat_alt split: if_splits)
  moreover have "unat sz \<le> unat req + 0x1000"
    using nw unfolding sz_def by (intro chunk_bytes_bounds(2)) (simp add: no_wrap_def)
  moreover have "unat addr < unat (region_cursor r h) + 16"
    using next_multiple_of_unat(2)[of 16 "region_cursor r h"] ledger_cursor(2)[OF ok, of r] nw by (simp add: addr_def no_wrap_def)
  ultimately show ?thesis
    using a(3) by simp
qed

lemma kernel_alloc_total:
  assumes inv: "guard_inv A sb vb k e" and vk: "vacant_key vk" and r: "r \<in> A" and nw: "no_wrap r req (k_heap k)"
  shows "\<exists>p e1 k1. kernel_alloc vk r req cache api zeroed e = Ret (p, e1) \<and> guard_inv A sb vb k1 e1
    \<and> (\<forall>r'. region_end r' (k_heap k1) = region_end r' (k_heap k))
    \<and> (if p = 0 then chunks (k_heap k1) = chunks (k_heap k) \<and> flat (emu_maps e1) = flat (emu_maps e)
       else \<exists>c. c_addr c = p \<and> chunks (k_heap k1) = chunks (k_heap k) @ [c] \<and> chunk_added req zeroed c e e1)
    \<and> (fail_alloc_index k \<noteq> Some (alloc_count k) \<and> unat (region_cursor r (k_heap k)) + unat req + 0x2010 \<le> unat (region_end r (k_heap k))
       \<longrightarrow> p \<noteq> 0)"
proof -
  have ai: "alloc_inv A sb vb k e"
    using inv by (simp add: guard_inv_def)
  note i = alloc_invD[OF ai]
  obtain ip where pc: "emu_pc e = Ret ip"
    using emu_pc_Ret[OF i(6)] .
  let ?k = "k\<lparr>alloc_count := alloc_count k + 1\<rparr>"
  have keep: "guard_inv A sb vb ?k (e\<lparr>kernel := Some ?k\<rparr>)"
    using inv by (simp add: guard_inv_def alloc_inv_def thread_ok_def)
  show ?thesis
  proof (cases "fail_alloc_index k = Some (alloc_count k)")
    case True
    then have "kernel_alloc vk r req cache api zeroed e = Ret (0, e\<lparr>kernel := Some ?k\<rparr>)"
      using i(2) by (simp add: kernel_alloc_def pc Let_def)
    then show ?thesis
      using keep True by (intro exI[of _ "0::u64"] exI[of _ "e\<lparr>kernel := Some ?k\<rparr>"] exI[of _ ?k]) simp
  next
    case inj: False
    show ?thesis
    proof (cases "record_alloc r req cache api (emu_pos e) ip (k_heap k)")
      case (Pair x h')
      show ?thesis
      proof (cases x)
        case None
        then have "h' = k_heap k"
          using Pair by (auto simp: record_alloc_def Let_def split: if_splits)
        then have "kernel_alloc vk r req cache api zeroed e = Ret (0, e\<lparr>kernel := Some ?k\<rparr>)"
          using i(2) inj Pair None by (simp add: kernel_alloc_def pc Let_def)
        then show ?thesis
          using keep record_alloc_room[OF i(3) nw Pair[unfolded None]] by (intro exI[of _ "0::u64"] exI[of _ "e\<lparr>kernel := Some ?k\<rparr>"] exI[of _ ?k]) simp
      next
        case (Some c)
        obtain e1 k1 where n: "kernel_alloc vk r req cache api zeroed e = Ret (c_addr c, e1)" "guard_inv A sb vb k1 e1"
          "chunks (k_heap k1) = chunks (k_heap k) @ [c]" "chunk_added req zeroed c e e1" "\<forall>r'. region_end r' (k_heap k1) = region_end r' (k_heap k)"
          using kernel_alloc_new[OF ai vk r nw inj pc Pair[unfolded Some]] inv by blast
        then have "c_addr c \<noteq> 0"
          by (simp add: chunk_added_def)
        then show ?thesis
          using n by (intro exI[of _ "c_addr c"] exI[of _ e1] exI[of _ k1]) simp
      qed
    qed
  qed
qed

lemma kernel_free_total:
  assumes inv: "guard_inv A sb vb k e"
  shows "\<exists>b e1 k1. kernel_free ptr api e = Ret (b, e1) \<and> guard_inv A sb vb k1 e1
    \<and> (\<forall>r. region_end r (k_heap k1) = region_end r (k_heap k))"
proof -
  note v = guard_invD[OF inv]
  obtain ip where pc: "emu_pc e = Ret ip"
    using emu_pc_Ret[OF v(6)] .
  consider "ptr = 0" | "ptr \<noteq> 0" "index_of_base ptr (k_heap k) = None" | i where "ptr \<noteq> 0" "index_of_base ptr (k_heap k) = Some i"
    by fastforce
  then show ?thesis
  proof cases
    case 1
    then show ?thesis
      using inv by (intro exI[of _ True] exI[of _ e] exI[of _ k]) (simp add: kernel_free_def)
  next
    case 2
    then have "\<exists>org. kernel_free ptr api e = Ret (False, kernel_report InvalidFree ip ptr 0 org e)"
      using v(2) by (simp add: kernel_free_def pc) (rule exI, rule refl)
    then show ?thesis
      using report_inv[OF inv] by metis
  next
    case 3
    then have i: "i < length (chunks (k_heap k))" "c_addr (chunks (k_heap k) ! i) = ptr"
      using index_of_base_iff[OF v(3)] by blast+
    show ?thesis
    proof (cases "is_freed (chunks (k_heap k) ! i)")
      case True
      then have "\<exists>org. kernel_free ptr api e = Ret (False, kernel_report DoubleFree ip ptr 0 org e)"
        using v(2) 3 i by (simp add: kernel_free_def pc heap_get_def vec_index_def) (rule exI, rule refl)
      then show ?thesis
        using report_inv[OF inv] by metis
    next
      case False
      then show ?thesis
        using kernel_free_live[OF inv i(1) refl False pc] i(2) by blast
    qed
  qed
qed

subsection \<open>The guard of an access\<close>

lemma guard_access_chunk:
  assumes inv: "guard_inv A sb vb k e" and ord: "in_order (k_heap k)"
    and c: "c \<in> set (chunks (k_heap k))" "chunk_contains c a" and np: "\<not> is_free_poison a"
  shows "kernel_guard_access ip a n w e =
    Ret (if is_freed c then kernel_report (if w then WriteAfterFree else UseAfterFree) ip a n (origin_of c) e
         else if unat (c_req_size c) \<le> unat a - unat (c_addr c) then kernel_report HeapOverflow ip a n (origin_of c) e
         else e)"
proof -
  note v = guard_invD[OF inv]
  obtain i where i: "i < length (chunks (k_heap k))" "chunks (k_heap k) ! i = c"
    using c(1) by (auto simp: in_set_conv_nth)
  then have "index_of a (k_heap k) = Some i"
    using index_of_in_order[OF v(3) ord] c(2) by blast
  moreover have "c_req_size c \<le> offset_of c a \<longleftrightarrow> unat (c_req_size c) \<le> unat a - unat (c_addr c)"
    using contains_iff[OF v(3) c(1)] c(2) by (simp add: offset_of_def word_le_nat_alt unat_sub)
  ultimately show ?thesis
    using v(2) np i by (auto simp: kernel_guard_access_def heap_get_def vec_index_def)
qed

lemma guard_access_outside:
  assumes inv: "guard_inv A sb vb k e" and ord: "in_order (k_heap k)" and c: "\<forall>c\<in>set (chunks (k_heap k)). \<not> chunk_contains c a" and np: "\<not> is_free_poison a"
  shows "kernel_guard_access ip a n w e = Ret e"
proof -
  note v = guard_invD[OF inv]
  have "index_of a (k_heap k) \<noteq> Some i" for i
    using index_of_in_order[OF v(3) ord] c nth_mem by blast
  then show ?thesis
    using v(2) np by (cases "index_of a (k_heap k)") (auto simp: kernel_guard_access_def)
qed

lemma guard_access_inv:
  assumes inv: "guard_inv A sb vb k e" and r: "kernel_guard_access ip a n w e = Ret e'"
  shows "\<exists>k1. guard_inv A sb vb k1 e' \<and> k_heap k1 = k_heap k"
proof -
  have "e' = e \<or> (\<exists>kind org. e' = kernel_report kind ip a n org e)"
    using r guard_invD(2)[OF inv]
    by (auto simp: kernel_guard_access_def split: if_splits option.splits)
  then show ?thesis
    using report_inv[OF inv] inv by blast
qed

subsection \<open>Runs\<close>

text \<open>
  A run goes on from a state in which the guard was switched on. It allocates chunks from the areas \<open>A\<close>, with requests
  of less than 256 gigabytes (an area has 256 megabytes), frees and accesses memory in any order. A \<open>guest\<close> step stands
  for everything else: it may change the contents of memory, the threads and whatever else the emulator holds except the
  ledger, map regions outside of what is left of the areas under names without the mark of a chunk name, and remove
  regions other than those of chunks.
\<close>

definition same_place :: "mem64 \<Rightarrow> mem64 \<Rightarrow> bool" where
  "same_place m m' \<longleftrightarrow> base_addr m' = base_addr m \<and> length (mem m') = length (mem m) \<and> permission m' = permission m"

definition spares :: "region set \<Rightarrow> kernel_heap \<Rightarrow> maps \<Rightarrow> maps \<Rightarrow> bool" where
  "spares A h s s' \<longleftrightarrow>
     (\<forall>key m. om_get (mem_slab s') key = Some m \<longrightarrow>
        (\<exists>key0 m0. om_get (mem_slab s) key0 = Some m0 \<and> same_place m0 m) \<or> (\<forall>r\<in>A. outside r h (base_addr m) (length (mem m))))
     \<and> (\<forall>key m. om_get (mem_slab s) key = Some m \<and> (\<exists>c\<in>set (chunks h). c_addr c = base_addr m) \<longrightarrow>
        (\<exists>key' m'. om_get (mem_slab s') key' = Some m' \<and> same_place m m'))
     \<and> (\<forall>name. name_map s' name \<noteq> None \<longrightarrow> name_map s name \<noteq> None \<or> CHR ''#'' \<notin> set name)"

definition guest_step :: "region set \<Rightarrow> emu \<Rightarrow> emu \<Rightarrow> bool" where
  "guest_step A e e' \<longleftrightarrow>
     (\<exists>k k'. kernel e = Some k \<and> kernel e' = Some k' \<and> k_heap k' = k_heap k \<and> spares A (k_heap k) (emu_maps e) (emu_maps e'))
     \<and> maps_wf (emu_maps e') \<and> thread_ok e'"

inductive guard_run :: "(slab \<Rightarrow> nat) \<Rightarrow> region set \<Rightarrow> emu \<Rightarrow> emu \<Rightarrow> bool" for vk A e0 where
  start: "guard_run vk A e0 e0"
| alloc: "guard_run vk A e0 e \<Longrightarrow> r \<in> A \<Longrightarrow> req < 0x4000000000 \<Longrightarrow> kernel_alloc vk r req cache api zeroed e = Ret (p, e') \<Longrightarrow>
    guard_run vk A e0 e'"
| free: "guard_run vk A e0 e \<Longrightarrow> kernel_free ptr api e = Ret (b, e') \<Longrightarrow> guard_run vk A e0 e'"
| access: "guard_run vk A e0 e \<Longrightarrow> kernel_guard_access ip a n w e = Ret e' \<Longrightarrow> guard_run vk A e0 e'"
| guest: "guard_run vk A e0 e \<Longrightarrow> guest_step A e e' \<Longrightarrow> guard_run vk A e0 e'"

definition run_inv :: "region set \<Rightarrow> kernel_os \<Rightarrow> kernel_env \<Rightarrow> emu \<Rightarrow> bool" where
  "run_inv A os k e \<longleftrightarrow>
     guard_inv A (l_heap_base (for_os os)) (l_vmalloc_base (for_os os)) k e
     \<and> (\<forall>r. region_end r (k_heap k) = region_end r (k_heap (kernel_env_new os)))"

lemma started_inv:
  assumes "started vk A os e" "vacant_key vk"
  shows "\<exists>k. run_inv A os k e"
proof -
  obtain k where "kernel e = Some k" "k_heap k = k_heap (kernel_env_new os)" "quiet A os e"
    using assms by (rule started_fresh)
  then show ?thesis
    using fresh_ledger(1-4)[of os]
    by (intro exI[of _ k]) (simp add: quiet_def run_inv_def guard_inv_def alloc_inv_def serial_ok_def)
qed

lemma guest_inv:
  assumes inv: "guard_inv A sb vb k e" and g: "guest_step A e e'"
  shows "\<exists>k'. guard_inv A sb vb k' e' \<and> k_heap k' = k_heap k"
proof -
  note v = guard_invD[OF inv]
  let ?s = "emu_maps e" and ?s' = "emu_maps e'" and ?h = "k_heap k"
  obtain k' where k': "kernel e' = Some k'" "k_heap k' = ?h" and sp: "spares A ?h ?s ?s'" and wf: "maps_wf ?s'" "thread_ok e'"
    using g v(2) by (auto simp: guest_step_def)
  have "area_free r ?s' ?h" if r: "r \<in> A" for r
    unfolding area_free_def
  proof (intro allI impI)
    fix key m
    assume "om_get (mem_slab ?s') key = Some m"
    then consider key0 m0 where "om_get (mem_slab ?s) key0 = Some m0" "same_place m0 m" | "outside r ?h (base_addr m) (length (mem m))"
      using sp r unfolding spares_def by blast
    then show "outside r ?h (base_addr m) (length (mem m))"
      using v(8)[OF r] by cases (auto simp: area_free_def same_place_def)
  qed
  moreover have "names_free ?s' ?h"
    unfolding names_free_def
  proof (intro allI impI)
    fix cache n
    assume "unat (serial ?h) < n"
    then have "name_map ?s (cache @ ''#'' @ fmt_radix 10 n) = None"
      using v(9) by (simp add: names_free_def)
    then show "name_map ?s' (cache @ ''#'' @ fmt_radix 10 n) = None"
      using sp unfolding spares_def by (metis in_set_conv_decomp append_Cons append_Nil)
  qed
  moreover have "chunk_mapped ?s' c" if c: "c \<in> set (chunks ?h)" for c
  proof -
    obtain key m where m: "om_get (mem_slab ?s) key = Some m" "base_addr m = c_addr c" "length (mem m) = unat (c_size c)"
      "permission m = PERM_READ_WRITE"
      using v(7)[OF c] by (auto simp: chunk_mapped_def)
    then obtain key' m' where "om_get (mem_slab ?s') key' = Some m'" "same_place m m'"
      using sp c unfolding spares_def by metis
    then show ?thesis
      using m(2-4) unfolding chunk_mapped_def same_place_def by metis
  qed
  ultimately have "guard_inv A sb vb k' e'"
    using v(1,3,4) k' wf by (simp add: guard_inv_def alloc_inv_def)
  then show ?thesis
    using k'(2) by blast
qed

lemma run_no_wrap:
  assumes "run_inv A os k e" "req < 0x4000000000"
  shows "no_wrap r req (k_heap k)"
proof -
  have "unat req < 0x4000000000"
    using assms(2) by (simp add: word_less_nat_alt)
  then show ?thesis
    using fresh_ledger(5)[of r os] assms(1) by (simp add: no_wrap_def run_inv_def)
qed

lemma guard_run_ex:
  assumes "started vk A os e0" "vacant_key vk" "guard_run vk A e0 e"
  shows "\<exists>k. run_inv A os k e"
  using assms(3)
proof induction
  case start
  then show ?case
    by (rule started_inv[OF assms(1,2)])
next
  case (alloc e r req cache api zeroed p e')
  then obtain k where k: "run_inv A os k e"
    by blast
  then obtain p1 e1 k1 where "kernel_alloc vk r req cache api zeroed e = Ret (p1, e1)"
    "guard_inv A (l_heap_base (for_os os)) (l_vmalloc_base (for_os os)) k1 e1"
    "\<forall>r'. region_end r' (k_heap k1) = region_end r' (k_heap k)"
    using kernel_alloc_total[OF _ assms(2) alloc(2) run_no_wrap[OF k alloc(3)]] unfolding run_inv_def by metis
  then show ?case
    using k alloc(4) unfolding run_inv_def by (metis outcome.inject(1) outcome.inject(2) prod.inject)
next
  case (free e ptr api b e')
  then obtain k where k: "run_inv A os k e"
    by blast
  then obtain b1 e1 k1 where "kernel_free ptr api e = Ret (b1, e1)"
    "guard_inv A (l_heap_base (for_os os)) (l_vmalloc_base (for_os os)) k1 e1"
    "\<forall>r'. region_end r' (k_heap k1) = region_end r' (k_heap k)"
    using kernel_free_total unfolding run_inv_def by metis
  then show ?case
    using k free(2) unfolding run_inv_def by (metis outcome.inject(1) outcome.inject(2) prod.inject)
next
  case (access e ip a n w e')
  then show ?case
    using guard_access_inv unfolding run_inv_def by metis
next
  case (guest e e')
  then show ?case
    using guest_inv unfolding run_inv_def by metis
qed

lemma guard_run_inv:
  assumes "started vk A os e0" "vacant_key vk" "guard_run vk A e0 e" "kernel e = Some k"
  shows "run_inv A os k e" "guard_inv A (l_heap_base (for_os os)) (l_vmalloc_base (for_os os)) k e"
proof -
  obtain k' where k': "run_inv A os k' e"
    using guard_run_ex[OF assms(1-3)] by blast
  moreover have "k' = k"
    using guard_invD(2) k' assms(4) unfolding run_inv_def by fastforce
  ultimately show "run_inv A os k e" "guard_inv A (l_heap_base (for_os os)) (l_vmalloc_base (for_os os)) k e"
    by (simp_all add: run_inv_def)
qed

text \<open>A ledger all of whose chunks come from one area is in address order.\<close>

lemma one_area_in_order:
  assumes "ledger_ok sb vb h" "\<forall>c\<in>set (chunks h). \<forall>d\<in>set (chunks h). same_area (c_region c) (c_region d)"
  shows "in_order h"
proof -
  have "sorted_wrt (\<lambda>c d. same_area (c_region c) (c_region d) \<longrightarrow> chunk_before c d) (chunks h)"
    using assms(1) by (simp add: ledger_ok_def)
  then show ?thesis
    unfolding in_order_def by (rule sorted_wrt_mono_rel[rotated]) (use assms(2) in blast)
qed

definition reported :: "finding_kind \<Rightarrow> u64 \<Rightarrow> u64 \<Rightarrow> emu \<Rightarrow> bool" where
  "reported kind ip origin e \<longleftrightarrow> (\<exists>f\<in>set (kernel_findings e). fi_kind f = kind \<and> fi_rip f = ip \<and> o_addr (fi_origin f) = origin)"

lemma report_reported:
  assumes "kernel e = Some k"
  shows "reported kind ip (o_addr org) (kernel_report kind ip a n org e)"
  using kernel_report_found[OF assms, of kind ip a n org] by (simp add: reported_def)

lemma reported_uaf: "reported kind ip a e \<Longrightarrow> is_use_after_free kind \<Longrightarrow> kernel_found_uaf e"
  by (auto simp: reported_def kernel_found_uaf_def list_ex_iff)

lemma origin_addr [simp]: "o_addr (origin_of c) = c_addr c"
  by (simp add: origin_of_def)

text \<open>
  C35: in every run in which the ledger is in address order, the guard reports exactly the accesses that are wrong,
  judged by their first byte. An access to an address made of poison bytes is reported as the use of a pointer from
  freed memory. Of the others, one that starts in a freed chunk is reported as a use after free, with the
  instruction and the chunk; one that starts behind the requested size of a live chunk as an overflow; any other
  access, inside a live chunk or outside of all chunks, is not reported and changes nothing. The ledger is in
  address order as long as all chunks come from one area.
\<close>

theorem guard_exact:
  assumes "started vk A os e0" "vacant_key vk" "guard_run vk A e0 e" "kernel e = Some k"
    and "in_order (k_heap k) \<or> (\<forall>c\<in>set (chunks (k_heap k)). \<forall>d\<in>set (chunks (k_heap k)). same_area (c_region c) (c_region d))"
  shows "\<exists>e1. kernel_guard_access ip a n w e = Ret e1
    \<and> (if is_free_poison a then kernel_found_uaf e1 \<and> reported PoisonDereference ip 0 e1
       else (\<forall>c\<in>set (chunks (k_heap k)). chunk_contains c a \<longrightarrow>
          (if is_freed c then kernel_found_uaf e1 \<and> reported (if w then WriteAfterFree else UseAfterFree) ip (c_addr c) e1
           else if unat (c_req_size c) \<le> unat a - unat (c_addr c) then reported HeapOverflow ip (c_addr c) e1
           else e1 = e))
        \<and> ((\<forall>c\<in>set (chunks (k_heap k)). \<not> chunk_contains c a) \<longrightarrow> e1 = e))"
proof -
  note inv = guard_run_inv(2)[OF assms(1-4)]
  have ord: "in_order (k_heap k)"
    using assms(5) one_area_in_order[OF guard_invD(3)[OF inv]] by blast
  have uaf: "kernel_found_uaf (kernel_report kind ip a n org e)" if "is_use_after_free kind" for kind org
    using reported_uaf[OF report_reported[OF assms(4)] that] .
  consider "is_free_poison a" | c where "\<not> is_free_poison a" "c \<in> set (chunks (k_heap k))" "chunk_contains c a"
    | "\<not> is_free_poison a" "\<forall>c\<in>set (chunks (k_heap k)). \<not> chunk_contains c a"
    by blast
  then show ?thesis
  proof cases
    case 1
    let ?org = "origin_default\<lparr>o_cache := ''freed object''\<rparr>"
    have "kernel_guard_access ip a n w e = Ret (kernel_report PoisonDereference ip a n ?org e)"
      using 1 assms(4) by (simp add: kernel_guard_access_def)
    moreover have "reported PoisonDereference ip 0 (kernel_report PoisonDereference ip a n ?org e)"
      using report_reported[OF assms(4), of PoisonDereference ip ?org] by (simp add: origin_default_def)
    ultimately show ?thesis
      using 1 uaf[of PoisonDereference ?org] by (simp add: is_use_after_free_def)
  next
    case (2 c)
    have one: "d = c" if "d \<in> set (chunks (k_heap k))" "chunk_contains d a" for d
      using chunk_unique[OF guard_invD(3)[OF inv]] that 2 by (metis in_set_conv_nth)
    define kind where "kind = (if w then WriteAfterFree else UseAfterFree)"
    define e1 where "e1 = (if is_freed c then kernel_report kind ip a n (origin_of c) e
         else if unat (c_req_size c) \<le> unat a - unat (c_addr c) then kernel_report HeapOverflow ip a n (origin_of c) e else e)"
    have e1: "kernel_guard_access ip a n w e = Ret e1"
      unfolding e1_def kind_def by (rule guard_access_chunk[OF inv ord 2(2,3,1)])
    have "is_use_after_free kind"
      by (simp add: is_use_after_free_def kind_def)
    then have "if is_freed c then kernel_found_uaf e1 \<and> reported kind ip (c_addr c) e1
         else if unat (c_req_size c) \<le> unat a - unat (c_addr c) then reported HeapOverflow ip (c_addr c) e1 else e1 = e"
      using report_reported[OF assms(4), of kind ip "origin_of c" a n] report_reported[OF assms(4), of HeapOverflow ip "origin_of c" a n]
      by (simp add: e1_def uaf)
    then have "\<forall>d\<in>set (chunks (k_heap k)). chunk_contains d a \<longrightarrow>
        (if is_freed d then kernel_found_uaf e1 \<and> reported kind ip (c_addr d) e1
         else if unat (c_req_size d) \<le> unat a - unat (c_addr d) then reported HeapOverflow ip (c_addr d) e1 else e1 = e)"
      using one by blast
    then show ?thesis
      unfolding kind_def[symmetric] using e1 2 by (intro exI[of _ e1]) auto
  next
    case 3
    then show ?thesis
      using guard_access_outside[OF inv ord 3(2,1)] by auto
  qed
qed

text \<open>
  C36: in every run an allocation of less than 256 gigabytes from one of the areas of the run ends without a panic. If it
  succeeds, the chunk is at least as large as the request and lies at least a redzone apart from every other chunk, freed
  ones included, so no freed memory is given out again; its memory is fresh, readable and writable, zero or
  filled with the pattern for uninitialised memory; all other memory is unchanged. If it fails, memory and ledger are
  unchanged. It does not fail when no failure is injected and the area has room for the request, the rounding and the
  redzone.
\<close>

theorem guarded_alloc_correct:
  assumes "started vk A os e0" "vacant_key vk" "guard_run vk A e0 e" "kernel e = Some k" "r \<in> A" "req < 0x4000000000"
  shows "\<exists>p e1 k1. kernel_alloc vk r req cache api zeroed e = Ret (p, e1) \<and> kernel e1 = Some k1
    \<and> (if p = 0 then chunks (k_heap k1) = chunks (k_heap k) \<and> flat (emu_maps e1) = flat (emu_maps e)
       else \<exists>c. c_addr c = p \<and> chunks (k_heap k1) = chunks (k_heap k) @ [c] \<and> chunk_added req zeroed c e e1
              \<and> (\<forall>d\<in>set (chunks (k_heap k)). chunk_before d c \<or> chunk_before c d))
    \<and> (fail_alloc_index k \<noteq> Some (alloc_count k) \<and> unat (region_cursor r (k_heap k)) + unat req + 0x2010 \<le> unat (region_end r (k_heap k))
       \<longrightarrow> p \<noteq> 0)"
proof -
  note inv = guard_run_inv[OF assms(1-4)]
  obtain p e1 k1 where r: "kernel_alloc vk r req cache api zeroed e = Ret (p, e1)"
    "guard_inv A (l_heap_base (for_os os)) (l_vmalloc_base (for_os os)) k1 e1"
    "if p = 0 then chunks (k_heap k1) = chunks (k_heap k) \<and> flat (emu_maps e1) = flat (emu_maps e)
       else \<exists>c. c_addr c = p \<and> chunks (k_heap k1) = chunks (k_heap k) @ [c] \<and> chunk_added req zeroed c e e1"
    "fail_alloc_index k \<noteq> Some (alloc_count k) \<and> unat (region_cursor r (k_heap k)) + unat req + 0x2010 \<le> unat (region_end r (k_heap k))
       \<longrightarrow> p \<noteq> 0"
    using kernel_alloc_total[OF inv(2) assms(2,5) run_no_wrap[OF inv(1) assms(6)], of cache api zeroed] by blast
  note v = guard_invD[OF r(2)]
  have "\<forall>d\<in>set (chunks (k_heap k)). chunk_before d c \<or> chunk_before c d" if c: "chunks (k_heap k1) = chunks (k_heap k) @ [c]" for c
  proof
    fix d
    assume "d \<in> set (chunks (k_heap k))"
    then obtain i where "i < length (chunks (k_heap k))" "chunks (k_heap k) ! i = d"
      by (auto simp: in_set_conv_nth)
    then show "chunk_before d c \<or> chunk_before c d"
      using ledger_apart[OF v(3), of i "length (chunks (k_heap k))"] by (simp add: c nth_append)
  qed
  then have "if p = 0 then chunks (k_heap k1) = chunks (k_heap k) \<and> flat (emu_maps e1) = flat (emu_maps e)
       else \<exists>c. c_addr c = p \<and> chunks (k_heap k1) = chunks (k_heap k) @ [c] \<and> chunk_added req zeroed c e e1
              \<and> (\<forall>d\<in>set (chunks (k_heap k)). chunk_before d c \<or> chunk_before c d)"
    using r(3) by (cases "p = 0") auto
  then show ?thesis
    using r(1,4) v(2) by blast
qed

text \<open>
  C37: in every run, freeing a live chunk succeeds, fills its memory with the poison byte and leaves all other
  memory as it is; the chunk stays in the ledger as freed. Freeing it again fails and reports a double free.
\<close>

theorem guarded_free_correct:
  assumes "started vk A os e0" "vacant_key vk" "guard_run vk A e0 e" "kernel e = Some k"
    and "c \<in> set (chunks (k_heap k))" "\<not> is_freed c"
  shows "\<exists>e1 k1 e2. kernel_free (c_addr c) api e = Ret (True, e1) \<and> kernel e1 = Some k1
    \<and> (\<exists>d\<in>set (chunks (k_heap k1)). c_addr d = c_addr c \<and> c_size d = c_size c \<and> is_freed d)
    \<and> (\<forall>x. flat (emu_maps e1) x =
          (if in_range (c_addr c) (unat (c_size c)) x then Some (PERM_READ_WRITE, 0x6b) else flat (emu_maps e) x))
    \<and> kernel_free (c_addr c) api e1 = Ret (False, e2)
    \<and> (\<exists>ip. reported DoubleFree ip (c_addr c) e2)"
proof -
  note inv = guard_run_inv(2)[OF assms(1-4)]
  obtain ip where pc: "emu_pc e = Ret ip"
    using emu_pc_Ret[OF guard_invD(6)[OF inv]] .
  obtain i where i: "i < length (chunks (k_heap k))" "chunks (k_heap k) ! i = c"
    using assms(5) by (auto simp: in_set_conv_nth)
  let ?d = "freed_by api (emu_pos e) ip c"
  obtain e1 k1 where r: "kernel_free (c_addr c) api e = Ret (True, e1)"
    "guard_inv A (l_heap_base (for_os os)) (l_vmalloc_base (for_os os)) k1 e1"
    "chunks (k_heap k1) = (chunks (k_heap k))[i := ?d]"
    "\<forall>x. flat (emu_maps e1) x =
          (if in_range (c_addr c) (unat (c_size c)) x then Some (PERM_READ_WRITE, 0x6b) else flat (emu_maps e) x)"
    using kernel_free_live[OF inv i assms(6) pc, of api] by blast
  note v = guard_invD[OF r(2)]
  have d: "?d \<in> set (chunks (k_heap k1))" "i < length (chunks (k_heap k1))" "chunks (k_heap k1) ! i = ?d"
    using i(1) by (simp_all add: r(3) set_update_memI)
  obtain ip1 where pc1: "emu_pc e1 = Ret ip1"
    using emu_pc_Ret[OF v(6)] .
  have "index_of_base (c_addr c) (k_heap k1) = Some i"
    using index_of_base_iff[OF v(3)] d(2,3) by simp
  moreover have "c_addr c \<noteq> 0"
    using chunk_nonzero[OF v(3,1) d(1)] by simp
  ultimately have "kernel_free (c_addr c) api e1 = Ret (False, kernel_report DoubleFree ip1 (c_addr c) 0 (origin_of ?d) e1)"
    using v(2) d(2,3) by (simp add: kernel_free_def pc1 heap_get_def vec_index_def)
  moreover have "reported DoubleFree ip1 (c_addr c) (kernel_report DoubleFree ip1 (c_addr c) 0 (origin_of ?d) e1)"
    using report_reported[OF v(2), of DoubleFree ip1 "origin_of ?d" "c_addr c" 0] by simp
  moreover have "\<exists>d\<in>set (chunks (k_heap k1)). c_addr d = c_addr c \<and> c_size d = c_size c \<and> is_freed d"
    using d(1) by (rule bexI[rotated]) simp
  ultimately show ?thesis
    using r(1,4) v(2) by blast
qed

subsection \<open>A run\<close>

definition idle :: emu where
  "idle = sample_emu maps_default (thread_new 1 False)"

lemma idle_quiet: "quiet A os idle" "room (kernel_ranges os) (emu_maps idle)" "kernel idle = None" "emu_os idle = Linux"
  by (cases os; simp add: quiet_def room_def kernel_ranges_def retpad_def idle_def sample_emu_def maps_default_wf thread_ok_def area_free_def
      names_free_def free_range_def)+

text \<open>The two ways to start: a Linux driver, and a program.\<close>

definition loaded :: emu where
  "loaded = (case kernel_init next_key Linux idle of Ret e \<Rightarrow> e | _ \<Rightarrow> idle)"

lemma idle_started:
  "started next_key {Slab} Linux loaded" "started next_key A Linux (memory_guard_init idle)" "kernel loaded = Some (kernel_env_new Linux)"
proof -
  obtain s ts where init: "kernel_init next_key Linux idle
      = Ret (idle\<lparr>emu_maps := s, threads := ts, kernel := Some (kernel_env_new Linux), kernel_guard := True, emu_os := Linux\<rparr>)"
    using kernel_init_eq[OF _ vacant_next_key idle_quiet(2)[of Linux]] idle_quiet(1)[of "{}" Linux] by (auto simp: quiet_def)
  then have "kernel_init next_key Linux idle = Ret loaded"
    by (simp add: loaded_def)
  then show "started next_key {Slab} Linux loaded"
    using idle_quiet(1,2) by (intro started.driver) simp_all
  show "kernel loaded = Some (kernel_env_new Linux)"
    using init by (simp add: loaded_def)
  show "started next_key A Linux (memory_guard_init idle)"
    using started.program[OF idle_quiet(3), of A next_key] idle_quiet(1,4) by simp
qed

text \<open>A driver that has allocated 24 bytes.\<close>

lemma one_chunk_run:
  obtains e k c where "guard_run next_key {Slab} loaded e" "kernel e = Some k" "chunks (k_heap k) = [c]" "c_addr c = 0xffff888000000000"
    "c_size c = 32" "c_req_size c = 24" "\<not> is_freed c"
proof -
  define k0 where "k0 = kernel_env_new Linux"
  have start: "guard_run next_key {Slab} loaded loaded"
    by (rule guard_run.start)
  have k0: "kernel loaded = Some k0" "fail_alloc_index k0 \<noteq> Some (alloc_count k0)"
    using idle_started(3) by (simp_all add: k0_def kernel_env_new_def Let_def)
  note inv = guard_run_inv[OF idle_started(1) vacant_next_key start k0(1)]
  have ai: "alloc_inv {Slab} (l_heap_base (for_os Linux)) (l_vmalloc_base (for_os Linux)) k0 loaded"
    using inv(2) by (simp add: guard_inv_def)
  obtain ip where pc: "emu_pc loaded = Ret ip"
    using emu_pc_Ret[OF alloc_invD(6)[OF ai]] .
  obtain c h' where rec: "record_alloc Slab 24 ''kmalloc'' ''kmalloc'' (emu_pos loaded) ip (k_heap k0) = (Some c, h')"
    "c_addr c = 0xffff888000000000" "c_size c = 32" "c_req_size c = 24" "\<not> is_freed c"
    by (simp add: k0_def kernel_env_new_def kernel_heap_new_def record_alloc_def chunk_bytes_def bucket_def BUCKETS_def
        region_cursor_def region_end_def next_multiple_of_def set_cursor_def HEAP_REDZONE_def is_freed_def Let_def)
  have nw: "no_wrap Slab 24 (k_heap k0)"
    by (rule run_no_wrap[OF inv(1)]) simp
  obtain e1 k1 where e1: "kernel_alloc next_key Slab 24 ''kmalloc'' ''kmalloc'' True loaded = Ret (c_addr c, e1)"
    "alloc_inv {Slab} (l_heap_base (for_os Linux)) (l_vmalloc_base (for_os Linux)) k1 e1" "chunks (k_heap k1) = chunks (k_heap k0) @ [c]"
    using kernel_alloc_new[OF ai vacant_next_key _ nw k0(2) pc rec(1), of True] by blast
  have "guard_run next_key {Slab} loaded e1"
    by (rule guard_run.alloc[OF start _ _ e1(1)]) simp_all
  moreover have "chunks (k_heap k1) = [c]"
    using e1(3) fresh_ledger(2)[of Linux] by (simp add: k0_def)
  ultimately show ?thesis
    using that alloc_invD(2)[OF e1(2)] rec(2-5) by blast
qed

text \<open>A program whose first allocation is a large one.\<close>

theorem guarded_alloc_correct_witness:
  "\<exists>p e1. kernel_alloc next_key Vmalloc 0x10000 ''mmap'' ''mmap'' False (memory_guard_init idle) = Ret (p, e1) \<and> p \<noteq> 0
     \<and> flat (emu_maps e1) p = Some (PERM_READ_WRITE, 0x5a)"
proof -
  define k0 where "k0 = (kernel_env_new Linux)\<lparr>ledger_only := True\<rparr>"
  have k0: "kernel (memory_guard_init idle) = Some k0"
    using idle_quiet(3,4) by (simp add: memory_guard_init_def k0_def)
  have run: "guard_run next_key UNIV (memory_guard_init idle) (memory_guard_init idle)"
    by (rule guard_run.start)
  have "fail_alloc_index k0 \<noteq> Some (alloc_count k0)"
    "unat (region_cursor Vmalloc (k_heap k0)) + unat (0x10000 :: u64) + 0x2010 \<le> unat (region_end Vmalloc (k_heap k0))"
    by (simp_all add: k0_def kernel_env_new_def kernel_heap_new_def region_cursor_def region_end_def Let_def)
  then obtain p e1 c where "kernel_alloc next_key Vmalloc 0x10000 ''mmap'' ''mmap'' False (memory_guard_init idle) = Ret (p, e1)" "p \<noteq> 0"
    "c_addr c = p" "chunk_added 0x10000 False c (memory_guard_init idle) e1"
    using guarded_alloc_correct[OF idle_started(2) vacant_next_key run k0, of Vmalloc "0x10000" "''mmap''" "''mmap''" False] by auto
  moreover from this have "in_range p (unat (c_size c)) p"
    by (auto simp: chunk_added_def in_range_def word_le_nat_alt)
  ultimately show ?thesis
    by (auto simp: chunk_added_def)
qed

theorem guarded_free_correct_witness:
  "\<exists>e e1 e2. guard_run next_key {Slab} loaded e \<and> kernel_free 0xffff888000000000 ''kfree'' e = Ret (True, e1)
     \<and> kernel_free 0xffff888000000000 ''kfree'' e1 = Ret (False, e2)"
proof -
  obtain e k c where r: "guard_run next_key {Slab} loaded e" "kernel e = Some k"
    and c: "chunks (k_heap k) = [c]" "c_addr c = 0xffff888000000000" "\<not> is_freed c"
    by (rule one_chunk_run)
  have "c \<in> set (chunks (k_heap k))"
    by (simp add: c(1))
  then obtain e1 e2 where "kernel_free (c_addr c) ''kfree'' e = Ret (True, e1)" "kernel_free (c_addr c) ''kfree'' e1 = Ret (False, e2)"
    using guarded_free_correct[OF idle_started(1) vacant_next_key r _ c(3), of "''kfree''"] by blast
  then show ?thesis
    using r(1) unfolding c(2) by blast
qed

text \<open>After a release, the guard reports a read from the chunk.\<close>

theorem guard_exact_witness:
  "\<exists>e e1. guard_run next_key {Slab} loaded e \<and> kernel_guard_access 0x400000 0xffff888000000008 8 False e = Ret e1 \<and> kernel_found_uaf e1"
proof -
  obtain e k c where r: "guard_run next_key {Slab} loaded e" "kernel e = Some k"
    and c: "chunks (k_heap k) = [c]" "c_addr c = 0xffff888000000000" "c_size c = 32" "\<not> is_freed c"
    by (rule one_chunk_run)
  note inv = guard_run_inv(2)[OF idle_started(1) vacant_next_key r]
  obtain ip where pc: "emu_pc e = Ret ip"
    using emu_pc_Ret[OF guard_invD(6)[OF inv]] .
  obtain e1 k1 where f: "kernel_free (c_addr c) ''kfree'' e = Ret (True, e1)" "kernel e1 = Some k1"
    "chunks (k_heap k1) = (chunks (k_heap k))[0 := freed_by ''kfree'' (emu_pos e) ip c]"
    using kernel_free_live[OF inv, of 0 c ip "''kfree''"] c pc guard_invD(2) by fastforce
  let ?d = "freed_by ''kfree'' (emu_pos e) ip c"
  have run: "guard_run next_key {Slab} loaded e1"
    by (rule guard_run.free[OF r(1) f(1)])
  have d: "?d \<in> set (chunks (k_heap k1))" "chunk_contains ?d 0xffff888000000008" "is_freed ?d"
    using c by (simp_all add: f(3) chunk_contains_def)
  have one: "in_order (k_heap k1)"
    using c(1) by (simp add: f(3) in_order_def)
  have "\<not> is_free_poison 0xffff888000000008"
    by (simp add: is_free_poison_def)
  then show ?thesis
    using guard_exact[OF idle_started(1) vacant_next_key run f(2) disjI1[OF one], of "0x400000" "0xffff888000000008" 8 False] d run
    by (metis (no_types, lifting))
qed

end
