(* ===== verification/Kernel_Gaps.thy ===== *)
theory Kernel_Gaps
  imports Kernel_Guard
begin

section \<open>Where the memory guard falls short\<close>

text \<open>
  Three defects of the kernel model, each proved from the definitions: a slab allocation hides the freed chunks of the
  other area from the guard, a request close to \<open>2 ^ 64\<close> bytes succeeds with an empty chunk, and on Linux the
  area of \<open>vmalloc\<close> contains the kernel stack.
\<close>

subsection \<open>Freed memory that the guard does not see\<close>

lemma slab_alloc_succeeds:
  assumes inv: "alloc_inv A sb vb k e" and vk: "vacant_key vk" and A: "Slab \<in> A" and nw: "no_wrap Slab req (k_heap k)"
    and r: "kernel_alloc vk Slab req cache api zeroed e = Ret (p, e1)" "p \<noteq> 0"
  obtains s k1 where "alloc_inv A sb vb k1 e1" "chunks (k_heap k1) = chunks (k_heap k) @ [s]" "c_region s = Slab"
proof -
  note i = alloc_invD[OF inv]
  obtain ip where pc: "emu_pc e = Ret ip"
    using emu_pc_Ret[OF i(6)] .
  have inj: "fail_alloc_index k \<noteq> Some (alloc_count k)"
    using r i(2) by (auto simp: kernel_alloc_def pc Let_def)
  obtain x h' where x: "record_alloc Slab req cache api (emu_pos e) ip (k_heap k) = (x, h')"
    by fastforce
  have "x \<noteq> None"
    using r i(2) inj by (cases x) (auto simp: kernel_alloc_def pc x Let_def)
  then obtain s where s: "record_alloc Slab req cache api (emu_pos e) ip (k_heap k) = (Some s, h')"
    using x by blast
  obtain e2 k1 where "kernel_alloc vk Slab req cache api zeroed e = Ret (c_addr s, e2)" "alloc_inv A sb vb k1 e2"
    "chunks (k_heap k1) = chunks (k_heap k) @ [s]"
    using kernel_alloc_new[OF inv vk A nw inj pc s] by blast
  then show ?thesis
    using that r(1) record_alloc_ok(5)[OF i(3) nw s] by simp
qed

text \<open>
  C38: the guard loses freed memory. While the ledger is in address order, an access to a freed chunk that
  came from \<open>vmalloc\<close> is reported; after one more slab allocation the same access, to the last such chunk, is not
  reported, although the chunk is still in the ledger as freed.
\<close>

theorem guard_misses_vmalloc:
  assumes inv: "alloc_inv A sb vb k e" and vk: "vacant_key vk" and A: "Slab \<in> A" and nw: "no_wrap Slab req (k_heap k)"
    and ord: "in_order (k_heap k)" and c: "c \<in> set (chunks (k_heap k))" "is_freed c" "c_region c \<noteq> Slab" "chunk_contains c a"
    and last: "\<forall>d\<in>set (chunks (k_heap k)). c_addr d \<le> a" and np: "\<not> is_free_poison a"
    and r: "kernel_alloc vk Slab req cache api zeroed e = Ret (p, e1)" "p \<noteq> 0"
  shows "(\<exists>e2. kernel_guard_access ip a n w e = Ret e2 \<and> kernel_found_uaf e2)
    \<and> kernel_guard_access ip a n w e1 = Ret e1 \<and> (\<exists>k1. kernel e1 = Some k1 \<and> c \<in> set (chunks (k_heap k1)))"
proof -
  note i = alloc_invD[OF inv]
  obtain j where j: "j < length (chunks (k_heap k))" "chunks (k_heap k) ! j = c"
    using c(1) by (auto simp: in_set_conv_nth)
  have "index_of a (k_heap k) = Some j"
    using index_of_in_order[OF i(3) ord] j c(4) by blast
  then have "kernel_guard_access ip a n w e
      = Ret (kernel_report (if w then WriteAfterFree else UseAfterFree) ip a n (origin_of c) e)"
    using i(2) j np c(2) by (simp add: kernel_guard_access_def heap_get_def vec_index_def)
  moreover have "kernel_found_uaf (kernel_report (if w then WriteAfterFree else UseAfterFree) ip a n (origin_of c) e)"
    by (rule reported_uaf[OF report_reported[OF i(2)]]) (simp add: is_use_after_free_def)
  moreover obtain s k1 where k1: "alloc_inv A sb vb k1 e1" "chunks (k_heap k1) = chunks (k_heap k) @ [s]" "c_region s = Slab"
    using slab_alloc_succeeds[OF inv vk A nw r] .
  moreover have "vb \<le> a"
    using ledger_chunk(1)[OF i(3) c(1)] last c(1,3) by (cases "c_region c") (auto simp: area_base_def word_le_nat_alt)
  then have "index_of a (k_heap k1) = None"
    using index_of_above[OF alloc_invD(3)[OF k1(1)] k1(2,3) last] by blast
  then have "kernel_guard_access ip a n w e1 = Ret e1"
    using alloc_invD(2)[OF k1(1)] np by (simp add: kernel_guard_access_def)
  moreover have "kernel e1 = Some k1" "c \<in> set (chunks (k_heap k1))"
    using alloc_invD(2)[OF k1(1)] c(1) by (simp_all add: k1(2))
  ultimately show ?thesis
    by blast
qed

text \<open>A ledger with one freed chunk of \<open>vmalloc\<close>.\<close>

definition freed_vmalloc :: kernel_chunk where
  "freed_vmalloc =
     \<lparr>c_addr = 0xffffc90000000000, c_size = 0x1000, c_req_size = 100, c_region = Vmalloc, c_state = Freed,
      c_cache = ''vmalloc'', c_map_name = ''vmalloc#1'', c_alloc_api = ''vmalloc'', c_alloc_pos = 0, c_alloc_rip = 0,
      c_free_api = ''vfree'', c_free_pos = 0, c_free_rip = 0\<rparr>"

definition vmalloc_env :: kernel_env where
  "vmalloc_env = (kernel_env_new Linux)\<lparr>k_heap :=
     (k_heap (kernel_env_new Linux))\<lparr>vmalloc_cursor := 0xffffc90000002000, chunks := [freed_vmalloc], serial := 1\<rparr>\<rparr>"

lemma vmalloc_env_inv: "alloc_inv {Slab} 0xffff888000000000 0xffffc90000000000 vmalloc_env (idle\<lparr>kernel := Some vmalloc_env\<rparr>)"
proof -
  have "ledger_ok 0xffff888000000000 0xffffc90000000000 (k_heap vmalloc_env)"
    by (simp add: vmalloc_env_def freed_vmalloc_def kernel_env_new_def kernel_heap_new_def ledger_ok_def chunk_ok_def area_base_def
        region_cursor_def Let_def)
  then show ?thesis
    using idle_quiet(1)[of "{Slab}" Linux] by (simp add: alloc_inv_def serial_ok_def vmalloc_env_def quiet_def area_free_def names_free_def thread_ok_def
        idle_def sample_emu_def)
qed

theorem guard_misses_vmalloc_witness:
  "\<exists>p e1. kernel_alloc next_key Slab 24 ''kmalloc'' ''kmalloc'' True (idle\<lparr>kernel := Some vmalloc_env\<rparr>) = Ret (p, e1)
     \<and> kernel_guard_access 0x400000 0xffffc90000000000 8 False e1 = Ret e1"
proof -
  let ?e = "idle\<lparr>kernel := Some vmalloc_env\<rparr>"
  note i = alloc_invD[OF vmalloc_env_inv]
  obtain ip where pc: "emu_pc ?e = Ret ip"
    using emu_pc_Ret[OF i(6)] .
  have nw: "no_wrap Slab 24 (k_heap vmalloc_env)"
    by (simp add: no_wrap_def region_end_def vmalloc_env_def kernel_env_new_def kernel_heap_new_def Let_def)
  obtain c h' where rec: "record_alloc Slab 24 ''kmalloc'' ''kmalloc'' (emu_pos ?e) ip (k_heap vmalloc_env) = (Some c, h')"
    by (simp add: vmalloc_env_def kernel_env_new_def kernel_heap_new_def record_alloc_def chunk_bytes_def bucket_def BUCKETS_def
        region_cursor_def region_end_def next_multiple_of_def set_cursor_def HEAP_REDZONE_def Let_def)
  have inj: "fail_alloc_index vmalloc_env \<noteq> Some (alloc_count vmalloc_env)"
    by (simp add: vmalloc_env_def kernel_env_new_def Let_def)
  obtain e1 where e1: "kernel_alloc next_key Slab 24 ''kmalloc'' ''kmalloc'' True ?e = Ret (c_addr c, e1)" "c_addr c \<noteq> 0"
    using kernel_alloc_new[OF vmalloc_env_inv vacant_next_key _ nw inj pc rec, of True] by (auto simp: chunk_added_def)
  have c: "freed_vmalloc \<in> set (chunks (k_heap vmalloc_env))" "is_freed freed_vmalloc" "c_region freed_vmalloc \<noteq> Slab"
    "chunk_contains freed_vmalloc 0xffffc90000000000" "\<forall>d\<in>set (chunks (k_heap vmalloc_env)). c_addr d \<le> 0xffffc90000000000"
    "in_order (k_heap vmalloc_env)" "\<not> is_free_poison 0xffffc90000000000"
    by (simp_all add: vmalloc_env_def freed_vmalloc_def is_freed_def chunk_contains_def in_order_def is_free_poison_def)
  show ?thesis
    using guard_misses_vmalloc[OF vmalloc_env_inv vacant_next_key _ nw c(6,1-5,7) e1] e1(1) by blast
qed

subsection \<open>Requests that wrap around\<close>

lemma next_multiple_wraps:
  assumes "2 ^ 64 - 0x1000 < unat req"
  shows "next_multiple_of req 0x1000 = 0"
proof -
  define x where "x = 2 ^ 64 - unat req"
  have x: "0 < x" "x < 0x1000" "unat req + x = 2 ^ 64"
    using assms unat_u64_less[of req] by (simp_all add: x_def)
  have "unat req = 0x1000 * (2 ^ 52 - 1) + (0x1000 - x)"
    using x by simp
  then have "unat req mod 0x1000 = 0x1000 - x"
    using x(1) by (simp only: mod_mult_self4) simp
  then have m: "unat (req mod 0x1000) = 0x1000 - x"
    by (simp add: unat_mod)
  then have "unat (0x1000 - req mod 0x1000) = x"
    using x by (subst unat_sub) (simp_all add: word_le_nat_alt)
  then have "unat (req + (0x1000 - req mod 0x1000)) = (unat req + x) mod 2 ^ 64"
    by (simp add: unat_word_ariths)
  then have "req + (0x1000 - req mod 0x1000) = 0"
    using x(3) by (simp add: unat_eq_zero)
  moreover have "req mod 0x1000 \<noteq> 0"
    using m x(2) by (metis diff_is_0_eq not_le unat_0)
  ultimately show ?thesis
    by (simp add: next_multiple_of_def Let_def)
qed

lemma chunk_bytes_wraps:
  assumes "2 ^ 64 - 0x1000 < unat req"
  shows "chunk_bytes r req = 0"
proof -
  have big: "0x1000 < unat req"
    using assms by simp
  then have "max req 1 = req"
    by (simp add: max_def word_le_nat_alt)
  moreover have "List.find (\<lambda>b. req \<le> b) BUCKETS = None"
    using big by (auto simp: find_None_iff BUCKETS_def word_le_nat_alt)
  ultimately show ?thesis
    using next_multiple_wraps[OF assms] by (cases r) (simp_all add: chunk_bytes_def bucket_def)
qed

text \<open>
  C39: a request of almost \<open>2 ^ 64\<close> bytes is not refused. The rounding of its size wraps around to zero, and with
  room for a redzone the ledger hands out a chunk of no bytes, with an address, for it.
\<close>

theorem huge_request_succeeds:
  assumes "ledger_ok sb vb h" "2 ^ 64 - 0x1000 < unat req"
    and "unat (region_cursor r h) + 0x1010 \<le> unat (region_end r h)"
  shows "\<exists>c h'. record_alloc r req cache api pos ip h = (Some c, h') \<and> c_req_size c = req \<and> c_size c = 0 \<and> unat (region_cursor r h) \<le> unat (c_addr c)
    \<and> (\<forall>a. \<not> chunk_contains c a)"
proof -
  define addr where "addr = next_multiple_of (region_cursor r h) 16"
  have a: "unat (region_cursor r h) \<le> unat addr" "unat addr < unat (region_cursor r h) + 16"
    using next_multiple_of_unat[of 16 "region_cursor r h"] assms(3) unat_u64_less[of "region_end r h"] by (simp_all add: addr_def)
  have "unat (addr + HEAP_REDZONE) = unat addr + unat HEAP_REDZONE"
    using a(2) assms(3) unat_u64_less[of "region_end r h"] by (intro unat_add64) (simp add: HEAP_REDZONE_def)
  then have "\<not> region_end r h < addr + chunk_bytes r req + HEAP_REDZONE"
    using a(2) assms(3) by (simp add: chunk_bytes_wraps[OF assms(2)] word_less_nat_alt HEAP_REDZONE_def)
  then show ?thesis
    using a(1) by (simp add: record_alloc_def addr_def[symmetric] chunk_bytes_wraps[OF assms(2)] Let_def chunk_contains_def not_less)
qed

theorem huge_request_succeeds_witness:
  "\<exists>c h'. record_alloc Slab 0xffffffffffffffff ''kmalloc'' ''kmalloc'' 0 0 (k_heap (kernel_env_new Linux)) = (Some c, h') \<and> c_size c = 0"
proof -
  have "unat (region_cursor Slab (k_heap (kernel_env_new Linux))) + 0x1010 \<le> unat (region_end Slab (k_heap (kernel_env_new Linux)))"
    by (simp add: kernel_env_new_def kernel_heap_new_def region_cursor_def region_end_def Let_def)
  then show ?thesis
    using huge_request_succeeds[OF fresh_ledger(1)[of Linux], of "0xffffffffffffffff" Slab "''kmalloc''" "''kmalloc''" 0 0] by fastforce
qed

subsection \<open>The kernel stack on Linux\<close>

text \<open>
  C40: on Windows and macOS the kernel stack lies outside of both allocation areas. On Linux it lies inside the area of
  \<open>vmalloc\<close>: the first request of one to 255 megabytes gets a chunk that contains the whole stack.
\<close>

theorem linux_vmalloc_covers_stack:
  assumes "0x120000 \<le> req" "req \<le> 0xffef000"
  shows "(os \<noteq> Linux \<longrightarrow> l_vmalloc_base (for_os os) + l_vmalloc_size (for_os os) \<le> l_stack_base (for_os os))
    \<and> (\<exists>c h'. record_alloc Vmalloc req cache api pos ip (k_heap (kernel_env_new Linux)) = (Some c, h')
         \<and> (\<forall>a. in_range (l_stack_base (for_os Linux)) (unat (l_stack_size (for_os Linux))) a \<longrightarrow> chunk_contains c a))"
proof -
  define h where "h = k_heap (kernel_env_new Linux)"
  have h: "region_cursor Vmalloc h = 0xffffc90000000000" "region_end Vmalloc h = 0xffffc90010000000"
    by (simp_all add: h_def kernel_env_new_def kernel_heap_new_def region_cursor_def region_end_def Let_def)
  define sz where "sz = chunk_bytes Vmalloc req"
  have r: "0x120000 \<le> unat req" "unat req \<le> 0xffef000"
    using assms by (simp_all add: word_le_nat_alt)
  have "max req 1 = req"
    using r(1) by (simp add: max_def word_le_nat_alt)
  then have sz: "unat req \<le> unat sz" "unat sz < unat req + 0x1000" "0x1000 dvd unat sz"
    using next_multiple_of_unat[of "0x1000" req] r(2) by (simp_all add: sz_def chunk_bytes_def)
  have "unat sz \<le> 0xffef000"
    using sz r(2) by (auto elim!: dvdE)
  then have fit: "unat (0xffffc90000000000 + sz) = 0xffffc90000000000 + unat sz"
    "unat (0xffffc90000000000 + sz + HEAP_REDZONE) = 0xffffc90000000000 + unat sz + 0x1000"
    by (simp_all add: unat_word_ariths HEAP_REDZONE_def)
  then have "\<not> region_end Vmalloc h < 0xffffc90000000000 + sz + HEAP_REDZONE"
    using \<open>unat sz \<le> 0xffef000\<close> by (simp add: h(2) word_less_nat_alt)
  moreover have "next_multiple_of (0xffffc90000000000 :: u64) 16 = 0xffffc90000000000"
    by (simp add: next_multiple_of_def)
  ultimately obtain c h' where c: "record_alloc Vmalloc req cache api pos ip h = (Some c, h')" "c_addr c = 0xffffc90000000000" "c_size c = sz"
    by (simp add: record_alloc_def h(1) sz_def Let_def)
  have "chunk_contains c a" if "in_range (l_stack_base (for_os Linux)) (unat (l_stack_size (for_os Linux))) a" for a
    using that fit(1) sz(1) r(1) by (simp add: in_range_def chunk_contains_def c(2,3) word_le_nat_alt word_less_nat_alt)
  then have "\<exists>c h'. record_alloc Vmalloc req cache api pos ip h = (Some c, h')
         \<and> (\<forall>a. in_range (l_stack_base (for_os Linux)) (unat (l_stack_size (for_os Linux))) a \<longrightarrow> chunk_contains c a)"
    using c(1) by blast
  moreover have "os \<noteq> Linux \<longrightarrow> l_vmalloc_base (for_os os) + l_vmalloc_size (for_os os) \<le> l_stack_base (for_os os)"
    by (cases os) simp_all
  ultimately show ?thesis
    unfolding h_def by blast
qed

theorem linux_vmalloc_covers_stack_witness:
  "\<exists>c h'. record_alloc Vmalloc 0x200000 ''vmalloc'' ''vmalloc'' 0 0 (k_heap (kernel_env_new Linux)) = (Some c, h')
     \<and> chunk_contains c 0xffffc90000100000"
proof -
  have "in_range (l_stack_base (for_os Linux)) (unat (l_stack_size (for_os Linux))) 0xffffc90000100000"
    by (simp add: in_range_def)
  then show ?thesis
    using linux_vmalloc_covers_stack[of "0x200000" Windows "''vmalloc''" "''vmalloc''" 0 0] by auto
qed

end
