(* ===== verification/Spec2Isabelle.thy ===== *)
theory Spec2Isabelle
  imports Flags_Arith Flags_Rotate Maps_Util_Proofs Heap_Resize Regs_X86_Proofs Locks Scheduler Processes Kernel_Gaps
begin

text \<open>
  A verification development for the core of the mwemu emulator, the crate \<^verbatim>\<open>crates/libmwemu\<close> under \<^verbatim>\<open>src/\<close>.
  Paths below are relative to \<^verbatim>\<open>crates/libmwemu/src\<close>.

  \<^bold>\<open>The program.\<close> mwemu runs guest code on emulated x86 and AArch64 processors. An instruction handler reads and
  writes registers (\<^verbatim>\<open>arch\<close>), computes status flags, and accesses guest memory through the manager of the
  address space (\<^verbatim>\<open>maps\<close>), which owns the mapped regions and finds them by a look-aside buffer and an ordered
  map. The heap functions of the guest take memory from an allocator with one bin for each power of two. The
  emulator (\<^verbatim>\<open>emu\<close>) holds these parts for every thread; the scheduler, the locks and the process table
  (\<^verbatim>\<open>threading\<close>) decide which thread runs. For kernel drivers an emulated kernel (\<^verbatim>\<open>kernel\<close>) hands out chunks,
  and a guard reports the accesses that misuse them.

  \<^bold>\<open>Conventions.\<close> Machine integers are words of their width, and arithmetic wraps around as in a build without
  overflow checks. Host memory does not run out: a vector of zeros can have any length (the source panics above
  \<open>2 ^ 63 - 1\<close> bytes). A Rust panic is the value \<open>Panic\<close> of the type \<open>outcome\<close>, a failure is \<open>None\<close> or the \<open>bool\<close> of
  the source. State is passed explicitly in records with the fields of the source. Third-party code and
  foreign code are arguments: \<open>vk\<close> is the choice of a vacant key by the slab container (hypothesis
  \<open>vacant_key\<close>), \<open>pick\<close> the iteration order of a hash map, \<open>decode_and_execute\<close> and \<open>advance_pc\<close> the execution of one
  instruction, \<open>gateway\<close> and \<open>kernel_call\<close> the handlers of imported kernel functions and the calls into a driver.

  \<^bold>\<open>Foundations.\<close>
  \<^item> \<open>Mwemu_Prelude\<close>: words, \<open>outcome\<close>, slices, generic lemmas. \<open>Word_Carry\<close>, \<open>Word_Casts\<close>: carries, borrows and
    casts between widths. \<open>Number_Format\<close>: the decimal and hexadecimal formats of the standard library.
  \<^item> \<open>Ordered_Map\<close>: the locale \<open>ordered_map\<close>, the contract of \<open>BTreeMap\<close>, and its interpretation on sorted
    association lists. \<open>Linked_List\<close>: doubly linked lists in a store.

  \<^bold>\<open>Processor state.\<close>
  \<^item> \<open>Flags\<close>, \<open>Flags_Arith\<close>, \<open>Flags_Shift\<close>, \<open>Flags_Rotate\<close> model \<^verbatim>\<open>arch/x86/flags.rs\<close>. The record \<open>flags\<close> has the lazily
    evaluated vectors of the source. Addition and subtraction give the flags of the processor manual (C8,
    C9), writing the lazy flags back is unobservable (C13), and the EFLAGS image is a round trip (C18).
  \<^item> \<open>Regs_X86\<close>, \<open>Regs_X86_Proofs\<close> model \<^verbatim>\<open>arch/x86/regs.rs\<close>: writes touch exactly the bits of a register (C23),
    access by name is access by register (C24), and the vector registers stay aliased under access by
    register (C25) but not by name (C26).
  \<^item> \<open>Regs_Aarch64\<close> models \<^verbatim>\<open>arch/aarch64/regs.rs\<close>: all sixteen condition codes after a comparison (C27).

  \<^bold>\<open>Guest memory.\<close>
  \<^item> \<open>Scalar\<close>, \<open>Tlb\<close>, \<open>Mem64\<close> model \<^verbatim>\<open>maps/scalar.rs\<close>, \<^verbatim>\<open>maps/tlb.rs\<close> and \<^verbatim>\<open>maps/mem64.rs\<close>; \<open>Maps\<close> and \<open>Maps_Alloc\<close> model
    \<^verbatim>\<open>maps/mod.rs\<close>; \<open>Maps_Util\<close> models \<^verbatim>\<open>maps/utilities.rs\<close> and \<^verbatim>\<open>maps/search.rs\<close>.
  \<^item> \<open>Maps_Inv\<close> states the invariant \<open>maps_wf\<close>, which ties the slab, the two indexes and the look-aside buffer
    together, and the abstraction \<open>flat\<close>, a partial function from addresses to bytes.
  \<^item> \<open>Maps_Access\<close>, \<open>Maps_Memory\<close>, \<open>Maps_Create\<close>, \<open>Maps_Unmap\<close>, \<open>Maps_Search\<close> and \<open>Maps_Util_Proofs\<close> show what the operations do
    to \<open>flat\<close>, on success and on failure: scalar accesses (C1, C7), lookup through a look-aside buffer with any
    contents (C6), creation (C10, C12), release (C3, C21), and the search for a free range, which is sound and finds a range when
    there is one (C22). Two defects
    are proved: overlapping regions (C19) and a lost tail (C20).

  \<^bold>\<open>Guest heap.\<close> \<open>Heap\<close> models \<^verbatim>\<open>maps/heap_allocation.rs\<close>; an \<open>Rc<RefCell<Fragment>>\<close> is an address in a store.
  \<^item> \<open>Heap_Bits\<close> gives the meaning of the bit tricks, \<open>Heap_Inv\<close> the invariant \<open>heap_inv\<close> and the abstraction
    \<open>heap_rep\<close> to the list of blocks in address order.
  \<^item> \<open>Heap_Alloc\<close> (C2), \<open>Heap_Free\<close> (C4), \<open>Heap_Resize\<close> (C14) are refinements of operations on the list of blocks.
    \<open>Heap_Runs\<close> covers every sequence of allocations and releases: live allocations are disjoint (C5) and
    released memory is available again (C11). \<open>Heap_Snapshot\<close> shows that a copy is faithful when its walk
    starts well (C15).
  \<^item> Defects: \<open>reallocate\<close> can overlap a used block (C17); in \<open>Heap_Stale\<close> a copy can lose the arena (C16).

  \<^bold>\<open>Emulator, threads and processes.\<close> \<open>Emu_State\<close> has the fields of \<open>Emu\<close> that the modelled operations use
  (\<^verbatim>\<open>emu/mod.rs\<close>, \<^verbatim>\<open>emu/registers.rs\<close>, \<^verbatim>\<open>threading/context.rs\<close>).
  \<^item> \<open>Emu_Stack\<close> (\<^verbatim>\<open>emu/stack.rs\<close>, \<open>try_grow_stack\<close> in \<^verbatim>\<open>emu/memory.rs\<close>): push and pop are inverse (C34).
  \<^item> \<open>Locks\<close> (\<^verbatim>\<open>threading/global_locks.rs\<close>, \<^verbatim>\<open>threading/crit_state.rs\<close>): mutual exclusion in every interleaving, and the
    owner and depth that a lock records (C28).
  \<^item> \<open>Scheduler\<close> (\<^verbatim>\<open>threading/scheduler.rs\<close>): the clock goes to the earliest time at which a thread
    can run and the choice there is round robin (C29), and it is fair (C30).
  \<^item> \<open>Processes\<close> (\<^verbatim>\<open>threading/process.rs\<close>): the parent continues as before the fork (C31), a child is reaped once
    (C32), and a fork can lose the heap (C33), by the defect of C16.

  \<^bold>\<open>Emulated kernel.\<close>
  \<^item> \<open>Kernel_Heap\<close>, \<open>Kernel_Ledger\<close> (\<^verbatim>\<open>kernel/layout.rs\<close>, \<^verbatim>\<open>kernel/heap.rs\<close>): the ledger of chunks and its invariant.
  \<^item> \<open>Kernel_Env\<close> (\<^verbatim>\<open>kernel/guard.rs\<close>, \<^verbatim>\<open>kernel/mod.rs\<close>): the environment, allocation, release and the guard.
  \<^item> \<open>Kernel_Start\<close>: both ways to switch the guard on, \<open>memory_guard_init\<close> and \<open>kernel_init\<close>, leave a fresh ledger and free
    areas, except that on Linux \<open>kernel_init\<close> puts the stack into the area of \<open>vmalloc\<close>.
  \<^item> \<open>Kernel_Guard\<close>: runs that allocate from the free areas, release, access, and do anything else that spares the areas
    and the chunks. Along them, while the ledger is in address order, the guard is exact for the first byte of an
    access (C35); allocation and release are right in any order (C36, C37).
  \<^item> \<open>Kernel_Gaps\<close>: three defects (C38, C39, C40).

  \<^bold>\<open>Loops and bounds.\<close> Most loops are structural recursions or have a termination proof: the scheduler ends
  because each jump of the clock wakes a thread, the binary search because its range shrinks. Three loops
  may run forever in the source and are partial functions with the value \<open>None\<close> for not returning. The search
  for an unused name returns when one of the numbered names is unused (\<open>find_name_returns\<close>); the two walks of a heap
  snapshot return under the
  hypotheses of C15. No fuel is used. The 64 rounds of \<open>kernel_run_deferred\<close> are the bound of the source. The runs
  of \<open>Kernel_Guard\<close> ask for less than \<open>0x4000000000\<close> bytes at a time, so that no address of an area wraps
  around (an area has \<open>0x10000000\<close> bytes, so larger requests could only succeed by wrapping around); C39 shows what happens close to \<open>2 ^ 64\<close>.

  \<^bold>\<open>Not modelled.\<close>
  \<^item> The instruction engines (\<^verbatim>\<open>engine\<close>), \<^verbatim>\<open>engine/logic.rs\<close> with its bitwise rotates and its multiplication and
    division included. They take operands from third-party decoders and are left to further work; what they
    share, the flags, the registers and the memory, is modelled.
  \<^item> Loaders (\<^verbatim>\<open>loaders\<close>), serialization and most of \<^verbatim>\<open>emu\<close>: file formats, third-party encoders, and the run loop
    around decoder, hooks and console.
  \<^item> Emulated libraries, system calls and kernel interfaces (\<^verbatim>\<open>api\<close>, \<^verbatim>\<open>windows\<close>, \<^verbatim>\<open>syscall\<close>, \<^verbatim>\<open>kernel/linux\<close>, \<^verbatim>\<open>kernel/windows\<close>,
    \<^verbatim>\<open>kernel/macos\<close>): handlers of foreign functions, parameters where modelled code calls them.
  \<^item> Exceptions, hooks, configuration, debugger and helpers (\<^verbatim>\<open>exception\<close>, \<^verbatim>\<open>hooks.rs\<close>, \<^verbatim>\<open>config.rs\<close>, \<^verbatim>\<open>debug\<close>, \<^verbatim>\<open>utils\<close>), and the
    other crates, which wrap the library.
  \<^item> In modelled files: printing, logging, textual differences, wide strings, file access, random initialisation.
\<close>

end
